(* ===== verification/Pg_Prelude.thy ===== *)
theory Pg_Prelude
  imports Main "HOL-Library.Word" "HOL-Library.Multiset"
begin

text \<open>
  Shared material of the development: the machine types of the C sources
  (\<^verbatim>\<open>src/src/include/c.h\<close>), the theorem collections the component theories
  extend, and generic facts on lists, finite sets and words.
\<close>

section \<open>Machine types\<close>

text \<open>\<^verbatim>\<open>DistributedTransactionId\<close> is \<^verbatim>\<open>uint64\<close>, \<^verbatim>\<open>TransactionId\<close> is \<^verbatim>\<open>uint32\<close>.\<close>

type_synonym uint8 = "8 word"
type_synonym uint16 = "16 word"
type_synonym uint32 = "32 word"
type_synonym uint64 = "64 word"
type_synonym DistributedTransactionId = uint64
type_synonym TransactionId = uint32

section \<open>Theorem collections\<close>

named_theorems frame_simps \<open>what an operation leaves unchanged\<close>
named_theorems wf_intros \<open>preservation of well-formedness\<close>
named_theorems heap_simps \<open>reading a store after a write\<close>

section \<open>Lists\<close>

lemma distinct_map_fst_unique:
  "distinct (map fst xs) \<Longrightarrow> (k, a) \<in> set xs \<Longrightarrow> (k, b) \<in> set xs \<Longrightarrow> a = b"
  by (metis map_of_is_SomeI option.inject)

lemma distinct_map_snd_unique:
  "distinct (map snd xs) \<Longrightarrow> (a, p) \<in> set xs \<Longrightarrow> (b, p) \<in> set xs \<Longrightarrow> a = b"
  by (induction xs) (auto simp: image_iff)

lemma nth_update_same [heap_simps]: "i < length xs \<Longrightarrow> xs[i := x] ! i = x"
  by simp

lemma nth_update_other [heap_simps]: "i \<noteq> j \<Longrightarrow> xs[i := x] ! j = xs ! j"
  by simp

lemma remove1_middle: "x \<notin> set xs \<Longrightarrow> remove1 x (xs @ x # ys) = xs @ ys"
  by (simp add: remove1_append)

text \<open>Deleting a position by moving the last element into it.\<close>

lemma swap_delete_append:
  assumes "pos < length xs"
  shows "butlast (xs[pos := last xs]) =
    take pos xs @ (if Suc pos = length xs then [] else last xs # butlast (drop (Suc pos) xs))"
proof (cases "Suc pos = length xs")
  case True
  then have "length xs - Suc 0 = pos" by simp
  with True show ?thesis
    by (simp add: butlast_list_update butlast_conv_take take_update_cancel)
next
  case False
  with assms have "drop (Suc pos) xs \<noteq> []" by simp
  with assms False show ?thesis
    by (simp add: upd_conv_take_nth_drop butlast_append)
qed

lemma mset_swap_delete:
  assumes "pos < length xs"
  shows "mset (butlast (xs[pos := last xs])) = mset xs - {#xs ! pos#}"
proof -
  have split: "mset xs = mset (take pos xs) + add_mset (xs ! pos) (mset (drop (Suc pos) xs))"
    using assms by (metis id_take_nth_drop mset.simps(2) mset_append)
  have "mset (drop (Suc pos) xs) =
      (if Suc pos = length xs then {#} else add_mset (last xs) (mset (butlast (drop (Suc pos) xs))))"
  proof (cases "Suc pos = length xs")
    case False
    with assms have ne: "drop (Suc pos) xs \<noteq> []" by simp
    then have "last xs = last (drop (Suc pos) xs)" by (simp add: last_drop)
    with ne False show ?thesis
      by (metis add_mset_add_single append_butlast_last_id mset.simps mset_append)
  qed simp
  with split swap_delete_append [OF assms] show ?thesis by auto
qed

lemma set_drop_swap_delete:
  assumes "pos < length xs"
  shows "set (drop pos xs) = insert (xs ! pos) (set (drop pos (butlast (xs[pos := last xs]))))"
proof -
  let ?ys = "butlast (xs[pos := last xs])"
  have "mset (take pos xs) + mset (drop pos xs) = mset xs"
    by (metis append_take_drop_id mset_append)
  also have "\<dots> = add_mset (xs ! pos) (mset ?ys)"
    using assms by (simp add: mset_swap_delete)
  also have "mset ?ys = mset (take pos ?ys) + mset (drop pos ?ys)"
    by (metis append_take_drop_id mset_append)
  also have "take pos ?ys = take pos xs" using assms by (simp add: swap_delete_append)
  finally have "mset (drop pos xs) = add_mset (xs ! pos) (mset (drop pos ?ys))" by simp
  then show ?thesis by (metis set_mset_add_mset_insert set_mset_mset)
qed

lemma distinct_map_swap_delete:
  assumes "pos < length xs" "distinct (map f xs)"
  shows "distinct (map f (butlast (xs[pos := last xs])))"
    and "f (xs ! pos) \<notin> f ` set (butlast (xs[pos := last xs]))"
    and "set (butlast (xs[pos := last xs])) = set xs - {xs ! pos}"
proof -
  let ?ys = "butlast (xs[pos := last xs])"
  have eq: "mset xs = add_mset (xs ! pos) (mset ?ys)" using assms by (simp add: mset_swap_delete)
  then have "mset (map f xs) = mset (map f (xs ! pos # ?ys))" by simp
  then have "distinct (map f (xs ! pos # ?ys))" using assms(2) by (metis mset_eq_imp_distinct_iff)
  then show "distinct (map f ?ys)" "f (xs ! pos) \<notin> f ` set ?ys" by auto
  moreover from eq have "set xs = insert (xs ! pos) (set ?ys)"
    by (metis set_mset_add_mset_insert set_mset_mset)
  ultimately show "set ?ys = set xs - {xs ! pos}" by auto
qed

section \<open>Finite sets\<close>

lemma card_filter_remove:
  assumes "finite S" "e \<in> S"
  shows "int (card {x \<in> S. x \<noteq> e \<and> P x}) = int (card {x \<in> S. P x}) - (if P e then 1 else 0)"
proof (cases "P e")
  case True
  have "{x \<in> S. x \<noteq> e \<and> P x} = {x \<in> S. P x} - {e}" by auto
  moreover have "card {x \<in> S. P x} > 0" using assms True by (auto simp: card_gt_0_iff)
  ultimately show ?thesis using assms True by (simp add: card_Diff_singleton)
next
  case False
  then have "{x \<in> S. x \<noteq> e \<and> P x} = {x \<in> S. P x}" by auto
  with False show ?thesis by simp
qed

lemma card_filter_insert:
  assumes "finite S" "e \<notin> S"
  shows "int (card {x \<in> insert e S. P x}) = int (card {x \<in> S. P x}) + (if P e then 1 else 0)"
proof -
  have "{x \<in> insert e S. P x} = (if P e then insert e {x \<in> S. P x} else {x \<in> S. P x})" by auto
  with assms show ?thesis by simp
qed

section \<open>A 64-bit id through a C \<^verbatim>\<open>int\<close>\<close>

lemma sint_ucast_64_32: "sint (ucast (m :: 64 word) :: 32 word) = signed_take_bit 31 (uint m)"
  by transfer (simp add: signed_take_bit_take_bit)

lemma int_roundtrip:
  assumes "m < (2 ^ 31 :: 64 word)"
  shows "(signed (ucast m :: 32 word) :: 64 word) = m"
proof -
  have "uint m < 2 ^ 31" using assms by (simp add: word_less_def)
  then have "signed_take_bit 31 (uint m) = uint m" by (intro signed_take_bit_int_eq_self) (auto intro: order_trans [of _ 0])
  then show ?thesis by (simp add: scast_eq sint_ucast_64_32)
qed

lemma int_overflow:
  assumes "(2 ^ 31 :: 64 word) \<le> m" "m < 2 ^ 32"
  shows "m < (signed (ucast m :: 32 word) :: 64 word)"
proof -
  have b: "2 ^ 31 \<le> uint m" "uint m < 2 ^ 32" using assms by (simp_all add: word_less_def word_le_def)
  then have "signed_take_bit 31 (uint m) = uint m - 2 ^ 32"
    unfolding signed_take_bit_eq_take_bit_shift take_bit_eq_mod
    by (simp add: mod_pos_geq mod_pos_pos_trivial)
  then have "(signed (ucast m :: 32 word) :: 64 word) = word_of_int (uint m - 2 ^ 32)"
    by (simp add: scast_eq sint_ucast_64_32)
  moreover have "uint (word_of_int (uint m - 2 ^ 32) :: 64 word) = uint m - 2 ^ 32 + 2 ^ 64"
  proof -
    have "(uint m - 2 ^ 32) mod 2 ^ 64 = (uint m - 2 ^ 32 + 2 ^ 64) mod 2 ^ 64"
      by (rule mod_add_self2 [symmetric])
    also have "\<dots> = uint m - 2 ^ 32 + 2 ^ 64" using b by (intro mod_pos_pos_trivial) auto
    finally show ?thesis by (subst uint_word_of_int) simp
  qed
  ultimately show ?thesis by (simp add: word_less_def)
qed

section \<open>Computations that may raise an error\<close>

text \<open>
  The result of code that may raise: \<open>Inl\<close> the error, \<open>Inr\<close> the value. \<open>rbind\<close> runs the rest of
  the code unless an error was raised, \<open>map_index_r\<close> is a loop over an array whose body may raise.
\<close>

definition rbind :: "'e + 'a \<Rightarrow> ('a \<Rightarrow> 'e + 'b) \<Rightarrow> 'e + 'b" where
  "rbind r f = (case r of Inl e \<Rightarrow> Inl e | Inr x \<Rightarrow> f x)"

lemma rbind_simps [simp]: "rbind (Inl e) f = Inl e" "rbind (Inr x) f = f x"
  by (simp_all add: rbind_def)

lemma rbind_Inr_iff: "rbind r f = Inr y \<longleftrightarrow> (\<exists>x. r = Inr x \<and> f x = Inr y)"
  by (cases r) simp_all

lemma rbind_Inl_iff: "rbind r f = Inl e \<longleftrightarrow> r = Inl e \<or> (\<exists>x. r = Inr x \<and> f x = Inl e)"
  by (cases r) simp_all

lemma rbind_assoc: "rbind (rbind r f) g = rbind r (\<lambda>x. rbind (f x) g)"
  by (cases r) simp_all

lemma rbind_return [simp]: "rbind r Inr = r"
  by (cases r) simp_all

lemma rbind_cong [fundef_cong]: "r = r' \<Longrightarrow> (\<And>x. r' = Inr x \<Longrightarrow> f x = g x) \<Longrightarrow> rbind r f = rbind r' g"
  by (cases r') simp_all

primrec map_index_r :: "(nat \<Rightarrow> 'a \<Rightarrow> 'e + 'b) \<Rightarrow> nat \<Rightarrow> 'a list \<Rightarrow> 'e + 'b list" where
  "map_index_r f i [] = Inr []"
| "map_index_r f i (x # xs) = rbind (f i x) (\<lambda>y. rbind (map_index_r f (Suc i) xs) (\<lambda>ys. Inr (y # ys)))"

lemma map_index_r_Inr:
  "map_index_r f i xs = Inr ys \<longleftrightarrow> length ys = length xs \<and> (\<forall>j < length xs. f (i + j) (xs ! j) = Inr (ys ! j))"
proof (induction xs arbitrary: i ys)
  case (Cons x xs)
  show ?case
    by (cases ys) (auto simp: rbind_Inr_iff Cons.IH All_less_Suc2)
qed auto

lemma map_index_r_Inl:
  "map_index_r f i xs = Inl e \<Longrightarrow> \<exists>j < length xs. f (i + j) (xs ! j) = Inl e"
proof (induction xs arbitrary: i)
  case (Cons x xs)
  then consider "f i x = Inl e" | "map_index_r f (Suc i) xs = Inl e" by (auto simp: rbind_Inl_iff)
  then show ?case
  proof cases
    case 2
    from Cons.IH [OF this] obtain j where "j < length xs" "f (Suc i + j) (xs ! j) = Inl e" by blast
    then show ?thesis by (intro exI [of _ "Suc j"]) simp
  qed auto
qed simp

end
