(* ===== verification/Gdd_Spec.thy ===== *)
theory Gdd_Spec
  imports Pg_Prelude
begin

text \<open>
  The abstract specification of the global deadlock detector: what the reduction rules of
  \<^verbatim>\<open>src/src/backend/utils/gdd/README.md\<close> compute, on a plain set of wait-for edges and
  with no data structure. \<open>deletion_system\<close> is the interface: a rule that says when an
  element may be deleted and that never stops applying when other elements go away. Every
  maximal run of such a rule ends in the same set, the largest set the rule cannot touch.
\<close>

section \<open>Deletion systems\<close>

definition stable :: "('e set \<Rightarrow> 'e \<Rightarrow> bool) \<Rightarrow> 'e set \<Rightarrow> bool" where
  "stable bad S \<longleftrightarrow> (\<forall>e\<in>S. \<not> bad S e)"

definition core_of :: "('e set \<Rightarrow> 'e \<Rightarrow> bool) \<Rightarrow> 'e set \<Rightarrow> 'e set" where
  "core_of bad S = \<Union>{C. C \<subseteq> S \<and> stable bad C}"

inductive reduces :: "('e set \<Rightarrow> 'e \<Rightarrow> bool) \<Rightarrow> 'e set \<Rightarrow> 'e set \<Rightarrow> bool" for bad where
  reduces_refl: "reduces bad S S"
| reduces_step: "e \<in> S \<Longrightarrow> bad S e \<Longrightarrow> reduces bad (S - {e}) T \<Longrightarrow> reduces bad S T"

lemma core_of_subset: "core_of bad S \<subseteq> S"
  by (auto simp: core_of_def)

lemma core_of_greatest: "C \<subseteq> S \<Longrightarrow> stable bad C \<Longrightarrow> C \<subseteq> core_of bad S"
  by (auto simp: core_of_def)

lemma stable_core_self: "stable bad S \<Longrightarrow> core_of bad S = S"
  by (auto simp: core_of_def)

lemma reduces_subset: "reduces bad S T \<Longrightarrow> T \<subseteq> S"
  by (induction rule: reduces.induct) auto

lemma reduces_trans: "reduces bad S T \<Longrightarrow> reduces bad T U \<Longrightarrow> reduces bad S U"
  by (induction rule: reduces.induct) (auto intro: reduces_step)

locale deletion_system =
  fixes bad :: "'e set \<Rightarrow> 'e \<Rightarrow> bool"
  assumes bad_antimono: "S \<subseteq> T \<Longrightarrow> e \<in> S \<Longrightarrow> bad T e \<Longrightarrow> bad S e"
begin

lemma stable_core: "stable bad (core_of bad S)"
proof -
  have "\<not> bad (core_of bad S) e" if "e \<in> C" "C \<subseteq> S" "stable bad C" for e C
    using that core_of_greatest [of C S bad] bad_antimono [of C "core_of bad S" e]
    by (auto simp: stable_def)
  then show ?thesis by (auto simp: stable_def core_of_def)
qed

lemma core_mono: "S \<subseteq> T \<Longrightarrow> core_of bad S \<subseteq> core_of bad T"
  by (auto simp: core_of_def)

lemma core_remove_bad:
  assumes "e \<in> S" "bad S e"
  shows "core_of bad (S - {e}) = core_of bad S"
proof
  show "core_of bad (S - {e}) \<subseteq> core_of bad S" by (rule core_mono) blast
  have "e \<notin> core_of bad S"
    using assms stable_core [of S] core_of_subset [of bad S] bad_antimono [of "core_of bad S" S e]
    by (auto simp: stable_def)
  then have "core_of bad S \<subseteq> S - {e}" using core_of_subset [of bad S] by blast
  then show "core_of bad S \<subseteq> core_of bad (S - {e})"
    by (rule core_of_greatest) (rule stable_core)
qed

lemma reduces_remove_set:
  assumes "finite R" "\<And>e. e \<in> R \<Longrightarrow> e \<in> S \<Longrightarrow> bad S e"
  shows "reduces bad S (S - R)"
  using assms
proof (induction R)
  case empty
  then show ?case by (simp add: reduces_refl)
next
  case (insert e R)
  have IH: "reduces bad S (S - R)" using insert by blast
  show ?case
  proof (cases "e \<in> S - R")
    case True
    then have "bad (S - R) e" using insert.prems [of e] bad_antimono [of "S - R" S e] by blast
    then have "reduces bad (S - R) (S - R - {e})"
      using True by (blast intro: reduces_step reduces_refl)
    with IH have "reduces bad S (S - R - {e})" by (rule reduces_trans)
    moreover have "S - R - {e} = S - insert e R" by blast
    ultimately show ?thesis by simp
  next
    case False
    then have "S - insert e R = S - R" by blast
    with IH show ?thesis by simp
  qed
qed

lemma reduces_core: "reduces bad S T \<Longrightarrow> core_of bad T = core_of bad S"
  by (induction rule: reduces.induct) (auto simp: core_remove_bad)

lemma reduces_normal_form: "reduces bad S T \<Longrightarrow> stable bad T \<Longrightarrow> T = core_of bad S"
  using reduces_core [of S T] stable_core_self [of bad T] by simp

end

section \<open>Wait-for edges and the three reduction rules\<close>

text \<open>
  An edge: the waiter waits for the holder on one segment. \<open>we_id\<close> keeps parallel edges
  apart; a solid edge lasts until the holder's transaction ends, a dotted one may go away
  earlier.
\<close>

record wait_edge =
  we_id :: nat
  we_seg :: uint64
  we_waiter :: DistributedTransactionId
  we_holder :: DistributedTransactionId
  we_solid :: bool

text \<open>
  Rule 2 (the waiter has no in edge anywhere), rule 1 (the holder has no out edge anywhere)
  and rule 3 (the edge is dotted and the holder has no out edge on this segment).
\<close>

definition gdd_bad :: "wait_edge set \<Rightarrow> wait_edge \<Rightarrow> bool" where
  "gdd_bad S e \<longleftrightarrow>
     (\<forall>f\<in>S. we_holder f \<noteq> we_waiter e) \<or>
     (\<forall>f\<in>S. we_waiter f \<noteq> we_holder e) \<or>
     (\<not> we_solid e \<and> (\<forall>f\<in>S. we_seg f = we_seg e \<longrightarrow> we_waiter f \<noteq> we_holder e))"

interpretation gdd_rules: deletion_system gdd_bad
  by unfold_locales (auto simp: gdd_bad_def)

abbreviation gdd_core :: "wait_edge set \<Rightarrow> wait_edge set" where
  "gdd_core \<equiv> core_of gdd_bad"

definition waits_for :: "wait_edge set \<Rightarrow> (DistributedTransactionId \<times> DistributedTransactionId) set" where
  "waits_for S = (\<lambda>e. (we_waiter e, we_holder e)) ` S"

text \<open>No false alarm: what survives contains a cycle of waiting transactions.\<close>

lemma gdd_core_cyclic:
  assumes "finite S" "gdd_core S \<noteq> {}"
  shows "\<not> acyclic (waits_for (gdd_core S))"
proof
  let ?C = "gdd_core S" and ?R = "waits_for (gdd_core S)"
  assume "acyclic ?R"
  moreover have "finite ?R"
    using assms(1) core_of_subset [of gdd_bad S] finite_subset by (auto simp: waits_for_def)
  ultimately have wf: "wf (?R\<inverse>)" by (simp add: finite_acyclic_wf_converse)
  from assms(2) obtain e where "e \<in> ?C" by blast
  then have "we_holder e \<in> we_holder ` ?C" by blast
  from wfE_min [OF wf this] obtain x where
    x: "x \<in> we_holder ` ?C" "\<And>y. (x, y) \<in> ?R \<Longrightarrow> y \<notin> we_holder ` ?C"
    by (metis converse_iff)
  then obtain f where f: "f \<in> ?C" "x = we_holder f" by blast
  then have "\<not> gdd_bad ?C f" using gdd_rules.stable_core [of S] by (simp add: stable_def)
  then obtain g where "g \<in> ?C" "we_waiter g = we_holder f" by (auto simp: gdd_bad_def)
  then show False using x(2) [of "we_holder g"] f(2) by (force simp: waits_for_def)
qed

lemma gdd_core_acyclic_empty:
  assumes "finite S" "acyclic (waits_for S)"
  shows "gdd_core S = {}"
proof (rule ccontr)
  assume "gdd_core S \<noteq> {}"
  moreover have "waits_for (gdd_core S) \<subseteq> waits_for S"
    using core_of_subset [of gdd_bad S] by (auto simp: waits_for_def)
  ultimately show False
    using assms gdd_core_cyclic acyclic_subset by blast
qed

text \<open>
  No missed deadlock: a cycle of edges that cannot dissolve survives. Every dotted edge of
  the cycle is followed by an edge on the same segment, so its holder is stuck there.
\<close>

definition firm_cycle :: "wait_edge list \<Rightarrow> bool" where
  "firm_cycle es \<longleftrightarrow> es \<noteq> [] \<and>
     (\<forall>i < length es.
        we_holder (es ! i) = we_waiter (es ! (Suc i mod length es)) \<and>
        (we_solid (es ! i) \<or> we_seg (es ! i) = we_seg (es ! (Suc i mod length es))))"

lemma firm_cycle_stable:
  assumes "firm_cycle es"
  shows "stable gdd_bad (set es)"
proof -
  have "\<not> gdd_bad (set es) (es ! i)" if i: "i < length es" for i
  proof -
    let ?n = "length es" and ?j = "(i + (length es - 1)) mod length es"
    have n: "?n > 0" using i by linarith
    have nxt: "Suc i mod ?n < ?n" and prv: "?j < ?n" using n by simp_all
    have "Suc ?j mod ?n = (Suc i + (?n - 1)) mod ?n" by (simp add: mod_Suc_eq)
    also have "\<dots> = (i + ?n) mod ?n" using n by (intro arg_cong2 [where f = "(mod)"]) auto
    finally have "Suc ?j mod ?n = i" using i by simp
    then have "we_holder (es ! ?j) = we_waiter (es ! i)"
      using assms prv by (metis firm_cycle_def)
    moreover have "es ! ?j \<in> set es" "es ! (Suc i mod ?n) \<in> set es" using prv nxt by auto
    moreover have "we_waiter (es ! (Suc i mod ?n)) = we_holder (es ! i)"
      and "we_solid (es ! i) \<or> we_seg (es ! (Suc i mod ?n)) = we_seg (es ! i)"
      using assms i by (auto simp: firm_cycle_def)
    ultimately show ?thesis by (auto simp: gdd_bad_def)
  qed
  then show ?thesis by (auto simp: stable_def in_set_conv_nth)
qed

lemma firm_cycle_in_core: "firm_cycle es \<Longrightarrow> set es \<subseteq> S \<Longrightarrow> set es \<subseteq> gdd_core S"
  by (rule core_of_greatest) (auto intro: firm_cycle_stable)

end
