(* ===== verification/Gdd_Detector.thy ===== *)
theory Gdd_Detector
  imports Gdd_Spec
begin

text \<open>
  The global deadlock detector, \<^verbatim>\<open>src/src/backend/utils/gdd/gdddetector.c\<close>, with the
  structs and iteration macros of \<^verbatim>\<open>gdddetectorpriv.h\<close>.

  The C code links heap objects by pointers: an edge is in the \<open>edgesOut\<close> list of its
  \<open>from\<close> vertex and in the \<open>edgesIn\<close> list of its \<open>to\<close> vertex, and all vertices of one
  transaction share one statistics object. The model keeps that sharing: a pointer is a
  number, the context holds one store per struct and a counter from which \<^verbatim>\<open>palloc\<close>
  takes the next address. The pointer \<^verbatim>\<open>vert->topstat\<close>, which always is the address of
  the context's own \<open>topstat\<close>, is left implicit, and so are the \<^verbatim>\<open>data\<close> pointers, which
  the detector never touches.
\<close>

section \<open>Structs\<close>

record GddStat =
  stat_id :: DistributedTransactionId
  indeg :: int
  outdeg :: int

text \<open>The first \<^verbatim>\<open>length\<close> entries of the C array are the list; the rest is never read.\<close>

record GddMap =
  map_capacity :: int
  map_pairs :: "(uint64 \<times> nat) list"

record GddEdge =
  edge_solid :: bool
  edge_from :: nat
  edge_to :: nat

record GddVert =
  vert_id :: DistributedTransactionId
  vert_global :: nat
  edgesIn :: "nat list"
  edgesOut :: "nat list"

record GddGraph =
  graph_id :: "32 word"
  graph_verts :: GddMap

record GddCtx =
  topstat :: GddStat
  globals :: GddMap
  graphs :: GddMap
  h_stat :: "nat \<Rightarrow> GddStat"
  h_graph :: "nat \<Rightarrow> GddGraph"
  h_vert :: "nat \<Rightarrow> GddVert"
  h_edge :: "nat \<Rightarrow> GddEdge"
  h_next :: nat

definition upd_stat :: "nat \<Rightarrow> (GddStat \<Rightarrow> GddStat) \<Rightarrow> GddCtx \<Rightarrow> GddCtx" where
  "upd_stat p f s = s\<lparr>h_stat := (h_stat s)(p := f (h_stat s p))\<rparr>"

definition upd_graph :: "nat \<Rightarrow> (GddGraph \<Rightarrow> GddGraph) \<Rightarrow> GddCtx \<Rightarrow> GddCtx" where
  "upd_graph p f s = s\<lparr>h_graph := (h_graph s)(p := f (h_graph s p))\<rparr>"

definition upd_vert :: "nat \<Rightarrow> (GddVert \<Rightarrow> GddVert) \<Rightarrow> GddCtx \<Rightarrow> GddCtx" where
  "upd_vert p f s = s\<lparr>h_vert := (h_vert s)(p := f (h_vert s p))\<rparr>"

section \<open>Maps\<close>

definition gddMapInit :: GddMap where
  "gddMapInit = \<lparr>map_capacity = 4, map_pairs = []\<rparr>"

definition gddMapEnsureCapacity :: "GddMap \<Rightarrow> int \<Rightarrow> GddMap" where
  "gddMapEnsureCapacity m capacity =
     (if capacity \<le> map_capacity m then m else m\<lparr>map_capacity := capacity * 2\<rparr>)"

definition gddMapGetPair :: "GddMap \<Rightarrow> uint64 \<Rightarrow> (uint64 \<times> nat) option" where
  "gddMapGetPair m key = List.find (\<lambda>pair. fst pair = key) (map_pairs m)"

definition gddMapGet :: "GddMap \<Rightarrow> uint64 \<Rightarrow> nat option" where
  "gddMapGet m key = (case gddMapGetPair m key of Some pair \<Rightarrow> Some (snd pair) | None \<Rightarrow> None)"

definition gddMapSetUnsafe :: "GddMap \<Rightarrow> uint64 \<Rightarrow> nat \<Rightarrow> GddMap" where
  "gddMapSetUnsafe m key ptr =
     (let m = gddMapEnsureCapacity m (int (length (map_pairs m)) + 1)
      in m\<lparr>map_pairs := map_pairs m @ [(key, ptr)]\<rparr>)"

text \<open>\<^verbatim>\<open>gdd_map_iter_delete\<close>: the last pair moves into the freed slot.\<close>

definition gdd_map_iter_delete :: "GddMap \<Rightarrow> nat \<Rightarrow> GddMap" where
  "gdd_map_iter_delete m pos =
     m\<lparr>map_pairs := butlast ((map_pairs m)[pos := last (map_pairs m)])\<rparr>"

section \<open>Constructors\<close>

definition gddStatInit :: "DistributedTransactionId \<Rightarrow> GddStat" where
  "gddStatInit vid = \<lparr>stat_id = vid, indeg = 0, outdeg = 0\<rparr>"

definition gddStatNew :: "DistributedTransactionId \<Rightarrow> GddCtx \<Rightarrow> nat \<times> GddCtx" where
  "gddStatNew vid s = (h_next s,
     s\<lparr>h_stat := (h_stat s)(h_next s := gddStatInit vid), h_next := h_next s + 1\<rparr>)"

definition gddGraphNew :: "32 word \<Rightarrow> GddCtx \<Rightarrow> nat \<times> GddCtx" where
  "gddGraphNew i s = (h_next s,
     s\<lparr>h_graph := (h_graph s)(h_next s := \<lparr>graph_id = i, graph_verts = gddMapInit\<rparr>),
       h_next := h_next s + 1\<rparr>)"

text \<open>\<^verbatim>\<open>gddVertNew\<close> leaves \<^verbatim>\<open>vert->global\<close> unset; it is bound before it is read.\<close>

definition gddVertNew :: "DistributedTransactionId \<Rightarrow> GddCtx \<Rightarrow> nat \<times> GddCtx" where
  "gddVertNew i s = (h_next s,
     s\<lparr>h_vert := (h_vert s)(h_next s :=
          \<lparr>vert_id = i, vert_global = 0, edgesIn = [], edgesOut = []\<rparr>),
       h_next := h_next s + 1\<rparr>)"

definition gddEdgeNew :: "nat \<Rightarrow> nat \<Rightarrow> bool \<Rightarrow> GddCtx \<Rightarrow> nat \<times> GddCtx" where
  "gddEdgeNew from to sld s = (h_next s,
     s\<lparr>h_edge := (h_edge s)(h_next s :=
          \<lparr>edge_solid = sld, edge_from = from, edge_to = to\<rparr>),
       h_next := h_next s + 1\<rparr>)"

definition GddCtxNew :: GddCtx where
  "GddCtxNew = \<lparr>topstat = gddStatInit 0, globals = gddMapInit, graphs = gddMapInit,
     h_stat = (\<lambda>_. gddStatInit 0),
     h_graph = (\<lambda>_. \<lparr>graph_id = 0, graph_verts = gddMapInit\<rparr>),
     h_vert = (\<lambda>_. \<lparr>vert_id = 0, vert_global = 0, edgesIn = [], edgesOut = []\<rparr>),
     h_edge = (\<lambda>_. \<lparr>edge_solid = False, edge_from = 0, edge_to = 0\<rparr>),
     h_next = 0\<rparr>"

section \<open>Lookup with creation\<close>

text \<open>The segment id, an \<^verbatim>\<open>int\<close>, is converted to the map's 64-bit key by sign extension.\<close>

definition seg_key :: "32 word \<Rightarrow> uint64" where
  "seg_key segid = signed segid"

definition gddCtxGetGraph :: "GddCtx \<Rightarrow> 32 word \<Rightarrow> nat \<times> GddCtx" where
  "gddCtxGetGraph s segid =
     (case gddMapGet (graphs s) (seg_key segid) of
        Some g \<Rightarrow> (g, s)
      | None \<Rightarrow>
          let (g, s) = gddGraphNew segid s
          in (g, s\<lparr>graphs := gddMapSetUnsafe (graphs s) (seg_key segid) g\<rparr>))"

definition gddCtxGetGlobalStat :: "GddCtx \<Rightarrow> DistributedTransactionId \<Rightarrow> nat \<times> GddCtx" where
  "gddCtxGetGlobalStat s vid =
     (case gddMapGet (globals s) vid of
        Some p \<Rightarrow> (p, s)
      | None \<Rightarrow>
          let (p, s) = gddStatNew vid s
          in (p, s\<lparr>globals := gddMapSetUnsafe (globals s) vid p\<rparr>))"

definition gddGraphGetVert :: "GddCtx \<Rightarrow> nat \<Rightarrow> DistributedTransactionId \<Rightarrow> nat \<times> GddCtx" where
  "gddGraphGetVert s g vid =
     (case gddMapGet (graph_verts (h_graph s g)) vid of
        Some v \<Rightarrow> (v, s)
      | None \<Rightarrow>
          let (v, s) = gddVertNew vid s
          in (v, upd_graph g (\<lambda>gr. gr\<lparr>graph_verts := gddMapSetUnsafe (graph_verts gr) vid v\<rparr>) s))"

definition gddGraphMakeEdge ::
  "GddCtx \<Rightarrow> nat \<Rightarrow> DistributedTransactionId \<Rightarrow> DistributedTransactionId \<Rightarrow> bool \<Rightarrow> nat \<times> GddCtx" where
  "gddGraphMakeEdge s g from to sld =
     (let (vfrom, s) = gddGraphGetVert s g from;
          (vto, s) = gddGraphGetVert s g to
      in gddEdgeNew vfrom vto sld s)"

definition gddVertBindStats :: "nat \<Rightarrow> nat \<Rightarrow> GddCtx \<Rightarrow> GddCtx" where
  "gddVertBindStats v global = upd_vert v (\<lambda>vt. vt\<lparr>vert_global := global\<rparr>)"

definition gddVertGetInDegree :: "GddCtx \<Rightarrow> nat \<Rightarrow> nat" where
  "gddVertGetInDegree s v = length (edgesIn (h_vert s v))"

definition gddVertGetOutDegree :: "GddCtx \<Rightarrow> nat \<Rightarrow> nat" where
  "gddVertGetOutDegree s v = length (edgesOut (h_vert s v))"

section \<open>Linking and unlinking edges\<close>

definition gddEdgeLink :: "nat \<Rightarrow> GddCtx \<Rightarrow> GddCtx" where
  "gddEdgeLink e s =
     (let from = edge_from (h_edge s e); to = edge_to (h_edge s e);
          s = s\<lparr>topstat := (topstat s)\<lparr>outdeg := outdeg (topstat s) + 1\<rparr>\<rparr>;
          s = s\<lparr>topstat := (topstat s)\<lparr>indeg := indeg (topstat s) + 1\<rparr>\<rparr>;
          s = upd_stat (vert_global (h_vert s from)) (\<lambda>g. g\<lparr>outdeg := outdeg g + 1\<rparr>) s;
          s = upd_stat (vert_global (h_vert s to)) (\<lambda>g. g\<lparr>indeg := indeg g + 1\<rparr>) s;
          s = upd_vert from (\<lambda>v. v\<lparr>edgesOut := edgesOut v @ [e]\<rparr>) s;
          s = upd_vert to (\<lambda>v. v\<lparr>edgesIn := edgesIn v @ [e]\<rparr>) s
      in s)"

text \<open>
  The iterator argument, when there is one, is the iterated list after
  \<^verbatim>\<open>gdd_list_iter_delete\<close>; without it the edge is searched, \<^verbatim>\<open>list_delete_ptr\<close> being
  the removal of the first equal pointer.
\<close>

definition gddEdgeUnlinkFrom :: "nat \<Rightarrow> nat list option \<Rightarrow> GddCtx \<Rightarrow> GddCtx" where
  "gddEdgeUnlinkFrom e fromiter s =
     (let from = edge_from (h_edge s e);
          s = s\<lparr>topstat := (topstat s)\<lparr>outdeg := outdeg (topstat s) - 1\<rparr>\<rparr>;
          s = upd_stat (vert_global (h_vert s from)) (\<lambda>g. g\<lparr>outdeg := outdeg g - 1\<rparr>) s
      in upd_vert from (\<lambda>v. v\<lparr>edgesOut :=
           (case fromiter of Some xs \<Rightarrow> xs | None \<Rightarrow> remove1 e (edgesOut v))\<rparr>) s)"

definition gddEdgeUnlinkTo :: "nat \<Rightarrow> nat list option \<Rightarrow> GddCtx \<Rightarrow> GddCtx" where
  "gddEdgeUnlinkTo e toiter s =
     (let to = edge_to (h_edge s e);
          s = s\<lparr>topstat := (topstat s)\<lparr>indeg := indeg (topstat s) - 1\<rparr>\<rparr>;
          s = upd_stat (vert_global (h_vert s to)) (\<lambda>g. g\<lparr>indeg := indeg g - 1\<rparr>) s
      in upd_vert to (\<lambda>v. v\<lparr>edgesIn :=
           (case toiter of Some xs \<Rightarrow> xs | None \<Rightarrow> remove1 e (edgesIn v))\<rparr>) s)"

definition gddEdgeUnlink :: "nat \<Rightarrow> nat list option \<Rightarrow> nat list option \<Rightarrow> GddCtx \<Rightarrow> GddCtx" where
  "gddEdgeUnlink e fromiter toiter s = gddEdgeUnlinkTo e toiter (gddEdgeUnlinkFrom e fromiter s)"

definition GddCtxAddEdge ::
  "GddCtx \<Rightarrow> 32 word \<Rightarrow> DistributedTransactionId \<Rightarrow> DistributedTransactionId \<Rightarrow> bool \<Rightarrow> nat \<times> GddCtx" where
  "GddCtxAddEdge s segid from to sld =
     (let (g, s) = gddCtxGetGraph s segid;
          (e, s) = gddGraphMakeEdge s g from to sld;
          (p, s) = gddCtxGetGlobalStat s from;
          s = gddVertBindStats (edge_from (h_edge s e)) p s;
          (p, s) = gddCtxGetGlobalStat s to;
          s = gddVertBindStats (edge_to (h_edge s e)) p s
      in (e, gddEdgeLink e s))"

section \<open>Reduction\<close>

text \<open>
  The safe list iteration of \<^verbatim>\<open>gdd_list_foreach_safe\<close>: \<open>pre\<close> holds the cells already
  passed, the last argument the current cell and those after it; deleting the current cell
  leaves \<open>pre @ rest\<close> as the iterator's list.
\<close>

primrec unlink_in_edges :: "nat list \<Rightarrow> nat list \<Rightarrow> GddCtx \<Rightarrow> bool \<times> GddCtx" where
  "unlink_in_edges pre [] s = (False, s)"
| "unlink_in_edges pre (e # rest) s =
     (True, snd (unlink_in_edges pre rest (gddEdgeUnlink e None (Some (pre @ rest)) s)))"

primrec unlink_out_edges :: "nat list \<Rightarrow> nat list \<Rightarrow> GddCtx \<Rightarrow> bool \<times> GddCtx" where
  "unlink_out_edges pre [] s = (False, s)"
| "unlink_out_edges pre (e # rest) s =
     (True, snd (unlink_out_edges pre rest (gddEdgeUnlink e (Some (pre @ rest)) None s)))"

definition gddVertUnlinkAll :: "nat \<Rightarrow> GddCtx \<Rightarrow> bool \<times> GddCtx" where
  "gddVertUnlinkAll v s =
     (let (d1, s) = unlink_in_edges [] (edgesIn (h_vert s v)) s;
          (d2, s) = unlink_out_edges [] (edgesOut (h_vert s v)) s
      in (d1 \<or> d2, s))"

primrec unlink_dotted_in_edges :: "nat list \<Rightarrow> nat list \<Rightarrow> GddCtx \<Rightarrow> bool \<times> GddCtx" where
  "unlink_dotted_in_edges pre [] s = (False, s)"
| "unlink_dotted_in_edges pre (e # rest) s =
     (if edge_solid (h_edge s e) then unlink_dotted_in_edges (pre @ [e]) rest s
      else (True, snd (unlink_dotted_in_edges pre rest
                         (gddEdgeUnlink e None (Some (pre @ rest)) s))))"

definition gddVertReduce :: "nat \<Rightarrow> GddCtx \<Rightarrow> bool \<times> GddCtx" where
  "gddVertReduce v s =
     (let global = h_stat s (vert_global (h_vert s v))
      in if indeg global = 0 \<or> outdeg global = 0 then gddVertUnlinkAll v s
         else if gddVertGetOutDegree s v = 0
         then unlink_dotted_in_edges [] (edgesIn (h_vert s v)) s
         else (False, s))"

text \<open>Unlinking never touches the maps or the edge objects.\<close>

lemma unlink_frame [frame_simps]:
  "h_graph (gddEdgeUnlink e fi ti s) = h_graph s"
  "graphs (gddEdgeUnlink e fi ti s) = graphs s"
  "globals (gddEdgeUnlink e fi ti s) = globals s"
  "h_edge (gddEdgeUnlink e fi ti s) = h_edge s"
  "h_next (gddEdgeUnlink e fi ti s) = h_next s"
  by (simp_all add: gddEdgeUnlink_def gddEdgeUnlinkFrom_def gddEdgeUnlinkTo_def Let_def
      upd_stat_def upd_vert_def)

lemma unlink_loops_graph [frame_simps]:
  "h_graph (snd (unlink_in_edges pre es s)) = h_graph s"
  "h_graph (snd (unlink_out_edges pre es s)) = h_graph s"
  "h_graph (snd (unlink_dotted_in_edges pre es s)) = h_graph s"
  by (induction es arbitrary: pre s) (simp_all add: frame_simps)

lemma gddVertReduce_graph [frame_simps]: "h_graph (snd (gddVertReduce v s)) = h_graph s"
  by (simp add: gddVertReduce_def gddVertUnlinkAll_def Let_def frame_simps split: prod.splits)
    (metis frame_simps snd_conv)

text \<open>One pass over the vertices of a graph; an isolated vertex is deleted in place.\<close>

function reduce_verts :: "nat \<Rightarrow> nat \<Rightarrow> bool \<Rightarrow> GddCtx \<Rightarrow> bool \<times> GddCtx" where
  "reduce_verts g pos dirty s =
     (if pos < length (map_pairs (graph_verts (h_graph s g)))
      then
        let v = snd (map_pairs (graph_verts (h_graph s g)) ! pos);
            r = gddVertReduce v s;
            dirty = (dirty \<or> fst r);
            s = snd r
        in if gddVertGetInDegree s v = 0 \<and> gddVertGetOutDegree s v = 0
           then reduce_verts g pos dirty
                  (upd_graph g (\<lambda>gr. gr\<lparr>graph_verts := gdd_map_iter_delete (graph_verts gr) pos\<rparr>) s)
           else reduce_verts g (Suc pos) dirty s
      else (dirty, s))"
  by pat_completeness auto
termination
  by (relation "measure (\<lambda>(g, pos, d, s). length (map_pairs (graph_verts (h_graph s g))) - pos)")
    (auto simp: frame_simps upd_graph_def gdd_map_iter_delete_def)

declare reduce_verts.simps [simp del]

primrec reduce_graphs :: "(uint64 \<times> nat) list \<Rightarrow> bool \<Rightarrow> GddCtx \<Rightarrow> bool \<times> GddCtx" where
  "reduce_graphs [] dirty s = (dirty, s)"
| "reduce_graphs (p # ps) dirty s =
     (let (dirty, s) = reduce_verts (snd p) 0 dirty s in reduce_graphs ps dirty s)"

text \<open>The \<^verbatim>\<open>while (dirty)\<close> loop; \<open>None\<close> would be a loop that does not end.\<close>

partial_function (option) GddCtxReduce :: "GddCtx \<Rightarrow> GddCtx option" where
  "GddCtxReduce s =
     (let (dirty, s) = reduce_graphs (map_pairs (graphs s)) False s
      in if dirty then GddCtxReduce s else Some s)"

definition GddCtxEmpty :: "GddCtx \<Rightarrow> bool" where
  "GddCtxEmpty s \<longleftrightarrow> indeg (topstat s) = 0"

section \<open>Breaking deadlocks\<close>

definition ctx_verts :: "GddCtx \<Rightarrow> nat list" where
  "ctx_verts s = concat (map (\<lambda>p. map snd (map_pairs (graph_verts (h_graph s (snd p)))))
                             (map_pairs (graphs s)))"

text \<open>
  The maximum is computed on 64 bits and returned as an \<^verbatim>\<open>int\<close>: the low 32 bits.
\<close>

definition gddCtxGetMaxVid :: "GddCtx \<Rightarrow> 32 word" where
  "gddCtxGetMaxVid s =
     (ucast (fold (\<lambda>v maxvid.
                if gddVertGetInDegree s v \<noteq> 0 \<or> gddVertGetOutDegree s v \<noteq> 0
                then max maxvid (vert_id (h_vert s v)) else maxvid)
              (ctx_verts s) (0 :: DistributedTransactionId)))"

fun graph_remove_vid :: "nat \<Rightarrow> DistributedTransactionId \<Rightarrow> nat \<Rightarrow> nat \<Rightarrow> GddCtx \<Rightarrow> GddCtx" where
  "graph_remove_vid g vid pos 0 s = s"
| "graph_remove_vid g vid pos (Suc n) s =
     (let v = snd (map_pairs (graph_verts (h_graph s g)) ! pos)
      in if vert_id (h_vert s v) \<noteq> vid then graph_remove_vid g vid (Suc pos) n s
         else
           let s = snd (gddVertUnlinkAll v s)
           in upd_graph g (\<lambda>gr. gr\<lparr>graph_verts := gdd_map_iter_delete (graph_verts gr) pos\<rparr>) s)"

text \<open>The loop visits positions \<open>0\<close> up to the map's length and stops at the first match.\<close>

definition gddGraphRemoveVid :: "nat \<Rightarrow> DistributedTransactionId \<Rightarrow> GddCtx \<Rightarrow> GddCtx" where
  "gddGraphRemoveVid g vid s =
     graph_remove_vid g vid 0 (length (map_pairs (graph_verts (h_graph s g)))) s"

definition gddCtxRemoveVid :: "DistributedTransactionId \<Rightarrow> GddCtx \<Rightarrow> GddCtx" where
  "gddCtxRemoveVid vid s = fold (\<lambda>p. gddGraphRemoveVid (snd p) vid) (map_pairs (graphs s)) s"

text \<open>
  \<^verbatim>\<open>*maxvid = gddCtxGetMaxVid(ctx)\<close> converts the \<^verbatim>\<open>int\<close> back to 64 bits by sign
  extension.
\<close>

partial_function (option) break_loop ::
  "DistributedTransactionId list \<Rightarrow> GddCtx \<Rightarrow> (DistributedTransactionId list \<times> GddCtx) option" where
  "break_loop vids s =
     (if GddCtxEmpty s then Some (vids, s)
      else
        let maxvid = signed (gddCtxGetMaxVid s);
            vids = vids @ [maxvid];
            s = gddCtxRemoveVid maxvid s
        in Option.bind (GddCtxReduce s) (break_loop vids))"

definition GddCtxBreakDeadLock :: "GddCtx \<Rightarrow> (DistributedTransactionId list \<times> GddCtx) option" where
  "GddCtxBreakDeadLock s = break_loop [] s"

end
