(* ===== verification/Gdd_Wf.thy ===== *)
theory Gdd_Wf
  imports Gdd_Detector
begin

text \<open>
  The invariant of the detector's data structure and what each operation does to the set of
  wait-for edges it stands for. \<open>wait_edges\<close> is the abstraction function: the edges linked
  into the vertices of the local graphs.
\<close>

section \<open>Maps as finite functions\<close>

lemma gddMapGet_map_of: "gddMapGet m k = map_of (map_pairs m) k"
proof -
  have "List.find (\<lambda>p. fst p = k) ps = map_option (Pair k) (map_of ps k)" for ps :: "(uint64 \<times> nat) list"
    by (induction ps) auto
  then show ?thesis
    unfolding gddMapGet_def gddMapGetPair_def by (simp split: option.split)
qed

lemma gddMapInit_pairs [simp]: "map_pairs gddMapInit = []"
  by (simp add: gddMapInit_def)

lemma gddMapSetUnsafe_pairs [simp]: "map_pairs (gddMapSetUnsafe m k p) = map_pairs m @ [(k, p)]"
  by (simp add: gddMapSetUnsafe_def gddMapEnsureCapacity_def Let_def)

lemma gdd_map_iter_delete_pairs [simp]:
  "map_pairs (gdd_map_iter_delete m pos) = butlast ((map_pairs m)[pos := last (map_pairs m)])"
  by (simp add: gdd_map_iter_delete_def)

text \<open>
  The interface the detector's lookups rely on: a table that is asked first and extended only
  with a key it does not hold, so that a key has one entry.
\<close>

locale lazy_table =
  fixes empty :: 'm
    and get :: "'m \<Rightarrow> 'k \<Rightarrow> 'p option"
    and set_unsafe :: "'m \<Rightarrow> 'k \<Rightarrow> 'p \<Rightarrow> 'm"
    and keyed :: "'m \<Rightarrow> bool"
  assumes get_empty: "get empty k = None"
    and keyed_empty: "keyed empty"
    and get_set: "keyed m \<Longrightarrow> get m k = None \<Longrightarrow> get (set_unsafe m k p) = (get m)(k \<mapsto> p)"
    and keyed_set: "keyed m \<Longrightarrow> get m k = None \<Longrightarrow> keyed (set_unsafe m k p)"
begin

lemma get_or_create:
  assumes "keyed m" and "m' = (case get m k of Some _ \<Rightarrow> m | None \<Rightarrow> set_unsafe m k p)"
  shows "keyed m'" and "get m' k = Some (case get m k of Some q \<Rightarrow> q | None \<Rightarrow> p)"
    and "j \<noteq> k \<Longrightarrow> get m' j = get m j"
  using assms by (auto simp: get_set keyed_set split: option.splits)

end

definition map_keyed :: "GddMap \<Rightarrow> bool" where
  "map_keyed m \<longleftrightarrow> distinct (map fst (map_pairs m))"

interpretation gdd_table: lazy_table gddMapInit gddMapGet gddMapSetUnsafe map_keyed
proof unfold_locales
  fix m :: GddMap and k :: uint64 and p :: nat
  assume "map_keyed m" "gddMapGet m k = None"
  then show "gddMapGet (gddMapSetUnsafe m k p) = (gddMapGet m)(k \<mapsto> p)"
    by (auto simp: gddMapGet_map_of fun_eq_iff map_add_def split: option.splits)
  show "map_keyed (gddMapSetUnsafe m k p)"
    using \<open>map_keyed m\<close> \<open>gddMapGet m k = None\<close>
    by (auto simp: map_keyed_def gddMapGet_map_of map_of_eq_None_iff)
qed (simp_all add: gddMapGet_map_of map_keyed_def)

section \<open>The abstraction\<close>

text \<open>The vertex of transaction \<open>vid\<close> in the local graph of the segment with key \<open>k\<close>.\<close>

definition isv :: "GddCtx \<Rightarrow> uint64 \<Rightarrow> DistributedTransactionId \<Rightarrow> nat \<Rightarrow> bool" where
  "isv s k vid v \<longleftrightarrow>
     (\<exists>g. (k, g) \<in> set (map_pairs (graphs s)) \<and>
          (vid, v) \<in> set (map_pairs (graph_verts (h_graph s g))))"

definition edge_view :: "GddCtx \<Rightarrow> uint64 \<Rightarrow> nat \<Rightarrow> wait_edge" where
  "edge_view s k e =
     \<lparr>we_id = e, we_seg = k,
      we_waiter = vert_id (h_vert s (edge_from (h_edge s e))),
      we_holder = vert_id (h_vert s (edge_to (h_edge s e))),
      we_solid = edge_solid (h_edge s e)\<rparr>"

definition linked :: "GddCtx \<Rightarrow> (uint64 \<times> nat) set" where
  "linked s = {(k, e) |k vid v e. isv s k vid v \<and> e \<in> set (edgesOut (h_vert s v))}"

definition wait_edges :: "GddCtx \<Rightarrow> wait_edge set" where
  "wait_edges s = (\<lambda>(k, e). edge_view s k e) ` linked s"

abbreviation gl :: "GddCtx \<Rightarrow> DistributedTransactionId \<Rightarrow> nat \<Rightarrow> bool" where
  "gl s vid p \<equiv> (vid, p) \<in> set (map_pairs (globals s))"

definition maps_ok :: "GddCtx \<Rightarrow> bool" where
  "maps_ok s \<longleftrightarrow>
     map_keyed (graphs s) \<and> distinct (map snd (map_pairs (graphs s))) \<and>
     (\<forall>(k, g) \<in> set (map_pairs (graphs s)). g < h_next s \<and> map_keyed (graph_verts (h_graph s g))) \<and>
     map_keyed (globals s) \<and> distinct (map snd (map_pairs (globals s))) \<and>
     (\<forall>vid p. gl s vid p \<longrightarrow> p < h_next s) \<and>
     (\<forall>k vid v k' vid'. isv s k vid v \<longrightarrow> isv s k' vid' v \<longrightarrow> k = k')"

definition vert_ok :: "GddCtx \<Rightarrow> uint64 \<Rightarrow> DistributedTransactionId \<Rightarrow> nat \<Rightarrow> bool" where
  "vert_ok s k vid v \<longleftrightarrow>
     v < h_next s \<and> vert_id (h_vert s v) = vid \<and>
     distinct (edgesIn (h_vert s v)) \<and> distinct (edgesOut (h_vert s v)) \<and>
     (edgesIn (h_vert s v) \<noteq> [] \<or> edgesOut (h_vert s v) \<noteq> [] \<longrightarrow> gl s vid (vert_global (h_vert s v))) \<and>
     (\<forall>e \<in> set (edgesOut (h_vert s v)).
        e < h_next s \<and> edge_from (h_edge s e) = v \<and> (\<exists>vid'. isv s k vid' (edge_to (h_edge s e))) \<and>
        e \<in> set (edgesIn (h_vert s (edge_to (h_edge s e))))) \<and>
     (\<forall>e \<in> set (edgesIn (h_vert s v)).
        e < h_next s \<and> edge_to (h_edge s e) = v \<and> (\<exists>vid'. isv s k vid' (edge_from (h_edge s e))) \<and>
        e \<in> set (edgesOut (h_vert s (edge_from (h_edge s e)))))"

definition degrees_ok :: "GddCtx \<Rightarrow> bool" where
  "degrees_ok s \<longleftrightarrow>
     outdeg (topstat s) = int (card (wait_edges s)) \<and> indeg (topstat s) = int (card (wait_edges s)) \<and>
     (\<forall>vid p. gl s vid p \<longrightarrow>
        outdeg (h_stat s p) = int (card {a \<in> wait_edges s. we_waiter a = vid}) \<and>
        indeg (h_stat s p) = int (card {a \<in> wait_edges s. we_holder a = vid}))"

definition wf_ctx :: "GddCtx \<Rightarrow> bool" where
  "wf_ctx s \<longleftrightarrow> maps_ok s \<and> (\<forall>k vid v. isv s k vid v \<longrightarrow> vert_ok s k vid v) \<and> degrees_ok s"

lemma edge_view_sel [simp]:
  "we_id (edge_view s k e) = e" "we_seg (edge_view s k e) = k"
  "we_waiter (edge_view s k e) = vert_id (h_vert s (edge_from (h_edge s e)))"
  "we_holder (edge_view s k e) = vert_id (h_vert s (edge_to (h_edge s e)))"
  "we_solid (edge_view s k e) = edge_solid (h_edge s e)"
  by (simp_all add: edge_view_def)

lemma edge_view_inj: "edge_view s k e = edge_view t k' e' \<Longrightarrow> k = k' \<and> e = e'"
  by (simp add: edge_view_def)

lemma inj_edge_view: "inj_on (\<lambda>(k, e). edge_view s k e) A"
  by (auto simp: inj_on_def dest: edge_view_inj)

lemma linked_Union:
  "linked s = (\<Union>(k, g) \<in> set (map_pairs (graphs s)).
     \<Union>(vid, v) \<in> set (map_pairs (graph_verts (h_graph s g))). Pair k ` set (edgesOut (h_vert s v)))"
  unfolding linked_def isv_def by force

lemma finite_wait_edges [simp]: "finite (wait_edges s)"
  unfolding wait_edges_def linked_Union by (simp add: split_beta)

lemma edge_view_in_wait_edges: "edge_view s k e \<in> wait_edges s \<longleftrightarrow> (k, e) \<in> linked s"
  by (auto simp: wait_edges_def dest: edge_view_inj)

lemma linkedI: "isv s k vid v \<Longrightarrow> e \<in> set (edgesOut (h_vert s v)) \<Longrightarrow> (k, e) \<in> linked s"
  unfolding linked_def by blast

lemma linkedE:
  assumes "(k, e) \<in> linked s"
  obtains vid v where "isv s k vid v" "e \<in> set (edgesOut (h_vert s v))"
  using assms unfolding linked_def by blast

lemma wf_maps: "wf_ctx s \<Longrightarrow> maps_ok s"
  and wf_vert: "wf_ctx s \<Longrightarrow> isv s k vid v \<Longrightarrow> vert_ok s k vid v"
  and wf_degrees: "wf_ctx s \<Longrightarrow> degrees_ok s"
  by (auto simp: wf_ctx_def)

lemma isv_same_seg: "maps_ok s \<Longrightarrow> isv s k vid v \<Longrightarrow> isv s k' vid' v \<Longrightarrow> k = k'"
  unfolding maps_ok_def by blast

lemma gl_unique: "maps_ok s \<Longrightarrow> gl s vid p \<Longrightarrow> gl s vid q \<Longrightarrow> p = q"
  unfolding maps_ok_def map_keyed_def by (meson distinct_map_fst_unique)

lemma gl_inj: "maps_ok s \<Longrightarrow> gl s vid p \<Longrightarrow> gl s vid' p \<Longrightarrow> vid = vid'"
  unfolding maps_ok_def by (meson distinct_map_snd_unique)

lemma isv_unique:
  assumes "maps_ok s" "isv s k vid v" "isv s k vid v'"
  shows "v = v'"
proof -
  obtain g g' where gs: "(k, g) \<in> set (map_pairs (graphs s))" "(k, g') \<in> set (map_pairs (graphs s))"
    and v: "(vid, v) \<in> set (map_pairs (graph_verts (h_graph s g)))"
           "(vid, v') \<in> set (map_pairs (graph_verts (h_graph s g')))"
    using assms(2,3) by (auto simp: isv_def)
  have "g = g'" using assms(1) gs unfolding maps_ok_def map_keyed_def by (meson distinct_map_fst_unique)
  moreover have "map_keyed (graph_verts (h_graph s g))" using assms(1) gs unfolding maps_ok_def by auto
  ultimately show ?thesis using v unfolding map_keyed_def by (meson distinct_map_fst_unique)
qed

text \<open>Reading the invariant at a vertex and at an edge.\<close>

lemma wf_vid: "wf_ctx s \<Longrightarrow> isv s k vid v \<Longrightarrow> vert_id (h_vert s v) = vid"
  and wf_vert_lt: "wf_ctx s \<Longrightarrow> isv s k vid v \<Longrightarrow> v < h_next s"
  by (auto dest!: wf_vert simp only: vert_ok_def)

lemma wf_out_edge:
  assumes "wf_ctx s" "isv s k vid v" "e \<in> set (edgesOut (h_vert s v))"
  shows "edge_from (h_edge s e) = v" "vert_id (h_vert s v) = vid" "e < h_next s"
    and "e \<in> set (edgesIn (h_vert s (edge_to (h_edge s e))))"
    and "\<exists>vid'. isv s k vid' (edge_to (h_edge s e))"
    and "edge_view s k e \<in> wait_edges s"
proof -
  show "edge_view s k e \<in> wait_edges s"
    using assms(2,3) by (simp add: edge_view_in_wait_edges linkedI)
qed (use wf_vert [OF assms(1,2)] assms(3) in \<open>unfold vert_ok_def, blast+\<close>)

lemma wf_in_edge:
  assumes "wf_ctx s" "isv s k vid v" "e \<in> set (edgesIn (h_vert s v))"
  shows "edge_to (h_edge s e) = v" "vert_id (h_vert s v) = vid" "e < h_next s"
    and "e \<in> set (edgesOut (h_vert s (edge_from (h_edge s e))))"
    and "\<exists>vid'. isv s k vid' (edge_from (h_edge s e))"
    and "edge_view s k e \<in> wait_edges s"
proof -
  show from_out: "e \<in> set (edgesOut (h_vert s (edge_from (h_edge s e))))"
    and from_isv: "\<exists>vid'. isv s k vid' (edge_from (h_edge s e))"
    using wf_vert [OF assms(1,2)] assms(3) unfolding vert_ok_def by blast+
  then show "edge_view s k e \<in> wait_edges s"
    unfolding edge_view_in_wait_edges by (blast intro: linkedI)
qed (use wf_vert [OF assms(1,2)] assms(3) in \<open>unfold vert_ok_def, blast+\<close>)

lemma wait_edgesE:
  assumes "wf_ctx s" "a \<in> wait_edges s"
  obtains v w where "a = edge_view s (we_seg a) (we_id a)"
    "isv s (we_seg a) (we_waiter a) v" "we_id a \<in> set (edgesOut (h_vert s v))"
    "isv s (we_seg a) (we_holder a) w" "we_id a \<in> set (edgesIn (h_vert s w))"
proof -
  from assms(2) obtain k vid v e where a: "a = edge_view s k e" and v: "isv s k vid v"
    and e: "e \<in> set (edgesOut (h_vert s v))" by (auto simp: wait_edges_def elim: linkedE)
  note o = wf_out_edge [OF assms(1) v e]
  from o(5) obtain vid' where w: "isv s k vid' (edge_to (h_edge s e))" by blast
  then have "vert_id (h_vert s (edge_to (h_edge s e))) = vid'"
    using wf_vid [OF assms(1)] by blast
  with a v e o w show thesis by (intro that [of v "edge_to (h_edge s e)"]) simp_all
qed

lemma GddCtxEmpty_iff: "wf_ctx s \<Longrightarrow> GddCtxEmpty s \<longleftrightarrow> wait_edges s = {}"
  using wf_degrees [of s] by (auto simp: degrees_ok_def GddCtxEmpty_def)

end
