(* ===== verification/Gdd_Reduce.thy ===== *)
theory Gdd_Reduce
  imports Gdd_Wf
begin

text \<open>
  Unlinking edges and the reduction loop: every edge the loop unlinks is one the rules of
  \<^theory_text>\<open>Gdd_Spec\<close> allow to delete, and when a pass deletes nothing, no rule applies.
\<close>

section \<open>Unlinking one edge\<close>

abbreviation unlink :: "nat \<Rightarrow> GddCtx \<Rightarrow> GddCtx" where
  "unlink e s \<equiv> gddEdgeUnlink e None None s"

text \<open>Deleting through the iterator is deleting by search.\<close>

lemma gddEdgeUnlink_toiter:
  assumes "edgesIn (h_vert s (edge_to (h_edge s e))) = pre @ e # rest" "e \<notin> set pre"
  shows "gddEdgeUnlink e None (Some (pre @ rest)) s = unlink e s"
  using assms by (cases "edge_from (h_edge s e) = edge_to (h_edge s e)")
    (simp_all add: gddEdgeUnlink_def gddEdgeUnlinkFrom_def gddEdgeUnlinkTo_def Let_def
      upd_vert_def upd_stat_def remove1_middle)

lemma gddEdgeUnlink_fromiter:
  assumes "edgesOut (h_vert s (edge_from (h_edge s e))) = pre @ e # rest" "e \<notin> set pre"
  shows "gddEdgeUnlink e (Some (pre @ rest)) None s = unlink e s"
  using assms by (cases "edge_from (h_edge s e) = edge_to (h_edge s e)")
    (simp_all add: gddEdgeUnlink_def gddEdgeUnlinkFrom_def gddEdgeUnlinkTo_def Let_def
      upd_vert_def upd_stat_def remove1_middle)

lemma unlink_vert [heap_simps]:
  "h_vert (unlink e s) v = (h_vert s v)
     \<lparr>edgesIn := (if v = edge_to (h_edge s e) then remove1 e (edgesIn (h_vert s v)) else edgesIn (h_vert s v)),
      edgesOut := (if v = edge_from (h_edge s e) then remove1 e (edgesOut (h_vert s v)) else edgesOut (h_vert s v))\<rparr>"
  by (simp add: gddEdgeUnlink_def gddEdgeUnlinkFrom_def gddEdgeUnlinkTo_def Let_def
      upd_vert_def upd_stat_def)

lemma unlink_stat [heap_simps]:
  "h_stat (unlink e s) p = (h_stat s p)
     \<lparr>indeg := indeg (h_stat s p) -
        (if p = vert_global (h_vert s (edge_to (h_edge s e))) then 1 else 0),
      outdeg := outdeg (h_stat s p) -
        (if p = vert_global (h_vert s (edge_from (h_edge s e))) then 1 else 0)\<rparr>"
  "outdeg (topstat (unlink e s)) = outdeg (topstat s) - 1"
  "indeg (topstat (unlink e s)) = indeg (topstat s) - 1"
  by (simp_all add: gddEdgeUnlink_def gddEdgeUnlinkFrom_def gddEdgeUnlinkTo_def Let_def
      upd_vert_def upd_stat_def)

lemma unlink_isv [frame_simps]: "isv (unlink e s) = isv s"
  by (simp add: isv_def fun_eq_iff frame_simps)

lemma unlink_edge_view [frame_simps]: "edge_view (unlink e s) = edge_view s"
  by (simp add: edge_view_def fun_eq_iff frame_simps unlink_vert)

lemma unlink_maps_ok: "maps_ok (unlink e s) = maps_ok s"
  unfolding maps_ok_def frame_simps by (rule refl)

lemma unlink_mem:
  assumes "wf_ctx s" "isv s j x w"
  shows "f \<in> set (edgesOut (h_vert (unlink e s) w)) \<longleftrightarrow> f \<in> set (edgesOut (h_vert s w)) \<and> f \<noteq> e"
    and "f \<in> set (edgesIn (h_vert (unlink e s) w)) \<longleftrightarrow> f \<in> set (edgesIn (h_vert s w)) \<and> f \<noteq> e"
proof -
  have d: "distinct (edgesOut (h_vert s w))" "distinct (edgesIn (h_vert s w))"
    using wf_vert [OF assms] unfolding vert_ok_def by blast+
  have "e \<in> set (edgesOut (h_vert s w)) \<Longrightarrow> w = edge_from (h_edge s e)"
    using wf_out_edge(1) [OF assms, of e] by (rule sym)
  moreover have "e \<in> set (edgesIn (h_vert s w)) \<Longrightarrow> w = edge_to (h_edge s e)"
    using wf_in_edge(1) [OF assms, of e] by (rule sym)
  ultimately show "f \<in> set (edgesOut (h_vert (unlink e s) w)) \<longleftrightarrow> f \<in> set (edgesOut (h_vert s w)) \<and> f \<noteq> e"
    "f \<in> set (edgesIn (h_vert (unlink e s) w)) \<longleftrightarrow> f \<in> set (edgesIn (h_vert s w)) \<and> f \<noteq> e"
    using d by (auto simp: unlink_vert)
qed

lemma unlink_wait_edges:
  assumes "wf_ctx s" "isv s k vid v" "e \<in> set (edgesOut (h_vert s v))"
  shows "wait_edges (unlink e s) = wait_edges s - {edge_view s k e}"
proof -
  have "(k', f) \<in> linked (unlink e s) \<longleftrightarrow> (k', f) \<in> linked s \<and> f \<noteq> e" for k' f
    unfolding linked_def frame_simps using unlink_mem(1) [OF assms(1)] by blast
  moreover have "k' = k" if "(k', e) \<in> linked s" for k'
  proof -
    from that obtain x w where w: "isv s k' x w" "e \<in> set (edgesOut (h_vert s w))" by (rule linkedE)
    then have "w = v" using wf_out_edge(1) [OF assms(1)] assms(2,3) by blast
    with w(1) assms(2) show ?thesis using isv_same_seg [OF wf_maps [OF assms(1)]] by blast
  qed
  ultimately have "linked (unlink e s) = linked s - {(k, e)}" by auto
  then show ?thesis
    unfolding wait_edges_def frame_simps by (simp add: image_set_diff [OF inj_edge_view])
qed

lemma unlink_vert_ok:
  assumes "wf_ctx s" "isv s k vid v" "e \<in> set (edgesOut (h_vert s v))" "isv s k' vid' v'"
  shows "vert_ok (unlink e s) k' vid' v'"
proof -
  note ok = wf_vert [OF assms(1,4), unfolded vert_ok_def]
  have d: "distinct (edgesOut (h_vert s v'))" "distinct (edgesIn (h_vert s v'))"
    using ok by blast+
  note mem = unlink_mem [OF assms(1), where e = e]
  have out: "f < h_next s \<and> edge_from (h_edge s f) = v' \<and> (\<exists>x. isv s k' x (edge_to (h_edge s f))) \<and>
      f \<in> set (edgesIn (h_vert (unlink e s) (edge_to (h_edge s f))))"
    if "f \<in> set (edgesOut (h_vert (unlink e s) v'))" for f
  proof -
    have f: "f \<in> set (edgesOut (h_vert s v'))" "f \<noteq> e" using that mem(1) [OF assms(4)] by simp_all
    note o = wf_out_edge [OF assms(1,4) f(1)]
    then show ?thesis using mem(2) f(2) by blast
  qed
  have inn: "f < h_next s \<and> edge_to (h_edge s f) = v' \<and> (\<exists>x. isv s k' x (edge_from (h_edge s f))) \<and>
      f \<in> set (edgesOut (h_vert (unlink e s) (edge_from (h_edge s f))))"
    if "f \<in> set (edgesIn (h_vert (unlink e s) v'))" for f
  proof -
    have f: "f \<in> set (edgesIn (h_vert s v'))" "f \<noteq> e" using that mem(2) [OF assms(4)] by simp_all
    note i = wf_in_edge [OF assms(1,4) f(1)]
    then show ?thesis using mem(1) f(2) by blast
  qed
  have ne: "edgesIn (h_vert (unlink e s) v') \<noteq> [] \<or> edgesOut (h_vert (unlink e s) v') \<noteq> [] \<Longrightarrow>
      edgesIn (h_vert s v') \<noteq> [] \<or> edgesOut (h_vert s v') \<noteq> []"
    by (auto simp: unlink_vert split: if_splits)
  have "distinct (edgesIn (h_vert (unlink e s) v'))" "distinct (edgesOut (h_vert (unlink e s) v'))"
    using d by (auto simp: unlink_vert)
  moreover have "vert_id (h_vert (unlink e s) v') = vid'" "v' < h_next s"
    "vert_global (h_vert (unlink e s) v') = vert_global (h_vert s v')"
    using wf_vid [OF assms(1,4)] wf_vert_lt [OF assms(1,4)] by (simp_all add: unlink_vert)
  moreover have "edgesIn (h_vert s v') \<noteq> [] \<or> edgesOut (h_vert s v') \<noteq> [] \<longrightarrow>
      gl s vid' (vert_global (h_vert s v'))" using ok by blast
  ultimately show ?thesis
    unfolding vert_ok_def frame_simps using out inn ne by simp
qed

lemma unlink_degrees_ok:
  assumes "wf_ctx s" "isv s k vid v" "e \<in> set (edgesOut (h_vert s v))"
  shows "degrees_ok (unlink e s)"
proof -
  let ?a = "edge_view s k e" and ?w = "edge_to (h_edge s e)"
  note o = wf_out_edge [OF assms]
  from o(5) obtain vid' where w: "isv s k vid' ?w" by blast
  have a: "?a \<in> wait_edges s" by (rule o(6))
  have vids: "we_waiter ?a = vid" "we_holder ?a = vid'"
    using o wf_vid [OF assms(1) w] by simp_all
  have glv: "gl s vid (vert_global (h_vert s v))" and glw: "gl s vid' (vert_global (h_vert s ?w))"
    using wf_vert [OF assms(1,2)] wf_vert [OF assms(1) w] assms(3) o(4)
    unfolding vert_ok_def by (metis empty_iff list.set(1))+
  have pv: "p = vert_global (h_vert s v) \<longleftrightarrow> x = vid" and pw: "p = vert_global (h_vert s ?w) \<longleftrightarrow> x = vid'"
    if "gl s x p" for x p
    using that glv glw gl_unique [OF wf_maps [OF assms(1)]] gl_inj [OF wf_maps [OF assms(1)]] by metis+
  have card: "int (card (wait_edges s - {?a})) = int (card (wait_edges s)) - 1"
    using card_Suc_Diff1 [OF finite_wait_edges a] by linarith
  show ?thesis
    using wf_degrees [OF assms(1)] o(1) vids card
    unfolding degrees_ok_def frame_simps unlink_wait_edges [OF assms]
    by (auto simp: unlink_stat pv pw card_filter_remove [OF finite_wait_edges a])
qed

lemma unlink_wf [wf_intros]:
  assumes "wf_ctx s" "isv s k vid v" "e \<in> set (edgesOut (h_vert s v))"
  shows "wf_ctx (unlink e s)"
  unfolding wf_ctx_def frame_simps
  using unlink_maps_ok [of e s] wf_maps [OF assms(1)] unlink_vert_ok [OF assms] unlink_degrees_ok [OF assms]
  by blast

section \<open>The unlinking loops\<close>

text \<open>What every loop that only unlinks edges keeps.\<close>

definition same_shape :: "GddCtx \<Rightarrow> GddCtx \<Rightarrow> bool" where
  "same_shape s t \<longleftrightarrow>
     graphs t = graphs s \<and> h_graph t = h_graph s \<and> globals t = globals s \<and> h_edge t = h_edge s \<and>
     h_next t = h_next s \<and> (\<forall>v. vert_id (h_vert t v) = vert_id (h_vert s v))"

lemma same_shape_refl [simp]: "same_shape s s"
  and same_shape_trans: "same_shape s t \<Longrightarrow> same_shape t u \<Longrightarrow> same_shape s u"
  and same_shape_unlink: "same_shape s (unlink e s)"
  by (auto simp: same_shape_def frame_simps unlink_vert)

lemma same_shape_isv: "same_shape s t \<Longrightarrow> isv t = isv s"
  by (simp add: same_shape_def isv_def fun_eq_iff)

lemma same_shape_view: "same_shape s t \<Longrightarrow> edge_view t = edge_view s"
  by (simp add: same_shape_def edge_view_def fun_eq_iff)

lemma wf_in_edge_out:
  assumes "wf_ctx s" "isv s k vid v" "e \<in> set (edgesIn (h_vert s v))"
  obtains x w where "isv s k x w" "e \<in> set (edgesOut (h_vert s w))"
  using wf_in_edge(4,5) [OF assms] by blast

lemma unlink_in_edges_spec:
  assumes "wf_ctx s" "isv s k vid v" "edgesIn (h_vert s v) = es"
  defines "t \<equiv> snd (unlink_in_edges [] es s)"
  shows "wf_ctx t \<and> same_shape s t \<and> edgesIn (h_vert t v) = [] \<and>
    wait_edges t = wait_edges s - edge_view s k ` set es"
  using assms(1-3) unfolding t_def
proof (induction es arbitrary: s)
  case Nil
  then show ?case by simp
next
  case (Cons e es)
  let ?u = "unlink e s"
  have e: "e \<in> set (edgesIn (h_vert s v))" using Cons.prems(3) by simp
  note to = wf_in_edge(1) [OF Cons.prems(1,2) e]
  obtain x w where w: "isv s k x w" "e \<in> set (edgesOut (h_vert s w))"
    using Cons.prems(1,2) e by (rule wf_in_edge_out)
  have wf: "wf_ctx ?u" using Cons.prems(1) w by (rule unlink_wf)
  have we: "wait_edges ?u = wait_edges s - {edge_view s k e}"
    using Cons.prems(1) w by (rule unlink_wait_edges)
  have "edgesIn (h_vert ?u v) = es" using to Cons.prems(3) by (simp add: unlink_vert)
  moreover have "isv ?u k vid v" using Cons.prems(2) by (simp add: frame_simps)
  ultimately have IH: "wf_ctx (snd (unlink_in_edges [] es ?u)) \<and>
      same_shape ?u (snd (unlink_in_edges [] es ?u)) \<and>
      edgesIn (h_vert (snd (unlink_in_edges [] es ?u)) v) = [] \<and>
      wait_edges (snd (unlink_in_edges [] es ?u)) = wait_edges ?u - edge_view ?u k ` set es"
    using wf by (intro Cons.IH)
  moreover have "gddEdgeUnlink e None (Some ([] @ es)) s = ?u"
    using to Cons.prems(3) by (intro gddEdgeUnlink_toiter) simp_all
  ultimately show ?case
    using we same_shape_trans [OF same_shape_unlink [of s e]] by (auto simp: frame_simps)
qed

lemma unlink_out_edges_spec:
  assumes "wf_ctx s" "isv s k vid v" "edgesOut (h_vert s v) = es"
  defines "t \<equiv> snd (unlink_out_edges [] es s)"
  shows "wf_ctx t \<and> same_shape s t \<and> edgesOut (h_vert t v) = [] \<and>
    (edgesIn (h_vert s v) = [] \<longrightarrow> edgesIn (h_vert t v) = []) \<and>
    wait_edges t = wait_edges s - edge_view s k ` set es"
  using assms(1-3) unfolding t_def
proof (induction es arbitrary: s)
  case Nil
  then show ?case by simp
next
  case (Cons e es)
  let ?u = "unlink e s" and ?t = "snd (unlink_out_edges [] es (unlink e s))"
  have e: "e \<in> set (edgesOut (h_vert s v))" using Cons.prems(3) by simp
  note fr = wf_out_edge(1) [OF Cons.prems(1,2) e]
  have wf: "wf_ctx ?u" using Cons.prems(1,2) e by (rule unlink_wf)
  have we: "wait_edges ?u = wait_edges s - {edge_view s k e}"
    using Cons.prems(1,2) e by (rule unlink_wait_edges)
  have "edgesOut (h_vert ?u v) = es" using fr Cons.prems(3) by (simp add: unlink_vert)
  moreover have "isv ?u k vid v" using Cons.prems(2) by (simp add: frame_simps)
  ultimately have IH: "wf_ctx ?t \<and> same_shape ?u ?t \<and> edgesOut (h_vert ?t v) = [] \<and>
      (edgesIn (h_vert ?u v) = [] \<longrightarrow> edgesIn (h_vert ?t v) = []) \<and>
      wait_edges ?t = wait_edges ?u - edge_view ?u k ` set es"
    using wf by (intro Cons.IH)
  moreover have "gddEdgeUnlink e (Some ([] @ es)) None s = ?u"
    using fr Cons.prems(3) by (intro gddEdgeUnlink_fromiter) simp_all
  moreover have "edgesIn (h_vert s v) = [] \<Longrightarrow> edgesIn (h_vert ?u v) = []"
    by (auto simp: unlink_vert)
  ultimately show ?case
    using we same_shape_trans [OF same_shape_unlink [of s e]] by (auto simp: frame_simps)
qed

lemma unlink_dotted_spec:
  assumes "wf_ctx s" "isv s k vid v" "edgesIn (h_vert s v) = pre @ es"
  defines "r \<equiv> unlink_dotted_in_edges pre es s"
  shows "wf_ctx (snd r) \<and> same_shape s (snd r) \<and>
    fst r = (\<exists>e \<in> set es. \<not> edge_solid (h_edge s e)) \<and> (\<not> fst r \<longrightarrow> snd r = s) \<and>
    wait_edges (snd r) = wait_edges s - edge_view s k ` {e \<in> set es. \<not> edge_solid (h_edge s e)}"
  using assms(1-3) unfolding r_def
proof (induction es arbitrary: pre s)
  case Nil
  then show ?case by simp
next
  case (Cons e es)
  show ?case
  proof (cases "edge_solid (h_edge s e)")
    case True
    have "edgesIn (h_vert s v) = (pre @ [e]) @ es" using Cons.prems(3) by simp
    from Cons.IH [OF Cons.prems(1,2) this]
    have "wait_edges (snd (unlink_dotted_in_edges (pre @ [e]) es s)) =
        wait_edges s - edge_view s k ` {x \<in> set es. \<not> edge_solid (h_edge s x)}" by blast
    also have "{x \<in> set es. \<not> edge_solid (h_edge s x)} = {x \<in> set (e # es). \<not> edge_solid (h_edge s x)}"
      using True by auto
    finally show ?thesis
      using True Cons.IH [OF Cons.prems(1,2) \<open>edgesIn (h_vert s v) = (pre @ [e]) @ es\<close>] by simp
  next
    case False
    let ?u = "unlink e s" and ?r = "unlink_dotted_in_edges pre es (unlink e s)"
    have e: "e \<in> set (edgesIn (h_vert s v))" using Cons.prems(3) by simp
    note to = wf_in_edge(1) [OF Cons.prems(1,2) e]
    obtain x w where w: "isv s k x w" "e \<in> set (edgesOut (h_vert s w))"
      using Cons.prems(1,2) e by (rule wf_in_edge_out)
    have wf: "wf_ctx ?u" using Cons.prems(1) w by (rule unlink_wf)
    have we: "wait_edges ?u = wait_edges s - {edge_view s k e}"
      using Cons.prems(1) w by (rule unlink_wait_edges)
    have "distinct (pre @ e # es)"
      using wf_vert [OF Cons.prems(1,2)] Cons.prems(3) unfolding vert_ok_def by metis
    then have ne: "e \<notin> set pre" by simp
    have "edgesIn (h_vert ?u v) = pre @ es"
      using to Cons.prems(3) ne by (simp add: unlink_vert remove1_middle)
    moreover have "isv ?u k vid v" using Cons.prems(2) by (simp add: frame_simps)
    ultimately have IH: "wf_ctx (snd ?r) \<and> same_shape ?u (snd ?r) \<and>
        wait_edges (snd ?r) = wait_edges ?u - edge_view ?u k ` {e \<in> set es. \<not> edge_solid (h_edge ?u e)}"
      using wf Cons.IH [of ?u pre] by blast
    moreover have "gddEdgeUnlink e None (Some (pre @ es)) s = ?u"
      using to Cons.prems(3) ne by (intro gddEdgeUnlink_toiter) simp_all
    ultimately show ?thesis
      using False we same_shape_trans [OF same_shape_unlink [of s e]] by (auto simp: frame_simps)
  qed
qed

section \<open>One vertex\<close>

text \<open>The edge lists of a vertex are the abstract edges at it.\<close>

lemma in_edges_view:
  assumes "wf_ctx s" "isv s k vid v"
  shows "edge_view s k ` set (edgesIn (h_vert s v)) =
    {a \<in> wait_edges s. we_seg a = k \<and> we_holder a = vid}"
proof (rule set_eqI, rule iffI)
  fix a assume "a \<in> edge_view s k ` set (edgesIn (h_vert s v))"
  then obtain e where "a = edge_view s k e" "e \<in> set (edgesIn (h_vert s v))" by blast
  with wf_in_edge [OF assms, of e]
  show "a \<in> {a \<in> wait_edges s. we_seg a = k \<and> we_holder a = vid}" by simp
next
  fix a assume a: "a \<in> {a \<in> wait_edges s. we_seg a = k \<and> we_holder a = vid}"
  then have "a \<in> wait_edges s" by simp
  with assms(1) obtain v' w where "a = edge_view s (we_seg a) (we_id a)"
    "isv s (we_seg a) (we_holder a) w" "we_id a \<in> set (edgesIn (h_vert s w))" by (rule wait_edgesE)
  moreover from this a have "w = v" using isv_unique [OF wf_maps [OF assms(1)]] assms(2) by blast
  ultimately show "a \<in> edge_view s k ` set (edgesIn (h_vert s v))" using a by blast
qed

lemma out_edges_view:
  assumes "wf_ctx s" "isv s k vid v"
  shows "edge_view s k ` set (edgesOut (h_vert s v)) =
    {a \<in> wait_edges s. we_seg a = k \<and> we_waiter a = vid}"
proof (rule set_eqI, rule iffI)
  fix a assume "a \<in> edge_view s k ` set (edgesOut (h_vert s v))"
  then obtain e where "a = edge_view s k e" "e \<in> set (edgesOut (h_vert s v))" by blast
  with wf_out_edge [OF assms, of e]
  show "a \<in> {a \<in> wait_edges s. we_seg a = k \<and> we_waiter a = vid}" by simp
next
  fix a assume a: "a \<in> {a \<in> wait_edges s. we_seg a = k \<and> we_waiter a = vid}"
  then have "a \<in> wait_edges s" by simp
  with assms(1) obtain v' w where "a = edge_view s (we_seg a) (we_id a)"
    "isv s (we_seg a) (we_waiter a) v'" "we_id a \<in> set (edgesOut (h_vert s v'))" by (rule wait_edgesE)
  moreover from this a have "v' = v" using isv_unique [OF wf_maps [OF assms(1)]] assms(2) by blast
  ultimately show "a \<in> edge_view s k ` set (edgesOut (h_vert s v))" using a by blast
qed

lemma gddVertUnlinkAll_spec:
  assumes "wf_ctx s" "isv s k vid v"
  defines "r \<equiv> gddVertUnlinkAll v s"
    and "R \<equiv> {a \<in> wait_edges s. we_seg a = k \<and> (we_holder a = vid \<or> we_waiter a = vid)}"
  shows "wf_ctx (snd r)" "same_shape s (snd r)" "wait_edges (snd r) = wait_edges s - R"
    "fst r \<longleftrightarrow> R \<noteq> {}" "\<not> fst r \<Longrightarrow> snd r = s"
    "edgesIn (h_vert (snd r) v) = []" "edgesOut (h_vert (snd r) v) = []"
proof -
  define u where "u = snd (unlink_in_edges [] (edgesIn (h_vert s v)) s)"
  define t where "t = snd (unlink_out_edges [] (edgesOut (h_vert u v)) u)"
  have u: "wf_ctx u" "same_shape s u" "edgesIn (h_vert u v) = []"
    "wait_edges u = wait_edges s - {a \<in> wait_edges s. we_seg a = k \<and> we_holder a = vid}"
    using unlink_in_edges_spec [OF assms(1,2) refl] in_edges_view [OF assms(1,2)] by (simp_all add: u_def)
  have iu: "isv u k vid v" using assms(2) same_shape_isv [OF u(2)] by simp
  have t: "wf_ctx t" "same_shape u t" "edgesIn (h_vert t v) = []" "edgesOut (h_vert t v) = []"
    "wait_edges t = wait_edges u - {a \<in> wait_edges u. we_seg a = k \<and> we_waiter a = vid}"
    using unlink_out_edges_spec [OF u(1) iu refl] out_edges_view [OF u(1) iu] u(3) by (simp_all add: t_def)
  have f1: "fst (unlink_in_edges pre es x) \<longleftrightarrow> es \<noteq> []" "es = [] \<Longrightarrow> snd (unlink_in_edges pre es x) = x"
    and f2: "fst (unlink_out_edges pre es x) \<longleftrightarrow> es \<noteq> []" "es = [] \<Longrightarrow> snd (unlink_out_edges pre es x) = x"
    for pre es x by (cases es; simp)+
  have r: "r = (edgesIn (h_vert s v) \<noteq> [] \<or> edgesOut (h_vert u v) \<noteq> [], t)"
    unfolding r_def gddVertUnlinkAll_def t_def u_def Let_def by (simp add: split_beta f1 f2)
  show "wf_ctx (snd r)" "edgesIn (h_vert (snd r) v) = []" "edgesOut (h_vert (snd r) v) = []"
    using t r by simp_all
  show "same_shape s (snd r)" using same_shape_trans [OF u(2) t(2)] r by simp
  show "wait_edges (snd r) = wait_edges s - R" using t(5) u(4) r by (auto simp: R_def)
  show "\<not> fst r \<Longrightarrow> snd r = s" using r f1(2) f2(2) by (auto simp: u_def t_def)
  have "edgesIn (h_vert s v) = [] \<longleftrightarrow> {a \<in> wait_edges s. we_seg a = k \<and> we_holder a = vid} = {}"
    unfolding in_edges_view [OF assms(1,2), symmetric] by simp
  moreover have "edgesOut (h_vert u v) = [] \<longleftrightarrow> {a \<in> wait_edges u. we_seg a = k \<and> we_waiter a = vid} = {}"
    unfolding out_edges_view [OF u(1) iu, symmetric] by simp
  ultimately show "fst r \<longleftrightarrow> R \<noteq> {}" using u(4) r by (auto simp: R_def)
qed

text \<open>Which edges the rules let a visit of the vertex \<open>vid\<close> on segment \<open>k\<close> delete.\<close>

definition doomed :: "wait_edge set \<Rightarrow> uint64 \<Rightarrow> DistributedTransactionId \<Rightarrow> wait_edge set" where
  "doomed S k vid =
     (if (\<forall>f\<in>S. we_holder f \<noteq> vid) \<or> (\<forall>f\<in>S. we_waiter f \<noteq> vid)
      then {a \<in> S. we_seg a = k \<and> (we_holder a = vid \<or> we_waiter a = vid)}
      else if \<forall>f\<in>S. we_seg f = k \<longrightarrow> we_waiter f \<noteq> vid
      then {a \<in> S. we_seg a = k \<and> we_holder a = vid \<and> \<not> we_solid a}
      else {})"

lemma doomed_bad: "a \<in> doomed S k vid \<Longrightarrow> a \<in> S \<and> gdd_bad S a"
  by (auto simp: doomed_def gdd_bad_def split: if_splits)

lemma doomed_empty_stable:
  assumes "\<And>a. a \<in> S \<Longrightarrow> doomed S (we_seg a) (we_waiter a) = {}"
    and "\<And>a. a \<in> S \<Longrightarrow> doomed S (we_seg a) (we_holder a) = {}"
  shows "stable gdd_bad S"
  unfolding stable_def
proof (intro ballI notI)
  fix a assume a: "a \<in> S" "gdd_bad S a"
  have "a \<in> doomed S (we_seg a) (we_waiter a) \<or> a \<in> doomed S (we_seg a) (we_holder a)"
    using a by (auto simp: doomed_def gdd_bad_def)
  with assms a(1) show False by blast
qed

lemma gddVertReduce_spec:
  assumes "wf_ctx s" "isv s k vid v"
  defines "r \<equiv> gddVertReduce v s"
  shows "wf_ctx (snd r)" "same_shape s (snd r)" "\<not> fst r \<Longrightarrow> snd r = s"
    "wait_edges (snd r) = wait_edges s - doomed (wait_edges s) k vid"
    "fst r \<longleftrightarrow> doomed (wait_edges s) k vid \<noteq> {}"
proof -
  let ?g = "h_stat s (vert_global (h_vert s v))" and ?E = "wait_edges s"
  have ine: "edgesIn (h_vert s v) = [] \<longleftrightarrow> {a \<in> ?E. we_seg a = k \<and> we_holder a = vid} = {}"
    and oute: "edgesOut (h_vert s v) = [] \<longleftrightarrow> {a \<in> ?E. we_seg a = k \<and> we_waiter a = vid} = {}"
    unfolding in_edges_view [OF assms(1,2), symmetric] out_edges_view [OF assms(1,2), symmetric] by simp_all
  have deg: "outdeg ?g = int (card {a \<in> ?E. we_waiter a = vid})" "indeg ?g = int (card {a \<in> ?E. we_holder a = vid})"
    if "edgesIn (h_vert s v) \<noteq> [] \<or> edgesOut (h_vert s v) \<noteq> []"
    using that wf_vert [OF assms(1,2)] wf_degrees [OF assms(1)]
    unfolding vert_ok_def degrees_ok_def by blast+
  have isolated': "doomed ?E k vid = {}" "r = (False, s)"
    if "edgesIn (h_vert s v) = []" "edgesOut (h_vert s v) = []"
    using that ine oute
    by (auto simp: doomed_def r_def gddVertReduce_def gddVertUnlinkAll_def Let_def)
  consider (isolated) "edgesIn (h_vert s v) = []" "edgesOut (h_vert s v) = []"
    | (all) "edgesIn (h_vert s v) \<noteq> [] \<or> edgesOut (h_vert s v) \<noteq> []" "indeg ?g = 0 \<or> outdeg ?g = 0"
    | (dotted) "edgesIn (h_vert s v) \<noteq> [] \<or> edgesOut (h_vert s v) \<noteq> []" "\<not> (indeg ?g = 0 \<or> outdeg ?g = 0)"
       "edgesOut (h_vert s v) = []"
    | (none) "edgesIn (h_vert s v) \<noteq> [] \<or> edgesOut (h_vert s v) \<noteq> []" "\<not> (indeg ?g = 0 \<or> outdeg ?g = 0)"
       "edgesOut (h_vert s v) \<noteq> []"
    by blast
  then have "wf_ctx (snd r) \<and> same_shape s (snd r) \<and> (\<not> fst r \<longrightarrow> snd r = s) \<and>
    wait_edges (snd r) = ?E - doomed ?E k vid \<and> (fst r \<longleftrightarrow> doomed ?E k vid \<noteq> {})"
  proof cases
    case isolated
    then show ?thesis using assms(1) isolated' [OF isolated] by simp
  next
    case all
    then have "r = gddVertUnlinkAll v s" by (simp add: r_def gddVertReduce_def Let_def)
    moreover have "doomed ?E k vid = {a \<in> ?E. we_seg a = k \<and> (we_holder a = vid \<or> we_waiter a = vid)}"
      using all(2) deg [OF all(1)] by (auto simp: doomed_def)
    ultimately show ?thesis using gddVertUnlinkAll_spec [OF assms(1,2)] by simp
  next
    case dotted
    then have "r = unlink_dotted_in_edges [] (edgesIn (h_vert s v)) s"
      by (simp add: r_def gddVertReduce_def gddVertGetOutDegree_def Let_def)
    moreover have "edge_view s k ` {e \<in> set (edgesIn (h_vert s v)). \<not> edge_solid (h_edge s e)} =
        {a \<in> edge_view s k ` set (edgesIn (h_vert s v)). \<not> we_solid a}" by auto
    moreover have "doomed ?E k vid = {a \<in> ?E. we_seg a = k \<and> we_holder a = vid \<and> \<not> we_solid a}"
      using dotted(2,3) deg [OF dotted(1)] oute by (auto simp: doomed_def)
    moreover have "(\<exists>e \<in> set (edgesIn (h_vert s v)). \<not> edge_solid (h_edge s e)) \<longleftrightarrow>
        {a \<in> edge_view s k ` set (edgesIn (h_vert s v)). \<not> we_solid a} \<noteq> {}" by auto
    ultimately show ?thesis
      using unlink_dotted_spec [OF assms(1,2), of "[]"] in_edges_view [OF assms(1,2)] by simp
  next
    case none
    then have "r = (False, s)" by (simp add: r_def gddVertReduce_def gddVertGetOutDegree_def Let_def)
    moreover have "doomed ?E k vid = {}"
      using none(2,3) deg [OF none(1)] oute by (auto simp: doomed_def)
    ultimately show ?thesis using assms(1) by simp
  qed
  then show "wf_ctx (snd r)" "same_shape s (snd r)" "\<not> fst r \<Longrightarrow> snd r = s"
    "wait_edges (snd r) = wait_edges s - doomed (wait_edges s) k vid"
    "fst r \<longleftrightarrow> doomed (wait_edges s) k vid \<noteq> {}" by blast+
qed

end
