(* ===== verification/Gdd_Loop.thy ===== *)
theory Gdd_Loop
  imports Gdd_Reduce
begin

text \<open>
  The passes over all vertices, the \<^verbatim>\<open>while (dirty)\<close> loop of \<^verbatim>\<open>GddCtxReduce\<close> and its
  result: the loop ends, and what is left is the core of the wait-for edges.
\<close>

section \<open>Deleting an isolated vertex from its map\<close>

abbreviation vpairs :: "GddCtx \<Rightarrow> nat \<Rightarrow> (uint64 \<times> nat) list" where
  "vpairs s g \<equiv> map_pairs (graph_verts (h_graph s g))"

abbreviation gpairs :: "GddCtx \<Rightarrow> (uint64 \<times> nat) list" where
  "gpairs s \<equiv> map_pairs (graphs s)"

definition drop_vert :: "nat \<Rightarrow> nat \<Rightarrow> GddCtx \<Rightarrow> GddCtx" where
  "drop_vert g pos = upd_graph g (\<lambda>gr. gr\<lparr>graph_verts := gdd_map_iter_delete (graph_verts gr) pos\<rparr>)"

lemma drop_vert_frame [frame_simps]:
  "graphs (drop_vert g pos s) = graphs s" "globals (drop_vert g pos s) = globals s"
  "h_vert (drop_vert g pos s) = h_vert s" "h_edge (drop_vert g pos s) = h_edge s"
  "h_stat (drop_vert g pos s) = h_stat s" "h_next (drop_vert g pos s) = h_next s"
  "topstat (drop_vert g pos s) = topstat s" "edge_view (drop_vert g pos s) = edge_view s"
  "g' \<noteq> g \<Longrightarrow> h_graph (drop_vert g pos s) g' = h_graph s g'"
  "vpairs (drop_vert g pos s) g = butlast ((vpairs s g)[pos := last (vpairs s g)])"
  by (simp_all add: drop_vert_def upd_graph_def edge_view_def fun_eq_iff)

lemma wf_vpairs_keyed:
  assumes "wf_ctx s" "(k, g) \<in> set (gpairs s)"
  shows "distinct (map fst (vpairs s g))" "g < h_next s"
  using wf_maps [OF assms(1)] assms(2) unfolding maps_ok_def map_keyed_def by auto

lemma gpairs_unique:
  assumes "wf_ctx s" "(k, g) \<in> set (gpairs s)" "(j, g') \<in> set (gpairs s)"
  shows "k = j \<longleftrightarrow> g = g'"
proof -
  have "distinct (map fst (gpairs s))" "distinct (map snd (gpairs s))"
    using wf_maps [OF assms(1)] unfolding maps_ok_def map_keyed_def by blast+
  then show ?thesis
    using assms(2,3) distinct_map_fst_unique distinct_map_snd_unique by metis
qed

lemma drop_vert_isv:
  assumes "wf_ctx s" "(k, g) \<in> set (gpairs s)" "pos < length (vpairs s g)"
  shows "isv (drop_vert g pos s) j x w \<longleftrightarrow> isv s j x w \<and> (j = k \<longrightarrow> (x, w) \<noteq> vpairs s g ! pos)"
proof -
  have set: "set (vpairs (drop_vert g pos s) g) = set (vpairs s g) - {vpairs s g ! pos}"
    using distinct_map_swap_delete(3) [OF assms(3) wf_vpairs_keyed(1) [OF assms(1,2)]]
    by (simp add: frame_simps)
  have "(x, w) \<in> set (vpairs (drop_vert g pos s) g') \<longleftrightarrow>
      (x, w) \<in> set (vpairs s g') \<and> (j = k \<longrightarrow> (x, w) \<noteq> vpairs s g ! pos)"
    if "(j, g') \<in> set (gpairs s)" for g'
    using gpairs_unique [OF assms(1,2) that] set by (cases "g' = g") (auto simp: frame_simps)
  then show ?thesis unfolding isv_def frame_simps by blast
qed

lemma drop_vert_spec:
  assumes "wf_ctx s" "(k, g) \<in> set (gpairs s)" "pos < length (vpairs s g)" "vpairs s g ! pos = (vid, v)"
    and "edgesIn (h_vert s v) = []" "edgesOut (h_vert s v) = []"
  shows "wf_ctx (drop_vert g pos s)" "wait_edges (drop_vert g pos s) = wait_edges s"
proof -
  let ?t = "drop_vert g pos s"
  note isv = drop_vert_isv [OF assms(1-3), unfolded assms(4)]
  have "linked ?t = linked s"
    unfolding linked_def isv frame_simps using assms(6) by fastforce
  then show we: "wait_edges ?t = wait_edges s" unfolding wait_edges_def frame_simps by simp
  have "map_keyed (graph_verts (h_graph ?t g'))" if "(j, g') \<in> set (gpairs s)" for j g'
    using distinct_map_swap_delete(1) [OF assms(3) wf_vpairs_keyed(1) [OF assms(1,2)]]
      wf_vpairs_keyed(1) [OF assms(1) that]
    by (cases "g' = g") (simp_all add: map_keyed_def frame_simps)
  then have "maps_ok ?t"
    using wf_maps [OF assms(1)] unfolding maps_ok_def frame_simps isv by blast
  moreover have "vert_ok ?t j x w" if "isv ?t j x w" for j x w
  proof -
    have ok: "vert_ok s j x w" using that isv wf_vert [OF assms(1)] by blast
    have keep: "isv s j y u \<Longrightarrow> edgesIn (h_vert s u) \<noteq> [] \<or> edgesOut (h_vert s u) \<noteq> [] \<Longrightarrow> isv ?t j y u" for y u
      using isv assms(5,6) by auto
    have "\<exists>y. isv ?t j y (edge_to (h_edge s e))" if "e \<in> set (edgesOut (h_vert s w))" for e
      using ok that keep unfolding vert_ok_def by (metis empty_iff list.set(1))
    moreover have "\<exists>y. isv ?t j y (edge_from (h_edge s e))" if "e \<in> set (edgesIn (h_vert s w))" for e
      using ok that keep unfolding vert_ok_def by (metis empty_iff list.set(1))
    ultimately show ?thesis using ok unfolding vert_ok_def frame_simps by simp
  qed
  moreover have "degrees_ok ?t"
    using wf_degrees [OF assms(1)] unfolding degrees_ok_def frame_simps we .
  ultimately show "wf_ctx ?t" unfolding wf_ctx_def by blast
qed

section \<open>A pass over one graph\<close>

definition pass_ok :: "uint64 \<Rightarrow> nat \<Rightarrow> nat \<Rightarrow> bool \<Rightarrow> GddCtx \<Rightarrow> bool \<times> GddCtx \<Rightarrow> bool" where
  "pass_ok k g pos dirty s r \<longleftrightarrow>
     wf_ctx (snd r) \<and> graphs (snd r) = graphs s \<and> (\<forall>g'. g' \<noteq> g \<longrightarrow> h_graph (snd r) g' = h_graph s g') \<and>
     reduces gdd_bad (wait_edges s) (wait_edges (snd r)) \<and>
     (fst r \<longleftrightarrow> dirty \<or> wait_edges (snd r) \<noteq> wait_edges s) \<and>
     (wait_edges (snd r) = wait_edges s \<longrightarrow>
        (\<forall>(x, w) \<in> set (drop pos (vpairs s g)). doomed (wait_edges s) k x = {}))"

lemma gddVertReduce_reduces:
  assumes "wf_ctx s" "isv s k vid v"
  shows "reduces gdd_bad (wait_edges s) (wait_edges (snd (gddVertReduce v s)))"
  unfolding gddVertReduce_spec(4) [OF assms]
  by (rule gdd_rules.reduces_remove_set)
    (auto dest: doomed_bad intro: finite_subset [OF _ finite_wait_edges])

lemma reduces_same: "reduces bad S T \<Longrightarrow> reduces bad T S \<Longrightarrow> S = T"
  by (auto dest: reduces_subset)

lemma pass_step:
  assumes "pass_ok k g pos' (dirty \<or> d) t r"
    and "graphs t = graphs s" "\<And>g'. g' \<noteq> g \<Longrightarrow> h_graph t g' = h_graph s g'"
    and red: "reduces gdd_bad (wait_edges s) (wait_edges t)"
    and d: "d \<longleftrightarrow> wait_edges t \<noteq> wait_edges s"
    and head: "\<not> d \<Longrightarrow> doomed (wait_edges s) k vid = {}"
    and tail: "\<not> d \<Longrightarrow> set (drop pos (vpairs s g)) \<subseteq> insert (vid, v) (set (drop pos' (vpairs t g)))"
  shows "pass_ok k g pos dirty s r"
proof -
  let ?S = "wait_edges s" and ?T = "wait_edges t" and ?R = "wait_edges (snd r)"
  have tr: "reduces gdd_bad ?T ?R" using assms(1) by (simp add: pass_ok_def)
  have same: "?R = ?S \<longleftrightarrow> \<not> d \<and> ?R = ?T"
    using reduces_subset [OF tr] reduces_subset [OF red] d by blast
  have "reduces gdd_bad ?S ?R" using red tr by (rule reduces_trans)
  moreover have "fst r \<longleftrightarrow> dirty \<or> ?R \<noteq> ?S" using assms(1) same by (auto simp: pass_ok_def)
  moreover have "\<forall>(x, w) \<in> set (drop pos (vpairs s g)). doomed ?S k x = {}" if "?R = ?S"
  proof -
    have nd: "\<not> d" and "?R = ?T" using that same by blast+
    then have "\<forall>(x, w) \<in> set (drop pos' (vpairs t g)). doomed ?T k x = {}" "?T = ?S"
      using assms(1) d by (auto simp: pass_ok_def)
    then show ?thesis using head [OF nd] tail [OF nd] by fastforce
  qed
  ultimately show ?thesis using assms(1-3) unfolding pass_ok_def by simp
qed

lemma reduce_verts_spec:
  assumes "wf_ctx s" "(k, g) \<in> set (gpairs s)"
  shows "pass_ok k g pos dirty s (reduce_verts g pos dirty s)"
  using assms
proof (induction g pos dirty s rule: reduce_verts.induct)
  case (1 g pos dirty s)
  show ?case
  proof (cases "pos < length (vpairs s g)")
    case False
    then show ?thesis
      using "1.prems" by (simp add: reduce_verts.simps [of g pos dirty s] pass_ok_def reduces_refl)
  next
    case True
    obtain vid v where nth: "vpairs s g ! pos = (vid, v)" by force
    then have "(vid, v) \<in> set (vpairs s g)" using True by (metis nth_mem)
    then have isv: "isv s k vid v" using "1.prems"(2) unfolding isv_def by blast
    define d t where "d = fst (gddVertReduce v s)" and "t = snd (gddVertReduce v s)"
    note sp = gddVertReduce_spec [OF "1.prems"(1) isv, folded d_def t_def]
    have sh: "graphs t = graphs s" "h_graph t = h_graph s" using sp(2) by (auto simp: same_shape_def)
    have red: "reduces gdd_bad (wait_edges s) (wait_edges t)"
      unfolding t_def by (rule gddVertReduce_reduces [OF "1.prems"(1) isv])
    have dd: "d \<longleftrightarrow> wait_edges t \<noteq> wait_edges s"
      using sp(4,5) by (auto simp: doomed_def split: if_splits)
    have head: "\<not> d \<Longrightarrow> doomed (wait_edges s) k vid = {}" using sp(5) by blast
    let ?iso = "gddVertGetInDegree t v = 0 \<and> gddVertGetOutDegree t v = 0"
    have unf: "reduce_verts g pos dirty s =
        (if ?iso then reduce_verts g pos (dirty \<or> d) (drop_vert g pos t)
         else reduce_verts g (Suc pos) (dirty \<or> d) t)"
      using True nth by (simp add: reduce_verts.simps [of g pos dirty s] Let_def d_def t_def drop_vert_def)
    show ?thesis
    proof (cases ?iso)
      case iso: True
      have pt: "pos < length (vpairs t g)" "vpairs t g ! pos = (vid, v)" "(k, g) \<in> set (gpairs t)"
        using True nth sh "1.prems"(2) by simp_all
      have e: "edgesIn (h_vert t v) = []" "edgesOut (h_vert t v) = []"
        using iso by (simp_all add: gddVertGetInDegree_def gddVertGetOutDegree_def)
      note dr = drop_vert_spec [OF sp(1) pt(3,1,2) e]
      have IH: "pass_ok k g pos (dirty \<or> d) (drop_vert g pos t) (reduce_verts g pos (dirty \<or> d) (drop_vert g pos t))"
        using "1.IH"(1) [OF True refl refl refl refl] iso dr(1) pt(3) nth
        by (simp add: d_def t_def drop_vert_def [symmetric] frame_simps)
      show ?thesis
        unfolding unf if_P [OF iso]
      proof (rule pass_step [OF IH])
        show "set (drop pos (vpairs s g)) \<subseteq> insert (vid, v) (set (drop pos (vpairs (drop_vert g pos t) g)))"
          using set_drop_swap_delete [OF True] nth sh by (simp add: frame_simps)
      qed (use sh red dd head dr in \<open>auto simp: frame_simps\<close>)
    next
      case niso: False
      have IH: "pass_ok k g (Suc pos) (dirty \<or> d) t (reduce_verts g (Suc pos) (dirty \<or> d) t)"
        using "1.IH"(2) [OF True refl refl refl refl] niso sp(1) sh "1.prems"(2) nth
        by (simp add: d_def t_def)
      show ?thesis
        unfolding unf if_not_P [OF niso]
      proof (rule pass_step [OF IH])
        show "set (drop pos (vpairs s g)) \<subseteq> insert (vid, v) (set (drop (Suc pos) (vpairs t g)))"
          using True nth sh by (simp add: Cons_nth_drop_Suc [symmetric])
      qed (use sh red dd head in auto)
    qed
  qed
qed

section \<open>A pass over all graphs and the loop\<close>

lemma reduce_graphs_spec:
  fixes dirty :: bool
  assumes "wf_ctx s" "set ps \<subseteq> set (gpairs s)" "distinct (map snd ps)"
  defines "r \<equiv> reduce_graphs ps dirty s"
  shows "wf_ctx (snd r) \<and> graphs (snd r) = graphs s \<and>
    reduces gdd_bad (wait_edges s) (wait_edges (snd r)) \<and>
    (fst r \<longleftrightarrow> dirty \<or> wait_edges (snd r) \<noteq> wait_edges s) \<and>
    (wait_edges (snd r) = wait_edges s \<longrightarrow>
       (\<forall>(k, g) \<in> set ps. \<forall>(x, w) \<in> set (vpairs s g). doomed (wait_edges s) k x = {}))"
  using assms(1-3) unfolding r_def
proof (induction ps arbitrary: dirty s)
  case Nil
  then show ?case by (simp add: reduces_refl)
next
  case (Cons p ps)
  obtain k g where p: "p = (k, g)" by (cases p)
  define d t where "d = fst (reduce_verts g 0 dirty s)" and "t = snd (reduce_verts g 0 dirty s)"
  have "pass_ok k g 0 dirty s (reduce_verts g 0 dirty s)"
    using Cons.prems(1,2) p by (intro reduce_verts_spec) auto
  then have v: "wf_ctx t" "graphs t = graphs s" "\<And>g'. g' \<noteq> g \<Longrightarrow> h_graph t g' = h_graph s g'"
    "reduces gdd_bad (wait_edges s) (wait_edges t)" "d \<longleftrightarrow> dirty \<or> wait_edges t \<noteq> wait_edges s"
    "wait_edges t = wait_edges s \<Longrightarrow> \<forall>(x, w) \<in> set (vpairs s g). doomed (wait_edges s) k x = {}"
    by (simp_all add: pass_ok_def d_def t_def)
  let ?r = "reduce_graphs ps d t"
  have IH: "wf_ctx (snd ?r) \<and> graphs (snd ?r) = graphs t \<and> reduces gdd_bad (wait_edges t) (wait_edges (snd ?r)) \<and>
    (fst ?r \<longleftrightarrow> d \<or> wait_edges (snd ?r) \<noteq> wait_edges t) \<and>
    (wait_edges (snd ?r) = wait_edges t \<longrightarrow>
       (\<forall>(k, g) \<in> set ps. \<forall>(x, w) \<in> set (vpairs t g). doomed (wait_edges t) k x = {}))"
    using Cons.prems v(1,2) by (intro Cons.IH) auto
  have other: "vpairs t g' = vpairs s g'" if "(k', g') \<in> set ps" for k' g'
    using that Cons.prems(3) p v(3) [of g'] by (force simp: image_iff)
  have same: "wait_edges (snd ?r) = wait_edges s \<longleftrightarrow> wait_edges t = wait_edges s \<and> wait_edges (snd ?r) = wait_edges t"
    using reduces_subset [OF v(4)] IH reduces_subset [of gdd_bad "wait_edges t"] by blast
  have red: "reduces gdd_bad (wait_edges s) (wait_edges (snd ?r))"
    using reduces_trans [OF v(4)] IH by blast
  have quiet: "\<forall>(k', g') \<in> set (p # ps). \<forall>(x, w) \<in> set (vpairs s g'). doomed (wait_edges s) k' x = {}"
    if "wait_edges (snd ?r) = wait_edges s"
    using that same IH v(6) other p by fastforce
  have f: "fst ?r \<longleftrightarrow> dirty \<or> wait_edges (snd ?r) \<noteq> wait_edges s" using IH v(5) same by blast
  have wf: "wf_ctx (snd ?r)" and gr: "graphs (snd ?r) = graphs s" using IH v(2) by simp_all
  have eq: "reduce_graphs (p # ps) dirty s = ?r" by (simp add: p d_def t_def split_beta Let_def)
  show ?case unfolding eq by (intro conjI impI wf gr red f quiet)
qed

lemma reduce_pass_stable:
  assumes "wf_ctx s" "\<not> fst (reduce_graphs (gpairs s) False s)"
  defines "t \<equiv> snd (reduce_graphs (gpairs s) False s)"
  shows "wait_edges t = wait_edges s" "stable gdd_bad (wait_edges t)"
proof -
  have "distinct (map snd (gpairs s))" using wf_maps [OF assms(1)] by (simp add: maps_ok_def)
  note sp = reduce_graphs_spec [OF assms(1) subset_refl this, of False, folded t_def]
  with assms(2) show eq: "wait_edges t = wait_edges s" by blast
  have quiet: "doomed (wait_edges s) k x = {}" if "isv s k x w" for k x w
    using sp eq that unfolding isv_def by fastforce
  show "stable gdd_bad (wait_edges t)"
    unfolding eq
  proof (rule doomed_empty_stable)
    fix a assume a: "a \<in> wait_edges s"
    from assms(1) a obtain v w where "isv s (we_seg a) (we_waiter a) v" "isv s (we_seg a) (we_holder a) w"
      by (rule wait_edgesE)
    then show "doomed (wait_edges s) (we_seg a) (we_waiter a) = {}"
      and "doomed (wait_edges s) (we_seg a) (we_holder a) = {}" by (auto dest: quiet)
  qed
qed

lemma GddCtxReduce_spec:
  "wf_ctx s \<Longrightarrow> \<exists>t. GddCtxReduce s = Some t \<and> wf_ctx t \<and> graphs t = graphs s \<and>
     wait_edges t = gdd_core (wait_edges s)"
proof (induction "card (wait_edges s)" arbitrary: s rule: less_induct)
  case less
  define d t where "d = fst (reduce_graphs (gpairs s) False s)" and "t = snd (reduce_graphs (gpairs s) False s)"
  have unf: "GddCtxReduce s = (if d then GddCtxReduce t else Some t)"
    by (subst GddCtxReduce.simps) (simp add: d_def t_def split_beta Let_def)
  have "distinct (map snd (gpairs s))" using wf_maps [OF less.prems] by (simp add: maps_ok_def)
  note sp = reduce_graphs_spec [OF less.prems subset_refl this, of False, folded d_def t_def]
  have core: "gdd_core (wait_edges t) = gdd_core (wait_edges s)"
    using sp gdd_rules.reduces_core by blast
  show ?case
  proof (cases d)
    case True
    then have "wait_edges t \<subset> wait_edges s" using sp reduces_subset by blast
    then have "card (wait_edges t) < card (wait_edges s)" by (simp add: psubset_card_mono)
    with less.hyps [of t] sp core True unf show ?thesis by auto
  next
    case False
    then have "stable gdd_bad (wait_edges t)"
      using reduce_pass_stable [OF less.prems] by (simp add: d_def t_def)
    then show ?thesis using False unf sp core stable_core_self [of gdd_bad "wait_edges t"] by auto
  qed
qed

end
