(* ===== verification/Gdd_Build.thy ===== *)
theory Gdd_Build
  imports Gdd_Loop
begin

text \<open>
  Building the wait graph: each creation step of \<^verbatim>\<open>GddCtxAddEdge\<close> keeps the invariant and
  the edges, and linking adds exactly the new edge.
\<close>

section \<open>Steps that allocate but link nothing\<close>

lemma wf_grow:
  assumes wf: "wf_ctx s" and maps: "maps_ok t" and nxt: "h_next s \<le> h_next t"
    and edge: "\<And>e. e < h_next s \<Longrightarrow> h_edge t e = h_edge s e"
    and vert: "\<And>v. v < h_next s \<Longrightarrow> vert_id (h_vert t v) = vert_id (h_vert s v) \<and>
        edgesIn (h_vert t v) = edgesIn (h_vert s v) \<and> edgesOut (h_vert t v) = edgesOut (h_vert s v)"
    and top: "topstat t = topstat s"
    and isv_old: "\<And>k vid v. isv s k vid v \<Longrightarrow> isv t k vid v"
    and isv_new: "\<And>k vid v. isv t k vid v \<Longrightarrow> \<not> isv s k vid v \<Longrightarrow>
        v < h_next t \<and> vert_id (h_vert t v) = vid \<and> edgesIn (h_vert t v) = [] \<and> edgesOut (h_vert t v) = []"
    and bound: "\<And>k vid v. isv s k vid v \<Longrightarrow> edgesIn (h_vert s v) \<noteq> [] \<or> edgesOut (h_vert s v) \<noteq> [] \<Longrightarrow>
        gl t vid (vert_global (h_vert t v))"
    and stat: "\<And>vid p. gl t vid p \<Longrightarrow> gl s vid p \<and> h_stat t p = h_stat s p \<or>
        (\<forall>q. \<not> gl s vid q) \<and> indeg (h_stat t p) = 0 \<and> outdeg (h_stat t p) = 0"
  shows "wf_ctx t" "wait_edges t = wait_edges s"
proof -
  have lt: "e < h_next s" if "(k, e) \<in> linked s" for k e
    using that wf_out_edge(3) [OF wf] by (blast elim: linkedE)
  have out: "edgesOut (h_vert t v) = edgesOut (h_vert s v)" if "isv s k vid v" for k vid v
    using vert [OF wf_vert_lt [OF wf that]] by blast
  have "linked t = linked s"
  proof (intro set_eqI iffI)
    fix a assume "a \<in> linked t"
    then obtain k e vid v where a: "a = (k, e)" "isv t k vid v" "e \<in> set (edgesOut (h_vert t v))"
      unfolding linked_def by blast
    then have "isv s k vid v" using isv_new [OF a(2)] by fastforce
    then show "a \<in> linked s" using a out by (simp add: linkedI)
  next
    fix a assume "a \<in> linked s"
    then obtain k e vid v where "a = (k, e)" "isv s k vid v" "e \<in> set (edgesOut (h_vert s v))"
      unfolding linked_def by blast
    then show "a \<in> linked t" using isv_old out by (metis linkedI)
  qed
  moreover have "edge_view t k e = edge_view s k e" if "(k, e) \<in> linked s" for k e
  proof -
    from that obtain vid v where v: "isv s k vid v" "e \<in> set (edgesOut (h_vert s v))" by (rule linkedE)
    note o = wf_out_edge [OF wf v]
    have "edge_from (h_edge s e) < h_next s" "edge_to (h_edge s e) < h_next s"
      using o(1,5) v(1) wf_vert_lt [OF wf] by auto
    then show ?thesis using edge [OF o(3)] vert by (simp add: edge_view_def)
  qed
  ultimately show we: "wait_edges t = wait_edges s"
    unfolding wait_edges_def by (auto intro!: image_cong)
  have none: "{a \<in> wait_edges s. we_waiter a = vid} = {}" "{a \<in> wait_edges s. we_holder a = vid} = {}"
    if "\<forall>q. \<not> gl s vid q" for vid
  proof -
    have "\<not> isv s k vid v \<or> edgesIn (h_vert s v) = [] \<and> edgesOut (h_vert s v) = []" for k v
      using that wf_vert [OF wf, of k vid v] unfolding vert_ok_def by blast
    then have "we_waiter a \<noteq> vid \<and> we_holder a \<noteq> vid" if "a \<in> wait_edges s" for a
      using wait_edgesE [OF wf that] by (metis empty_iff list.set(1))
    then show "{a \<in> wait_edges s. we_waiter a = vid} = {}" "{a \<in> wait_edges s. we_holder a = vid} = {}"
      by blast+
  qed
  have "degrees_ok t"
    unfolding degrees_ok_def we top
  proof (intro conjI allI impI)
    fix vid p assume p: "gl t vid p"
    have "outdeg (h_stat t p) = int (card {a \<in> wait_edges s. we_waiter a = vid}) \<and>
       indeg (h_stat t p) = int (card {a \<in> wait_edges s. we_holder a = vid})"
    proof (cases "gl s vid p \<and> h_stat t p = h_stat s p")
      case True
      then show ?thesis using wf_degrees [OF wf] unfolding degrees_ok_def by simp
    next
      case False
      then have n: "\<forall>q. \<not> gl s vid q" "indeg (h_stat t p) = 0" "outdeg (h_stat t p) = 0"
        using stat [OF p] by blast+
      show ?thesis unfolding none [OF n(1)] n(2,3) by simp
    qed
    then show "outdeg (h_stat t p) = int (card {a \<in> wait_edges s. we_waiter a = vid})"
      and "indeg (h_stat t p) = int (card {a \<in> wait_edges s. we_holder a = vid})" by simp_all
  qed (use wf_degrees [OF wf] in \<open>simp_all add: degrees_ok_def\<close>)
  moreover have "vert_ok t k vid v" if "isv t k vid v" for k vid v
  proof (cases "isv s k vid v")
    case True
    note ok = wf_vert [OF wf True, unfolded vert_ok_def]
    have v: "v < h_next s" using ok by blast
    have o: "e < h_next t \<and> edge_from (h_edge t e) = v \<and> (\<exists>x. isv t k x (edge_to (h_edge t e))) \<and>
        e \<in> set (edgesIn (h_vert t (edge_to (h_edge t e))))" if "e \<in> set (edgesOut (h_vert s v))" for e
    proof -
      note w = wf_out_edge [OF wf True that]
      from w(5) obtain x where x: "isv s k x (edge_to (h_edge s e))" by blast
      show ?thesis
        using w(1,3,4) isv_old [OF x] vert [OF wf_vert_lt [OF wf x]] nxt edge [OF w(3)] by auto
    qed
    have i: "e < h_next t \<and> edge_to (h_edge t e) = v \<and> (\<exists>x. isv t k x (edge_from (h_edge t e))) \<and>
        e \<in> set (edgesOut (h_vert t (edge_from (h_edge t e))))" if "e \<in> set (edgesIn (h_vert s v))" for e
    proof -
      note w = wf_in_edge [OF wf True that]
      from w(5) obtain x where x: "isv s k x (edge_from (h_edge s e))" by blast
      show ?thesis
        using w(1,3,4) isv_old [OF x] vert [OF wf_vert_lt [OF wf x]] nxt edge [OF w(3)] by auto
    qed
    have "distinct (edgesIn (h_vert s v))" "distinct (edgesOut (h_vert s v))" "vert_id (h_vert s v) = vid"
      using ok by blast+
    then show ?thesis
      unfolding vert_ok_def using vert [OF v] bound [OF True] o i v nxt by simp
  next
    case False
    then show ?thesis using isv_new [OF that] by (simp add: vert_ok_def)
  qed
  ultimately show "wf_ctx t" unfolding wf_ctx_def using maps by blast
qed

lemma wf_bound:
  assumes "wf_ctx s" "isv s k vid v" "edgesIn (h_vert s v) \<noteq> [] \<or> edgesOut (h_vert s v) \<noteq> []"
  shows "gl s vid (vert_global (h_vert s v))"
  using wf_vert [OF assms(1,2)] assms(3) unfolding vert_ok_def by blast

lemma wf_grow_same:
  assumes wf: "wf_ctx s" and "maps_ok t" "h_next s \<le> h_next t" "topstat t = topstat s"
    and vert: "h_vert t = h_vert s" and isv: "isv t = isv s" and glob: "globals t = globals s"
    and "h_stat t = h_stat s" "\<And>e. e < h_next s \<Longrightarrow> h_edge t e = h_edge s e"
  shows "wf_ctx t \<and> wait_edges t = wait_edges s"
proof -
  show ?thesis
    using wf_grow [OF wf assms(2,3), OF assms(9)] assms(4-8) wf_bound [OF wf] by simp
qed

lemma gddMapGet_Some: "gddMapGet m k = Some p \<Longrightarrow> (k, p) \<in> set (map_pairs m)"
  by (simp add: gddMapGet_map_of map_of_SomeD)

lemma gddMapGet_None: "gddMapGet m k = None \<Longrightarrow> k \<notin> fst ` set (map_pairs m)"
  by (simp add: gddMapGet_map_of map_of_eq_None_iff)

lemma maps_ok_lt:
  assumes "maps_ok s"
  shows "(k, g) \<in> set (gpairs s) \<Longrightarrow> g < h_next s" "gl s vid p \<Longrightarrow> p < h_next s"
  using assms unfolding maps_ok_def by auto

lemma gddCtxGetGraph_spec:
  fixes segid
  assumes wf: "wf_ctx s"
  defines "g \<equiv> fst (gddCtxGetGraph s segid)" and "t \<equiv> snd (gddCtxGetGraph s segid)"
  shows "wf_ctx t" "wait_edges t = wait_edges s" "(seg_key segid, g) \<in> set (gpairs t)"
proof -
  have "wf_ctx t \<and> wait_edges t = wait_edges s \<and> (seg_key segid, g) \<in> set (gpairs t)"
  proof (cases "gddMapGet (graphs s) (seg_key segid)")
    case (Some g')
    then show ?thesis
      using wf by (simp add: g_def t_def gddCtxGetGraph_def gddMapGet_Some)
  next
    case None
    then have t: "t = s\<lparr>h_graph := (h_graph s)(h_next s := \<lparr>graph_id = segid, graph_verts = gddMapInit\<rparr>),
        h_next := h_next s + 1, graphs := gddMapSetUnsafe (graphs s) (seg_key segid) (h_next s)\<rparr>"
      and g: "g = h_next s"
      by (simp_all add: g_def t_def gddCtxGetGraph_def gddGraphNew_def Let_def)
    note m = wf_maps [OF wf]
    have old: "h_graph t g' = h_graph s g'" if "(k, g') \<in> set (gpairs s)" for k g'
      using maps_ok_lt(1) [OF m that] t by simp
    have gp: "gpairs t = gpairs s @ [(seg_key segid, h_next s)]" using t by simp
    have new: "vpairs t (h_next s) = []" using t by simp
    have isv: "isv t = isv s"
      unfolding isv_def fun_eq_iff gp using old new by auto
    have "map_keyed (graphs t)"
      using gdd_table.keyed_set [OF _ None] m t by (simp add: maps_ok_def)
    moreover have "distinct (map snd (gpairs t))"
      using m maps_ok_lt(1) [OF m] unfolding gp by (fastforce simp: maps_ok_def)
    moreover have "g' < h_next t \<and> map_keyed (graph_verts (h_graph t g'))" if "(k, g') \<in> set (gpairs t)" for k g'
      using that m old t unfolding gp by (fastforce simp: maps_ok_def map_keyed_def)
    ultimately have "maps_ok t"
      using m t unfolding maps_ok_def isv by fastforce
    then have "wf_ctx t \<and> wait_edges t = wait_edges s"
      by (intro wf_grow_same [OF wf _ _ _ _ isv]) (simp_all add: t)
    then show ?thesis using gp g by simp
  qed
  then show "wf_ctx t" "wait_edges t = wait_edges s" "(seg_key segid, g) \<in> set (gpairs t)" by blast+
qed

lemma gddGraphGetVert_spec:
  fixes vid
  assumes wf: "wf_ctx s" and g: "(k, g) \<in> set (gpairs s)"
  defines "v \<equiv> fst (gddGraphGetVert s g vid)" and "t \<equiv> snd (gddGraphGetVert s g vid)"
  shows "wf_ctx t" "wait_edges t = wait_edges s" "isv t k vid v" "graphs t = graphs s"
    and "isv s k' x w \<Longrightarrow> isv t k' x w"
proof -
  have "wf_ctx t \<and> wait_edges t = wait_edges s \<and> isv t k vid v \<and> graphs t = graphs s \<and>
      (\<forall>k x w. isv s k x w \<longrightarrow> isv t k x w)"
  proof (cases "gddMapGet (graph_verts (h_graph s g)) vid")
    case (Some w)
    then have "isv s k vid v" "t = s"
      using g gddMapGet_Some [OF Some] by (auto simp: isv_def v_def t_def gddGraphGetVert_def)
    then show ?thesis using wf by simp
  next
    case None
    let ?n = "h_next s"
    have t: "h_graph t = (h_graph s)(g := (h_graph s g)\<lparr>graph_verts :=
          gddMapSetUnsafe (graph_verts (h_graph s g)) vid ?n\<rparr>)"
        "h_vert t = (h_vert s)(?n := \<lparr>vert_id = vid, vert_global = 0, edgesIn = [], edgesOut = []\<rparr>)"
        "h_next t = ?n + 1" "graphs t = graphs s" "globals t = globals s" "h_edge t = h_edge s"
        "h_stat t = h_stat s" "topstat t = topstat s"
      and v: "v = ?n"
      using None by (simp_all add: v_def t_def gddGraphGetVert_def gddVertNew_def upd_graph_def)
    note m = wf_maps [OF wf] and lt = wf_vert_lt [OF wf]
    have isv: "isv t k' x w \<longleftrightarrow> isv s k' x w \<or> k' = k \<and> x = vid \<and> w = ?n" for k' x w
    proof -
      have "(x, w) \<in> set (vpairs t g') \<longleftrightarrow> (x, w) \<in> set (vpairs s g') \<or> g' = g \<and> x = vid \<and> w = ?n" for g'
        by (auto simp: t)
      then show ?thesis using g gpairs_unique [OF wf g, of k'] unfolding isv_def t(4) by blast
    qed
    have "map_keyed (graph_verts (h_graph t g))"
      using gdd_table.keyed_set [OF _ None] m g t(1) by (auto simp: maps_ok_def)
    then have "g' < h_next t \<and> map_keyed (graph_verts (h_graph t g'))" if "(k', g') \<in> set (gpairs s)" for k' g'
      using that m t(1,3) by (cases "g' = g") (auto simp: maps_ok_def)
    moreover have "k1 = k2" if "isv t k1 x1 w" "isv t k2 x2 w" for k1 k2 x1 x2 w
      using that isv_same_seg [OF m] lt unfolding isv by blast
    ultimately have "maps_ok t"
      using m t(3-5) unfolding maps_ok_def by fastforce
    then have "wf_ctx t \<and> wait_edges t = wait_edges s"
      using wf_bound [OF wf] lt by (intro conjI wf_grow [OF wf]; fastforce simp: isv t)
    then show ?thesis using v t(4) by (simp add: isv)
  qed
  then show "wf_ctx t" "wait_edges t = wait_edges s" "isv t k vid v" "graphs t = graphs s"
    and "isv s k' x w \<Longrightarrow> isv t k' x w" by blast+
qed

lemma maps_ok_mono:
  assumes "maps_ok s" "graphs t = graphs s" "h_graph t = h_graph s" "globals t = globals s" "h_next s \<le> h_next t"
  shows "maps_ok t"
proof -
  have isv: "isv t = isv s" using assms by (simp add: fun_eq_iff isv_def)
  have "g < h_next t" if "(k, g) \<in> set (gpairs s)" for k g using maps_ok_lt(1) [OF assms(1) that] assms(5) by simp
  moreover have "q < h_next t" if "gl s x q" for x q using maps_ok_lt(2) [OF assms(1) that] assms(5) by simp
  ultimately show ?thesis using assms(1) unfolding maps_ok_def isv assms(2-4) by fast
qed

lemma wait_edge_lt:
  assumes "wf_ctx s" "a \<in> wait_edges s"
  shows "we_id a < h_next s"
  using assms by (rule wait_edgesE) (rule wf_out_edge(3) [OF assms(1)])

lemma gddEdgeNew_spec:
  fixes v w sld
  assumes wf: "wf_ctx s"
  defines "e \<equiv> fst (gddEdgeNew v w sld s)" and "t \<equiv> snd (gddEdgeNew v w sld s)"
  shows "wf_ctx t" "wait_edges t = wait_edges s" "isv t = isv s" "graphs t = graphs s"
    and "h_edge t e = \<lparr>edge_solid = sld, edge_from = v, edge_to = w\<rparr>" "e < h_next t"
    and "a \<in> wait_edges s \<Longrightarrow> we_id a \<noteq> e"
proof -
  have isv: "isv t = isv s" by (simp add: fun_eq_iff isv_def t_def gddEdgeNew_def)
  have "maps_ok t"
    by (rule maps_ok_mono [OF wf_maps [OF wf]]) (simp_all add: t_def gddEdgeNew_def)
  then have "wf_ctx t \<and> wait_edges t = wait_edges s"
    by (intro wf_grow_same [OF wf _ _ _ _ isv]) (simp_all add: t_def gddEdgeNew_def)
  then show "wf_ctx t" "wait_edges t = wait_edges s" by blast+
  assume "a \<in> wait_edges s"
  then show "we_id a \<noteq> e"
    using wait_edge_lt [OF wf] by (fastforce simp: e_def gddEdgeNew_def)
qed (simp_all add: e_def t_def gddEdgeNew_def fun_eq_iff isv_def)

lemma gddCtxGetGlobalStat_spec:
  fixes vid
  assumes wf: "wf_ctx s"
  defines "p \<equiv> fst (gddCtxGetGlobalStat s vid)" and "t \<equiv> snd (gddCtxGetGlobalStat s vid)"
  shows "wf_ctx t" "wait_edges t = wait_edges s" "gl t vid p" "isv t = isv s" "h_edge t = h_edge s"
    and "h_vert t = h_vert s" "h_next s \<le> h_next t" "gl s x q \<Longrightarrow> gl t x q"
proof -
  have isv: "isv t = isv s"
    by (simp add: fun_eq_iff isv_def t_def gddCtxGetGlobalStat_def gddStatNew_def split: option.splits)
  have "wf_ctx t \<and> wait_edges t = wait_edges s \<and> gl t vid p \<and> (\<forall>x q. gl s x q \<longrightarrow> gl t x q)"
  proof (cases "gddMapGet (globals s) vid")
    case (Some q)
    then show ?thesis
      using wf gddMapGet_Some [OF Some] by (simp add: p_def t_def gddCtxGetGlobalStat_def)
  next
    case None
    let ?n = "h_next s"
    have t: "h_graph t = h_graph s" "h_vert t = h_vert s" "h_next t = ?n + 1" "graphs t = graphs s"
        "globals t = gddMapSetUnsafe (globals s) vid ?n" "h_edge t = h_edge s"
        "h_stat t = (h_stat s)(?n := gddStatInit vid)" "topstat t = topstat s" and p: "p = ?n"
      using None by (simp_all add: p_def t_def gddCtxGetGlobalStat_def gddStatNew_def)
    note m = wf_maps [OF wf]
    have glt: "gl t x q \<longleftrightarrow> gl s x q \<or> x = vid \<and> q = ?n" for x q using t(5) by auto
    have "map_keyed (globals t)"
      using gdd_table.keyed_set [OF _ None] m t(5) by (simp add: maps_ok_def)
    moreover have "distinct (map snd (map_pairs (globals t)))"
      using m maps_ok_lt(2) [OF m] unfolding t(5) by (fastforce simp: maps_ok_def)
    moreover have "q < h_next t" if "gl t x q" for x q
      using that maps_ok_lt(2) [OF m] t(3) unfolding glt by fastforce
    ultimately have "maps_ok t"
      using m t(1,3,4) isv unfolding maps_ok_def by fastforce
    moreover have "\<not> gl s vid q" for q
      using gddMapGet_None [OF None] by force
    ultimately have "wf_ctx t \<and> wait_edges t = wait_edges s"
      using wf_bound [OF wf] maps_ok_lt(2) [OF m]
      by (intro conjI wf_grow [OF wf]; fastforce simp: isv glt t gddStatInit_def)
    then show ?thesis using p by (simp add: glt)
  qed
  then show "wf_ctx t" "wait_edges t = wait_edges s" "gl t vid p" "gl s x q \<Longrightarrow> gl t x q" by blast+
  show "isv t = isv s" by (fact isv)
qed (simp_all add: t_def gddCtxGetGlobalStat_def gddStatNew_def split: option.splits)

lemma gddVertBindStats_spec:
  fixes v p
  assumes wf: "wf_ctx s" and v: "isv s k vid v" and p: "gl s vid p"
  defines "t \<equiv> gddVertBindStats v p s"
  shows "wf_ctx t" "wait_edges t = wait_edges s" "isv t = isv s" "h_edge t = h_edge s"
    and "h_next t = h_next s" "globals t = globals s" "vert_global (h_vert t v) = p"
    and "w \<noteq> v \<Longrightarrow> vert_global (h_vert t w) = vert_global (h_vert s w)"
proof -
  have t: "h_graph t = h_graph s" "h_vert t = (h_vert s)(v := (h_vert s v)\<lparr>vert_global := p\<rparr>)"
    "h_next t = h_next s" "graphs t = graphs s" "globals t = globals s" "h_edge t = h_edge s"
    "h_stat t = h_stat s" "topstat t = topstat s"
    by (simp_all add: t_def gddVertBindStats_def upd_vert_def)
  then have isv: "isv t = isv s" by (simp add: fun_eq_iff isv_def)
  have "maps_ok t" by (rule maps_ok_mono [OF wf_maps [OF wf]]) (simp_all add: t)
  moreover have "gl t x (vert_global (h_vert t w))"
    if "isv s j x w" "edgesIn (h_vert s w) \<noteq> [] \<or> edgesOut (h_vert s w) \<noteq> []" for j x w
    using wf_bound [OF wf that] wf_vid [OF wf that(1)] wf_vid [OF wf v] p t(2,5) by auto
  ultimately show "wf_ctx t" "wait_edges t = wait_edges s"
    by (intro wf_grow [OF wf]; simp add: isv t)+
  show "isv t = isv s" by (fact isv)
  show "h_edge t = h_edge s" "h_next t = h_next s" "globals t = globals s"
    "vert_global (h_vert t v) = p" "w \<noteq> v \<Longrightarrow> vert_global (h_vert t w) = vert_global (h_vert s w)"
    using t by simp_all
qed

section \<open>Linking\<close>

lemma gddEdgeLink_fields [heap_simps]:
  fixes e s
  defines "f \<equiv> edge_from (h_edge s e)" and "w \<equiv> edge_to (h_edge s e)"
  shows "edgesOut (h_vert (gddEdgeLink e s) v) = edgesOut (h_vert s v) @ (if v = f then [e] else [])"
    and "edgesIn (h_vert (gddEdgeLink e s) v) = edgesIn (h_vert s v) @ (if v = w then [e] else [])"
    and "vert_id (h_vert (gddEdgeLink e s) v) = vert_id (h_vert s v)"
    and "vert_global (h_vert (gddEdgeLink e s) v) = vert_global (h_vert s v)"
    and "outdeg (h_stat (gddEdgeLink e s) p) = outdeg (h_stat s p) + (if p = vert_global (h_vert s f) then 1 else 0)"
    and "indeg (h_stat (gddEdgeLink e s) p) = indeg (h_stat s p) + (if p = vert_global (h_vert s w) then 1 else 0)"
    and "outdeg (topstat (gddEdgeLink e s)) = outdeg (topstat s) + 1"
    and "indeg (topstat (gddEdgeLink e s)) = indeg (topstat s) + 1"
  by (simp_all add: f_def w_def gddEdgeLink_def Let_def upd_stat_def upd_vert_def)

lemma gddEdgeLink_frame [frame_simps]:
  "graphs (gddEdgeLink e s) = graphs s" "globals (gddEdgeLink e s) = globals s"
  "h_graph (gddEdgeLink e s) = h_graph s" "h_edge (gddEdgeLink e s) = h_edge s"
  "h_next (gddEdgeLink e s) = h_next s"
  by (simp_all add: gddEdgeLink_def Let_def upd_stat_def upd_vert_def)

lemma gddEdgeLink_isv [frame_simps]: "isv (gddEdgeLink e s) = isv s"
  by (simp add: isv_def fun_eq_iff frame_simps)

lemma gddEdgeLink_wait_edges:
  assumes wf: "wf_ctx s" and f: "isv s k x (edge_from (h_edge s e))"
  shows "wait_edges (gddEdgeLink e s) = insert (edge_view s k e) (wait_edges s)"
proof -
  have "linked (gddEdgeLink e s) = insert (k, e) (linked s)"
  proof (intro set_eqI iffI)
    fix a assume "a \<in> linked (gddEdgeLink e s)"
    then obtain j d y v where a: "a = (j, d)" "isv s j y v" "d \<in> set (edgesOut (h_vert (gddEdgeLink e s) v))"
      unfolding linked_def frame_simps by blast
    show "a \<in> insert (k, e) (linked s)"
    proof (cases "d \<in> set (edgesOut (h_vert s v))")
      case False
      then have "v = edge_from (h_edge s e)" "d = e" using a(3) by (auto simp: heap_simps split: if_splits)
      then show ?thesis using isv_same_seg [OF wf_maps [OF wf] f] a(1,2) by blast
    qed (use a(1,2) linkedI in blast)
  next
    fix a assume "a \<in> insert (k, e) (linked s)"
    then consider "a = (k, e)" | j d y v where "a = (j, d)" "isv s j y v" "d \<in> set (edgesOut (h_vert s v))"
      unfolding linked_def by blast
    then show "a \<in> linked (gddEdgeLink e s)"
      by cases (use f in \<open>auto simp: linked_def frame_simps heap_simps\<close>)
  qed
  moreover have "edge_view (gddEdgeLink e s) = edge_view s"
    by (simp add: fun_eq_iff edge_view_def frame_simps heap_simps)
  ultimately show ?thesis by (simp add: wait_edges_def)
qed

lemma gddEdgeLink_degrees:
  assumes wf: "wf_ctx s" and f: "isv s k x (edge_from (h_edge s e))" and w: "isv s k y (edge_to (h_edge s e))"
    and glf: "gl s x (vert_global (h_vert s (edge_from (h_edge s e))))"
    and glw: "gl s y (vert_global (h_vert s (edge_to (h_edge s e))))"
    and fresh: "\<And>a. a \<in> wait_edges s \<Longrightarrow> we_id a \<noteq> e"
  shows "degrees_ok (gddEdgeLink e s)"
proof -
  note we = gddEdgeLink_wait_edges [OF wf f]
  have new: "edge_view s k e \<notin> wait_edges s" using fresh by fastforce
  have ids: "we_waiter (edge_view s k e) = x" "we_holder (edge_view s k e) = y"
    using wf_vid [OF wf f] wf_vid [OF wf w] by simp_all
  note old = wf_degrees [OF wf, unfolded degrees_ok_def] and m = wf_maps [OF wf]
  have eqs: "p = vert_global (h_vert s (edge_from (h_edge s e))) \<longleftrightarrow> x = vid"
    "p = vert_global (h_vert s (edge_to (h_edge s e))) \<longleftrightarrow> y = vid" if "gl s vid p" for vid p
    using that glf glw gl_unique [OF m] gl_inj [OF m] by blast+
  show ?thesis
    unfolding degrees_ok_def frame_simps we heap_simps
  proof (intro conjI allI impI)
    fix vid p assume p: "gl s vid p"
    note o = old [THEN conjunct2, THEN conjunct2, rule_format, OF p]
    show "outdeg (h_stat s p) + (if p = vert_global (h_vert s (edge_from (h_edge s e))) then 1 else 0) =
        int (card {a \<in> insert (edge_view s k e) (wait_edges s). we_waiter a = vid})"
      unfolding card_filter_insert [OF finite_wait_edges new] eqs [OF p] ids using o by simp
    show "indeg (h_stat s p) + (if p = vert_global (h_vert s (edge_to (h_edge s e))) then 1 else 0) =
        int (card {a \<in> insert (edge_view s k e) (wait_edges s). we_holder a = vid})"
      unfolding card_filter_insert [OF finite_wait_edges new] eqs [OF p] ids using o by simp
  qed (use old new in simp_all)
qed

lemma gddEdgeLink_wf:
  assumes wf: "wf_ctx s" and f: "isv s k x (edge_from (h_edge s e))" and w: "isv s k y (edge_to (h_edge s e))"
    and glf: "gl s x (vert_global (h_vert s (edge_from (h_edge s e))))"
    and glw: "gl s y (vert_global (h_vert s (edge_to (h_edge s e))))"
    and lt: "e < h_next s" and fresh: "\<And>a. a \<in> wait_edges s \<Longrightarrow> we_id a \<noteq> e"
  shows "wf_ctx (gddEdgeLink e s)"
proof -
  let ?t = "gddEdgeLink e s" and ?f = "edge_from (h_edge s e)" and ?w = "edge_to (h_edge s e)"
  have "vert_ok ?t j z v" if v: "isv s j z v" for j z v
  proof -
    note ok = wf_vert [OF wf v, unfolded vert_ok_def]
    have no: "e \<notin> set (edgesOut (h_vert s v))" "e \<notin> set (edgesIn (h_vert s v))"
      using fresh wf_out_edge(6) [OF wf v] wf_in_edge(6) [OF wf v] by (metis edge_view_sel(1))+
    have k: "v = ?f \<Longrightarrow> j = k \<and> z = x" "v = ?w \<Longrightarrow> j = k \<and> z = y"
      using isv_same_seg [OF wf_maps [OF wf] v] f w wf_vid [OF wf] v by blast+
    have o: "d < h_next s \<and> edge_from (h_edge s d) = v \<and> (\<exists>u. isv s j u (edge_to (h_edge s d))) \<and>
        d \<in> set (edgesIn (h_vert ?t (edge_to (h_edge s d))))" if "d \<in> set (edgesOut (h_vert ?t v))" for d
      using that wf_out_edge(1,3,4,5) [OF wf v, of d] k w lt by (auto simp: heap_simps split: if_splits)
    have i: "d < h_next s \<and> edge_to (h_edge s d) = v \<and> (\<exists>u. isv s j u (edge_from (h_edge s d))) \<and>
        d \<in> set (edgesOut (h_vert ?t (edge_from (h_edge s d))))" if "d \<in> set (edgesIn (h_vert ?t v))" for d
      using that wf_in_edge(1,3,4,5) [OF wf v, of d] k f lt by (auto simp: heap_simps split: if_splits)
    have b: "gl s z (vert_global (h_vert s v))" if "edgesIn (h_vert ?t v) \<noteq> [] \<or> edgesOut (h_vert ?t v) \<noteq> []"
      using that wf_bound [OF wf v] k glf glw by (auto simp: heap_simps split: if_splits)
    have "distinct (edgesIn (h_vert s v))" "distinct (edgesOut (h_vert s v))" using ok by blast+
    then have d: "distinct (edgesIn (h_vert ?t v))" "distinct (edgesOut (h_vert ?t v))"
      using no by (auto simp: heap_simps)
    show ?thesis
      unfolding vert_ok_def frame_simps gddEdgeLink_fields(3,4)
      using o i b d wf_vid [OF wf v] wf_vert_lt [OF wf v] by (intro conjI ballI impI) blast+
  qed
  then show ?thesis
    unfolding wf_ctx_def using gddEdgeLink_degrees [OF wf f w glf glw fresh] maps_ok_mono [OF wf_maps [OF wf], of ?t]
    by (simp add: frame_simps)
qed

section \<open>Adding an edge\<close>

lemma GddCtxNew_wf: "wf_ctx GddCtxNew" "wait_edges GddCtxNew = {}"
proof -
  have isv: "\<not> isv GddCtxNew k x v" for k x v by (simp add: isv_def GddCtxNew_def gddMapInit_def)
  then show we: "wait_edges GddCtxNew = {}" by (simp add: wait_edges_def linked_def)
  show "wf_ctx GddCtxNew"
    unfolding wf_ctx_def maps_ok_def degrees_ok_def we using isv
    by (simp add: GddCtxNew_def gddMapInit_def map_keyed_def gddStatInit_def)
qed

lemma GddCtxAddEdge_spec:
  fixes segid x y sld
  assumes wf: "wf_ctx s"
  defines "e \<equiv> fst (GddCtxAddEdge s segid x y sld)" and "t \<equiv> snd (GddCtxAddEdge s segid x y sld)"
  shows "wf_ctx t" "a \<in> wait_edges s \<Longrightarrow> we_id a \<noteq> e"
    and "wait_edges t =
      insert \<lparr>we_id = e, we_seg = seg_key segid, we_waiter = x, we_holder = y, we_solid = sld\<rparr> (wait_edges s)"
proof -
  obtain g s1 where 1: "gddCtxGetGraph s segid = (g, s1)" by fastforce
  obtain vf s2 where 2: "gddGraphGetVert s1 g x = (vf, s2)" by fastforce
  obtain vt s3 where 3: "gddGraphGetVert s2 g y = (vt, s3)" by fastforce
  obtain d s4 where 4: "gddEdgeNew vf vt sld s3 = (d, s4)" by fastforce
  obtain p s5 where 5: "gddCtxGetGlobalStat s4 x = (p, s5)" by fastforce
  define s6 where "s6 = gddVertBindStats vf p s5"
  obtain q s7 where 7: "gddCtxGetGlobalStat s6 y = (q, s7)" by fastforce
  define s8 where "s8 = gddVertBindStats vt q s7"
  let ?k = "seg_key segid"
  note S1 = gddCtxGetGraph_spec [OF wf, where segid = segid, unfolded 1 fst_conv snd_conv]
  note S2 = gddGraphGetVert_spec [OF S1(1,3), where vid = x, unfolded 2 fst_conv snd_conv]
  note S3 = gddGraphGetVert_spec [OF S2(1) S1(3) [folded S2(4)], where vid = y, unfolded 3 fst_conv snd_conv]
  note S4 = gddEdgeNew_spec [OF S3(1), where v = vf and w = vt and sld = sld, unfolded 4 fst_conv snd_conv]
  note S5 = gddCtxGetGlobalStat_spec [OF S4(1), where vid = x, unfolded 5 fst_conv snd_conv]
  have vf: "isv s5 ?k x vf" and vt: "isv s5 ?k y vt" using S3(3) S3(5) [OF S2(3)] by (simp_all add: S4(3) S5(4))
  note S6 = gddVertBindStats_spec [OF S5(1) vf S5(3), folded s6_def]
  note S7 = gddCtxGetGlobalStat_spec [OF S6(1), where vid = y, unfolded 7 fst_conv snd_conv]
  have vt7: "isv s7 ?k y vt" and vf7: "isv s7 ?k x vf" using vf vt by (simp_all add: S7(4) S6(3))
  note S8 = gddVertBindStats_spec [OF S7(1) vt7 S7(3), folded s8_def]
  have ed: "h_edge s8 d = \<lparr>edge_solid = sld, edge_from = vf, edge_to = vt\<rparr>" and e6: "h_edge s6 = h_edge s4"
    and e5: "h_edge s5 = h_edge s4"
    by (simp_all add: S8(4) S7(5) S6(4) S5(5) S4(5))
  have add: "GddCtxAddEdge s segid x y sld = (d, gddEdgeLink d s8)"
    using 7 by (simp add: GddCtxAddEdge_def gddGraphMakeEdge_def 1 2 3 4 5 S4(5) e5 e6 [unfolded s6_def] s6_def s8_def S7(5) split: prod.splits)
  have we: "wait_edges s8 = wait_edges s" by (simp add: S8(2) S7(2) S6(2) S5(2) S4(2) S3(2) S2(2) S1(2))
  have isv8: "isv s8 ?k x vf" "isv s8 ?k y vt" using vf7 vt7 by (simp_all add: S8(3))
  have "gl s7 x p" using S5(3) S7(8) S6(6) by simp
  moreover have "x = y" if "vf = vt" using that wf_vid [OF S7(1) vf7] wf_vid [OF S7(1) vt7] by simp
  ultimately have glf: "gl s8 x (vert_global (h_vert s8 vf))"
    using S8(6-8) S7(3,6) S6(7) by (cases "vf = vt") auto
  have fresh: "we_id b \<noteq> d" if "b \<in> wait_edges s" for b
    using S4(7) that by (simp add: S3(2) S2(2) S1(2))
  have lt: "d < h_next s8" using S4(6) S5(7) S7(7) by (simp add: S8(5) S6(5))
  have link: "wf_ctx (gddEdgeLink d s8)"
    using isv8 glf S8(6,7) S7(3) lt fresh by (intro gddEdgeLink_wf [OF S8(1)]) (auto simp: ed we)
  show "wf_ctx t" "a \<in> wait_edges s \<Longrightarrow> we_id a \<noteq> e" using link fresh by (simp_all add: t_def e_def add)
  show "wait_edges t =
      insert \<lparr>we_id = e, we_seg = ?k, we_waiter = x, we_holder = y, we_solid = sld\<rparr> (wait_edges s)"
    using gddEdgeLink_wait_edges [OF S8(1), of ?k x d] isv8 wf_vid [OF S8(1)]
    by (simp add: t_def e_def add ed we edge_view_def)
qed

end
