(* ===== verification/Gdd_Break.thy ===== *)
theory Gdd_Break
  imports Gdd_Build
begin

text \<open>
  Breaking a deadlock: removing a transaction removes exactly the edges it takes part in, the
  youngest transaction is the largest endpoint, and \<^verbatim>\<open>GddCtxBreakDeadLock\<close> follows the
  abstract policy \<open>victims\<close> as long as the transaction ids fit the \<^verbatim>\<open>int\<close> through which
  \<^verbatim>\<open>gddCtxGetMaxVid\<close> returns them.
\<close>

section \<open>Removing a transaction\<close>

definition touches :: "DistributedTransactionId \<Rightarrow> wait_edge \<Rightarrow> bool" where
  "touches vid a \<longleftrightarrow> we_waiter a = vid \<or> we_holder a = vid"

lemma isv_vpairs:
  assumes "wf_ctx s" "(k, g) \<in> set (gpairs s)"
  shows "isv s k x v \<longleftrightarrow> (x, v) \<in> set (vpairs s g)"
  using assms gpairs_unique [OF assms] unfolding isv_def by blast

lemma touches_isv:
  assumes "wf_ctx s" "a \<in> wait_edges s" "touches vid a"
  obtains v where "isv s (we_seg a) vid v"
  using assms by (auto simp: touches_def elim: wait_edgesE)

lemma graph_remove_vid_spec:
  assumes "wf_ctx s" "(k, g) \<in> set (gpairs s)" "pos + n = length (vpairs s g)"
    and "vid \<notin> fst ` set (take pos (vpairs s g))"
  shows "wf_ctx (graph_remove_vid g vid pos n s) \<and> graphs (graph_remove_vid g vid pos n s) = graphs s \<and>
    wait_edges (graph_remove_vid g vid pos n s) = wait_edges s - {a. we_seg a = k \<and> touches vid a}"
  using assms(3,4)
proof (induction n arbitrary: pos)
  case 0
  then have "\<not> isv s k vid v" for v using isv_vpairs [OF assms(1,2)] by force
  then have "\<not> (we_seg a = k \<and> touches vid a)" if "a \<in> wait_edges s" for a
    using touches_isv [OF assms(1) that] by blast
  then show ?case using assms(1) by auto
next
  case (Suc n)
  obtain x v where nth: "vpairs s g ! pos = (x, v)" by force
  have pos: "pos < length (vpairs s g)" using Suc.prems(1) by simp
  then have v: "isv s k x v" using isv_vpairs [OF assms(1,2)] nth by (metis nth_mem)
  note id = wf_vid [OF assms(1) v]
  show ?case
  proof (cases "x = vid")
    case False
    then have "vid \<notin> fst ` set (take (Suc pos) (vpairs s g))"
      using Suc.prems(2) nth pos by (simp add: take_Suc_conv_app_nth)
    then show ?thesis using Suc.IH [of "Suc pos"] Suc.prems(1) False id nth by simp
  next
    case True
    let ?u = "snd (gddVertUnlinkAll v s)"
    note u = gddVertUnlinkAll_spec [OF assms(1) v]
    have shape: "graphs ?u = graphs s" "h_graph ?u = h_graph s" using u(2) by (simp_all add: same_shape_def)
    have "graph_remove_vid g vid pos (Suc n) s = drop_vert g pos ?u"
      using True id nth by (simp add: drop_vert_def Let_def)
    moreover have "wf_ctx (drop_vert g pos ?u)" "wait_edges (drop_vert g pos ?u) = wait_edges ?u"
      using drop_vert_spec [OF u(1), of k g pos x v] u(6,7) assms(2) pos nth by (simp_all add: shape)
    ultimately show ?thesis
      using u(3) True shape by (auto simp: frame_simps touches_def)
  qed
qed

lemma gddGraphRemoveVid_spec:
  assumes "wf_ctx s" "(k, g) \<in> set (gpairs s)"
  shows "wf_ctx (gddGraphRemoveVid g vid s)" "graphs (gddGraphRemoveVid g vid s) = graphs s"
    and "wait_edges (gddGraphRemoveVid g vid s) = wait_edges s - {a. we_seg a = k \<and> touches vid a}"
  using graph_remove_vid_spec [OF assms, of 0 "length (vpairs s g)" vid] by (simp_all add: gddGraphRemoveVid_def)

lemma fold_remove_vid_spec:
  fixes vid
  assumes "wf_ctx s" "set ps \<subseteq> set (gpairs s)"
  defines "t \<equiv> fold (\<lambda>p. gddGraphRemoveVid (snd p) vid) ps s"
  shows "wf_ctx t \<and> graphs t = graphs s \<and>
    wait_edges t = wait_edges s - {a. we_seg a \<in> fst ` set ps \<and> touches vid a}"
  using assms(1,2) unfolding t_def
proof (induction ps arbitrary: s)
  case (Cons p ps)
  obtain k g where p: "p = (k, g)" by force
  then have "(k, g) \<in> set (gpairs s)" using Cons.prems(2) by simp
  note u = gddGraphRemoveVid_spec [OF Cons.prems(1) this, of vid]
  have "set ps \<subseteq> set (gpairs (gddGraphRemoveVid g vid s))" using Cons.prems(2) by (simp add: u(2))
  note IH = Cons.IH [OF u(1) this]
  show ?case using IH p by (auto simp: u(2,3))
qed simp

lemma gddCtxRemoveVid_spec:
  assumes "wf_ctx s"
  shows "wf_ctx (gddCtxRemoveVid vid s)" "graphs (gddCtxRemoveVid vid s) = graphs s"
    and "wait_edges (gddCtxRemoveVid vid s) = {a \<in> wait_edges s. \<not> touches vid a}"
proof -
  have "we_seg a \<in> fst ` set (gpairs s)" if "a \<in> wait_edges s" for a
    using that by (rule wait_edgesE [OF assms]) (force simp: isv_def)
  then show "wait_edges (gddCtxRemoveVid vid s) = {a \<in> wait_edges s. \<not> touches vid a}"
    using fold_remove_vid_spec [OF assms subset_refl] by (auto simp: gddCtxRemoveVid_def)
qed (use fold_remove_vid_spec [OF assms subset_refl] in \<open>simp_all add: gddCtxRemoveVid_def\<close>)

section \<open>The youngest transaction\<close>

definition endpoints :: "wait_edge set \<Rightarrow> DistributedTransactionId set" where
  "endpoints S = we_waiter ` S \<union> we_holder ` S"

definition max_vid :: "wait_edge set \<Rightarrow> DistributedTransactionId" where
  "max_vid S = Max (endpoints S)"

lemma fold_max_if:
  fixes f :: "'a \<Rightarrow> 'b :: linorder"
  shows "fold (\<lambda>v m. if P v then max m (f v) else m) xs m0 = Max (insert m0 (f ` {v \<in> set xs. P v}))"
proof (induction xs arbitrary: m0)
  case (Cons x xs)
  let ?A = "f ` {v \<in> set xs. P v}"
  have eq: "{v \<in> set (x # xs). P v} = (if P x then insert x {v \<in> set xs. P v} else {v \<in> set xs. P v})" by auto
  have "Max (insert (max m0 (f x)) A) = Max (insert m0 (insert (f x) A))" if "finite A" for A
    using that by (cases "A = {}") (simp_all add: max.assoc)
  then have "Max (insert (max m0 (f x)) ?A) = Max (insert m0 (insert (f x) ?A))" by simp
  then show ?case unfolding eq using Cons.IH by simp
qed simp

lemma ctx_verts_set: "set (ctx_verts s) = {v. \<exists>k x. isv s k x v}"
  by (force simp: ctx_verts_def isv_def)

lemma endpoints_verts:
  assumes wf: "wf_ctx s"
  shows "endpoints (wait_edges s) = (\<lambda>v. vert_id (h_vert s v)) `
    {v \<in> set (ctx_verts s). gddVertGetInDegree s v \<noteq> 0 \<or> gddVertGetOutDegree s v \<noteq> 0}" (is "_ = ?R")
proof (intro set_eqI iffI)
  fix x assume "x \<in> endpoints (wait_edges s)"
  then obtain a where a: "a \<in> wait_edges s" "x = we_waiter a \<or> x = we_holder a" by (auto simp: endpoints_def)
  obtain v where "isv s (we_seg a) x v" "edgesIn (h_vert s v) \<noteq> [] \<or> edgesOut (h_vert s v) \<noteq> []"
    using a(1) by (rule wait_edgesE [OF wf]) (use a(2) in fastforce)
  then show "x \<in> ?R"
    using wf_vid [OF wf] by (auto simp: ctx_verts_set gddVertGetInDegree_def gddVertGetOutDegree_def image_iff)
next
  fix x assume "x \<in> ?R"
  then obtain v k y where v: "isv s k y v" "x = vert_id (h_vert s v)"
    and e: "edgesIn (h_vert s v) \<noteq> [] \<or> edgesOut (h_vert s v) \<noteq> []"
    by (auto simp: ctx_verts_set gddVertGetInDegree_def gddVertGetOutDegree_def)
  then have x: "isv s k x v" using wf_vid [OF wf] by simp
  have "edge_view s k ` set (edgesIn (h_vert s v)) \<noteq> {} \<or> edge_view s k ` set (edgesOut (h_vert s v)) \<noteq> {}"
    using e by simp
  then show "x \<in> endpoints (wait_edges s)"
    unfolding in_edges_view [OF wf x] out_edges_view [OF wf x] by (auto simp: endpoints_def)
qed

lemma gddCtxGetMaxVid_spec:
  assumes "wf_ctx s" "wait_edges s \<noteq> {}"
  shows "gddCtxGetMaxVid s = ucast (max_vid (wait_edges s))"
proof -
  have "finite (endpoints (wait_edges s))" "endpoints (wait_edges s) \<noteq> {}"
    using assms(2) by (simp_all add: endpoints_def)
  then have "Max (insert 0 (endpoints (wait_edges s))) = max_vid (wait_edges s)"
    by (simp add: max_vid_def max_def)
  then show ?thesis
    unfolding gddCtxGetMaxVid_def fold_max_if endpoints_verts [OF assms(1), symmetric] by simp
qed

lemma max_vid_in: "finite S \<Longrightarrow> S \<noteq> {} \<Longrightarrow> max_vid S \<in> endpoints S"
  and max_vid_ge: "finite S \<Longrightarrow> x \<in> endpoints S \<Longrightarrow> x \<le> max_vid S"
  unfolding max_vid_def using Max_in [of "endpoints S"] Max_ge [of "endpoints S"]
  by (auto simp: endpoints_def)

lemma endpoints_touches: "vid \<in> endpoints S \<longleftrightarrow> (\<exists>a\<in>S. touches vid a)"
  by (auto simp: endpoints_def touches_def)

section \<open>The policy\<close>

text \<open>
  The abstract policy: while a deadlock is left, cancel its youngest transaction and reduce
  what remains.
\<close>

inductive victims :: "wait_edge set \<Rightarrow> DistributedTransactionId list \<Rightarrow> bool" where
  victims_none: "victims {} []"
| victims_next: "S \<noteq> {} \<Longrightarrow> victims (gdd_core {a \<in> S. \<not> touches (max_vid S) a}) vs \<Longrightarrow>
    victims S (max_vid S # vs)"

inductive_cases victims_ConsE: "victims S (v # vs)"
inductive_cases victims_NilE: "victims S []"

lemma victims_break:
  assumes "victims S vs" "finite S"
  shows "gdd_core {a \<in> S. \<forall>v \<in> set vs. \<not> touches v a} = {} \<and> set vs \<subseteq> endpoints S \<and> sorted_wrt (>) vs"
  using assms
proof (induction rule: victims.induct)
  case victims_none
  then show ?case using core_of_subset [of gdd_bad "{}"] by simp
next
  case (victims_next S vs)
  let ?U = "{a \<in> S. \<not> touches (max_vid S) a}"
  let ?T = "{a \<in> S. \<forall>v \<in> set (max_vid S # vs). \<not> touches v a}"
  have sub: "gdd_core ?U \<subseteq> ?U" by (rule core_of_subset)
  then have fin: "finite (gdd_core ?U)" using victims_next.prems finite_subset by fastforce
  note IH = victims_next.IH [OF fin]
  have "gdd_core ?T \<subseteq> gdd_core ?U" by (rule gdd_rules.core_mono) auto
  then have "gdd_core ?T \<subseteq> {a \<in> gdd_core ?U. \<forall>v \<in> set vs. \<not> touches v a}"
    using core_of_subset [of gdd_bad ?T] by auto
  then have "gdd_core ?T \<subseteq> gdd_core {a \<in> gdd_core ?U. \<forall>v \<in> set vs. \<not> touches v a}"
    by (rule core_of_greatest) (rule gdd_rules.stable_core)
  then have core: "gdd_core ?T = {}" using IH by simp
  have "v < max_vid S \<and> v \<in> endpoints S" if "v \<in> set vs" for v
  proof -
    have "v \<in> endpoints (gdd_core ?U)" using that IH by blast
    then have "\<exists>a \<in> ?U. touches v a" using sub unfolding endpoints_touches by blast
    then show ?thesis
      using max_vid_ge [OF victims_next.prems, of v] by (auto simp: endpoints_touches order_less_le)
  qed
  then show ?case
    using core IH max_vid_in [OF victims_next.prems victims_next.hyps(1)] by auto
qed

section \<open>The loop\<close>

lemma break_step:
  assumes wf: "wf_ctx s" and ne: "wait_edges s \<noteq> {}"
  defines "m \<equiv> signed (gddCtxGetMaxVid s) :: DistributedTransactionId"
  obtains t where "wf_ctx t" "wait_edges t = gdd_core {a \<in> wait_edges s. \<not> touches m a}"
    "\<And>vids. break_loop vids s = break_loop (vids @ [m]) t" "GddCtxReduce (gddCtxRemoveVid m s) = Some t"
proof -
  note u = gddCtxRemoveVid_spec [OF wf, of m]
  from GddCtxReduce_spec [OF u(1)] obtain t where t: "GddCtxReduce (gddCtxRemoveVid m s) = Some t" "wf_ctx t"
    "wait_edges t = gdd_core (wait_edges (gddCtxRemoveVid m s))" by blast
  moreover have "break_loop vids s = break_loop (vids @ [m]) t" for vids
    using ne GddCtxEmpty_iff [OF wf] t(1) by (subst break_loop.simps) (simp add: m_def)
  ultimately show thesis using that u(3) by simp
qed

lemma break_loop_spec:
  assumes "wf_ctx s" "\<And>x. x \<in> endpoints (wait_edges s) \<Longrightarrow> x < 2 ^ 31"
  shows "\<exists>vs t. break_loop vids s = Some (vids @ vs, t) \<and> wf_ctx t \<and> wait_edges t = {} \<and> victims (wait_edges s) vs"
  using assms
proof (induction "card (wait_edges s)" arbitrary: s vids rule: less_induct)
  case less
  let ?S = "wait_edges s"
  show ?case
  proof (cases "?S = {}")
    case True
    then show ?thesis
      using less.prems(1) GddCtxEmpty_iff by (auto simp: break_loop.simps [of vids s] intro: victims_none)
  next
    case False
    have mem: "max_vid ?S \<in> endpoints ?S" using False by (intro max_vid_in) simp_all
    then have m: "signed (gddCtxGetMaxVid s) = max_vid ?S"
      using gddCtxGetMaxVid_spec [OF less.prems(1) False] int_roundtrip less.prems(2) by simp
    from break_step [OF less.prems(1) False, unfolded m] obtain t where t: "wf_ctx t"
      "wait_edges t = gdd_core {a \<in> ?S. \<not> touches (max_vid ?S) a}"
      "\<And>vids. break_loop vids s = break_loop (vids @ [max_vid ?S]) t" by metis
    have sub: "wait_edges t \<subseteq> {a \<in> ?S. \<not> touches (max_vid ?S) a}" unfolding t(2) by (rule core_of_subset)
    then have "wait_edges t \<subset> ?S" using mem by (auto simp: endpoints_touches)
    then have "card (wait_edges t) < card ?S" by (simp add: psubset_card_mono)
    moreover have "x < 2 ^ 31" if "x \<in> endpoints (wait_edges t)" for x
      using that sub less.prems(2) by (auto simp: endpoints_def)
    ultimately obtain vs u where "break_loop (vids @ [max_vid ?S]) t = Some ((vids @ [max_vid ?S]) @ vs, u)"
      "wf_ctx u" "wait_edges u = {}" "victims (wait_edges t) vs"
      using less.hyps t(1) by blast
    then show ?thesis using t(2,3) False by (auto intro: victims_next)
  qed
qed

text \<open>
  When the 32-bit return value is not the id of any waiting transaction, the removal does
  nothing, and the loop runs on the same edges for ever.
\<close>

lemma break_loop_diverges:
  assumes "wf_ctx s" "wait_edges s = S" "S \<noteq> {}" "gdd_core S = S"
    and no: "signed (ucast (max_vid S) :: 32 word) \<notin> endpoints S"
  shows "break_loop vids s = None"
proof -
  let ?m = "signed (ucast (max_vid S) :: 32 word) :: DistributedTransactionId"
  have all: "{a \<in> S. \<not> touches ?m a} = S" using no by (auto simp: endpoints_touches)
  have "\<not> (wf_ctx s \<and> wait_edges s = S)" if "break_loop vids s = Some y" for vids s y
  proof (rule break_loop.raw_induct [where P = "\<lambda>_ s _. \<not> (wf_ctx s \<and> wait_edges s = S)", OF _ that], rule notI)
    fix f vids s y
    assume IH: "\<And>v u z. f v u = Some z \<Longrightarrow> \<not> (wf_ctx u \<and> wait_edges u = S)"
      and body: "(if GddCtxEmpty s then Some (vids, s)
        else let maxvid = signed (gddCtxGetMaxVid s); vids = vids @ [maxvid]; s = gddCtxRemoveVid maxvid s
             in Option.bind (GddCtxReduce s) (f vids)) = Some y"
      and s: "wf_ctx s \<and> wait_edges s = S"
    have m: "signed (gddCtxGetMaxVid s) = ?m" and ne: "wait_edges s \<noteq> {}"
      using gddCtxGetMaxVid_spec s assms(3) by simp_all
    then obtain t where t: "wf_ctx t" "wait_edges t = S" "GddCtxReduce (gddCtxRemoveVid ?m s) = Some t"
      using break_step [of s] s assms(4) all by metis
    then have "f (vids @ [?m]) t = Some y"
      using body s GddCtxEmpty_iff assms(3) m by (simp add: Let_def)
    then show False using IH t by blast
  qed
  then show ?thesis using assms(1,2) by (cases "break_loop vids s") auto
qed

end
