(* ===== verification/Gdd_Backend.thy ===== *)
theory Gdd_Backend
  imports Gdd_Break
begin

text \<open>
  The background worker around the detector, \<^verbatim>\<open>src/src/backend/utils/gdd/gddbackend.c\<close>:
  reading the wait relations of all segments, one round of detection, and the cancellation of
  the chosen transactions, with the process array lookups of
  \<^verbatim>\<open>src/src/backend/storage/ipc/procarray.c\<close> it calls. The result of the internal query is
  an input of the model, and so is the process array, once at the time the graph is built and
  once at the time of the cancellation.
\<close>

section \<open>Inputs\<close>

record VertSatelliteData =
  sat_pid :: "32 word"
  sat_sessionid :: "32 word"

record EdgeSatelliteData =
  sat_lockmode :: string
  sat_locktype :: string

text \<open>A row of \<^verbatim>\<open>gp_dist_wait_status()\<close>.\<close>

record wait_row =
  row_segid :: "32 word"
  row_waiter_xid :: DistributedTransactionId
  row_holder_xid :: DistributedTransactionId
  row_solidedge :: bool
  row_waiter_data :: VertSatelliteData
  row_holder_data :: VertSatelliteData
  row_edge_data :: EdgeSatelliteData

text \<open>
  The outcome of \<^verbatim>\<open>SPI_connect\<close> and \<^verbatim>\<open>SPI_execute\<close>: no connection, an error raised by the
  query, or a result, with rows only if the query was a select with a tuple table.
\<close>

datatype spi_outcome = SPI_connect_failed | SPI_raised | SPI_result "wait_row list option"

datatype gdd_error = Spi_connect_error | Query_error

text \<open>The entry of one backend: its process id and its distributed transaction, \<open>0\<close> for none.\<close>

record tm_proc =
  tm_pid :: "32 word"
  tm_gxid :: DistributedTransactionId

definition ListAllGxid :: "tm_proc list \<Rightarrow> DistributedTransactionId list" where
  "ListAllGxid procs = filter (\<lambda>gxid. gxid \<noteq> 0) (map tm_gxid procs)"

primrec GetPidByGxid :: "tm_proc list \<Rightarrow> DistributedTransactionId \<Rightarrow> 32 word" where
  "GetPidByGxid [] gxid = 0"
| "GetPidByGxid (p # procs) gxid = (if tm_gxid p = gxid then tm_pid p else GetPidByGxid procs gxid)"

primrec IsValidGxid :: "DistributedTransactionId list \<Rightarrow> DistributedTransactionId \<Rightarrow> bool" where
  "IsValidGxid [] check_gxid = False"
| "IsValidGxid (gxid # gxids) check_gxid = (gxid = check_gxid \<or> IsValidGxid gxids check_gxid)"

section \<open>One round\<close>

text \<open>
  The context together with the \<^verbatim>\<open>data\<close> pointers of its vertices and edges.
\<close>

record gdd_state =
  gs_ctx :: GddCtx
  gs_vdata :: "nat \<Rightarrow> VertSatelliteData"
  gs_edata :: "nat \<Rightarrow> EdgeSatelliteData"

definition add_wait_row :: "DistributedTransactionId list \<Rightarrow> wait_row \<Rightarrow> gdd_state \<Rightarrow> gdd_state" where
  "add_wait_row gxids r st =
     (if \<not> IsValidGxid gxids (row_waiter_xid r) \<or> \<not> IsValidGxid gxids (row_holder_xid r) then st
      else
        let (e, ctx) = GddCtxAddEdge (gs_ctx st) (row_segid r) (row_waiter_xid r) (row_holder_xid r) (row_solidedge r)
        in st\<lparr>gs_ctx := ctx,
              gs_edata := (gs_edata st)(e := row_edge_data r),
              gs_vdata := (gs_vdata st)(edge_from (h_edge ctx e) := row_waiter_data r,
                                        edge_to (h_edge ctx e) := row_holder_data r)\<rparr>)"

definition buildWaitGraph :: "spi_outcome \<Rightarrow> tm_proc list \<Rightarrow> gdd_state \<Rightarrow> gdd_error + gdd_state" where
  "buildWaitGraph spi procs st =
     (case spi of
        SPI_connect_failed \<Rightarrow> Inl Spi_connect_error
      | SPI_raised \<Rightarrow> Inl Query_error
      | SPI_result None \<Rightarrow> Inr st
      | SPI_result (Some rows) \<Rightarrow> Inr (fold (add_wait_row (ListAllGxid procs)) rows st))"

text \<open>The process ids to which \<^verbatim>\<open>pg_cancel_backend_msg\<close> is applied, in order.\<close>

definition breakDeadLock :: "tm_proc list \<Rightarrow> GddCtx \<Rightarrow> 32 word list option" where
  "breakDeadLock procs ctx =
     Option.bind (GddCtxBreakDeadLock ctx) (\<lambda>(xids, _). Some (map (GetPidByGxid procs) xids))"

datatype ret_status = RET_STATUS_OK | RET_STATUS_ERROR

definition new_state :: gdd_state where
  "new_state = \<lparr>gs_ctx = GddCtxNew, gs_vdata = (\<lambda>_. \<lparr>sat_pid = 0, sat_sessionid = 0\<rparr>),
     gs_edata = (\<lambda>_. \<lparr>sat_lockmode = [], sat_locktype = []\<rparr>)\<rparr>"

text \<open>The status and the cancelled backends; \<open>None\<close> is a round that does not end.\<close>

definition doDeadLockCheck ::
  "spi_outcome \<Rightarrow> tm_proc list \<Rightarrow> tm_proc list \<Rightarrow> (ret_status \<times> 32 word list) option" where
  "doDeadLockCheck spi procs procs' =
     (case buildWaitGraph spi procs new_state of
        Inl _ \<Rightarrow> Some (RET_STATUS_ERROR, [])
      | Inr st \<Rightarrow>
          Option.bind (GddCtxReduce (gs_ctx st)) (\<lambda>ctx.
            if GddCtxEmpty ctx then Some (RET_STATUS_OK, [])
            else Option.bind (breakDeadLock procs' ctx) (\<lambda>pids. Some (RET_STATUS_OK, pids))))"

section \<open>The report\<close>

fun show_nat :: "nat \<Rightarrow> string" where
  "show_nat n = (if n < 10 then [char_of (48 + n)] else show_nat (n div 10) @ [char_of (48 + n mod 10)])"

declare show_nat.simps [simp del]

definition show_int32 :: "32 word \<Rightarrow> string" where
  "show_int32 w = (if sint w < 0 then ''-'' @ show_nat (nat (- sint w)) else show_nat (nat (sint w)))"

definition show_uint64 :: "64 word \<Rightarrow> string" where
  "show_uint64 w = show_nat (unat w)"

definition dumpGddEdge :: "gdd_state \<Rightarrow> nat \<Rightarrow> string" where
  "dumpGddEdge st e =
     (let edge = h_edge (gs_ctx st) e;
          from = edge_from edge; to = edge_to edge;
          vert = h_vert (gs_ctx st); data = gs_vdata st
      in [CHR 0x22] @ ''p'' @ show_int32 (sat_pid (data from)) @ '' of dtx'' @ show_uint64 (vert_id (vert from)) @
         '' con'' @ show_int32 (sat_sessionid (data from)) @
         '' waits for a '' @ sat_locktype (gs_edata st e) @ '' lock on '' @ sat_lockmode (gs_edata st e) @
         '' mode, '' @ ''blocked by p'' @ show_int32 (sat_pid (data to)) @ '' of dtx'' @ show_uint64 (vert_id (vert to)) @
         '' con'' @ show_int32 (sat_sessionid (data from)) @ [CHR 0x22])"

fun join_with :: "string \<Rightarrow> string list \<Rightarrow> string" where
  "join_with sep [] = []"
| "join_with sep [x] = x"
| "join_with sep (x # y # xs) = x @ sep @ join_with sep (y # xs)"

definition dumpGddGraph :: "gdd_state \<Rightarrow> nat \<Rightarrow> string" where
  "dumpGddGraph st g =
     (let gr = h_graph (gs_ctx st) g;
          edges = concat (map (\<lambda>p. edgesOut (h_vert (gs_ctx st) (snd p))) (map_pairs (graph_verts gr)))
      in [CHR 0x22] @ ''seg'' @ show_int32 (graph_id gr) @ [CHR 0x22] @ '': ['' @
         join_with '','' (map (dumpGddEdge st) edges) @ '']'')"

definition dumpGddCtx :: "gdd_state \<Rightarrow> string" where
  "dumpGddCtx st = ''{'' @ join_with '','' (map (\<lambda>p. dumpGddGraph st (snd p)) (map_pairs (graphs (gs_ctx st)))) @ ''}''"

end
