(* ===== verification/Gdd_Correct.thy ===== *)
theory Gdd_Correct
  imports Gdd_Backend
begin

text \<open>
  What the deadlock detector guarantees: the properties of \<^verbatim>\<open>gdddetector.c\<close> and
  \<^verbatim>\<open>gddbackend.c\<close>, stated over the rows the segments report and over the context.
\<close>

section \<open>From rows to edges\<close>

definition row_edge :: "nat \<Rightarrow> wait_row \<Rightarrow> wait_edge" where
  "row_edge i r = \<lparr>we_id = i, we_seg = seg_key (row_segid r), we_waiter = row_waiter_xid r,
     we_holder = row_holder_xid r, we_solid = row_solidedge r\<rparr>"

definition live_row :: "tm_proc list \<Rightarrow> wait_row \<Rightarrow> bool" where
  "live_row procs r \<longleftrightarrow> row_waiter_xid r \<noteq> 0 \<and> row_holder_xid r \<noteq> 0 \<and>
     row_waiter_xid r \<in> tm_gxid ` set procs \<and> row_holder_xid r \<in> tm_gxid ` set procs"

text \<open>One edge for each row, with ids of its own.\<close>

definition edges_of_rows :: "wait_edge set \<Rightarrow> wait_row list \<Rightarrow> bool" where
  "edges_of_rows S rows \<longleftrightarrow>
     (\<exists>ids. distinct ids \<and> length ids = length rows \<and> S = set (map2 row_edge ids rows))"

lemma IsValidGxid_set: "IsValidGxid gxids x \<longleftrightarrow> x \<in> set gxids"
  by (induction gxids) auto

lemma IsValidGxid_live:
  "IsValidGxid (ListAllGxid procs) (row_waiter_xid r) \<and> IsValidGxid (ListAllGxid procs) (row_holder_xid r) \<longleftrightarrow>
   live_row procs r"
  by (auto simp: IsValidGxid_set ListAllGxid_def live_row_def)

lemma add_wait_row_ctx:
  "gs_ctx (add_wait_row (ListAllGxid procs) r st) =
     (if live_row procs r
      then snd (GddCtxAddEdge (gs_ctx st) (row_segid r) (row_waiter_xid r) (row_holder_xid r) (row_solidedge r))
      else gs_ctx st)"
  using IsValidGxid_live [of procs r] by (auto simp: add_wait_row_def split: prod.splits)

lemma add_rows_spec:
  fixes procs rows st
  assumes "wf_ctx (gs_ctx st)"
  defines "t \<equiv> fold (add_wait_row (ListAllGxid procs)) rows st"
  shows "wf_ctx (gs_ctx t) \<and>
    (\<exists>ids. distinct ids \<and> length ids = length (filter (live_row procs) rows) \<and>
       set ids \<inter> we_id ` wait_edges (gs_ctx st) = {} \<and>
       wait_edges (gs_ctx t) = wait_edges (gs_ctx st) \<union> set (map2 row_edge ids (filter (live_row procs) rows)))"
  using assms(1) unfolding t_def
proof (induction rows arbitrary: st)
  case Nil
  then show ?case by simp
next
  case (Cons r rows)
  show ?case
  proof (cases "live_row procs r")
    case False
    then show ?thesis using Cons.IH [of "add_wait_row (ListAllGxid procs) r st"] Cons.prems
      by (simp add: add_wait_row_ctx)
  next
    case True
    let ?u = "add_wait_row (ListAllGxid procs) r st"
    obtain e c where a: "GddCtxAddEdge (gs_ctx st) (row_segid r) (row_waiter_xid r) (row_holder_xid r) (row_solidedge r)
      = (e, c)" by fastforce
    note A = GddCtxAddEdge_spec [OF Cons.prems, where segid = "row_segid r" and x = "row_waiter_xid r" and
        y = "row_holder_xid r" and sld = "row_solidedge r", unfolded a fst_conv snd_conv]
    have u: "gs_ctx ?u = c" using True a by (simp add: add_wait_row_ctx)
    have we: "wait_edges c = insert (row_edge e r) (wait_edges (gs_ctx st))" using A(3) by (simp add: row_edge_def)
    from Cons.IH [of ?u, unfolded u, OF A(1)] obtain ids where ids: "wf_ctx (gs_ctx (fold (add_wait_row (ListAllGxid procs)) rows ?u))"
      "distinct ids" "length ids = length (filter (live_row procs) rows)" "set ids \<inter> we_id ` wait_edges c = {}"
      "wait_edges (gs_ctx (fold (add_wait_row (ListAllGxid procs)) rows ?u)) =
        wait_edges c \<union> set (map2 row_edge ids (filter (live_row procs) rows))" by blast
    have "we_id (row_edge e r) = e" by (simp add: row_edge_def)
    then have "distinct (e # ids)" "set (e # ids) \<inter> we_id ` wait_edges (gs_ctx st) = {}"
      using ids(2,4) A(2) unfolding we by force+
    then show ?thesis
      using ids True by (intro conjI exI [of _ "e # ids"]) (auto simp: we)
  qed
qed

lemma buildWaitGraph_spec:
  obtains st where "buildWaitGraph (SPI_result (Some rows)) procs new_state = Inr st" "wf_ctx (gs_ctx st)"
    "edges_of_rows (wait_edges (gs_ctx st)) (filter (live_row procs) rows)"
  using add_rows_spec [of new_state procs rows] GddCtxNew_wf
  unfolding edges_of_rows_def by (auto simp: buildWaitGraph_def new_state_def)

lemma edges_of_rows_finite: "edges_of_rows S rows \<Longrightarrow> finite S"
  by (auto simp: edges_of_rows_def)

lemma edges_of_rowsD:
  assumes "edges_of_rows S rows"
  shows "a \<in> S \<Longrightarrow> \<exists>i. \<exists>r \<in> set rows. a = row_edge i r" "r \<in> set rows \<Longrightarrow> \<exists>i. row_edge i r \<in> S"
proof -
  from assms obtain ids where ids: "length ids = length rows" "S = set (map2 row_edge ids rows)"
    by (auto simp: edges_of_rows_def)
  show "a \<in> S \<Longrightarrow> \<exists>i. \<exists>r \<in> set rows. a = row_edge i r"
    unfolding ids(2) by (auto dest: set_zip_rightD)
  assume "r \<in> set rows"
  then obtain n where "n < length rows" "r = rows ! n" by (auto simp: in_set_conv_nth)
  then have "row_edge (ids ! n) r \<in> set (map2 row_edge ids rows)"
    using ids(1) nth_mem [of n "map2 row_edge ids rows"] by simp
  then show "\<exists>i. row_edge i r \<in> S" unfolding ids(2) by blast
qed

lemma row_edge_sel [simp]:
  "we_waiter (row_edge i r) = row_waiter_xid r" "we_holder (row_edge i r) = row_holder_xid r"
  "we_seg (row_edge i r) = seg_key (row_segid r)" "we_solid (row_edge i r) = row_solidedge r"
  by (simp_all add: row_edge_def)

lemma deadlock_round:
  obtains t S where "doDeadLockCheck (SPI_result (Some rows)) procs procs' =
      (if gdd_core S = {} then Some (RET_STATUS_OK, [])
       else Option.bind (GddCtxBreakDeadLock t) (\<lambda>(xids, _). Some (RET_STATUS_OK, map (GetPidByGxid procs') xids)))"
    "wf_ctx t" "wait_edges t = gdd_core S" "edges_of_rows S (filter (live_row procs) rows)"
proof -
  obtain st where st: "buildWaitGraph (SPI_result (Some rows)) procs new_state = Inr st" "wf_ctx (gs_ctx st)"
    "edges_of_rows (wait_edges (gs_ctx st)) (filter (live_row procs) rows)" by (rule buildWaitGraph_spec)
  from GddCtxReduce_spec [OF st(2)] obtain t where t: "GddCtxReduce (gs_ctx st) = Some t" "wf_ctx t"
    "wait_edges t = gdd_core (wait_edges (gs_ctx st))" by blast
  have "doDeadLockCheck (SPI_result (Some rows)) procs procs' =
      (if gdd_core (wait_edges (gs_ctx st)) = {} then Some (RET_STATUS_OK, [])
       else Option.bind (GddCtxBreakDeadLock t) (\<lambda>(xids, _). Some (RET_STATUS_OK, map (GetPidByGxid procs') xids)))"
    using GddCtxEmpty_iff [OF t(2)]
    by (auto simp: doDeadLockCheck_def st(1) t(1,3) breakDeadLock_def split: bind_split)
  then show thesis using that t(2,3) st(3) by blast
qed

definition small_ids :: "wait_row list \<Rightarrow> bool" where
  "small_ids rows \<longleftrightarrow> (\<forall>r \<in> set rows. row_waiter_xid r < 2 ^ 31 \<and> row_holder_xid r < 2 ^ 31)"

lemma deadlock_round_victims:
  assumes "small_ids rows"
  obtains S vs where "doDeadLockCheck (SPI_result (Some rows)) procs procs' =
      Some (RET_STATUS_OK, map (GetPidByGxid procs') vs)"
    "edges_of_rows S (filter (live_row procs) rows)" "victims (gdd_core S) vs"
proof (rule deadlock_round [of rows procs procs'])
  fix t S
  assume eq: "doDeadLockCheck (SPI_result (Some rows)) procs procs' =
      (if gdd_core S = {} then Some (RET_STATUS_OK, [])
       else Option.bind (GddCtxBreakDeadLock t) (\<lambda>(xids, _). Some (RET_STATUS_OK, map (GetPidByGxid procs') xids)))"
    and t: "wf_ctx t" "wait_edges t = gdd_core S" and S: "edges_of_rows S (filter (live_row procs) rows)"
  have "x < 2 ^ 31" if "x \<in> endpoints (wait_edges t)" for x
  proof -
    from that obtain a where "a \<in> S" "x = we_waiter a \<or> x = we_holder a"
      unfolding t(2) endpoints_def using core_of_subset [of gdd_bad S] by blast
    then show ?thesis using edges_of_rowsD(1) [OF S, of a] assms by (auto simp: small_ids_def)
  qed
  from break_loop_spec [OF t(1) this, of "[]"] obtain vs u where
    v: "GddCtxBreakDeadLock t = Some (vs, u)" "victims (gdd_core S) vs"
    unfolding t(2) GddCtxBreakDeadLock_def by auto
  show thesis
  proof (cases "gdd_core S = {}")
    case True
    then show thesis using that [of "[]" S] eq S by (simp add: victims_none)
  next
    case False
    then show thesis using that [of vs S] eq S v by simp
  qed
qed

section \<open>A round of detection\<close>

definition row_waits :: "wait_row list \<Rightarrow> (DistributedTransactionId \<times> DistributedTransactionId) set" where
  "row_waits rows = (\<lambda>r. (row_waiter_xid r, row_holder_xid r)) ` set rows"

definition firm_rows :: "wait_row list \<Rightarrow> bool" where
  "firm_rows rs \<longleftrightarrow> firm_cycle (map (row_edge 0) rs)"

lemma waits_for_rows: "edges_of_rows S rows \<Longrightarrow> waits_for S = row_waits rows"
proof (intro set_eqI iffI)
  assume S: "edges_of_rows S rows"
  show "x \<in> row_waits rows" if "x \<in> waits_for S" for x
    using that edges_of_rowsD(1) [OF S] by (fastforce simp: waits_for_def row_waits_def)
  fix x assume "x \<in> row_waits rows"
  then obtain r where r: "r \<in> set rows" "x = (row_waiter_xid r, row_holder_xid r)" by (auto simp: row_waits_def)
  then obtain i where "row_edge i r \<in> S" using edges_of_rowsD(2) [OF S] by blast
  then show "x \<in> waits_for S" using r(2) by (force simp: waits_for_def)
qed

lemma firm_rows_edges:
  assumes "edges_of_rows S rows" "firm_rows rs" "set rs \<subseteq> set rows"
  obtains f where "firm_cycle (map (\<lambda>r. row_edge (f r) r) rs)" "(\<lambda>r. row_edge (f r) r) ` set rs \<subseteq> S"
proof -
  have "\<forall>r \<in> set rs. \<exists>i. row_edge i r \<in> S" using edges_of_rowsD(2) [OF assms(1)] assms(3) by blast
  then obtain f where f: "\<forall>r \<in> set rs. row_edge (f r) r \<in> S" by metis
  have "rs \<noteq> []" using assms(2) by (simp add: firm_rows_def firm_cycle_def)
  then have "Suc i mod length rs < length rs" for i by simp
  then have "firm_cycle (map (\<lambda>r. row_edge (f r) r) rs)"
    using assms(2) by (simp add: firm_rows_def firm_cycle_def)
  then show thesis using that [of f] f by blast
qed

lemma strict_sorted_distinct: "sorted_wrt (>) xs \<Longrightarrow> distinct (xs :: 'a :: linorder list)"
  by (induction xs) auto

lemma firm_cycle_next:
  assumes "firm_cycle es" "e \<in> set es"
  shows "\<exists>d \<in> set es. we_waiter d = we_holder e"
proof -
  from assms(2) obtain i where i: "i < length es" "e = es ! i" by (auto simp: in_set_conv_nth)
  then have "Suc i mod length es < length es" by (metis mod_less_divisor neq0_conv not_less0)
  then show ?thesis using assms(1) i by (metis firm_cycle_def nth_mem)
qed

lemma victims_hit_cycle:
  assumes "victims (gdd_core S) vs" "finite S" "firm_cycle es" "set es \<subseteq> S"
  shows "\<exists>e \<in> set es. we_waiter e \<in> set vs"
proof (rule ccontr)
  assume no: "\<not> ?thesis"
  then have "\<not> touches v e" if "e \<in> set es" "v \<in> set vs" for e v
    using that firm_cycle_next [OF assms(3)] unfolding touches_def by metis
  then have sub: "set es \<subseteq> {a \<in> gdd_core S. \<forall>v \<in> set vs. \<not> touches v a}"
    using firm_cycle_in_core [OF assms(3,4)] by blast
  have "finite (gdd_core S)" by (rule finite_subset [OF core_of_subset assms(2)])
  then have "set es \<subseteq> {}"
    using firm_cycle_in_core [OF assms(3) sub] victims_break [OF assms(1)] by simp
  then show False using assms(3) by (simp add: firm_cycle_def)
qed

text \<open>Two transactions that wait for each other on two segments; both have a backend.\<close>

definition example_row :: "32 word \<Rightarrow> DistributedTransactionId \<Rightarrow> DistributedTransactionId \<Rightarrow> wait_row" where
  "example_row seg waiter holder = \<lparr>row_segid = seg, row_waiter_xid = waiter, row_holder_xid = holder,
     row_solidedge = True, row_waiter_data = \<lparr>sat_pid = 11, sat_sessionid = 1\<rparr>,
     row_holder_data = \<lparr>sat_pid = 12, sat_sessionid = 2\<rparr>,
     row_edge_data = \<lparr>sat_lockmode = ''ExclusiveLock'', sat_locktype = ''transactionid''\<rparr>\<rparr>"

definition example_rows :: "DistributedTransactionId \<Rightarrow> DistributedTransactionId \<Rightarrow> wait_row list" where
  "example_rows x y = [example_row 0 x y, example_row 1 y x]"

definition example_procs :: "DistributedTransactionId \<Rightarrow> DistributedTransactionId \<Rightarrow> tm_proc list" where
  "example_procs x y = [\<lparr>tm_pid = 100, tm_gxid = x\<rparr>, \<lparr>tm_pid = 200, tm_gxid = y\<rparr>]"

lemmas example_defs = example_row_def example_rows_def example_procs_def

text \<open>
  C3 (refinement). One round of \<^verbatim>\<open>doDeadLockCheck\<close> always ends when the transaction ids are
  below \<open>2\<^sup>3\<^sup>1\<close>, and does what the policy says: with one wait-for edge for each reported row
  whose two transactions are in progress, it reduces the edges to their core and cancels the
  backends of the victims that the youngest-first policy picks there.
\<close>

theorem doDeadLockCheck_refines_policy:
  assumes "small_ids rows"
  shows "\<exists>S vs. edges_of_rows S (filter (live_row procs) rows) \<and> victims (gdd_core S) vs \<and>
    doDeadLockCheck (SPI_result (Some rows)) procs procs' = Some (RET_STATUS_OK, map (GetPidByGxid procs') vs)"
  by (rule deadlock_round_victims [OF assms, of procs procs']) blast

theorem doDeadLockCheck_refines_policy_witness:
  "small_ids (example_rows 5 7) \<and>
   (\<exists>S vs. edges_of_rows S (filter (live_row (example_procs 5 7)) (example_rows 5 7)) \<and> victims (gdd_core S) vs \<and>
     doDeadLockCheck (SPI_result (Some (example_rows 5 7))) (example_procs 5 7) (example_procs 5 7) =
       Some (RET_STATUS_OK, map (GetPidByGxid (example_procs 5 7)) vs))"
proof -
  have "small_ids (example_rows 5 7)" by (simp add: small_ids_def example_defs)
  then show ?thesis using doDeadLockCheck_refines_policy by blast
qed

text \<open>
  C14 (safety). No false alarm: when the live wait relation has no cycle, the round ends, reports
  success and cancels nothing, whatever the transaction ids are.
\<close>

theorem doDeadLockCheck_no_false_alarm:
  assumes "acyclic (row_waits (filter (live_row procs) rows))"
  shows "doDeadLockCheck (SPI_result (Some rows)) procs procs' = Some (RET_STATUS_OK, [])"
proof -
  obtain t S where eq: "doDeadLockCheck (SPI_result (Some rows)) procs procs' =
      (if gdd_core S = {} then Some (RET_STATUS_OK, [])
       else Option.bind (GddCtxBreakDeadLock t) (\<lambda>(xids, _). Some (RET_STATUS_OK, map (GetPidByGxid procs') xids)))"
    and S: "edges_of_rows S (filter (live_row procs) rows)" by (rule deadlock_round)
  have "gdd_core S = {}"
    using gdd_core_acyclic_empty [OF edges_of_rows_finite [OF S]] waits_for_rows [OF S] assms by simp
  then show ?thesis using eq by simp
qed

theorem doDeadLockCheck_no_false_alarm_witness:
  "row_waits (filter (live_row (example_procs 5 7)) [example_row 0 5 7, example_row 1 5 7]) = {(5, 7)} \<and>
   doDeadLockCheck (SPI_result (Some [example_row 0 5 7, example_row 1 5 7])) (example_procs 5 7) (example_procs 5 7) =
     Some (RET_STATUS_OK, [])"
proof -
  have eq: "row_waits (filter (live_row (example_procs 5 7)) [example_row 0 5 7, example_row 1 5 7]) = {(5, 7)}"
    by (simp add: row_waits_def live_row_def example_defs)
  have "acyclic {(5 :: DistributedTransactionId, 7 :: DistributedTransactionId)}"
    by (rule acyclicI_order [where f = "\<lambda>x. - int (unat x)"]) auto
  then show ?thesis using doDeadLockCheck_no_false_alarm [of "example_procs 5 7"] eq by simp
qed

text \<open>
  C15 (liveness). Every real deadlock is broken: the round ends, and of every cycle of live waits
  that cannot dissolve by itself (each dotted edge is followed by a wait on the same segment)
  at least one waiting transaction is among the cancelled ones. The victims are distinct.
\<close>

theorem doDeadLockCheck_breaks_deadlocks:
  assumes "small_ids rows"
  shows "\<exists>vs. doDeadLockCheck (SPI_result (Some rows)) procs procs' = Some (RET_STATUS_OK, map (GetPidByGxid procs') vs) \<and>
    distinct vs \<and>
    (\<forall>rs. firm_rows rs \<longrightarrow> set rs \<subseteq> set (filter (live_row procs) rows) \<longrightarrow> (\<exists>r \<in> set rs. row_waiter_xid r \<in> set vs))"
proof -
  obtain S vs where r: "doDeadLockCheck (SPI_result (Some rows)) procs procs' = Some (RET_STATUS_OK, map (GetPidByGxid procs') vs)"
    and S: "edges_of_rows S (filter (live_row procs) rows)" and v: "victims (gdd_core S) vs"
    by (rule deadlock_round_victims [OF assms])
  have fin: "finite S" "finite (gdd_core S)"
    using edges_of_rows_finite [OF S] finite_subset [OF core_of_subset] by simp_all
  have "sorted_wrt (>) vs" using victims_break [OF v fin(2)] by blast
  then have "distinct vs" by (rule strict_sorted_distinct)
  moreover have "\<exists>r \<in> set rs. row_waiter_xid r \<in> set vs"
    if firm: "firm_rows rs" and sub: "set rs \<subseteq> set (filter (live_row procs) rows)" for rs
  proof -
    obtain f where f: "firm_cycle (map (\<lambda>r. row_edge (f r) r) rs)" "(\<lambda>r. row_edge (f r) r) ` set rs \<subseteq> S"
      by (rule firm_rows_edges [OF S firm sub])
    then show ?thesis using victims_hit_cycle [OF v fin(1) f(1)] by auto
  qed
  ultimately show ?thesis using r by blast
qed

lemma example_firm: "firm_rows (example_rows x y)"
  by (simp add: firm_rows_def firm_cycle_def example_defs All_less_Suc numeral_2_eq_2)

lemma example_live: "x \<noteq> 0 \<Longrightarrow> y \<noteq> 0 \<Longrightarrow> filter (live_row (example_procs x y)) (example_rows x y) = example_rows x y"
  by (simp add: live_row_def example_defs)

lemma example_waiter: "r \<in> set (example_rows x y) \<Longrightarrow> row_waiter_xid r = x \<or> row_waiter_xid r = y"
  by (auto simp: example_defs)

theorem doDeadLockCheck_breaks_deadlocks_witness:
  "\<exists>vs. doDeadLockCheck (SPI_result (Some (example_rows 5 7))) (example_procs 5 7) (example_procs 5 7) =
      Some (RET_STATUS_OK, map (GetPidByGxid (example_procs 5 7)) vs) \<and> (5 \<in> set vs \<or> 7 \<in> set vs)"
proof -
  have "small_ids (example_rows 5 7)" by (simp add: small_ids_def example_defs)
  from doDeadLockCheck_breaks_deadlocks [OF this, of "example_procs 5 7" "example_procs 5 7"] show ?thesis
    using example_firm [of 5 7] example_live [of 5 7] example_waiter [of _ 5 7] by fastforce
qed

text \<open>
  C16 (safety, a defect). \<^verbatim>\<open>gddCtxGetMaxVid\<close> returns the 64-bit id of the youngest transaction
  as an \<^verbatim>\<open>int\<close>. When the ids of the live rows lie between \<open>2\<^sup>3\<^sup>1\<close> and \<open>2\<^sup>3\<^sup>2\<close> and there is a real
  deadlock, the id comes back sign-extended, no transaction has it, nothing is removed, and
  the round never ends.
\<close>

theorem doDeadLockCheck_never_ends:
  assumes "\<And>r. r \<in> set rows \<Longrightarrow> live_row procs r \<Longrightarrow> row_waiter_xid r \<in> {2 ^ 31 ..< 2 ^ 32} \<and> row_holder_xid r \<in> {2 ^ 31 ..< 2 ^ 32}"
    and "firm_rows rs" "set rs \<subseteq> set (filter (live_row procs) rows)"
  shows "doDeadLockCheck (SPI_result (Some rows)) procs procs' = None"
proof -
  obtain t S where eq: "doDeadLockCheck (SPI_result (Some rows)) procs procs' =
      (if gdd_core S = {} then Some (RET_STATUS_OK, [])
       else Option.bind (GddCtxBreakDeadLock t) (\<lambda>(xids, _). Some (RET_STATUS_OK, map (GetPidByGxid procs') xids)))"
    and t: "wf_ctx t" "wait_edges t = gdd_core S" and S: "edges_of_rows S (filter (live_row procs) rows)"
    by (rule deadlock_round)
  obtain f where f: "firm_cycle (map (\<lambda>r. row_edge (f r) r) rs)" "(\<lambda>r. row_edge (f r) r) ` set rs \<subseteq> S"
    by (rule firm_rows_edges [OF S assms(2,3)])
  have "rs \<noteq> []" using assms(2) by (simp add: firm_rows_def firm_cycle_def)
  then have ne: "gdd_core S \<noteq> {}" using firm_cycle_in_core [OF f(1), of S] f(2) by auto
  have fin: "finite (gdd_core S)" by (rule finite_subset [OF core_of_subset edges_of_rows_finite [OF S]])
  have range: "x \<in> {2 ^ 31 ..< 2 ^ 32}" if "x \<in> endpoints (gdd_core S)" for x
  proof -
    from that obtain a where "a \<in> S" "x = we_waiter a \<or> x = we_holder a"
      unfolding endpoints_def using core_of_subset [of gdd_bad S] by blast
    then show ?thesis using edges_of_rowsD(1) [OF S, of a] assms(1) by auto
  qed
  have "max_vid (gdd_core S) < signed (ucast (max_vid (gdd_core S)) :: 32 word)"
    using range [OF max_vid_in [OF fin ne]] by (intro int_overflow) simp_all
  then have "signed (ucast (max_vid (gdd_core S)) :: 32 word) \<notin> endpoints (gdd_core S)"
    using max_vid_ge [OF fin] by (meson leD)
  then have "GddCtxBreakDeadLock t = None"
    unfolding GddCtxBreakDeadLock_def
    by (intro break_loop_diverges [OF t ne]) (simp_all add: stable_core_self gdd_rules.stable_core)
  then show ?thesis using eq ne by simp
qed

theorem doDeadLockCheck_never_ends_witness:
  "doDeadLockCheck (SPI_result (Some (example_rows 3000000000 3000000001)))
     (example_procs 3000000000 3000000001) [] = None"
proof (rule doDeadLockCheck_never_ends [where rs = "example_rows 3000000000 3000000001"])
  fix r assume "r \<in> set (example_rows 3000000000 3000000001)"
  then show "row_waiter_xid r \<in> {2 ^ 31 ..< 2 ^ 32} \<and> row_holder_xid r \<in> {2 ^ 31 ..< 2 ^ 32}"
    by (auto simp: example_defs)
qed (simp_all add: example_firm example_live)

section \<open>The context operations\<close>

lemmas gdd_build_simps = GddCtxAddEdge_def gddGraphMakeEdge_def gddGraphGetVert_def gddCtxGetGraph_def gddCtxGetGlobalStat_def
  gddVertBindStats_def gddEdgeLink_def gddGraphNew_def gddVertNew_def gddEdgeNew_def gddStatNew_def GddCtxNew_def
  gddMapInit_def upd_graph_def upd_vert_def upd_stat_def gddMapGet_map_of seg_key_def

text \<open>
  C17 (refinement). \<^verbatim>\<open>GddCtxReduce\<close> ends on every well-formed context, keeps it well formed, and
  leaves exactly the core of its wait-for edges: the largest set of edges in which no
  reduction rule applies, whatever order the passes visit the vertices in.
\<close>

theorem GddCtxReduce_computes_core:
  assumes "wf_ctx s"
  shows "\<exists>t. GddCtxReduce s = Some t \<and> wf_ctx t \<and> wait_edges t = gdd_core (wait_edges s) \<and>
    (GddCtxEmpty t \<longleftrightarrow> gdd_core (wait_edges s) = {})"
proof -
  obtain t where "GddCtxReduce s = Some t" "wf_ctx t" "wait_edges t = gdd_core (wait_edges s)"
    using GddCtxReduce_spec [OF assms] by blast
  then show ?thesis using GddCtxEmpty_iff [of t] by simp
qed

theorem GddCtxReduce_computes_core_witness:
  "wf_ctx GddCtxNew \<and> (\<exists>t. GddCtxReduce (snd (GddCtxAddEdge GddCtxNew 0 5 7 True)) = Some t \<and> GddCtxEmpty t)"
proof -
  let ?s = "snd (GddCtxAddEdge GddCtxNew 0 5 7 True)"
  have wf: "wf_ctx ?s" and we: "waits_for (wait_edges ?s) = {(5, 7)}"
    using GddCtxAddEdge_spec(1,3) [OF GddCtxNew_wf(1)] by (simp_all add: GddCtxNew_wf(2) waits_for_def)
  have "acyclic {(5 :: DistributedTransactionId, 7 :: DistributedTransactionId)}"
    by (rule acyclicI_order [where f = "\<lambda>x. - int (unat x)"]) auto
  then have "gdd_core (wait_edges ?s) = {}" using gdd_core_acyclic_empty we by simp
  then show ?thesis using GddCtxReduce_computes_core [OF wf] GddCtxNew_wf(1) by auto
qed

text \<open>
  \<^verbatim>\<open>GddCtxAddEdge\<close> keeps the invariant of the linked graph (each edge in the out
  list of its waiter and in the in list of its holder, one vertex per transaction and segment,
  degree counters equal to the numbers of edges) and adds exactly one edge, with a new id.
\<close>

theorem GddCtxAddEdge_adds_one_edge:
  assumes "wf_ctx s" "GddCtxAddEdge s segid x y sld = (e, t)"
  shows "wf_ctx t \<and> e \<notin> we_id ` wait_edges s \<and>
    wait_edges t =
      insert \<lparr>we_id = e, we_seg = seg_key segid, we_waiter = x, we_holder = y, we_solid = sld\<rparr> (wait_edges s)"
  using GddCtxAddEdge_spec [OF assms(1), where segid = segid and x = x and y = y and sld = sld, unfolded assms(2) fst_conv snd_conv]
  by blast

theorem GddCtxAddEdge_adds_one_edge_witness:
  "wf_ctx GddCtxNew \<and> (\<exists>e. wait_edges (snd (GddCtxAddEdge GddCtxNew 1 5 7 True)) =
     {\<lparr>we_id = e, we_seg = 1, we_waiter = 5, we_holder = 7, we_solid = True\<rparr>})"
proof -
  obtain e t where "GddCtxAddEdge GddCtxNew 1 5 7 True = (e, t)" by fastforce
  then show ?thesis using GddCtxAddEdge_adds_one_edge [of GddCtxNew 1 5 7 True] GddCtxNew_wf
    by (auto simp: seg_key_def)
qed

text \<open>
  C18 (termination and functional). On a well-formed context whose ids are below \<open>2\<^sup>3\<^sup>1\<close>
  \<^verbatim>\<open>GddCtxBreakDeadLock\<close> ends with no edge left; the ids it returns are strictly decreasing,
  each takes part in the deadlock, and without their edges nothing of it survives the
  reduction.
\<close>

theorem GddCtxBreakDeadLock_breaks:
  assumes "wf_ctx s" "\<And>x. x \<in> endpoints (wait_edges s) \<Longrightarrow> x < 2 ^ 31"
  shows "\<exists>vs t. GddCtxBreakDeadLock s = Some (vs, t) \<and> wf_ctx t \<and> GddCtxEmpty t \<and>
    sorted_wrt (>) vs \<and> set vs \<subseteq> endpoints (wait_edges s) \<and>
    gdd_core {a \<in> wait_edges s. \<forall>v \<in> set vs. \<not> touches v a} = {}"
proof -
  obtain vs t where "break_loop [] s = Some (vs, t)" "wf_ctx t" "wait_edges t = {}" "victims (wait_edges s) vs"
    using break_loop_spec [OF assms, of "[]"] by auto
  then show ?thesis using victims_break [of "wait_edges s" vs] GddCtxEmpty_iff by (auto simp: GddCtxBreakDeadLock_def)
qed

theorem GddCtxBreakDeadLock_breaks_witness:
  "wf_ctx (snd (GddCtxAddEdge GddCtxNew 0 5 7 True)) \<and>
   (\<exists>vs t. GddCtxBreakDeadLock (snd (GddCtxAddEdge GddCtxNew 0 5 7 True)) = Some (vs, t) \<and> GddCtxEmpty t)"
proof -
  let ?s = "snd (GddCtxAddEdge GddCtxNew 0 5 7 True)"
  have wf: "wf_ctx ?s" and ep: "endpoints (wait_edges ?s) = {7, 5}"
    using GddCtxAddEdge_spec(1,3) [OF GddCtxNew_wf(1)] by (simp_all add: GddCtxNew_wf(2) endpoints_def)
  have "x < 2 ^ 31" if "x \<in> endpoints (wait_edges ?s)" for x using that unfolding ep by auto
  then show ?thesis using GddCtxBreakDeadLock_breaks [OF wf] wf by blast
qed

text \<open>
  \<^verbatim>\<open>gddEdgeUnlink\<close> without iterators undoes \<^verbatim>\<open>gddEdgeLink\<close> exactly: edge lists
  and all degree counters are what they were.
\<close>

theorem gddEdgeUnlink_undoes_link:
  assumes "e \<notin> set (edgesOut (h_vert s (edge_from (h_edge s e))))" "e \<notin> set (edgesIn (h_vert s (edge_to (h_edge s e))))"
  shows "gddEdgeUnlink e None None (gddEdgeLink e s) = s"
proof -
  have id: "stat_id (h_stat (gddEdgeLink e s) p) = stat_id (h_stat s p)"
    "stat_id (topstat (gddEdgeLink e s)) = stat_id (topstat s)" for p
    by (simp_all add: gddEdgeLink_def Let_def upd_stat_def upd_vert_def)
  have id': "stat_id (topstat (gddEdgeUnlink e None None u)) = stat_id (topstat u)" for u
    by (simp add: gddEdgeUnlink_def gddEdgeUnlinkFrom_def gddEdgeUnlinkTo_def Let_def upd_stat_def upd_vert_def)
  have v: "h_vert (gddEdgeUnlink e None None (gddEdgeLink e s)) v = h_vert s v" for v
    by (rule GddVert.equality) (use assms in \<open>simp_all add: unlink_vert gddEdgeLink_fields gddEdgeLink_frame remove1_append\<close>)
  have p: "h_stat (gddEdgeUnlink e None None (gddEdgeLink e s)) p = h_stat s p" for p
    by (rule GddStat.equality) (simp_all add: unlink_stat gddEdgeLink_fields gddEdgeLink_frame id)
  have "topstat (gddEdgeUnlink e None None (gddEdgeLink e s)) = topstat s"
    by (rule GddStat.equality) (simp_all add: unlink_stat gddEdgeLink_fields id id')
  then show ?thesis
    by (intro GddCtx.equality ext) (simp_all add: v p unlink_frame gddEdgeLink_frame)
qed

theorem gddEdgeUnlink_undoes_link_witness:
  "gddEdgeUnlink 2 None None (gddEdgeLink 2 (snd (gddGraphMakeEdge (snd (gddCtxGetGraph GddCtxNew 0)) 0 5 7 True))) =
   snd (gddGraphMakeEdge (snd (gddCtxGetGraph GddCtxNew 0)) 0 5 7 True)"
  by (rule gddEdgeUnlink_undoes_link) (simp_all add: gdd_build_simps)

section \<open>The report\<close>

lemma dumpGddEdge_cong:
  assumes "\<And>v. v \<noteq> u \<Longrightarrow> vd v = gs_vdata st v" "sat_pid (vd u) = sat_pid (gs_vdata st u)" "edge_from (h_edge (gs_ctx st) e) \<noteq> u"
  shows "dumpGddEdge (st\<lparr>gs_vdata := vd\<rparr>) e = dumpGddEdge st e"
proof -
  have "sat_pid (vd v) = sat_pid (gs_vdata st v)" for v using assms(1,2) by (cases "v = u") simp_all
  then show ?thesis using assms(1,3) by (simp add: dumpGddEdge_def Let_def)
qed

lemma dumpGddGraph_cong:
  assumes "\<And>p e. p \<in> set (map_pairs (graph_verts (h_graph (gs_ctx st) g))) \<Longrightarrow>
      e \<in> set (edgesOut (h_vert (gs_ctx st) (snd p))) \<Longrightarrow> dumpGddEdge (st\<lparr>gs_vdata := vd\<rparr>) e = dumpGddEdge st e"
  shows "dumpGddGraph (st\<lparr>gs_vdata := vd\<rparr>) g = dumpGddGraph st g"
proof -
  let ?es = "concat (map (\<lambda>p. edgesOut (h_vert (gs_ctx st) (snd p))) (map_pairs (graph_verts (h_graph (gs_ctx st) g))))"
  have "map (dumpGddEdge (st\<lparr>gs_vdata := vd\<rparr>)) ?es = map (dumpGddEdge st) ?es"
    using assms by (intro map_cong refl) auto
  then show ?thesis by (simp add: dumpGddGraph_def Let_def del: map_eq_conv)
qed

text \<open>
  The report of the final graph never shows the session of the
  transaction that holds the lock: where a vertex has no wait of its own on the segment, its
  session id has no influence on the dump, because \<^verbatim>\<open>dumpGddEdge\<close> prints the waiter's
  session in both places.
\<close>

theorem dumpGddCtx_omits_holder_session:
  assumes "wf_ctx (gs_ctx st)" "edgesOut (h_vert (gs_ctx st) u) = []"
  shows "dumpGddCtx (st\<lparr>gs_vdata := (gs_vdata st)(u := (gs_vdata st u)\<lparr>sat_sessionid := x\<rparr>)\<rparr>) = dumpGddCtx st"
    (is "dumpGddCtx (?upd st) = _")
proof -
  have "dumpGddGraph (?upd st) (snd p) = dumpGddGraph st (snd p)" if p: "p \<in> set (map_pairs (graphs (gs_ctx st)))" for p
  proof (rule dumpGddGraph_cong)
    fix q e assume q: "q \<in> set (map_pairs (graph_verts (h_graph (gs_ctx st) (snd p))))"
      and e: "e \<in> set (edgesOut (h_vert (gs_ctx st) (snd q)))"
    have "isv (gs_ctx st) (fst p) (fst q) (snd q)" using p q unfolding isv_def by (metis prod.collapse)
    then have "edge_from (h_edge (gs_ctx st) e) = snd q" using wf_out_edge(1) [OF assms(1) _ e] by blast
    moreover have "snd q \<noteq> u" using e assms(2) by auto
    ultimately show "dumpGddEdge (?upd st) e = dumpGddEdge st e" by (intro dumpGddEdge_cong [where u = u]) simp_all
  qed
  then have maps: "map (\<lambda>p. dumpGddGraph (?upd st) (snd p)) (map_pairs (graphs (gs_ctx st))) =
      map (\<lambda>p. dumpGddGraph st (snd p)) (map_pairs (graphs (gs_ctx st)))" by (intro map_cong refl)
  have "gs_ctx (?upd st) = gs_ctx st" by simp
  then show ?thesis unfolding dumpGddCtx_def by (simp only: maps)
qed

lemma example_graph_wf: "wf_ctx (gs_ctx (fold (add_wait_row (ListAllGxid (example_procs 5 7))) [example_row 0 5 7] new_state))"
  using add_rows_spec [of new_state "example_procs 5 7" "[example_row 0 5 7]"] GddCtxNew_wf by (simp add: new_state_def)

theorem dumpGddCtx_omits_holder_session_witness:
  "dumpGddCtx ((add_wait_row (ListAllGxid (example_procs 5 7)) (example_row 0 5 7) new_state)
      \<lparr>gs_vdata := (gs_vdata (add_wait_row (ListAllGxid (example_procs 5 7)) (example_row 0 5 7) new_state))
        (2 := (gs_vdata (add_wait_row (ListAllGxid (example_procs 5 7)) (example_row 0 5 7) new_state) 2)
          \<lparr>sat_sessionid := 99\<rparr>)\<rparr>) =
   dumpGddCtx (add_wait_row (ListAllGxid (example_procs 5 7)) (example_row 0 5 7) new_state)"
proof (rule dumpGddCtx_omits_holder_session)
  show "wf_ctx (gs_ctx (add_wait_row (ListAllGxid (example_procs 5 7)) (example_row 0 5 7) new_state))"
    using example_graph_wf by simp
  show "edgesOut (h_vert (gs_ctx (add_wait_row (ListAllGxid (example_procs 5 7)) (example_row 0 5 7) new_state)) 2) = []"
    by (simp add: example_defs add_wait_row_def ListAllGxid_def new_state_def gdd_build_simps)
qed

end
