(* ===== verification/Fts_Model.thy ===== *)
theory Fts_Model
  imports Pg_Prelude
begin

text \<open>
  The fault tolerance service: the probe cycle of \<^verbatim>\<open>src/src/backend/fts/ftsprobe.c\<close> with the
  catalog updates of \<^verbatim>\<open>fts.c\<close>. Each primary is probed over an asynchronous connection; the
  cycle is a loop over six phases, and every segment is a state machine in it.

  What the network, the clock and \<^verbatim>\<open>poll()\<close> answer is an input: one environment per
  iteration holds the result of every libpq and system call the iteration may make, for every
  segment. The configuration entries a segment refers to do not change during a cycle, so a
  pointer to one is modelled by its value, \<^verbatim>\<open>NULL\<close> by \<open>None\<close>. Building the connection string
  and the log texts has no effect on the state and is left out; the arguments of a log
  call that read through the mirror pointer are kept, since they read through \<^verbatim>\<open>NULL\<close> in a
  cluster without mirrors.
\<close>

unbundle bit_operations_syntax

section \<open>Types\<close>

datatype FtsMessageState =
    FTS_PROBE_SEGMENT | FTS_SYNCREP_OFF_SEGMENT | FTS_PROMOTE_SEGMENT
  | FTS_PROBE_RETRY_WAIT | FTS_SYNCREP_OFF_RETRY_WAIT | FTS_PROMOTE_RETRY_WAIT
  | FTS_PROBE_SUCCESS | FTS_SYNCREP_OFF_SUCCESS | FTS_PROMOTE_SUCCESS
  | FTS_PROBE_FAILED | FTS_SYNCREP_OFF_FAILED | FTS_PROMOTE_FAILED
  | FTS_RESPONSE_PROCESSED

datatype PMRestartState =
    PM_NOT_IN_RESTART | PM_IN_RESETTING
  | PM_IN_RECOVERY_MAKING_PROGRESS | PM_IN_RECOVERY_NOT_MAKING_PROGRESS

definition IsFtsMessageStateSuccess :: "FtsMessageState \<Rightarrow> bool" where
  "IsFtsMessageStateSuccess st \<longleftrightarrow>
     st = FTS_PROBE_SUCCESS \<or> st = FTS_SYNCREP_OFF_SUCCESS \<or> st = FTS_PROMOTE_SUCCESS"

definition IsFtsMessageStateFailed :: "FtsMessageState \<Rightarrow> bool" where
  "IsFtsMessageStateFailed st \<longleftrightarrow>
     st = FTS_PROBE_FAILED \<or> st = FTS_SYNCREP_OFF_FAILED \<or> st = FTS_PROMOTE_FAILED"

record fts_result =
  res_dbid :: int
  isPrimaryAlive :: bool
  isMirrorAlive :: bool
  isInSync :: bool
  isSyncRepEnabled :: bool
  isRoleMirror :: bool
  retryRequested :: bool

text \<open>A row of \<^verbatim>\<open>gp_segment_configuration\<close>, as far as the probe reads it.\<close>

record GpSegConfigEntry =
  dbid :: int
  segindex :: int
  role :: char
  mode :: char
  status :: char

abbreviation ROLE_PRIMARY :: char where "ROLE_PRIMARY \<equiv> CHR ''p''"
abbreviation ROLE_MIRROR :: char where "ROLE_MIRROR \<equiv> CHR ''m''"
abbreviation STATUS_UP :: char where "STATUS_UP \<equiv> CHR ''u''"
abbreviation STATUS_DOWN :: char where "STATUS_DOWN \<equiv> CHR ''d''"
abbreviation MODE_INSYNC :: char where "MODE_INSYNC \<equiv> CHR ''s''"
abbreviation MODE_NOTINSYNC :: char where "MODE_NOTINSYNC \<equiv> CHR ''n''"

definition SEGMENT_IS_ACTIVE_PRIMARY :: "GpSegConfigEntry \<Rightarrow> bool" where
  "SEGMENT_IS_ACTIVE_PRIMARY p \<longleftrightarrow> role p = ROLE_PRIMARY"

definition SEGMENT_IS_ALIVE :: "GpSegConfigEntry \<Rightarrow> bool" where
  "SEGMENT_IS_ALIVE p \<longleftrightarrow> status p = STATUS_UP"

definition SEGMENT_IS_IN_SYNC :: "GpSegConfigEntry \<Rightarrow> bool" where
  "SEGMENT_IS_IN_SYNC p \<longleftrightarrow> mode p = MODE_INSYNC"

text \<open>The part of a libpq connection the probe looks at. Every status other than
  \<^verbatim>\<open>CONNECTION_OK\<close> and \<^verbatim>\<open>CONNECTION_BAD\<close> is a connection in progress.\<close>

datatype ConnStatusType = CONNECTION_OK | CONNECTION_BAD | CONNECTION_IN_PROGRESS
datatype PGAsyncStatusType = PGASYNC_IDLE | PGASYNC_BUSY | PGASYNC_READY

record pg_conn =
  conn_status :: ConnStatusType
  asyncStatus :: PGAsyncStatusType
  errorMessage :: string

datatype PostgresPollingStatusType =
  PGRES_POLLING_FAILED | PGRES_POLLING_READING | PGRES_POLLING_WRITING | PGRES_POLLING_OK | PGRES_POLLING_ACTIVE

text \<open>\<open>getvalue i\<close> is the first byte of field \<open>i\<close> of the first row.\<close>

record PGresult =
  tuples_ok :: bool
  ntuples :: int
  nfields :: int
  getvalue :: "nat \<Rightarrow> uint8"

record fts_segment_info =
  primary_cdbinfo :: GpSegConfigEntry
  mirror_cdbinfo :: "GpSegConfigEntry option"
  seg_result :: fts_result
  state :: FtsMessageState
  poll_events :: uint16
  poll_revents :: uint16
  fd_index :: int
  startTime :: int
  retryStartTime :: int
  conn :: "pg_conn option"
  retry_count :: int
  xlogrecptr :: uint64
  restart_state :: PMRestartState
  timeout_count :: int

text \<open>The first \<^verbatim>\<open>num_pairs\<close> entries of the array are the list.\<close>

record fts_context =
  has_mirrors :: bool
  perSegInfos :: "fts_segment_info list"

record CdbComponentDatabases =
  total_segments :: int
  segment_db_info :: "GpSegConfigEntry list"

text \<open>The errors the cycle raises, and reading through a null pointer.\<close>

datatype fts_error =
    No_next_success_state FtsMessageState
  | No_next_failed_state FtsMessageState
  | Connection_object_is_null
  | Invalid_connect_poll
  | Poll_failed_error
  | Invalid_internal_state FtsMessageState
  | Dbid_not_found int
  | Negative_bitmapset_member
  | Null_pointer
  | Uninitialised_pair
  | Array_overflow

section \<open>Inputs\<close>

record seg_env =
  e_connectStart :: "pg_conn option"
  e_time :: int
  e_connectPoll :: "PostgresPollingStatusType \<times> pg_conn"
  e_revents :: uint16
  e_sendQuery :: "bool \<times> pg_conn"
  e_consumeInput :: "bool \<times> pg_conn"
  e_isBusy :: "bool \<times> pg_conn"
  e_getResult :: "PGresult option \<times> pg_conn"

datatype poll_outcome = Poll_ready int | Poll_interrupted | Poll_error

record fts_env =
  env_seg :: "nat \<Rightarrow> seg_env"
  env_poll :: poll_outcome
  env_poll_now :: int
  env_retry_now :: int

text \<open>
  Settings; \<open>log_output\<close> and \<open>warning_output\<close> say whether messages of level \<^verbatim>\<open>LOG\<close> and
  \<^verbatim>\<open>WARNING\<close> are output at all, \<open>log_verbose\<close> whether \<^verbatim>\<open>gp_log_fts\<close> asks for the verbose ones.
\<close>

record fts_guc =
  gp_fts_probe_retries :: int
  gp_fts_probe_timeout :: int
  log_output :: bool
  warning_output :: bool
  log_verbose :: bool

definition POLLIN :: uint16 where "POLLIN = 1"
definition POLLOUT :: uint16 where "POLLOUT = 4"
definition POLLERR :: uint16 where "POLLERR = 8"
definition POLLHUP :: uint16 where "POLLHUP = 16"

text \<open>The conversion of a 64-bit time difference to \<^verbatim>\<open>int\<close>.\<close>

definition int_of_time :: "int \<Rightarrow> int" where
  "int_of_time t = signed_take_bit 31 t"

end
