(* ===== verification/Fts_Probe.thy ===== *)
theory Fts_Probe
  imports Fts_Model
begin

text \<open>
  The operations of \<^verbatim>\<open>ftsprobe.c\<close>, one definition for each function and one for the body of
  each loop over the segments, in the order of the source.
\<close>

unbundle bit_operations_syntax

section \<open>State transitions\<close>

definition FtsGetPeerSegment :: "CdbComponentDatabases \<Rightarrow> int \<Rightarrow> int \<Rightarrow> GpSegConfigEntry option" where
  "FtsGetPeerSegment cdbs content db =
     List.find (\<lambda>seg. segindex seg = content \<and> dbid seg \<noteq> db) (segment_db_info cdbs)"

fun nextSuccessState :: "FtsMessageState \<Rightarrow> fts_error + FtsMessageState" where
  "nextSuccessState FTS_PROBE_SEGMENT = Inr FTS_PROBE_SUCCESS"
| "nextSuccessState FTS_SYNCREP_OFF_SEGMENT = Inr FTS_SYNCREP_OFF_SUCCESS"
| "nextSuccessState FTS_PROMOTE_SEGMENT = Inr FTS_PROMOTE_SUCCESS"
| "nextSuccessState st = Inl (No_next_success_state st)"

fun nextFailedState :: "FtsMessageState \<Rightarrow> fts_error + FtsMessageState" where
  "nextFailedState FTS_PROBE_SEGMENT = Inr FTS_PROBE_FAILED"
| "nextFailedState FTS_SYNCREP_OFF_SEGMENT = Inr FTS_SYNCREP_OFF_FAILED"
| "nextFailedState FTS_PROMOTE_SEGMENT = Inr FTS_PROMOTE_FAILED"
| "nextFailedState FTS_PROBE_FAILED = Inr FTS_PROBE_FAILED"
| "nextFailedState FTS_SYNCREP_OFF_FAILED = Inr FTS_SYNCREP_OFF_FAILED"
| "nextFailedState FTS_PROMOTE_FAILED = Inr FTS_PROMOTE_FAILED"
| "nextFailedState FTS_PROBE_RETRY_WAIT = Inr FTS_PROBE_FAILED"
| "nextFailedState FTS_SYNCREP_OFF_RETRY_WAIT = Inr FTS_SYNCREP_OFF_FAILED"
| "nextFailedState FTS_PROMOTE_RETRY_WAIT = Inr FTS_PROMOTE_FAILED"
| "nextFailedState st = Inl (No_next_failed_state st)"

text \<open>\<^verbatim>\<open>ftsInfo->state = nextFailedState(ftsInfo->state)\<close>\<close>

definition fail_segment :: "fts_segment_info \<Rightarrow> fts_error + fts_segment_info" where
  "fail_segment info = rbind (nextFailedState (state info)) (\<lambda>st. Inr (info\<lparr>state := st\<rparr>))"

definition allDone :: "fts_context \<Rightarrow> bool" where
  "allDone ctx = list_all (\<lambda>info. state info = FTS_RESPONSE_PROCESSED) (perSegInfos ctx)"

definition is_sending_state :: "FtsMessageState \<Rightarrow> bool" where
  "is_sending_state st \<longleftrightarrow>
     st = FTS_PROBE_SEGMENT \<or> st = FTS_SYNCREP_OFF_SEGMENT \<or> st = FTS_PROMOTE_SEGMENT"

section \<open>Connecting\<close>

definition ftsConnectStart :: "seg_env \<Rightarrow> fts_segment_info \<Rightarrow> fts_error + bool \<times> fts_segment_info" where
  "ftsConnectStart env info =
     (case e_connectStart env of
        None \<Rightarrow> Inl Connection_object_is_null
      | Some c \<Rightarrow>
          let info = info\<lparr>conn := Some c\<rparr>
          in if conn_status c = CONNECTION_BAD then Inr (False, info)
             else Inr (True, info\<lparr>poll_events := poll_events info OR POLLOUT, startTime := e_time env\<rparr>))"

text \<open>\<open>strstr h n\<close> is the suffix of \<open>h\<close> that starts with the first occurrence of \<open>n\<close>.\<close>

fun strstr :: "string \<Rightarrow> string \<Rightarrow> string option" where
  "strstr h n = (if take (length n) h = n then Some h
                 else case h of [] \<Rightarrow> None | _ # h' \<Rightarrow> strstr h' n)"

declare strstr.simps [simp del]

text \<open>
  \<^verbatim>\<open>sscanf\<close> with \<^verbatim>\<open>%X\<close>: white space, a sign, a prefix \<^verbatim>\<open>0x\<close>, then hexadecimal digits, the value
  kept to 32 bits (numbers of more than sixteen digits, which would saturate, aside).
\<close>

definition hex_digit :: "char \<Rightarrow> nat option" where
  "hex_digit c =
     (let n = of_char c :: nat
      in if 48 \<le> n \<and> n \<le> 57 then Some (n - 48)
         else if 65 \<le> n \<and> n \<le> 70 then Some (n - 55)
         else if 97 \<le> n \<and> n \<le> 102 then Some (n - 87) else None)"

fun scan_digits :: "uint32 \<Rightarrow> string \<Rightarrow> uint32 \<times> string" where
  "scan_digits acc [] = (acc, [])"
| "scan_digits acc (c # s) =
     (case hex_digit c of Some d \<Rightarrow> scan_digits (acc * 16 + of_nat d) s | None \<Rightarrow> (acc, c # s))"

fun skip_blanks :: "string \<Rightarrow> string" where
  "skip_blanks [] = []"
| "skip_blanks (c # s) =
     (let n = of_char c :: nat in if n = 32 \<or> 9 \<le> n \<and> n \<le> 13 then skip_blanks s else c # s)"

definition skip_sign :: "string \<Rightarrow> bool \<times> string" where
  "skip_sign s =
     (case s of c # s' \<Rightarrow> if c = CHR ''-'' then (True, s') else if c = CHR ''+'' then (False, s') else (False, s)
      | [] \<Rightarrow> (False, []))"

definition skip_0x :: "string \<Rightarrow> string" where
  "skip_0x s =
     (case s of z # x # d # s' \<Rightarrow>
        if z = CHR ''0'' \<and> (x = CHR ''x'' \<or> x = CHR ''X'') \<and> hex_digit d \<noteq> None then d # s' else s
      | _ \<Rightarrow> s)"

definition scan_hex :: "string \<Rightarrow> (uint32 \<times> string) option" where
  "scan_hex s =
     (let (neg, s) = skip_sign (skip_blanks s); s = skip_0x s
      in case s of
           [] \<Rightarrow> None
         | c # _ \<Rightarrow>
             if hex_digit c = None then None
             else let (v, s) = scan_digits 0 s in Some (if neg then - v else v, s))"

definition POSTMASTER_IN_STARTUP_MSG :: string where
  "POSTMASTER_IN_STARTUP_MSG = ''the database system is starting up''"
definition POSTMASTER_IN_RESET_MSG :: string where
  "POSTMASTER_IN_RESET_MSG = ''the database system is resetting''"
definition POSTMASTER_IN_RECOVERY_MSG :: string where
  "POSTMASTER_IN_RECOVERY_MSG = ''the database system is in recovery mode''"
definition POSTMASTER_IN_RECOVERY_DETAIL_MSG :: string where
  "POSTMASTER_IN_RECOVERY_DETAIL_MSG = ''last replayed record at''"

text \<open>The two numbers of \<^verbatim>\<open>last replayed record at %X/%X\<close>.\<close>

definition scan_replay :: "string \<Rightarrow> uint64 option" where
  "scan_replay msg =
     (case strstr msg POSTMASTER_IN_RECOVERY_DETAIL_MSG of
        None \<Rightarrow> None
      | Some s \<Rightarrow>
         (case scan_hex (drop (length POSTMASTER_IN_RECOVERY_DETAIL_MSG) s) of
            None \<Rightarrow> None
          | Some (hi, s) \<Rightarrow>
             (case s of
                [] \<Rightarrow> None
              | c # s \<Rightarrow>
                  if c = CHR ''/'' then
                    (case scan_hex s of
                       None \<Rightarrow> None
                     | Some (lo, _) \<Rightarrow> Some (push_bit 32 (ucast hi) OR ucast lo))
                  else None)))"

text \<open>A log call whose arguments read \<^verbatim>\<open>ftsInfo->mirror_cdbinfo->config->dbid\<close>.\<close>

definition log_mirror :: "bool \<Rightarrow> fts_segment_info \<Rightarrow> fts_error + fts_segment_info" where
  "log_mirror out info = (if out \<and> mirror_cdbinfo info = None then Inl Null_pointer else Inr info)"

definition checkIfFailedDueToNormalRestart ::
  "fts_guc \<Rightarrow> fts_segment_info \<Rightarrow> fts_error + fts_segment_info" where
  "checkIfFailedDueToNormalRestart guc info =
     (case conn info of
        None \<Rightarrow> Inr info
      | Some c \<Rightarrow>
         if strstr (errorMessage c) POSTMASTER_IN_RECOVERY_MSG \<noteq> None \<or>
            strstr (errorMessage c) POSTMASTER_IN_STARTUP_MSG \<noteq> None
         then
           (case scan_replay (errorMessage c) of
              None \<Rightarrow> Inr info
            | Some tmpptr \<Rightarrow>
                if tmpptr \<le> xlogrecptr info
                then log_mirror (log_output guc) (info\<lparr>restart_state := PM_IN_RECOVERY_NOT_MAKING_PROGRESS\<rparr>)
                else log_mirror (log_verbose guc \<and> log_output guc)
                       (info\<lparr>restart_state := PM_IN_RECOVERY_MAKING_PROGRESS, xlogrecptr := tmpptr\<rparr>))
         else if strstr (errorMessage c) POSTMASTER_IN_RESET_MSG \<noteq> None
         then log_mirror (log_output guc) (info\<lparr>restart_state := PM_IN_RESETTING\<rparr>)
         else Inr info)"

text \<open>The switch over the result of \<^verbatim>\<open>PQconnectPoll\<close>.\<close>

definition connect_poll :: "fts_guc \<Rightarrow> seg_env \<Rightarrow> fts_segment_info \<Rightarrow> fts_error + fts_segment_info" where
  "connect_poll guc env info =
     (let (r, c) = e_connectPoll env; info = info\<lparr>conn := Some c\<rparr>
      in case r of
           PGRES_POLLING_OK \<Rightarrow> Inr (info\<lparr>poll_events := POLLOUT\<rparr>)
         | PGRES_POLLING_READING \<Rightarrow> Inr (info\<lparr>poll_events := poll_events info OR POLLIN\<rparr>)
         | PGRES_POLLING_WRITING \<Rightarrow> Inr (info\<lparr>poll_events := poll_events info OR POLLOUT\<rparr>)
         | PGRES_POLLING_FAILED \<Rightarrow> rbind (fail_segment info) (checkIfFailedDueToNormalRestart guc)
         | PGRES_POLLING_ACTIVE \<Rightarrow> Inl Invalid_connect_poll)"

definition connect_segment :: "fts_guc \<Rightarrow> seg_env \<Rightarrow> fts_segment_info \<Rightarrow> fts_error + fts_segment_info" where
  "connect_segment guc env info =
     (if (case conn info of Some c \<Rightarrow> conn_status c = CONNECTION_OK | None \<Rightarrow> False) then Inr info
      else if is_sending_state (state info)
      then
        let info = info\<lparr>restart_state := PM_NOT_IN_RESTART\<rparr>
        in if conn info = None
           then rbind (ftsConnectStart env info) (\<lambda>(started, info).
                  if started then Inr info else fail_segment info)
           else if poll_revents info AND (POLLOUT OR POLLIN) \<noteq> 0 then connect_poll guc env info
           else Inr info
      else Inr info)"

definition ftsConnect :: "fts_guc \<Rightarrow> fts_env \<Rightarrow> fts_context \<Rightarrow> fts_error + fts_context" where
  "ftsConnect guc env ctx =
     rbind (map_index_r (\<lambda>i. connect_segment guc (env_seg env i)) 0 (perSegInfos ctx))
       (\<lambda>infos. Inr (ctx\<lparr>perSegInfos := infos\<rparr>))"

section \<open>Polling\<close>

definition ftsCheckTimeout :: "fts_guc \<Rightarrow> int \<Rightarrow> fts_segment_info \<Rightarrow> fts_error + fts_segment_info" where
  "ftsCheckTimeout guc now info =
     (if \<not> IsFtsMessageStateSuccess (state info) \<and> int_of_time (now - startTime info) > gp_fts_probe_timeout guc
      then fail_segment (info\<lparr>timeout_count := 0\<rparr>)
      else Inr info)"

definition is_polled :: "fts_segment_info \<Rightarrow> bool" where
  "is_polled info \<longleftrightarrow> poll_events info AND (POLLIN OR POLLOUT) \<noteq> 0"

fun assign_fds :: "int \<Rightarrow> fts_segment_info list \<Rightarrow> int \<times> fts_segment_info list" where
  "assign_fds nfds [] = (nfds, [])"
| "assign_fds nfds (info # infos) =
     (if is_polled info
      then let (n, infos) = assign_fds (nfds + 1) infos in (n, info\<lparr>fd_index := nfds\<rparr> # infos)
      else let (n, infos) = assign_fds nfds infos in (n, info\<lparr>fd_index := -1\<rparr> # infos))"

text \<open>\<^verbatim>\<open>poll()\<close> sets \<^verbatim>\<open>revents\<close> only when it returns a positive number.\<close>

definition poll_segment ::
  "fts_guc \<Rightarrow> int \<Rightarrow> int \<Rightarrow> seg_env \<Rightarrow> fts_segment_info \<Rightarrow> fts_error + fts_segment_info" where
  "poll_segment guc now nready env info =
     (if \<not> is_polled info then Inr info
      else
        let info = info\<lparr>poll_revents := (if nready > 0 then e_revents env else 0)\<rparr>
        in rbind (if poll_revents info AND poll_events info \<noteq> 0 then Inr (info\<lparr>poll_events := 0\<rparr>)
                  else if poll_revents info AND (POLLHUP OR POLLERR) \<noteq> 0 then fail_segment info
                  else if poll_revents info \<noteq> 0 then fail_segment info
                  else Inr info)
             (\<lambda>info.
                let info = (if \<not> IsFtsMessageStateSuccess (state info) \<and> nready = 0
                            then info\<lparr>timeout_count := timeout_count info + 1\<rparr> else info)
                in ftsCheckTimeout guc now info))"

definition ftsPoll :: "fts_guc \<Rightarrow> fts_env \<Rightarrow> fts_context \<Rightarrow> fts_error + fts_context" where
  "ftsPoll guc env ctx =
     (let (nfds, infos) = assign_fds 0 (perSegInfos ctx);
          run = (\<lambda>nready. rbind
            (map_index_r (\<lambda>i. poll_segment guc (env_poll_now env) nready (env_seg env i)) 0 infos)
            (\<lambda>infos. Inr (ctx\<lparr>perSegInfos := infos\<rparr>)))
      in if nfds = 0 then Inr (ctx\<lparr>perSegInfos := infos\<rparr>)
         else case env_poll env of
                Poll_error \<Rightarrow> Inl Poll_failed_error
              | Poll_interrupted \<Rightarrow> run (-1)
              | Poll_ready nready \<Rightarrow> run nready)"

section \<open>Sending and receiving\<close>

definition send_segment :: "seg_env \<Rightarrow> fts_segment_info \<Rightarrow> fts_error + fts_segment_info" where
  "send_segment env info =
     (if \<not> is_sending_state (state info) then Inr info
      else case conn info of
        None \<Rightarrow> Inr info
      | Some c \<Rightarrow>
          if conn_status c \<noteq> CONNECTION_OK \<or> asyncStatus c \<noteq> PGASYNC_IDLE \<or> poll_revents info AND POLLOUT = 0
          then Inr info
          else
            let (sent, c) = e_sendQuery env; info = info\<lparr>conn := Some c\<rparr>
            in if sent then Inr (info\<lparr>poll_events := POLLIN\<rparr>) else fail_segment info)"

definition ftsSend :: "fts_env \<Rightarrow> fts_context \<Rightarrow> fts_error + fts_context" where
  "ftsSend env ctx =
     rbind (map_index_r (\<lambda>i. send_segment (env_seg env i)) 0 (perSegInfos ctx))
       (\<lambda>infos. Inr (ctx\<lparr>perSegInfos := infos\<rparr>))"

definition probeRecordResponse :: "PGresult \<Rightarrow> fts_segment_info \<Rightarrow> fts_segment_info" where
  "probeRecordResponse result info =
     info\<lparr>seg_result := (seg_result info)
       \<lparr>isPrimaryAlive := True,
        isMirrorAlive := (getvalue result 0 \<noteq> 0),
        isInSync := (getvalue result 1 \<noteq> 0),
        isSyncRepEnabled := (getvalue result 2 \<noteq> 0),
        isRoleMirror := (getvalue result 3 \<noteq> 0),
        retryRequested := (getvalue result 4 \<noteq> 0)\<rparr>\<rparr>"

definition receive_segment :: "seg_env \<Rightarrow> fts_segment_info \<Rightarrow> fts_error + fts_segment_info" where
  "receive_segment env info =
     (if \<not> is_sending_state (state info) then Inr info
      else case conn info of
        None \<Rightarrow> Inr info
      | Some c \<Rightarrow>
          if conn_status c \<noteq> CONNECTION_OK \<or> poll_revents info AND POLLIN = 0 then Inr info
          else
            let (ok, c) = e_consumeInput env; info = info\<lparr>conn := Some c\<rparr>
            in if \<not> ok then fail_segment info
               else
                 let (busy, c) = e_isBusy env; info = info\<lparr>conn := Some c\<rparr>
                 in if busy then Inr info
                    else
                      let (res, c) = e_getResult env; info = info\<lparr>conn := Some c\<rparr>
                      in (case res of
                            None \<Rightarrow> fail_segment info
                          | Some result \<Rightarrow>
                              if conn_status c = CONNECTION_BAD then fail_segment info
                              else if \<not> tuples_ok result then fail_segment info
                              else if nfields result \<noteq> 5 \<or> ntuples result \<noteq> 1 then fail_segment info
                              else
                                let info = probeRecordResponse result info
                                in rbind (nextSuccessState (state info)) (\<lambda>st. Inr (info\<lparr>state := st\<rparr>))))"

definition ftsReceive :: "fts_env \<Rightarrow> fts_context \<Rightarrow> fts_error + fts_context" where
  "ftsReceive env ctx =
     rbind (map_index_r (\<lambda>i. receive_segment (env_seg env i)) 0 (perSegInfos ctx))
       (\<lambda>infos. Inr (ctx\<lparr>perSegInfos := infos\<rparr>))"

section \<open>Retries\<close>

definition no_result :: fts_result where
  "no_result = \<lparr>res_dbid = 0, isPrimaryAlive = False, isMirrorAlive = False, isInSync = False,
     isSyncRepEnabled = False, isRoleMirror = False, retryRequested = False\<rparr>"

definition retryForFtsFailed :: "fts_guc \<Rightarrow> int \<Rightarrow> fts_segment_info \<Rightarrow> fts_segment_info" where
  "retryForFtsFailed guc now info =
     (if retry_count info = gp_fts_probe_retries guc then info
      else info\<lparr>
        retry_count := retry_count info + 1,
        state := (if state info = FTS_PROBE_SUCCESS \<or> state info = FTS_PROBE_FAILED then FTS_PROBE_RETRY_WAIT
                  else if state info = FTS_SYNCREP_OFF_FAILED then FTS_SYNCREP_OFF_RETRY_WAIT
                  else FTS_PROMOTE_RETRY_WAIT),
        retryStartTime := now,
        conn := None, poll_events := 0, poll_revents := 0,
        seg_result := no_result\<rparr>)"

definition mirror_alive :: "fts_segment_info \<Rightarrow> fts_error + bool" where
  "mirror_alive info =
     (case mirror_cdbinfo info of None \<Rightarrow> Inl Null_pointer | Some m \<Rightarrow> Inr (SEGMENT_IS_ALIVE m))"

definition retry_segment ::
  "fts_guc \<Rightarrow> bool \<Rightarrow> int \<Rightarrow> fts_segment_info \<Rightarrow> fts_error + fts_segment_info" where
  "retry_segment guc mirrored now info =
     (case state info of
        FTS_PROBE_SUCCESS \<Rightarrow>
          if retryRequested (seg_result info) \<and> mirrored
          then rbind (mirror_alive info) (\<lambda>alive.
                 if alive then Inr (retryForFtsFailed guc now info) else Inr info)
          else Inr info
      | FTS_PROBE_FAILED \<Rightarrow> Inr (retryForFtsFailed guc now info)
      | FTS_SYNCREP_OFF_FAILED \<Rightarrow> Inr (retryForFtsFailed guc now info)
      | FTS_PROMOTE_FAILED \<Rightarrow> Inr (retryForFtsFailed guc now info)
      | FTS_PROBE_RETRY_WAIT \<Rightarrow>
          Inr (if int_of_time (now - retryStartTime info) < 1 then info else info\<lparr>state := FTS_PROBE_SEGMENT\<rparr>)
      | FTS_SYNCREP_OFF_RETRY_WAIT \<Rightarrow>
          Inr (if int_of_time (now - retryStartTime info) < 1 then info else info\<lparr>state := FTS_SYNCREP_OFF_SEGMENT\<rparr>)
      | FTS_PROMOTE_RETRY_WAIT \<Rightarrow>
          Inr (if int_of_time (now - retryStartTime info) < 1 then info else info\<lparr>state := FTS_PROMOTE_SEGMENT\<rparr>)
      | _ \<Rightarrow> Inr info)"

definition processRetry :: "fts_guc \<Rightarrow> fts_env \<Rightarrow> fts_context \<Rightarrow> fts_error + fts_context" where
  "processRetry guc env ctx =
     rbind (map_index_r (\<lambda>i. retry_segment guc (has_mirrors ctx) (env_retry_now env)) 0 (perSegInfos ctx))
       (\<lambda>infos. Inr (ctx\<lparr>perSegInfos := infos\<rparr>))"

definition ftsResponseReady :: "fts_segment_info \<Rightarrow> bool" where
  "ftsResponseReady info \<longleftrightarrow> IsFtsMessageStateSuccess (state info) \<or> IsFtsMessageStateFailed (state info)"

section \<open>The catalog\<close>

text \<open>
  The rows of \<^verbatim>\<open>gp_configuration_history\<close>, without their time stamps; the description is one of
  the five messages the code formats.
\<close>

datatype conf_history =
    Update_config int int char char char
  | Out_of_double_fault int int
  | Double_fault int int
  | Segment_up int int
  | Segment_down int int

record fts_global =
  gp_segment_configuration :: "GpSegConfigEntry list"
  gp_configuration_history :: "conf_history list"
  probe_status :: "int \<Rightarrow> uint8"
  failedContentIds :: "int set"

definition FTS_STATUS_SET_UP :: "int \<Rightarrow> fts_global \<Rightarrow> fts_global" where
  "FTS_STATUS_SET_UP db g = g\<lparr>probe_status := (probe_status g)(db := probe_status g db AND NOT 1)\<rparr>"

definition FTS_STATUS_SET_DOWN :: "int \<Rightarrow> fts_global \<Rightarrow> fts_global" where
  "FTS_STATUS_SET_DOWN db g = g\<lparr>probe_status := (probe_status g)(db := probe_status g db OR 1)\<rparr>"

definition probeWalRepUpdateConfig ::
  "int \<Rightarrow> int \<Rightarrow> char \<Rightarrow> bool \<Rightarrow> bool \<Rightarrow> fts_global \<Rightarrow> fts_error + fts_global" where
  "probeWalRepUpdateConfig db content new_role alive insync g =
     (let st = (if alive then STATUS_UP else STATUS_DOWN);
          md = (if insync then MODE_INSYNC else MODE_NOTINSYNC);
          g = g\<lparr>gp_configuration_history := gp_configuration_history g @ [Update_config db content new_role st md]\<rparr>
      in if db \<notin> dbid ` set (gp_segment_configuration g) then Inl (Dbid_not_found db)
         else Inr (g\<lparr>gp_segment_configuration :=
                map (\<lambda>r. if dbid r = db then r\<lparr>role := new_role, status := st, mode := md\<rparr> else r)
                    (gp_segment_configuration g)\<rparr>))"

definition probeUpdateConfHistory :: "GpSegConfigEntry \<Rightarrow> bool \<Rightarrow> bool \<Rightarrow> fts_global \<Rightarrow> fts_global" where
  "probeUpdateConfHistory primary alive mirrored g =
     g\<lparr>gp_configuration_history := gp_configuration_history g @
       [if mirrored
        then if alive then Out_of_double_fault (segindex primary) (dbid primary)
             else Double_fault (segindex primary) (dbid primary)
        else if alive then Segment_up (segindex primary) (dbid primary)
             else Segment_down (segindex primary) (dbid primary)]\<rparr>"

definition updateConfiguration ::
  "GpSegConfigEntry \<Rightarrow> GpSegConfigEntry \<Rightarrow> char \<Rightarrow> char \<Rightarrow> bool \<Rightarrow> bool \<Rightarrow> bool \<Rightarrow> fts_global
   \<Rightarrow> fts_error + bool \<times> fts_global" where
  "updateConfiguration primary mirror newPrimaryRole newMirrorRole IsInSync IsPrimaryAlive IsMirrorAlive g =
     (let UpdateBoth = (IsInSync \<noteq> SEGMENT_IS_IN_SYNC primary);
          UpdatePrimary = (IsPrimaryAlive \<noteq> SEGMENT_IS_ALIVE primary \<or> UpdateBoth);
          UpdateMirror = (IsMirrorAlive \<noteq> SEGMENT_IS_ALIVE mirror \<or> UpdateBoth)
      in if \<not> (UpdatePrimary \<or> UpdateMirror) then Inr (False, g)
         else
           rbind (if UpdatePrimary
                  then probeWalRepUpdateConfig (dbid primary) (segindex primary) newPrimaryRole IsPrimaryAlive IsInSync g
                  else Inr g) (\<lambda>g.
           rbind (if UpdateMirror
                  then probeWalRepUpdateConfig (dbid mirror) (segindex mirror) newMirrorRole IsMirrorAlive IsInSync g
                  else Inr g) (\<lambda>g.
           let g = (if IsPrimaryAlive then FTS_STATUS_SET_UP (dbid primary) g else FTS_STATUS_SET_DOWN (dbid primary) g);
               g = (if IsMirrorAlive then FTS_STATUS_SET_UP (dbid mirror) g else FTS_STATUS_SET_DOWN (dbid mirror) g)
           in Inr (True, g))))"

definition updateSegmentDownStatus ::
  "GpSegConfigEntry \<Rightarrow> bool \<Rightarrow> bool \<Rightarrow> fts_global \<Rightarrow> fts_error + fts_global" where
  "updateSegmentDownStatus primary alive mirrored g =
     (if segindex primary < 0 then Inl Negative_bitmapset_member
      else if alive = (segindex primary \<notin> failedContentIds g) then Inr g
      else
        let g = probeUpdateConfHistory primary alive mirrored g
        in Inr (g\<lparr>failedContentIds :=
             (if alive then failedContentIds g - {segindex primary}
              else insert (segindex primary) (failedContentIds g))\<rparr>))"

section \<open>Processing the responses\<close>

definition with_mirror :: "fts_segment_info \<Rightarrow> (GpSegConfigEntry \<Rightarrow> fts_error + 'a) \<Rightarrow> fts_error + 'a" where
  "with_mirror info f = (case mirror_cdbinfo info of None \<Rightarrow> Inl Null_pointer | Some m \<Rightarrow> f m)"

definition response_probe_success ::
  "bool \<Rightarrow> bool \<Rightarrow> bool \<Rightarrow> bool \<Rightarrow> fts_segment_info \<Rightarrow> fts_global \<Rightarrow> fts_error + bool \<times> fts_segment_info \<times> fts_global" where
  "response_probe_success mirrored IsPrimaryAlive IsMirrorAlive IsInSync info g =
     (let primary = primary_cdbinfo info; res = seg_result info
      in rbind (updateSegmentDownStatus primary True mirrored g) (\<lambda>g.
         if \<not> mirrored then Inr (False, info\<lparr>state := FTS_RESPONSE_PROCESSED\<rparr>, g)
         else if isSyncRepEnabled res \<and> \<not> IsMirrorAlive
         then if \<not> retryRequested res
              then rbind (with_mirror info (\<lambda>mirror. updateConfiguration primary mirror ROLE_PRIMARY ROLE_MIRROR
                            IsInSync IsPrimaryAlive IsMirrorAlive g)) (\<lambda>(updated, g).
                   Inr (updated, info\<lparr>state := FTS_SYNCREP_OFF_SEGMENT\<rparr>, g))
              else Inr (False, info\<lparr>state := FTS_RESPONSE_PROCESSED\<rparr>, g)
         else if isRoleMirror res then Inr (False, info\<lparr>state := FTS_PROMOTE_SEGMENT\<rparr>, g)
         else rbind (with_mirror info (\<lambda>mirror. updateConfiguration primary mirror ROLE_PRIMARY ROLE_MIRROR
                       IsInSync IsPrimaryAlive IsMirrorAlive g)) (\<lambda>(updated, g).
              Inr (updated, info\<lparr>state := FTS_RESPONSE_PROCESSED\<rparr>, g))))"

definition response_probe_failed ::
  "fts_guc \<Rightarrow> bool \<Rightarrow> bool \<Rightarrow> bool \<Rightarrow> bool \<Rightarrow> fts_segment_info \<Rightarrow> fts_global
   \<Rightarrow> fts_error + bool \<times> fts_segment_info \<times> fts_global" where
  "response_probe_failed guc mirrored IsPrimaryAlive IsMirrorAlive IsInSync info g =
     (let primary = primary_cdbinfo info;
          down = rbind (updateSegmentDownStatus primary False mirrored g) (\<lambda>g.
                   Inr (False, info\<lparr>state := FTS_RESPONSE_PROCESSED\<rparr>, g))
      in if restart_state info = PM_IN_RESETTING \<or> restart_state info = PM_IN_RECOVERY_MAKING_PROGRESS
         then rbind (log_mirror (log_verbose guc \<and> log_output guc) info) (\<lambda>info.
                Inr (False, info\<lparr>state := FTS_RESPONSE_PROCESSED\<rparr>, g))
         else if \<not> mirrored then down
         else with_mirror info (\<lambda>mirror.
                if \<not> SEGMENT_IS_IN_SYNC mirror then down
                else rbind (updateConfiguration primary mirror ROLE_MIRROR ROLE_PRIMARY
                              IsInSync IsPrimaryAlive IsMirrorAlive g) (\<lambda>(updated, g).
                     Inr (updated,
                          info\<lparr>state := FTS_PROMOTE_SEGMENT, primary_cdbinfo := mirror, mirror_cdbinfo := Some primary\<rparr>,
                          g))))"

text \<open>The end of the loop body: close the connection and reset the response.\<close>

definition close_segment :: "fts_segment_info \<Rightarrow> fts_segment_info" where
  "close_segment info =
     info\<lparr>seg_result := no_result, conn := None, poll_events := 0, poll_revents := 0,
          retry_count := 0, timeout_count := 0\<rparr>"

definition response_segment ::
  "fts_guc \<Rightarrow> bool \<Rightarrow> fts_segment_info \<Rightarrow> fts_global \<Rightarrow> fts_error + bool \<times> fts_segment_info \<times> fts_global" where
  "response_segment guc mirrored info g =
     (if \<not> ftsResponseReady info then Inr (False, info, g)
      else
        let primary = primary_cdbinfo info; res = seg_result info; IsPrimaryAlive = isPrimaryAlive res;
            IsInSync = (IsPrimaryAlive \<and> isInSync res);
            finished = info\<lparr>state := FTS_RESPONSE_PROCESSED\<rparr>
        in rbind (if IsPrimaryAlive then Inr (isMirrorAlive res)
                  else if mirrored then mirror_alive info else Inr False) (\<lambda>IsMirrorAlive.
           rbind (case state info of
                    FTS_PROBE_SUCCESS \<Rightarrow> response_probe_success mirrored IsPrimaryAlive IsMirrorAlive IsInSync info g
                  | FTS_PROBE_FAILED \<Rightarrow> response_probe_failed guc mirrored IsPrimaryAlive IsMirrorAlive IsInSync info g
                  | FTS_SYNCREP_OFF_FAILED \<Rightarrow> Inr (False, finished, g)
                  | FTS_PROMOTE_FAILED \<Rightarrow>
                      rbind (log_mirror (warning_output guc) info) (\<lambda>_.
                      rbind (updateSegmentDownStatus primary False mirrored g) (\<lambda>g. Inr (False, finished, g)))
                  | FTS_PROMOTE_SUCCESS \<Rightarrow>
                      rbind (updateSegmentDownStatus primary True mirrored g) (\<lambda>g. Inr (False, finished, g))
                  | FTS_SYNCREP_OFF_SUCCESS \<Rightarrow> Inr (False, finished, g)
                  | st \<Rightarrow> Inl (Invalid_internal_state st))
             (\<lambda>(updated, info, g). Inr (updated, close_segment info, g))))"

primrec response_loop ::
  "fts_guc \<Rightarrow> bool \<Rightarrow> fts_segment_info list \<Rightarrow> fts_global \<Rightarrow> fts_error + bool \<times> fts_segment_info list \<times> fts_global" where
  "response_loop guc mirrored [] g = Inr (False, [], g)"
| "response_loop guc mirrored (info # infos) g =
     rbind (response_segment guc mirrored info g) (\<lambda>(updated, info, g).
     rbind (response_loop guc mirrored infos g) (\<lambda>(updated', infos, g).
     Inr (updated \<or> updated', info # infos, g)))"

definition processResponse ::
  "fts_guc \<Rightarrow> bool \<Rightarrow> fts_context \<Rightarrow> fts_global \<Rightarrow> fts_error + bool \<times> fts_context \<times> fts_global" where
  "processResponse guc active ctx g =
     (if \<not> active then Inr (False, ctx, g)
      else rbind (response_loop guc (has_mirrors ctx) (perSegInfos ctx) g) (\<lambda>(updated, infos, g).
             Inr (updated, ctx\<lparr>perSegInfos := infos\<rparr>, g)))"

section \<open>A probe cycle\<close>

definition init_segment :: "GpSegConfigEntry \<Rightarrow> GpSegConfigEntry option \<Rightarrow> fts_segment_info" where
  "init_segment primary mirror =
     \<lparr>primary_cdbinfo = primary, mirror_cdbinfo = mirror, seg_result = no_result\<lparr>res_dbid := dbid primary\<rparr>,
      state = FTS_PROBE_SEGMENT, poll_events = 0, poll_revents = 0, fd_index = 0, startTime = 0, retryStartTime = 0,
      conn = None, retry_count = 0, xlogrecptr = 0, restart_state = PM_NOT_IN_RESTART, timeout_count = 0\<rparr>"

text \<open>
  The array has \<^verbatim>\<open>total_segments\<close> zeroed entries. Filling more of them would overflow it, and
  filling fewer than \<^verbatim>\<open>num_pairs\<close> leaves an entry to be probed without a primary.
\<close>

definition FtsWalRepInitProbeContext :: "CdbComponentDatabases \<Rightarrow> fts_error + fts_context" where
  "FtsWalRepInitProbeContext cdbs =
     (let mirrored = (int (length (segment_db_info cdbs)) \<noteq> total_segments cdbs);
          primaries = filter SEGMENT_IS_ACTIVE_PRIMARY (segment_db_info cdbs);
          pairs = map (\<lambda>p. (p, FtsGetPeerSegment cdbs (segindex p) (dbid p))) primaries;
          probed = filter (\<lambda>(p, m). \<not> (mirrored \<and> m = None)) pairs;
          num_pairs = total_segments cdbs - (int (length pairs) - int (length probed));
          infos = map (\<lambda>(p, m). init_segment p m) probed
      in if int (length infos) > total_segments cdbs then Inl Array_overflow
         else if int (length infos) < num_pairs then Inl Uninitialised_pair
         else Inr \<lparr>has_mirrors = mirrored, perSegInfos = take (nat num_pairs) infos\<rparr>)"

definition fts_iteration ::
  "fts_guc \<Rightarrow> fts_env \<Rightarrow> fts_context \<Rightarrow> fts_global \<Rightarrow> fts_error + bool \<times> fts_context \<times> fts_global" where
  "fts_iteration guc env ctx g =
     rbind (ftsConnect guc env ctx) (\<lambda>ctx.
     rbind (ftsPoll guc env ctx) (\<lambda>ctx.
     rbind (ftsSend env ctx) (\<lambda>ctx.
     rbind (ftsReceive env ctx) (\<lambda>ctx.
     rbind (processRetry guc env ctx) (\<lambda>ctx.
     processResponse guc True ctx g)))))"

text \<open>
  The loop of \<^verbatim>\<open>FtsWalRepMessageSegments\<close>, for at most \<open>n\<close> iterations: \<open>None\<close> when it is not
  finished by then. \<^verbatim>\<open>FtsIsActive()\<close> does not change during a cycle.
\<close>

fun fts_loop ::
  "nat \<Rightarrow> fts_guc \<Rightarrow> (nat \<Rightarrow> fts_env) \<Rightarrow> bool \<Rightarrow> fts_context \<Rightarrow> fts_global
   \<Rightarrow> (fts_error + bool \<times> fts_context \<times> fts_global) option" where
  "fts_loop n guc envs updated ctx g =
     (if allDone ctx then Some (Inr (updated, ctx, g))
      else case n of
             0 \<Rightarrow> None
           | Suc m \<Rightarrow>
              (case fts_iteration guc (envs 0) ctx g of
                 Inl e \<Rightarrow> Some (Inl e)
               | Inr (u, ctx, g) \<Rightarrow> fts_loop m guc (\<lambda>i. envs (Suc i)) (updated \<or> u) ctx g))"

declare fts_loop.simps [simp del]

definition FtsWalRepMessageSegments ::
  "nat \<Rightarrow> fts_guc \<Rightarrow> bool \<Rightarrow> (nat \<Rightarrow> fts_env) \<Rightarrow> CdbComponentDatabases \<Rightarrow> fts_global
   \<Rightarrow> (fts_error + bool \<times> fts_global) option" where
  "FtsWalRepMessageSegments n guc active envs cdbs g =
     (case FtsWalRepInitProbeContext cdbs of
        Inl e \<Rightarrow> Some (Inl e)
      | Inr ctx \<Rightarrow>
          if \<not> active then Some (Inr (False, g))
          else map_option (\<lambda>r. rbind r (\<lambda>(updated, ctx, g). Inr (updated, g))) (fts_loop n guc envs False ctx g))"

end
