(* ===== verification/Fts_Spec.thy ===== *)
theory Fts_Spec
  imports Fts_Model
begin

text \<open>
  The protocol of one probed pair, without connections and clocks: which message states follow
  each other in a probe cycle, and how often a message is retried. The state is the message
  state at the head of the loop together with the number of retries so far.
\<close>

section \<open>The abstract machine\<close>

type_synonym fts_abs = "FtsMessageState \<times> int"

text \<open>\<open>R\<close> is \<^verbatim>\<open>gp_fts_probe_retries\<close>.\<close>

inductive fts_move :: "int \<Rightarrow> fts_abs \<Rightarrow> fts_abs \<Rightarrow> bool" for R where
  probe_retry: "r < R \<Longrightarrow> fts_move R (FTS_PROBE_SEGMENT, r) (FTS_PROBE_RETRY_WAIT, r + 1)"
| syncrep_off_retry: "r < R \<Longrightarrow> fts_move R (FTS_SYNCREP_OFF_SEGMENT, r) (FTS_SYNCREP_OFF_RETRY_WAIT, r + 1)"
| promote_retry: "r < R \<Longrightarrow> fts_move R (FTS_PROMOTE_SEGMENT, r) (FTS_PROMOTE_RETRY_WAIT, r + 1)"
| probe_resume: "fts_move R (FTS_PROBE_RETRY_WAIT, r) (FTS_PROBE_SEGMENT, r)"
| syncrep_off_resume: "fts_move R (FTS_SYNCREP_OFF_RETRY_WAIT, r) (FTS_SYNCREP_OFF_SEGMENT, r)"
| promote_resume: "fts_move R (FTS_PROMOTE_RETRY_WAIT, r) (FTS_PROMOTE_SEGMENT, r)"
| probe_done: "fts_move R (FTS_PROBE_SEGMENT, r) (FTS_RESPONSE_PROCESSED, 0)"
| turn_syncrep_off: "fts_move R (FTS_PROBE_SEGMENT, r) (FTS_SYNCREP_OFF_SEGMENT, 0)"
| promote: "fts_move R (FTS_PROBE_SEGMENT, r) (FTS_PROMOTE_SEGMENT, 0)"
| syncrep_off_done: "fts_move R (FTS_SYNCREP_OFF_SEGMENT, r) (FTS_RESPONSE_PROCESSED, 0)"
| promote_done: "fts_move R (FTS_PROMOTE_SEGMENT, r) (FTS_RESPONSE_PROCESSED, 0)"

inductive_cases fts_move_processedE: "fts_move R (FTS_RESPONSE_PROCESSED, r) b"
inductive_cases fts_move_promoteE: "fts_move R (FTS_PROMOTE_SEGMENT, r) b"

definition fts_start :: fts_abs where
  "fts_start = (FTS_PROBE_SEGMENT, 0)"

section \<open>Bounds\<close>

text \<open>
  A potential that every move lowers: two units for each retry that is left, one for a message
  in flight, two for a wait, and the whole budget of a second message while probing.
\<close>

fun fts_rank :: "int \<Rightarrow> fts_abs \<Rightarrow> nat" where
  "fts_rank R (FTS_PROBE_SEGMENT, r) = nat (2 * R + 3 + 2 * (R - r) + 1)"
| "fts_rank R (FTS_PROBE_RETRY_WAIT, r) = nat (2 * R + 3 + 2 * (R - r) + 2)"
| "fts_rank R (FTS_SYNCREP_OFF_SEGMENT, r) = nat (2 * (R - r) + 1)"
| "fts_rank R (FTS_PROMOTE_SEGMENT, r) = nat (2 * (R - r) + 1)"
| "fts_rank R (FTS_SYNCREP_OFF_RETRY_WAIT, r) = nat (2 * (R - r) + 2)"
| "fts_rank R (FTS_PROMOTE_RETRY_WAIT, r) = nat (2 * (R - r) + 2)"
| "fts_rank R (_, r) = 0"

definition abs_ok :: "int \<Rightarrow> fts_abs \<Rightarrow> bool" where
  "abs_ok R a \<longleftrightarrow> 0 \<le> snd a \<and> snd a \<le> R \<and>
     \<not> IsFtsMessageStateSuccess (fst a) \<and> \<not> IsFtsMessageStateFailed (fst a)"

lemma fts_move_ok:
  assumes "fts_move R a b" "abs_ok R a"
  shows "abs_ok R b" "fts_rank R b < fts_rank R a"
  using assms by (induction rule: fts_move.induct)
    (auto simp: abs_ok_def IsFtsMessageStateSuccess_def IsFtsMessageStateFailed_def)

text \<open>Runs of the machine: at most \<open>4 * R + 4\<close> moves from the start.\<close>

inductive fts_run :: "int \<Rightarrow> fts_abs \<Rightarrow> nat \<Rightarrow> fts_abs \<Rightarrow> bool" for R where
  run_refl: "fts_run R a 0 a"
| run_step: "fts_run R a n b \<Longrightarrow> fts_move R b c \<Longrightarrow> fts_run R a (Suc n) c"

lemma fts_run_rank:
  assumes "fts_run R a n b" "abs_ok R a"
  shows "abs_ok R b \<and> n + fts_rank R b \<le> fts_rank R a"
  using assms
proof (induction rule: fts_run.induct)
  case (run_step a n b c)
  then have "abs_ok R b" "n + fts_rank R b \<le> fts_rank R a" by auto
  with fts_move_ok [OF run_step.hyps(2)] show ?case by auto
qed simp

lemma fts_run_bound:
  assumes "fts_run R fts_start n b" "0 \<le> R"
  shows "n \<le> nat (4 * R + 4)"
  using fts_run_rank [OF assms(1)] assms(2)
  by (simp add: fts_start_def abs_ok_def IsFtsMessageStateSuccess_def IsFtsMessageStateFailed_def add.commute)

lemma fts_run_front:
  assumes "fts_run R b n c" "fts_move R a b"
  shows "fts_run R a (Suc n) c"
  using assms
proof (induction rule: fts_run.induct)
  case (run_refl b)
  then show ?case using fts_run.run_step [OF fts_run.run_refl] by blast
next
  case (run_step b n c d)
  then show ?case using fts_run.run_step by blast
qed

text \<open>Promotion is final: from a promotion message the only end is the processed response.\<close>

lemma fts_run_after_promote:
  assumes "fts_run R (FTS_PROMOTE_SEGMENT, r) n b"
  shows "fst b \<in> {FTS_PROMOTE_SEGMENT, FTS_PROMOTE_RETRY_WAIT, FTS_RESPONSE_PROCESSED}"
  using assms
proof (induction "(FTS_PROMOTE_SEGMENT, r)" n b rule: fts_run.induct)
  case (run_step n b c)
  from run_step.hyps(3,2) show ?case by (cases rule: fts_move.cases) auto
qed simp

end
