(* ===== verification/Fts_Segment.thy ===== *)
theory Fts_Segment
  imports Fts_Probe Fts_Spec
begin

text \<open>
  One pair through one iteration of the loop: what each phase may change, and that the whole
  iteration is a move of the abstract machine or leaves the message state alone.
\<close>

unbundle bit_operations_syntax

section \<open>The phases before the response\<close>

definition keeps :: "fts_segment_info \<Rightarrow> fts_segment_info \<Rightarrow> bool" where
  "keeps x y \<longleftrightarrow> primary_cdbinfo y = primary_cdbinfo x \<and> mirror_cdbinfo y = mirror_cdbinfo x \<and>
     retry_count y = retry_count x \<and> seg_result y = seg_result x"

definition mid_ok :: "fts_segment_info \<Rightarrow> fts_segment_info \<Rightarrow> bool" where
  "mid_ok x y \<longleftrightarrow> keeps x y \<and>
     (state y = state x \<or> is_sending_state (state x) \<and> nextFailedState (state x) = Inr (state y)) \<and>
     (poll_events y = 0 \<or> is_sending_state (state y) \<or> IsFtsMessageStateFailed (state y))"

lemmas state_defs = is_sending_state_def IsFtsMessageStateSuccess_def IsFtsMessageStateFailed_def

text \<open>At the head of the loop.\<close>

definition head_ok :: "fts_guc \<Rightarrow> bool \<Rightarrow> fts_segment_info \<Rightarrow> bool" where
  "head_ok guc mirrored x \<longleftrightarrow>
     abs_ok (gp_fts_probe_retries guc) (state x, retry_count x) \<and>
     (poll_events x = 0 \<or> is_sending_state (state x)) \<and>
     \<not> isPrimaryAlive (seg_result x) \<and>
     0 \<le> segindex (primary_cdbinfo x) \<and>
     (mirrored \<longrightarrow> (\<exists>m. mirror_cdbinfo x = Some m \<and> 0 \<le> segindex m))"

lemma fail_segment_Inr:
  "fail_segment y = Inr z \<longleftrightarrow> (\<exists>st. nextFailedState (state y) = Inr st \<and> z = y\<lparr>state := st\<rparr>)"
  by (auto simp: fail_segment_def rbind_Inr_iff)

lemma nextFailed_cases:
  "is_sending_state st \<Longrightarrow> \<exists>f. nextFailedState st = Inr f \<and> nextFailedState f = Inr f \<and>
     IsFtsMessageStateFailed f \<and> \<not> is_sending_state f"
  by (auto simp: state_defs)

lemma nextFailed_Failed [dest]: "nextFailedState st = Inr f \<Longrightarrow> IsFtsMessageStateFailed f"
  by (cases st) (auto simp: state_defs)

lemma nextFailed_failed: "IsFtsMessageStateFailed st \<Longrightarrow> nextFailedState st = Inr st"
  by (auto simp: state_defs)

lemma mid_ok_fail:
  assumes "mid_ok x y" "poll_events y \<noteq> 0 \<or> is_sending_state (state y)"
  obtains z where "fail_segment y = Inr z" "mid_ok x z"
proof -
  have "is_sending_state (state y) \<or> IsFtsMessageStateFailed (state y)"
    using assms by (auto simp: mid_ok_def)
  then show thesis
  proof
    assume s: "is_sending_state (state y)"
    then obtain f where f: "nextFailedState (state y) = Inr f" "IsFtsMessageStateFailed f"
      using nextFailed_cases by blast
    have "state y = state x" using assms(1) s nextFailed_cases [of "state x"] by (auto simp: mid_ok_def)
    then show thesis using that [of "y\<lparr>state := f\<rparr>"] f s assms(1) by (simp add: fail_segment_Inr mid_ok_def keeps_def)
  next
    assume "IsFtsMessageStateFailed (state y)"
    then show thesis using that [of y] assms(1) by (simp add: fail_segment_Inr nextFailed_failed)
  qed
qed

lemma mid_ok_fail_Inr:
  assumes "mid_ok x y" "poll_events y \<noteq> 0 \<or> is_sending_state (state y)" "fail_segment y = Inr z"
  shows "mid_ok x z"
proof -
  obtain z' where "fail_segment y = Inr z'" "mid_ok x z'" by (rule mid_ok_fail [OF assms(1,2)])
  then show ?thesis using assms(3) by simp
qed

lemma log_mirror_Inr: "log_mirror b x = Inr y \<longleftrightarrow> x = y \<and> \<not> (b \<and> mirror_cdbinfo x = None)"
  by (auto simp: log_mirror_def)

lemma mid_ok_upd [simp]:
  "mid_ok x (y\<lparr>restart_state := r\<rparr>) = mid_ok x y" "mid_ok x (y\<lparr>conn := c\<rparr>) = mid_ok x y"
  "mid_ok x (y\<lparr>startTime := t\<rparr>) = mid_ok x y" "mid_ok x (y\<lparr>fd_index := i\<rparr>) = mid_ok x y"
  "mid_ok x (y\<lparr>poll_revents := v\<rparr>) = mid_ok x y" "mid_ok x (y\<lparr>timeout_count := c'\<rparr>) = mid_ok x y"
  "mid_ok x (y\<lparr>xlogrecptr := p\<rparr>) = mid_ok x y"
  by (simp_all add: mid_ok_def keeps_def)

lemma checkRestart_fields:
  assumes "checkIfFailedDueToNormalRestart guc y = Inr z"
  shows "\<exists>r p. z = y\<lparr>restart_state := r, xlogrecptr := p\<rparr>"
proof -
  have id: "y = y\<lparr>restart_state := restart_state y, xlogrecptr := xlogrecptr y\<rparr>" by simp
  have r: "y\<lparr>restart_state := r\<rparr> = y\<lparr>restart_state := r, xlogrecptr := xlogrecptr y\<rparr>" for r by simp
  show ?thesis
    using assms unfolding checkIfFailedDueToNormalRestart_def log_mirror_def
    by (simp split: option.split_asm if_split_asm) (use id r in metis)+
qed

lemma checkRestart_mid:
  assumes "mid_ok x y" "checkIfFailedDueToNormalRestart guc y = Inr z"
  shows "mid_ok x z"
  using checkRestart_fields [OF assms(2)] assms(1) by auto

lemma mid_ok_events: "mid_ok x y \<Longrightarrow> v = 0 \<or> is_sending_state (state y) \<Longrightarrow> mid_ok x (y\<lparr>poll_events := v\<rparr>)"
  by (auto simp: mid_ok_def keeps_def)

lemma connect_poll_mid:
  assumes "mid_ok x y" "is_sending_state (state y)" "connect_poll guc env y = Inr z"
  shows "mid_ok x z"
proof -
  obtain r c where r: "e_connectPoll env = (r, c)" by force
  have fail: "mid_ok x u" if "fail_segment (y\<lparr>conn := Some c\<rparr>) = Inr u" for u
    using mid_ok_fail_Inr [OF _ _ that] assms(1,2) by simp
  have ev: "mid_ok x (y\<lparr>conn := Some c, poll_events := v\<rparr>)" for v
    using assms(1,2) by (intro mid_ok_events) simp_all
  show ?thesis
    using assms(3) fail ev checkRestart_mid by (cases r) (auto simp: connect_poll_def r rbind_Inr_iff)
qed

lemma ftsConnectStart_mid:
  assumes "mid_ok x y" "is_sending_state (state y)" "ftsConnectStart env y = Inr (b, z)"
  shows "mid_ok x z" "state z = state y"
proof -
  obtain c where c: "e_connectStart env = Some c" using assms(3) by (auto simp: ftsConnectStart_def split: option.splits)
  have "mid_ok x (y\<lparr>conn := Some c, poll_events := v\<rparr>)" for v
    using mid_ok_events [of x "y\<lparr>conn := Some c\<rparr>" v] assms(1,2) by simp
  then show "mid_ok x z" "state z = state y"
    using assms by (auto simp: ftsConnectStart_def c Let_def split: if_splits)
qed

lemma connect_segment_mid:
  assumes "mid_ok x x" "connect_segment guc env x = Inr y"
  shows "mid_ok x y"
proof (cases "is_sending_state (state x)")
  case True
  let ?x = "x\<lparr>restart_state := PM_NOT_IN_RESTART\<rparr>"
  have x: "mid_ok x ?x" "is_sending_state (state ?x)" using assms(1) True by simp_all
  have start: "mid_ok x y" if "rbind (ftsConnectStart env ?x) (\<lambda>(b, u). if b then Inr u else fail_segment u) = Inr y"
  proof -
    from that obtain b u where u: "ftsConnectStart env ?x = Inr (b, u)" "(if b then Inr u else fail_segment u) = Inr y"
      by (auto simp: rbind_Inr_iff)
    note m = ftsConnectStart_mid [OF x u(1)]
    show ?thesis using u(2) m x(2) mid_ok_fail_Inr [OF m(1)] by (cases b) simp_all
  qed
  show ?thesis
  proof (cases "conn x")
    case None
    then show ?thesis using assms(2) True start by (simp add: connect_segment_def Let_def)
  next
    case (Some c)
    then have "connect_segment guc env x = (if conn_status c = CONNECTION_OK then Inr x
        else if poll_revents x AND (POLLOUT OR POLLIN) \<noteq> 0 then connect_poll guc env ?x else Inr ?x)"
      using True by (simp add: connect_segment_def Let_def)
    then show ?thesis using assms x(1) connect_poll_mid [OF x, of guc env y] by (auto split: if_splits)
  qed
next
  case False
  then show ?thesis using assms by (simp add: connect_segment_def split: if_splits)
qed

lemma ftsCheckTimeout_mid:
  assumes "mid_ok x y" "is_sending_state (state y) \<or> IsFtsMessageStateFailed (state y)" "ftsCheckTimeout guc now y = Inr z"
  shows "mid_ok x z"
proof -
  have "mid_ok x z" if f: "fail_segment (y\<lparr>timeout_count := 0\<rparr>) = Inr z"
  proof (cases "is_sending_state (state y)")
    case True
    then show ?thesis using mid_ok_fail_Inr [OF _ _ f] assms(1) by simp
  next
    case False
    then show ?thesis using f assms by (auto simp: fail_segment_Inr nextFailed_failed)
  qed
  then show ?thesis using assms(1,3) by (auto simp: ftsCheckTimeout_def split: if_splits)
qed

lemma poll_segment_mid:
  assumes "mid_ok x y" "poll_segment guc now nready env y = Inr z"
  shows "mid_ok x z"
proof (cases "is_polled y")
  case True
  then have ne: "poll_events y \<noteq> 0" by (auto simp: is_polled_def)
  let ?y = "y\<lparr>poll_revents := (if nready > 0 then e_revents env else 0)\<rparr>"
  from assms(2) True obtain u where
    u: "(if poll_revents ?y AND poll_events ?y \<noteq> 0 then Inr (?y\<lparr>poll_events := 0\<rparr>)
        else if poll_revents ?y AND (POLLHUP OR POLLERR) \<noteq> 0 then fail_segment ?y
        else if poll_revents ?y \<noteq> 0 then fail_segment ?y else Inr ?y) = Inr u"
    and z: "ftsCheckTimeout guc now (if \<not> IsFtsMessageStateSuccess (state u) \<and> nready = 0
        then u\<lparr>timeout_count := timeout_count u + 1\<rparr> else u) = Inr z"
    by (auto simp: poll_segment_def Let_def rbind_Inr_iff)
  have y: "mid_ok x ?y" "poll_events ?y \<noteq> 0" using assms(1) ne by simp_all
  have "poll_events y \<noteq> 0 \<Longrightarrow> is_sending_state (state y) \<or> IsFtsMessageStateFailed (state y)"
    using assms(1) by (auto simp: mid_ok_def)
  then have live: "is_sending_state (state u) \<or> IsFtsMessageStateFailed (state u)"
    using u ne by (auto simp: fail_segment_Inr split: if_splits)
  have "mid_ok x u"
    using u y mid_ok_fail_Inr [OF y(1)] mid_ok_events [OF y(1), of 0] by (auto split: if_splits)
  then show ?thesis
    using ftsCheckTimeout_mid [OF _ _ z] live by (simp split: if_splits)
next
  case False
  then show ?thesis using assms by (simp add: poll_segment_def)
qed

lemma send_segment_mid:
  assumes "mid_ok x y" "send_segment env y = Inr z"
  shows "mid_ok x z"
proof (cases "is_sending_state (state y) \<and> conn y \<noteq> None")
  case True
  obtain b c where b: "e_sendQuery env = (b, c)" by force
  have ev: "mid_ok x (y\<lparr>conn := Some c, poll_events := POLLIN\<rparr>)"
    using assms(1) True by (intro mid_ok_events) simp_all
  have "mid_ok x u" if "fail_segment (y\<lparr>conn := Some c\<rparr>) = Inr u" for u
    using mid_ok_fail_Inr [OF _ _ that] assms(1) True by simp
  then show ?thesis
    using assms True ev by (auto simp: send_segment_def b Let_def split: if_splits)
qed (use assms in \<open>auto simp: send_segment_def split: if_splits\<close>)

text \<open>A response was received.\<close>

definition answered :: "fts_segment_info \<Rightarrow> fts_segment_info \<Rightarrow> bool" where
  "answered x y \<longleftrightarrow> is_sending_state (state x) \<and> nextSuccessState (state x) = Inr (state y) \<and>
     primary_cdbinfo y = primary_cdbinfo x \<and> mirror_cdbinfo y = mirror_cdbinfo x \<and>
     retry_count y = retry_count x \<and> isPrimaryAlive (seg_result y)"

lemma mid_ok_sending: "mid_ok x y \<Longrightarrow> is_sending_state (state y) \<Longrightarrow> state y = state x"
  using nextFailed_cases [of "state x"] by (auto simp: mid_ok_def)

lemma receive_segment_cases:
  assumes "mid_ok x y" "receive_segment env y = Inr z"
  shows "mid_ok x z \<or> answered x z"
proof (cases "is_sending_state (state y) \<and> conn y \<noteq> None")
  case True
  obtain b c where b: "e_consumeInput env = (b, c)" by force
  obtain b' c' where b': "e_isBusy env = (b', c')" by force
  obtain r c'' where r: "e_getResult env = (r, c'')" by force
  note st = mid_ok_sending [OF assms(1)]
  have fail: "mid_ok x u" if "fail_segment (y\<lparr>conn := Some k\<rparr>) = Inr u" for u k
    using mid_ok_fail_Inr [OF _ _ that] assms(1) True by simp
  have ans: "answered x (probeRecordResponse q (y\<lparr>conn := Some k\<rparr>)\<lparr>state := f\<rparr>)"
    if "nextSuccessState (state y) = Inr f" for f k q
    using that st True assms(1) by (simp add: answered_def probeRecordResponse_def mid_ok_def keeps_def)
  have "state (probeRecordResponse q u) = state u" for q u by (simp add: probeRecordResponse_def)
  then show ?thesis
    using assms True fail ans
    by (auto simp: receive_segment_def b b' r Let_def rbind_Inr_iff split: if_splits option.splits)
qed (use assms in \<open>auto simp: receive_segment_def split: if_splits\<close>)

text \<open>
  The state of a pair after the retry phase: nothing happened, a retry was started or ended, or
  the message failed for the last time or was answered.
\<close>

definition quiet :: "fts_segment_info \<Rightarrow> fts_segment_info \<Rightarrow> bool" where
  "quiet x y \<longleftrightarrow> primary_cdbinfo y = primary_cdbinfo x \<and> mirror_cdbinfo y = mirror_cdbinfo x \<and>
     \<not> isPrimaryAlive (seg_result y) \<and> (poll_events y = 0 \<or> is_sending_state (state y))"

definition failed :: "int \<Rightarrow> fts_segment_info \<Rightarrow> fts_segment_info \<Rightarrow> bool" where
  "failed R x y \<longleftrightarrow> is_sending_state (state x) \<and> nextFailedState (state x) = Inr (state y) \<and>
     keeps x y \<and> retry_count y = R \<and> \<not> isPrimaryAlive (seg_result y)"

definition outcome :: "int \<Rightarrow> fts_segment_info \<Rightarrow> fts_segment_info \<Rightarrow> bool" where
  "outcome R x y \<longleftrightarrow>
     quiet x y \<and> (state y, retry_count y) = (state x, retry_count x) \<or>
     quiet x y \<and> fts_move R (state x, retry_count x) (state y, retry_count y) \<or>
     failed R x y \<or> answered x y"

lemma retryForFtsFailed_outcome:
  assumes "head_ok guc mirrored x" "is_sending_state (state x)"
    and "nextFailedState (state x) = Inr (state y) \<or> state x = FTS_PROBE_SEGMENT \<and> state y = FTS_PROBE_SUCCESS"
    and "primary_cdbinfo y = primary_cdbinfo x" "mirror_cdbinfo y = mirror_cdbinfo x" "retry_count y = retry_count x"
    and "retry_count y \<noteq> gp_fts_probe_retries guc"
  shows "outcome (gp_fts_probe_retries guc) x (retryForFtsFailed guc now y)"
proof -
  let ?z = "retryForFtsFailed guc now y"
  have "retry_count x < gp_fts_probe_retries guc" using assms(1,6,7) by (simp add: head_ok_def abs_ok_def)
  then have "fts_move (gp_fts_probe_retries guc) (state x, retry_count x) (state ?z, retry_count ?z)"
    using assms(2,3,6,7) by (auto simp: retryForFtsFailed_def is_sending_state_def intro: fts_move.intros)
  moreover have "quiet x ?z" using assms by (simp add: quiet_def retryForFtsFailed_def no_result_def)
  ultimately show ?thesis by (simp add: outcome_def)
qed

lemma retry_segment_mid:
  assumes head: "head_ok guc mirrored x" and y: "mid_ok x y" and z: "retry_segment guc mirrored now y = Inr z"
  shows "outcome (gp_fts_probe_retries guc) x z"
proof -
  let ?R = "gp_fts_probe_retries guc"
  have k: "keeps x y" and alive: "\<not> isPrimaryAlive (seg_result y)"
    using y head by (auto simp: mid_ok_def keeps_def head_ok_def)
  show ?thesis
  proof (cases "IsFtsMessageStateFailed (state y)")
    case True
    then have x: "is_sending_state (state x)" "nextFailedState (state x) = Inr (state y)"
      using y head by (auto simp: mid_ok_def head_ok_def abs_ok_def)
    have z': "z = retryForFtsFailed guc now y" using z True by (auto simp: retry_segment_def IsFtsMessageStateFailed_def)
    show ?thesis
    proof (cases "retry_count y = ?R")
      case True
      then have "z = y" using z' by (simp add: retryForFtsFailed_def)
      then show ?thesis using x k alive True by (simp add: outcome_def failed_def)
    next
      case False
      then show ?thesis
        using retryForFtsFailed_outcome [OF head x(1) disjI1 [OF x(2)]] k z' by (simp add: keeps_def)
    qed
  next
    case False
    then have st: "state y = state x" "poll_events y = 0 \<or> is_sending_state (state y)"
      using y nextFailed_Failed by (auto simp: mid_ok_def)
    have "quiet x y" using st k alive by (simp add: quiet_def keeps_def)
    have "\<not> IsFtsMessageStateSuccess (state y)" using head st by (simp add: head_ok_def abs_ok_def)
    then have "z = y \<or> (\<exists>f. z = y\<lparr>state := f\<rparr> \<and> fts_move ?R (state x, retry_count x) (f, retry_count x) \<and> is_sending_state f)"
      using z False st(1) by (cases "state y")
        (auto simp: retry_segment_def IsFtsMessageStateFailed_def IsFtsMessageStateSuccess_def is_sending_state_def
          intro: fts_move.intros split: if_splits)
    then show ?thesis
      using st k \<open>quiet x y\<close> by (auto simp: outcome_def quiet_def keeps_def)
  qed
qed

lemma retry_segment_answered:
  assumes head: "head_ok guc mirrored x" and y: "answered x y" and z: "retry_segment guc mirrored now y = Inr z"
  shows "outcome (gp_fts_probe_retries guc) x z"
proof (cases "z = y")
  case True
  then show ?thesis using y by (simp add: outcome_def)
next
  case False
  have "IsFtsMessageStateSuccess (state y)"
    using y by (auto simp: answered_def is_sending_state_def IsFtsMessageStateSuccess_def)
  then have "state y = FTS_PROBE_SUCCESS" "z = retryForFtsFailed guc now y"
    using z False by (auto simp: retry_segment_def IsFtsMessageStateSuccess_def rbind_Inr_iff split: if_splits)
  moreover from this have "state x = FTS_PROBE_SEGMENT" "retry_count y \<noteq> gp_fts_probe_retries guc"
    using y False by (auto simp: answered_def is_sending_state_def retryForFtsFailed_def)
  ultimately show ?thesis
    using retryForFtsFailed_outcome [OF head] y by (simp add: answered_def)
qed

section \<open>The iteration of one pair\<close>

definition seg_run ::
  "fts_guc \<Rightarrow> bool \<Rightarrow> seg_env \<Rightarrow> int \<Rightarrow> int \<Rightarrow> int \<Rightarrow> fts_segment_info \<Rightarrow> fts_segment_info \<Rightarrow> bool" where
  "seg_run guc mirrored env poll_now retry_now nready x y \<longleftrightarrow>
     (\<exists>a i b c d. connect_segment guc env x = Inr a \<and>
        poll_segment guc poll_now nready env (a\<lparr>fd_index := i\<rparr>) = Inr b \<and>
        send_segment env b = Inr c \<and> receive_segment env c = Inr d \<and> retry_segment guc mirrored retry_now d = Inr y)"

lemma head_ok_mid: "head_ok guc mirrored x \<Longrightarrow> mid_ok x x"
  by (auto simp: head_ok_def mid_ok_def keeps_def)

lemma seg_run_outcome:
  assumes "head_ok guc mirrored x" "seg_run guc mirrored env pn rn nready x y"
  shows "outcome (gp_fts_probe_retries guc) x y"
proof -
  from assms(2) obtain a i b c d where "connect_segment guc env x = Inr a"
    "poll_segment guc pn nready env (a\<lparr>fd_index := i\<rparr>) = Inr b" "send_segment env b = Inr c"
    "receive_segment env c = Inr d" and y: "retry_segment guc mirrored rn d = Inr y"
    by (auto simp: seg_run_def)
  then have "mid_ok x d \<or> answered x d"
    using connect_segment_mid [OF head_ok_mid [OF assms(1)]] poll_segment_mid send_segment_mid receive_segment_cases
    by (metis mid_ok_upd(4))
  then show ?thesis
    using retry_segment_mid [OF assms(1) _ y] retry_segment_answered [OF assms(1) _ y] by blast
qed

end
