(* ===== verification/Fts_Catalog.thy ===== *)
theory Fts_Catalog
  imports Fts_Segment
begin

text \<open>
  What processing a response does to \<^verbatim>\<open>gp_segment_configuration\<close>: the roles of a pair are
  either left alone or swapped, so that every content keeps as many primaries as it had.
\<close>

section \<open>Roles\<close>

type_synonym role_row = "int \<times> int \<times> char"

definition roles :: "fts_global \<Rightarrow> role_row list" where
  "roles g = map (\<lambda>r. (dbid r, segindex r, role r)) (gp_segment_configuration g)"

definition set_role :: "int \<Rightarrow> char \<Rightarrow> role_row list \<Rightarrow> role_row list" where
  "set_role db new = map (\<lambda>(d, c, r). if d = db then (d, c, new) else (d, c, r))"

definition set_row :: "int \<Rightarrow> char \<Rightarrow> bool \<Rightarrow> bool \<Rightarrow> GpSegConfigEntry list \<Rightarrow> GpSegConfigEntry list" where
  "set_row db new alive insync = map (\<lambda>r. if dbid r = db then
     r\<lparr>role := new, status := (if alive then STATUS_UP else STATUS_DOWN),
       mode := (if insync then MODE_INSYNC else MODE_NOTINSYNC)\<rparr> else r)"

definition primaries_of :: "fts_global \<Rightarrow> int \<Rightarrow> nat" where
  "primaries_of g c = length (filter (\<lambda>r. segindex r = c \<and> role r = ROLE_PRIMARY) (gp_segment_configuration g))"

lemma primaries_of_roles: "primaries_of g c = length (filter (\<lambda>(d, s, r). s = c \<and> r = ROLE_PRIMARY) (roles g))"
  by (simp add: primaries_of_def roles_def filter_map o_def)

lemma set_role_fst [simp]: "map fst (set_role db new xs) = map fst xs"
  by (auto simp: set_role_def)

lemma set_role_same:
  assumes "distinct (map fst xs)" "(d, c, r) \<in> set xs"
  shows "set_role d r xs = xs"
proof -
  have "r' = r" if "(d, c', r') \<in> set xs" for c' r'
    using distinct_map_fst_unique [OF assms(1) that assms(2)] by simp
  then show ?thesis by (auto simp: set_role_def intro!: map_idI)
qed

lemma set_role_mem:
  "(d, c, r) \<in> set (set_role db new xs) \<longleftrightarrow>
    (if d = db then r = new \<and> (\<exists>r'. (d, c, r') \<in> set xs) else (d, c, r) \<in> set xs)"
  by (auto simp: set_role_def image_iff Bex_def split: if_splits prod.splits)

lemma swap_count:
  assumes d: "distinct (map fst xs)" and p: "(dp, k, ROLE_PRIMARY) \<in> set xs" and m: "(dm, k, ROLE_MIRROR) \<in> set xs"
  shows "length (filter (\<lambda>(d, s, r). s = c \<and> r = ROLE_PRIMARY) (set_role dm ROLE_PRIMARY (set_role dp ROLE_MIRROR xs))) =
    length (filter (\<lambda>(d, s, r). s = c \<and> r = ROLE_PRIMARY) xs)"
proof -
  have card: "length (filter Q ys) = card {y \<in> set ys. Q y}" if "distinct (map fst ys)" for Q and ys :: "role_row list"
    using that distinct_card [of "filter Q ys"] by (auto simp: distinct_map)
  let ?ys = "set_role dm ROLE_PRIMARY (set_role dp ROLE_MIRROR xs)"
  let ?P = "\<lambda>y. case y of (d, s, r) \<Rightarrow> s = c \<and> r = ROLE_PRIMARY"
  have neq: "dp \<noteq> dm" using distinct_map_fst_unique [OF d p] m by auto
  have k: "(dp, s, r) \<in> set xs \<Longrightarrow> s = k" "(dm, s, r) \<in> set xs \<Longrightarrow> s = k" for s r
    using distinct_map_fst_unique [OF d p] distinct_map_fst_unique [OF d m] by auto
  show ?thesis
  proof (cases "c = k")
    case True
    have eq: "{y \<in> set ?ys. ?P y} = insert (dm, k, ROLE_PRIMARY) ({y \<in> set xs. ?P y} - {(dp, k, ROLE_PRIMARY)})"
      using neq m True by (auto simp: set_role_mem split: if_splits dest: k)
    have notin: "(dm, k, ROLE_PRIMARY) \<notin> set xs" using distinct_map_fst_unique [OF d m] by auto
    have "card (insert (dm, k, ROLE_PRIMARY) ({y \<in> set xs. ?P y} - {(dp, k, ROLE_PRIMARY)})) = card {y \<in> set xs. ?P y}"
      using p True notin card_Suc_Diff1 [of "{y \<in> set xs. ?P y}" "(dp, k, ROLE_PRIMARY)"]
      by (subst card_insert_disjoint) auto
    then show ?thesis using d by (simp add: card eq)
  next
    case False
    have "{y \<in> set ?ys. ?P y} = {y \<in> set xs. ?P y}"
      using False by (auto simp: set_role_mem split: if_splits dest: k)
    then show ?thesis using d by (simp add: card)
  qed
qed

section \<open>Updating the configuration\<close>

abbreviation rows :: "fts_global \<Rightarrow> GpSegConfigEntry list" where
  "rows \<equiv> gp_segment_configuration"

lemma roles_set_row: "rows h = set_row db new alive insync (rows g) \<Longrightarrow> roles h = set_role db new (roles g)"
  by (auto simp: roles_def set_role_def set_row_def)

lemma map_dbid_set_row [simp]: "map dbid (set_row db new alive insync xs) = map dbid xs"
  by (induction xs) (auto simp: set_row_def)

lemma dbid_set_row [simp]: "dbid ` set (set_row db new alive insync xs) = dbid ` set xs"
  using map_dbid_set_row [of db new alive insync xs] by (metis set_map)

lemma probeWalRepUpdateConfig_ok:
  assumes "db \<in> dbid ` set (rows g)"
  obtains g' where "probeWalRepUpdateConfig db content new alive insync g = Inr g'"
    "rows g' = set_row db new alive insync (rows g)"
proof -
  let ?st = "if alive then STATUS_UP else STATUS_DOWN" and ?md = "if insync then MODE_INSYNC else MODE_NOTINSYNC"
  let ?g = "g\<lparr>gp_configuration_history := gp_configuration_history g @ [Update_config db content new ?st ?md],
    gp_segment_configuration := set_row db new alive insync (rows g)\<rparr>"
  have "probeWalRepUpdateConfig db content new alive insync g = Inr ?g"
    using assms by (simp add: probeWalRepUpdateConfig_def Let_def set_row_def)
  then show thesis by (rule that) simp
qed

lemma status_rows [simp]:
  "rows (FTS_STATUS_SET_UP db g) = rows g" "rows (FTS_STATUS_SET_DOWN db g) = rows g"
  by (simp_all add: FTS_STATUS_SET_UP_def FTS_STATUS_SET_DOWN_def)

lemma updateConfiguration_ok:
  assumes p: "dbid p \<in> dbid ` set (rows g)" and m: "dbid m \<in> dbid ` set (rows g)"
    and up: "(pa \<noteq> SEGMENT_IS_ALIVE p \<or> s \<noteq> SEGMENT_IS_IN_SYNC p) = up"
    and um: "(ma \<noteq> SEGMENT_IS_ALIVE m \<or> s \<noteq> SEGMENT_IS_IN_SYNC p) = um"
  obtains u g' where "updateConfiguration p m rp rm s pa ma g = Inr (u, g')" "u \<longleftrightarrow> up \<or> um"
    "rows g' = (if um then set_row (dbid m) rm ma s else id) ((if up then set_row (dbid p) rp pa s else id) (rows g))"
proof -
  obtain g1 where g1: "(if up then probeWalRepUpdateConfig (dbid p) (segindex p) rp pa s g else Inr g) = Inr g1"
    "rows g1 = (if up then set_row (dbid p) rp pa s else id) (rows g)"
  proof (cases up)
    case True
    obtain h where "probeWalRepUpdateConfig (dbid p) (segindex p) rp pa s g = Inr h" "rows h = set_row (dbid p) rp pa s (rows g)"
      by (rule probeWalRepUpdateConfig_ok [OF p])
    then show thesis using that [of h] True by simp
  qed (use that [of g] in simp)
  have m1: "dbid m \<in> dbid ` set (rows g1)" using m g1(2) by (cases up) simp_all
  obtain g2 where g2: "(if um then probeWalRepUpdateConfig (dbid m) (segindex m) rm ma s g1 else Inr g1) = Inr g2"
    "rows g2 = (if um then set_row (dbid m) rm ma s else id) (rows g1)"
  proof (cases um)
    case True
    obtain h where "probeWalRepUpdateConfig (dbid m) (segindex m) rm ma s g1 = Inr h" "rows h = set_row (dbid m) rm ma s (rows g1)"
      by (rule probeWalRepUpdateConfig_ok [OF m1])
    then show thesis using that [of h] True by simp
  qed (use that [of g1] in simp)
  have eq: "updateConfiguration p m rp rm s pa ma g = (if \<not> (up \<or> um) then Inr (False, g) else
      rbind (if up then probeWalRepUpdateConfig (dbid p) (segindex p) rp pa s g else Inr g) (\<lambda>g.
      rbind (if um then probeWalRepUpdateConfig (dbid m) (segindex m) rm ma s g else Inr g) (\<lambda>g.
      Inr (True, (if ma then FTS_STATUS_SET_UP (dbid m) else FTS_STATUS_SET_DOWN (dbid m))
        ((if pa then FTS_STATUS_SET_UP (dbid p) else FTS_STATUS_SET_DOWN (dbid p)) g)))))"
    unfolding updateConfiguration_def Let_def up um by (simp add: if_distribR cong: if_cong)
  show thesis
  proof (cases "up \<or> um")
    case True
    then show thesis
      using that [of True "(if ma then FTS_STATUS_SET_UP (dbid m) else FTS_STATUS_SET_DOWN (dbid m))
          ((if pa then FTS_STATUS_SET_UP (dbid p) else FTS_STATUS_SET_DOWN (dbid p)) g2)"] g1 g2
      by (simp add: eq)
  next
    case False
    then show thesis
      using that [of False g] by (simp add: eq)
  qed
qed

section \<open>Processing the response of one pair\<close>

text \<open>A mirrored pair as the catalog has it.\<close>

definition pair_ok :: "GpSegConfigEntry list \<Rightarrow> fts_segment_info \<Rightarrow> bool" where
  "pair_ok rs x \<longleftrightarrow> distinct (map dbid rs) \<and>
     (\<exists>m. mirror_cdbinfo x = Some m \<and> segindex m = segindex (primary_cdbinfo x) \<and> mode m = mode (primary_cdbinfo x) \<and>
        (\<exists>r \<in> set rs. dbid r = dbid (primary_cdbinfo x) \<and> segindex r = segindex (primary_cdbinfo x) \<and> role r = ROLE_PRIMARY) \<and>
        (\<exists>r \<in> set rs. dbid r = dbid m \<and> segindex r = segindex m \<and> role r = ROLE_MIRROR))"

text \<open>
  The two effects: the roles stay, or the in-sync mirror takes over and the failed primary is
  marked down, both no longer in sync.
\<close>

definition roles_kept :: "fts_global \<Rightarrow> fts_global \<Rightarrow> fts_segment_info \<Rightarrow> fts_segment_info \<Rightarrow> bool" where
  "roles_kept g h x z \<longleftrightarrow>
     roles h = roles g \<and> primary_cdbinfo z = primary_cdbinfo x \<and> mirror_cdbinfo z = mirror_cdbinfo x"

definition roles_swapped :: "fts_global \<Rightarrow> fts_global \<Rightarrow> fts_segment_info \<Rightarrow> fts_segment_info \<Rightarrow> bool" where
  "roles_swapped g h x z \<longleftrightarrow>
     (\<exists>m. mirror_cdbinfo x = Some m \<and> SEGMENT_IS_IN_SYNC m \<and>
        rows h = set_row (dbid m) ROLE_PRIMARY (SEGMENT_IS_ALIVE m) False
          (set_row (dbid (primary_cdbinfo x)) ROLE_MIRROR False False (rows g)) \<and>
        primary_cdbinfo z = m \<and> mirror_cdbinfo z = Some (primary_cdbinfo x) \<and> state z = FTS_PROMOTE_SEGMENT)"

definition pair_ids :: "fts_segment_info \<Rightarrow> int set" where
  "pair_ids x = insert (dbid (primary_cdbinfo x)) (dbid ` set_option (mirror_cdbinfo x))"

definition others_kept :: "int set \<Rightarrow> fts_global \<Rightarrow> fts_global \<Rightarrow> bool" where
  "others_kept ids g h \<longleftrightarrow> filter (\<lambda>r. dbid r \<notin> ids) (rows h) = filter (\<lambda>r. dbid r \<notin> ids) (rows g)"

lemma others_set_row:
  "db \<in> ids \<Longrightarrow> filter (\<lambda>r. dbid r \<notin> ids) (set_row db new alive insync xs) = filter (\<lambda>r. dbid r \<notin> ids) xs"
  by (induction xs) (auto simp: set_row_def)

lemma pair_ids_mem: "dbid (primary_cdbinfo x) \<in> pair_ids x" "mirror_cdbinfo x = Some m \<Longrightarrow> dbid m \<in> pair_ids x"
  by (simp_all add: pair_ids_def)

lemma pair_ok_roles:
  assumes "pair_ok (rows g) x" "mirror_cdbinfo x = Some m"
  shows "distinct (map fst (roles g))" "(dbid (primary_cdbinfo x), segindex (primary_cdbinfo x), ROLE_PRIMARY) \<in> set (roles g)"
    "(dbid m, segindex (primary_cdbinfo x), ROLE_MIRROR) \<in> set (roles g)" "mode m = mode (primary_cdbinfo x)"
    "dbid (primary_cdbinfo x) \<in> dbid ` set (rows g)" "dbid m \<in> dbid ` set (rows g)"
proof -
  from assms obtain rp rm where r: "rp \<in> set (rows g)" "dbid rp = dbid (primary_cdbinfo x)"
      "segindex rp = segindex (primary_cdbinfo x)" "role rp = ROLE_PRIMARY"
    "rm \<in> set (rows g)" "dbid rm = dbid m" "segindex rm = segindex (primary_cdbinfo x)" "role rm = ROLE_MIRROR"
    and m: "mode m = mode (primary_cdbinfo x)" and d: "distinct (map dbid (rows g))"
    unfolding pair_ok_def by auto
  have "(dbid rp, segindex rp, role rp) \<in> set (roles g)" "(dbid rm, segindex rm, role rm) \<in> set (roles g)"
    using r(1,5) by (auto simp: roles_def)
  then show "(dbid (primary_cdbinfo x), segindex (primary_cdbinfo x), ROLE_PRIMARY) \<in> set (roles g)"
    "(dbid m, segindex (primary_cdbinfo x), ROLE_MIRROR) \<in> set (roles g)" using r by simp_all
  show "dbid (primary_cdbinfo x) \<in> dbid ` set (rows g)" "dbid m \<in> dbid ` set (rows g)"
    using r(1,5) r(2,6) [symmetric] by simp_all
  show "distinct (map fst (roles g))" using d by (simp add: roles_def o_def)
qed (use assms in \<open>auto simp: pair_ok_def\<close>)

lemma updateConfiguration_same_roles:
  assumes "pair_ok (rows g) x" "mirror_cdbinfo x = Some m"
  obtains u h where "updateConfiguration (primary_cdbinfo x) m ROLE_PRIMARY ROLE_MIRROR s pa ma g = Inr (u, h)"
    "roles h = roles g" "others_kept (pair_ids x) g h"
proof -
  note r = pair_ok_roles [OF assms]
  let ?p = "primary_cdbinfo x"
  define up where "up = (pa \<noteq> SEGMENT_IS_ALIVE ?p \<or> s \<noteq> SEGMENT_IS_IN_SYNC ?p)"
  define um where "um = (ma \<noteq> SEGMENT_IS_ALIVE m \<or> s \<noteq> SEGMENT_IS_IN_SYNC ?p)"
  obtain u h where u: "updateConfiguration ?p m ROLE_PRIMARY ROLE_MIRROR s pa ma g = Inr (u, h)"
    and h: "rows h = (if um then set_row (dbid m) ROLE_MIRROR ma s else id)
      ((if up then set_row (dbid ?p) ROLE_PRIMARY pa s else id) (rows g))"
    by (rule updateConfiguration_ok [OF r(5,6) up_def [symmetric] um_def [symmetric]])
  define g1 where "g1 = g\<lparr>gp_segment_configuration := (if up then set_row (dbid ?p) ROLE_PRIMARY pa s else id) (rows g)\<rparr>"
  have g1: "roles g1 = roles g"
    using roles_set_row [of g1 "dbid ?p" ROLE_PRIMARY pa s g] set_role_same [OF r(1,2)] by (cases up) (simp_all add: g1_def roles_def)
  have "roles h = roles g1"
    using roles_set_row [of h "dbid m" ROLE_MIRROR ma s g1] set_role_same [OF r(1,3)] h g1
    by (cases um) (simp_all add: g1_def roles_def)
  moreover have "others_kept (pair_ids x) g h"
    using others_set_row [of "dbid m" "pair_ids x"] others_set_row [of "dbid ?p" "pair_ids x"] assms(2)
    by (simp add: others_kept_def h pair_ids_mem)
  ultimately show thesis using that u g1 by simp
qed

lemma others_kept_refl [simp]: "others_kept ids g g"
  and others_kept_rows: "rows h = rows g \<Longrightarrow> others_kept ids k g \<Longrightarrow> others_kept ids k h"
  by (simp_all add: others_kept_def)

lemma updateSegmentDownStatus_ok:
  assumes "0 \<le> segindex p"
  obtains h where "updateSegmentDownStatus p alive mirrored g = Inr h" "rows h = rows g" "probe_status h = probe_status g"
proof -
  have "\<exists>h. updateSegmentDownStatus p alive mirrored g = Inr h \<and> rows h = rows g \<and> probe_status h = probe_status g"
    using assms by (simp add: updateSegmentDownStatus_def probeUpdateConfHistory_def Let_def)
  then show thesis using that by blast
qed

lemma roles_cong: "rows h = rows g \<Longrightarrow> roles h = roles g"
  by (simp add: roles_def)

lemma response_probe_success_ok:
  assumes pair: "pair_ok (rows g) x" and y: "primary_cdbinfo y = primary_cdbinfo x" "mirror_cdbinfo y = mirror_cdbinfo x"
    and nn: "0 \<le> segindex (primary_cdbinfo x)"
  obtains u st h where "response_probe_success True pa ma s y g = Inr (u, y\<lparr>state := st\<rparr>, h)"
    "st \<in> {FTS_RESPONSE_PROCESSED, FTS_SYNCREP_OFF_SEGMENT, FTS_PROMOTE_SEGMENT}"
    "roles h = roles g" "others_kept (pair_ids x) g h"
proof -
  obtain m where m: "mirror_cdbinfo x = Some m" using pair by (auto simp: pair_ok_def)
  obtain g1 where g1: "updateSegmentDownStatus (primary_cdbinfo x) True True g = Inr g1" "rows g1 = rows g"
    using updateSegmentDownStatus_ok [OF nn] by blast
  have "pair_ok (rows g1) x" using pair g1(2) by simp
  from updateConfiguration_same_roles [OF this m] obtain v h where
    h: "updateConfiguration (primary_cdbinfo x) m ROLE_PRIMARY ROLE_MIRROR s pa ma g1 = Inr (v, h)"
      "roles h = roles g1" "others_kept (pair_ids x) g1 h" by blast
  have r: "roles g1 = roles g" and o: "others_kept (pair_ids x) g g1" "others_kept (pair_ids x) g h"
    using roles_cong [OF g1(2)] g1(2) h(3) by (simp_all add: others_kept_def)
  consider "isSyncRepEnabled (seg_result y) \<and> \<not> ma \<and> \<not> retryRequested (seg_result y)"
    | "isSyncRepEnabled (seg_result y) \<and> \<not> ma \<and> retryRequested (seg_result y)"
    | "\<not> (isSyncRepEnabled (seg_result y) \<and> \<not> ma) \<and> isRoleMirror (seg_result y)"
    | "\<not> (isSyncRepEnabled (seg_result y) \<and> \<not> ma) \<and> \<not> isRoleMirror (seg_result y)" by blast
  then show thesis
  proof cases
    case 1
    then show thesis using that [of v FTS_SYNCREP_OFF_SEGMENT h] y m g1(1) h r o
      by (simp add: response_probe_success_def with_mirror_def)
  next
    case 2
    then show thesis using that [of False FTS_RESPONSE_PROCESSED g1] y m g1(1) r o
      by (simp add: response_probe_success_def with_mirror_def)
  next
    case 3
    then show thesis using that [of False FTS_PROMOTE_SEGMENT g1] y m g1(1) r o
      by (auto simp: response_probe_success_def with_mirror_def)
  next
    case 4
    then show thesis using that [of v FTS_RESPONSE_PROCESSED h] y m g1(1) h r o
      by (auto simp: response_probe_success_def with_mirror_def)
  qed
qed

lemma response_probe_failed_ok:
  assumes pair: "pair_ok (rows g) x" and y: "primary_cdbinfo y = primary_cdbinfo x" "mirror_cdbinfo y = mirror_cdbinfo x"
    and nn: "0 \<le> segindex (primary_cdbinfo x)" and m: "mirror_cdbinfo x = Some m"
  obtains (stay) u h where "response_probe_failed guc True False (SEGMENT_IS_ALIVE m) False y g =
      Inr (u, y\<lparr>state := FTS_RESPONSE_PROCESSED\<rparr>, h)" "rows h = rows g"
  | (swap) u h where "response_probe_failed guc True False (SEGMENT_IS_ALIVE m) False y g =
      Inr (u, y\<lparr>state := FTS_PROMOTE_SEGMENT, primary_cdbinfo := m, mirror_cdbinfo := Some (primary_cdbinfo x)\<rparr>, h)"
    "SEGMENT_IS_IN_SYNC m" "restart_state y \<notin> {PM_IN_RESETTING, PM_IN_RECOVERY_MAKING_PROGRESS}"
    "rows h = set_row (dbid m) ROLE_PRIMARY (SEGMENT_IS_ALIVE m) False
      (set_row (dbid (primary_cdbinfo x)) ROLE_MIRROR False False (rows g))"
proof -
  let ?p = "primary_cdbinfo x" and ?restart = "restart_state y \<in> {PM_IN_RESETTING, PM_IN_RECOVERY_MAKING_PROGRESS}"
  note r = pair_ok_roles [OF pair m]
  have sync: "SEGMENT_IS_IN_SYNC ?p = SEGMENT_IS_IN_SYNC m" using r(4) by (simp add: SEGMENT_IS_IN_SYNC_def)
  obtain g1 where g1: "updateSegmentDownStatus ?p False True g = Inr g1" "rows g1 = rows g"
    using updateSegmentDownStatus_ok [OF nn] by blast
  consider "?restart" | "\<not> ?restart" "\<not> SEGMENT_IS_IN_SYNC m" | "\<not> ?restart" "SEGMENT_IS_IN_SYNC m" by blast
  then show thesis
  proof cases
    case 1
    then show thesis using stay [of False g] y m by (auto simp: response_probe_failed_def log_mirror_def Let_def)
  next
    case 2
    then show thesis using stay [of False g1] y m g1 by (simp add: response_probe_failed_def with_mirror_def Let_def)
  next
    case 3
    have up: "(False \<noteq> SEGMENT_IS_ALIVE ?p \<or> False \<noteq> SEGMENT_IS_IN_SYNC ?p) = True"
      and um: "(SEGMENT_IS_ALIVE m \<noteq> SEGMENT_IS_ALIVE m \<or> False \<noteq> SEGMENT_IS_IN_SYNC ?p) = True"
      using 3(2) sync by simp_all
    obtain u h where
      "updateConfiguration ?p m ROLE_MIRROR ROLE_PRIMARY False False (SEGMENT_IS_ALIVE m) g = Inr (u, h)"
      "rows h = (if True then set_row (dbid m) ROLE_PRIMARY (SEGMENT_IS_ALIVE m) False else id)
        ((if True then set_row (dbid ?p) ROLE_MIRROR False False else id) (rows g))"
      by (rule updateConfiguration_ok [OF r(5,6) up um])
    then show thesis using swap [of u h] 3 y m by (simp add: response_probe_failed_def with_mirror_def Let_def)
  qed
qed

definition closed :: "fts_segment_info \<Rightarrow> bool" where
  "closed z \<longleftrightarrow> conn z = None \<and> poll_events z = 0 \<and> poll_revents z = 0 \<and> retry_count z = 0 \<and> \<not> isPrimaryAlive (seg_result z)"

lemma close_segment_closed [simp]: "closed (close_segment z)"
  by (simp add: closed_def close_segment_def no_result_def)

lemma close_segment_fields [simp]:
  "primary_cdbinfo (close_segment z) = primary_cdbinfo z" "mirror_cdbinfo (close_segment z) = mirror_cdbinfo z"
  "state (close_segment z) = state z" "retry_count (close_segment z) = 0"
  "restart_state (close_segment z) = restart_state z"
  by (simp_all add: close_segment_def)

text \<open>A response of a mirrored pair is processed without an error, as a move of the abstract machine.\<close>

definition processed :: "fts_guc \<Rightarrow> fts_global \<Rightarrow> fts_segment_info \<Rightarrow> fts_segment_info \<Rightarrow> fts_segment_info \<Rightarrow> fts_global \<Rightarrow> bool" where
  "processed guc g x y z h \<longleftrightarrow>
     closed z \<and> fts_move (gp_fts_probe_retries guc) (state x, retry_count x) (state z, retry_count z) \<and>
     others_kept (pair_ids x) g h \<and>
     (roles_kept g h x z \<or>
      roles_swapped g h x z \<and> failed (gp_fts_probe_retries guc) x y \<and> state x = FTS_PROBE_SEGMENT \<and>
      restart_state z \<notin> {PM_IN_RESETTING, PM_IN_RECOVERY_MAKING_PROGRESS})"

lemma response_answered_ok:
  assumes head: "head_ok guc True x" and pair: "pair_ok (rows g) x" and y: "answered x y"
  obtains u z h where "response_segment guc True y g = Inr (u, z, h)" "processed guc g x y z h"
proof -
  let ?p = "primary_cdbinfo x"
  have nn: "0 \<le> segindex ?p" using head by (simp add: head_ok_def)
  have p: "primary_cdbinfo y = ?p" "mirror_cdbinfo y = mirror_cdbinfo x" "isPrimaryAlive (seg_result y)"
    using y by (simp_all add: answered_def)
  consider "state x = FTS_PROBE_SEGMENT" "state y = FTS_PROBE_SUCCESS"
    | "state x = FTS_SYNCREP_OFF_SEGMENT" "state y = FTS_SYNCREP_OFF_SUCCESS"
    | "state x = FTS_PROMOTE_SEGMENT" "state y = FTS_PROMOTE_SUCCESS"
    using y by (auto simp: answered_def is_sending_state_def)
  then show thesis
  proof cases
    case 1
    obtain u st h where h: "response_probe_success True True (isMirrorAlive (seg_result y)) (isInSync (seg_result y)) y g =
        Inr (u, y\<lparr>state := st\<rparr>, h)" "st \<in> {FTS_RESPONSE_PROCESSED, FTS_SYNCREP_OFF_SEGMENT, FTS_PROMOTE_SEGMENT}"
      "roles h = roles g" "others_kept (pair_ids x) g h"
      by (rule response_probe_success_ok [OF pair p(1,2) nn])
    have "processed guc g x y (close_segment (y\<lparr>state := st\<rparr>)) h"
      using h 1 p by (auto simp: processed_def roles_kept_def intro: fts_move.intros)
    then show thesis using that h(1) 1 p
      by (simp add: response_segment_def ftsResponseReady_def IsFtsMessageStateSuccess_def Let_def)
  next
    case 2
    have "processed guc g x y (close_segment (y\<lparr>state := FTS_RESPONSE_PROCESSED\<rparr>)) g"
      using 2 p by (simp add: processed_def roles_kept_def fts_move.intros)
    then show thesis using that [of False "close_segment (y\<lparr>state := FTS_RESPONSE_PROCESSED\<rparr>)" g] 2 p
      by (simp add: response_segment_def ftsResponseReady_def IsFtsMessageStateSuccess_def Let_def)
  next
    case 3
    obtain h where h: "updateSegmentDownStatus ?p True True g = Inr h" "rows h = rows g"
      using updateSegmentDownStatus_ok [OF nn] by blast
    have "processed guc g x y (close_segment (y\<lparr>state := FTS_RESPONSE_PROCESSED\<rparr>)) h"
      using 3 p h(2) roles_cong [OF h(2)] by (simp add: processed_def roles_kept_def others_kept_def fts_move.intros)
    then show thesis using that [of False "close_segment (y\<lparr>state := FTS_RESPONSE_PROCESSED\<rparr>)" h] 3 p h(1)
      by (simp add: response_segment_def ftsResponseReady_def IsFtsMessageStateSuccess_def Let_def)
  qed
qed

lemma response_failed_ok:
  assumes head: "head_ok guc True x" and pair: "pair_ok (rows g) x" and y: "failed (gp_fts_probe_retries guc) x y"
  obtains u z h where "response_segment guc True y g = Inr (u, z, h)" "processed guc g x y z h"
proof -
  let ?p = "primary_cdbinfo x"
  have nn: "0 \<le> segindex ?p" using head by (simp add: head_ok_def)
  obtain m where m: "mirror_cdbinfo x = Some m" using pair by (auto simp: pair_ok_def)
  have p: "primary_cdbinfo y = ?p" "mirror_cdbinfo y = mirror_cdbinfo x" "\<not> isPrimaryAlive (seg_result y)"
    using y by (auto simp: failed_def keeps_def)
  have ma: "mirror_alive y = Inr (SEGMENT_IS_ALIVE m)" using p m by (simp add: mirror_alive_def)
  consider "state x = FTS_PROBE_SEGMENT" "state y = FTS_PROBE_FAILED"
    | "state x = FTS_SYNCREP_OFF_SEGMENT" "state y = FTS_SYNCREP_OFF_FAILED"
    | "state x = FTS_PROMOTE_SEGMENT" "state y = FTS_PROMOTE_FAILED"
    using y by (auto simp: failed_def is_sending_state_def)
  then show thesis
  proof cases
    case 1
    show thesis
    proof (rule response_probe_failed_ok [OF pair p(1,2) nn m, of guc])
      fix u h assume h: "response_probe_failed guc True False (SEGMENT_IS_ALIVE m) False y g =
          Inr (u, y\<lparr>state := FTS_RESPONSE_PROCESSED\<rparr>, h)" "rows h = rows g"
      have "processed guc g x y (close_segment (y\<lparr>state := FTS_RESPONSE_PROCESSED\<rparr>)) h"
        using h(2) roles_cong [OF h(2)] 1 p by (simp add: processed_def roles_kept_def others_kept_def fts_move.intros)
      then show thesis using that h(1) 1 p ma
        by (simp add: response_segment_def ftsResponseReady_def IsFtsMessageStateFailed_def Let_def)
    next
      fix u h assume h: "response_probe_failed guc True False (SEGMENT_IS_ALIVE m) False y g =
          Inr (u, y\<lparr>state := FTS_PROMOTE_SEGMENT, primary_cdbinfo := m, mirror_cdbinfo := Some ?p\<rparr>, h)"
        "SEGMENT_IS_IN_SYNC m" "restart_state y \<notin> {PM_IN_RESETTING, PM_IN_RECOVERY_MAKING_PROGRESS}"
        "rows h = set_row (dbid m) ROLE_PRIMARY (SEGMENT_IS_ALIVE m) False (set_row (dbid ?p) ROLE_MIRROR False False (rows g))"
      let ?z = "close_segment (y\<lparr>state := FTS_PROMOTE_SEGMENT, primary_cdbinfo := m, mirror_cdbinfo := Some ?p\<rparr>)"
      have "others_kept (pair_ids x) g h"
        using m by (simp add: others_kept_def h(4) others_set_row pair_ids_mem)
      then have "processed guc g x y ?z h"
        using h(2-4) 1 m y by (simp add: processed_def roles_swapped_def fts_move.intros)
      then show thesis using that h(1) 1 p ma
        by (simp add: response_segment_def ftsResponseReady_def IsFtsMessageStateFailed_def Let_def)
    qed
  next
    case 2
    have "processed guc g x y (close_segment (y\<lparr>state := FTS_RESPONSE_PROCESSED\<rparr>)) g"
      using 2 p by (simp add: processed_def roles_kept_def fts_move.intros)
    then show thesis using that [of False "close_segment (y\<lparr>state := FTS_RESPONSE_PROCESSED\<rparr>)" g] 2 p ma
      by (simp add: response_segment_def ftsResponseReady_def IsFtsMessageStateFailed_def Let_def)
  next
    case 3
    obtain h where h: "updateSegmentDownStatus ?p False True g = Inr h" "rows h = rows g"
      using updateSegmentDownStatus_ok [OF nn] by blast
    have "processed guc g x y (close_segment (y\<lparr>state := FTS_RESPONSE_PROCESSED\<rparr>)) h"
      using 3 p h(2) roles_cong [OF h(2)] by (simp add: processed_def roles_kept_def others_kept_def fts_move.intros)
    then show thesis using that [of False "close_segment (y\<lparr>state := FTS_RESPONSE_PROCESSED\<rparr>)" h] 3 p h(1) ma m
      by (simp add: response_segment_def ftsResponseReady_def IsFtsMessageStateFailed_def log_mirror_def Let_def)
  qed
qed

end
