(* ===== verification/Fts_Cycle.thy ===== *)
theory Fts_Cycle
  imports Fts_Catalog
begin

text \<open>
  A whole iteration of the probe loop, over all pairs, and the whole cycle: the invariant of
  the context and the catalog, and that it is kept.
\<close>

section \<open>From the context to the pairs\<close>

lemma assign_fds_nth:
  assumes "assign_fds n xs = (k, ys)"
  shows "length ys = length xs \<and> (\<forall>i < length xs. \<exists>f. ys ! i = (xs ! i)\<lparr>fd_index := f\<rparr>) \<and>
    n \<le> k \<and> (k = n \<longrightarrow> (\<forall>x \<in> set xs. \<not> is_polled x))"
  using assms
proof (induction xs arbitrary: n k ys)
  case (Cons x xs)
  define n' where "n' = (if is_polled x then n + 1 else n)"
  define f where "f = (if is_polled x then n else -1)"
  obtain k' ys' where r: "assign_fds n' xs = (k', ys')"
    by (cases "assign_fds n' xs")
  have e: "k = k'" "ys = x\<lparr>fd_index := f\<rparr> # ys'"
    using Cons.prems r by (simp_all add: n'_def f_def split: if_splits)
  note IH = Cons.IH [OF r]
  have "\<exists>f. ys ! i = ((x # xs) ! i)\<lparr>fd_index := f\<rparr>" if "i < length (x # xs)" for i
    using that IH unfolding e(2) by (cases i) auto
  moreover have "n \<le> n'" "n' = n \<longleftrightarrow> \<not> is_polled x" by (simp_all add: n'_def)
  ultimately show ?case using IH e by auto
qed simp

lemma ftsPoll_nth:
  assumes "ftsPoll guc env ctx = Inr ctx'"
  obtains nready where "has_mirrors ctx' = has_mirrors ctx" "length (perSegInfos ctx') = length (perSegInfos ctx)"
    "\<forall>i < length (perSegInfos ctx). \<exists>f. poll_segment guc (env_poll_now env) nready (env_seg env i)
       ((perSegInfos ctx ! i)\<lparr>fd_index := f\<rparr>) = Inr (perSegInfos ctx' ! i)"
proof -
  let ?xs = "perSegInfos ctx"
  obtain k ys where k: "assign_fds 0 ?xs = (k, ys)" by (cases "assign_fds 0 ?xs")
  note A = assign_fds_nth [OF k]
  show thesis
  proof (cases "k = 0")
    case True
    then have c: "ctx' = ctx\<lparr>perSegInfos := ys\<rparr>" using assms k by (simp add: ftsPoll_def)
    have "\<exists>f. poll_segment guc (env_poll_now env) 0 (env_seg env i) ((?xs ! i)\<lparr>fd_index := f\<rparr>) = Inr (ys ! i)"
      if i: "i < length ?xs" for i
    proof -
      have "\<not> is_polled (?xs ! i)" using A True i by simp
      moreover obtain f where f: "ys ! i = (?xs ! i)\<lparr>fd_index := f\<rparr>" using A i by blast
      ultimately show ?thesis by (intro exI [of _ f]) (simp add: poll_segment_def is_polled_def)
    qed
    then show thesis using that [of 0] A c by simp
  next
    case False
    then obtain nready where "rbind (map_index_r (\<lambda>i. poll_segment guc (env_poll_now env) nready (env_seg env i)) 0 ys)
        (\<lambda>infos. Inr (ctx\<lparr>perSegInfos := infos\<rparr>)) = Inr ctx'"
      using assms k by (auto simp: ftsPoll_def Let_def split: poll_outcome.splits)
    then obtain zs where z: "map_index_r (\<lambda>i. poll_segment guc (env_poll_now env) nready (env_seg env i)) 0 ys = Inr zs"
      "ctx' = ctx\<lparr>perSegInfos := zs\<rparr>" by (auto simp: rbind_Inr_iff)
    have "\<exists>f. poll_segment guc (env_poll_now env) nready (env_seg env i) ((?xs ! i)\<lparr>fd_index := f\<rparr>) = Inr (zs ! i)"
      if "i < length ?xs" for i
      using that A z(1) unfolding map_index_r_Inr by (metis add_0)
    then show thesis using that [of nready] A z by (simp add: map_index_r_Inr)
  qed
qed

lemma map_phase_nth:
  assumes "rbind (map_index_r f 0 (perSegInfos ctx)) (\<lambda>infos. Inr (ctx\<lparr>perSegInfos := infos\<rparr>)) = Inr ctx'"
  shows "has_mirrors ctx' = has_mirrors ctx" "length (perSegInfos ctx') = length (perSegInfos ctx)"
    "\<And>i. i < length (perSegInfos ctx) \<Longrightarrow> f i (perSegInfos ctx ! i) = Inr (perSegInfos ctx' ! i)"
  using assms by (auto simp: rbind_Inr_iff map_index_r_Inr)

text \<open>The phases before the responses are processed.\<close>

definition fts_phases :: "fts_guc \<Rightarrow> fts_env \<Rightarrow> fts_context \<Rightarrow> fts_error + fts_context" where
  "fts_phases guc env ctx =
     rbind (ftsConnect guc env ctx) (\<lambda>ctx.
     rbind (ftsPoll guc env ctx) (\<lambda>ctx.
     rbind (ftsSend env ctx) (\<lambda>ctx.
     rbind (ftsReceive env ctx) (\<lambda>ctx.
     processRetry guc env ctx))))"

lemma fts_iteration_phases:
  "fts_iteration guc env ctx g = rbind (fts_phases guc env ctx) (\<lambda>ctx. processResponse guc True ctx g)"
  by (simp add: fts_iteration_def fts_phases_def rbind_assoc)

lemma fts_phases_nth:
  assumes "fts_phases guc env ctx = Inr ctx'"
  obtains nready where "length (perSegInfos ctx') = length (perSegInfos ctx)" "has_mirrors ctx' = has_mirrors ctx"
    "\<forall>i < length (perSegInfos ctx). seg_run guc (has_mirrors ctx) (env_seg env i) (env_poll_now env) (env_retry_now env) nready
       (perSegInfos ctx ! i) (perSegInfos ctx' ! i)"
proof -
  obtain c1 c2 c3 c4 where c: "ftsConnect guc env ctx = Inr c1" "ftsPoll guc env c1 = Inr c2" "ftsSend env c2 = Inr c3"
    "ftsReceive env c3 = Inr c4" "processRetry guc env c4 = Inr ctx'"
    using assms by (auto simp: fts_phases_def rbind_Inr_iff)
  note p1 = map_phase_nth [OF c(1) [unfolded ftsConnect_def]]
  note p3 = map_phase_nth [OF c(3) [unfolded ftsSend_def]]
  note p4 = map_phase_nth [OF c(4) [unfolded ftsReceive_def]]
  note p5 = map_phase_nth [OF c(5) [unfolded processRetry_def]]
  obtain nready where p2: "has_mirrors c2 = has_mirrors c1" "length (perSegInfos c2) = length (perSegInfos c1)"
    "\<forall>i < length (perSegInfos c1). \<exists>f. poll_segment guc (env_poll_now env) nready (env_seg env i)
       ((perSegInfos c1 ! i)\<lparr>fd_index := f\<rparr>) = Inr (perSegInfos c2 ! i)"
    by (rule ftsPoll_nth [OF c(2)])
  have "seg_run guc (has_mirrors ctx) (env_seg env i) (env_poll_now env) (env_retry_now env) nready
       (perSegInfos ctx ! i) (perSegInfos ctx' ! i)" if "i < length (perSegInfos ctx)" for i
    unfolding seg_run_def using that p1 p2 p3 p4 p5 by fastforce
  then show thesis
    using that [of nready] p1(1,2) p2(1,2) p3(1,2) p4(1,2) p5(1,2) by simp
qed

section \<open>The responses of all pairs\<close>

text \<open>A pair whose mirror has just been made the primary, and what the catalog says of the two.\<close>

definition promoted :: "int \<Rightarrow> GpSegConfigEntry list \<Rightarrow> fts_segment_info \<Rightarrow> fts_segment_info \<Rightarrow> bool" where
  "promoted R rs x z \<longleftrightarrow>
     state x = FTS_PROBE_SEGMENT \<and> retry_count x = R \<and> state z = FTS_PROMOTE_SEGMENT \<and>
     restart_state z \<notin> {PM_IN_RESETTING, PM_IN_RECOVERY_MAKING_PROGRESS} \<and>
     (\<exists>m. mirror_cdbinfo x = Some m \<and> SEGMENT_IS_IN_SYNC m \<and>
        primary_cdbinfo z = m \<and> mirror_cdbinfo z = Some (primary_cdbinfo x) \<and>
        (\<forall>r \<in> set rs. dbid r = dbid (primary_cdbinfo x) \<longrightarrow>
           role r = ROLE_MIRROR \<and> status r = STATUS_DOWN \<and> mode r = MODE_NOTINSYNC) \<and>
        (\<forall>r \<in> set rs. dbid r = dbid m \<longrightarrow> role r = ROLE_PRIMARY \<and> mode r = MODE_NOTINSYNC))"

text \<open>A pair before and after an iteration that ends in the catalog \<open>rs\<close>.\<close>

definition pair_step :: "fts_guc \<Rightarrow> GpSegConfigEntry list \<Rightarrow> fts_segment_info \<Rightarrow> fts_segment_info \<Rightarrow> bool" where
  "pair_step guc rs x z \<longleftrightarrow> head_ok guc True z \<and> pair_ok rs z \<and> pair_ids z = pair_ids x \<and>
     ((state z, retry_count z) = (state x, retry_count x) \<or>
      fts_move (gp_fts_probe_retries guc) (state x, retry_count x) (state z, retry_count z)) \<and>
     (primary_cdbinfo z = primary_cdbinfo x \<and> mirror_cdbinfo z = mirror_cdbinfo x \<or>
      promoted (gp_fts_probe_retries guc) rs x z)"

definition same_cluster :: "fts_global \<Rightarrow> fts_global \<Rightarrow> bool" where
  "same_cluster g h \<longleftrightarrow> map dbid (rows h) = map dbid (rows g) \<and> (\<forall>c. primaries_of h c = primaries_of g c)"

lemma same_cluster_refl [simp]: "same_cluster g g"
  and same_cluster_trans: "same_cluster g h \<Longrightarrow> same_cluster h k \<Longrightarrow> same_cluster g k"
  by (simp_all add: same_cluster_def)

lemma map_fst_roles: "map fst (roles g) = map dbid (rows g)"
  by (simp add: roles_def o_def)

lemma pair_ok_intro:
  assumes "distinct (map fst (roles g))" "mirror_cdbinfo x = Some m" "segindex m = segindex (primary_cdbinfo x)"
    "mode m = mode (primary_cdbinfo x)" "(dbid (primary_cdbinfo x), segindex (primary_cdbinfo x), ROLE_PRIMARY) \<in> set (roles g)"
    "(dbid m, segindex m, ROLE_MIRROR) \<in> set (roles g)"
  shows "pair_ok (rows g) x"
proof -
  have "\<exists>r \<in> set (rows g). dbid r = d \<and> segindex r = c \<and> role r = k" if "(d, c, k) \<in> set (roles g)" for d c k
    using that by (auto simp: roles_def)
  from this [OF assms(5)] this [OF assms(6)] show ?thesis
    unfolding pair_ok_def using assms(1-4) by (simp add: map_fst_roles)
qed

lemma pair_ok_mirror:
  assumes "pair_ok rs x"
  obtains m where "mirror_cdbinfo x = Some m" "segindex m = segindex (primary_cdbinfo x)"
  using assms by (auto simp: pair_ok_def)

lemma others_kept_mem:
  assumes "others_kept ids g h" "dbid r \<notin> ids"
  shows "r \<in> set (rows h) \<longleftrightarrow> r \<in> set (rows g)"
proof -
  have "set (filter (\<lambda>r. dbid r \<notin> ids) (rows h)) = set (filter (\<lambda>r. dbid r \<notin> ids) (rows g))"
    using assms(1) by (simp add: others_kept_def)
  then show ?thesis using assms(2) by auto
qed

lemma others_kept_trans:
  assumes "others_kept A g h" "others_kept B h k"
  shows "others_kept (A \<union> B) g k"
proof -
  have f: "filter (\<lambda>r. dbid r \<notin> A \<union> B) xs = filter (\<lambda>r. dbid r \<notin> B) (filter (\<lambda>r. dbid r \<notin> A) xs)"
    "filter (\<lambda>r. dbid r \<notin> A \<union> B) xs = filter (\<lambda>r. dbid r \<notin> A) (filter (\<lambda>r. dbid r \<notin> B) xs)" for xs :: "GpSegConfigEntry list"
    by (induction xs) auto
  have "filter (\<lambda>r. dbid r \<notin> A \<union> B) (rows k) = filter (\<lambda>r. dbid r \<notin> A \<union> B) (rows h)"
    unfolding f(2) using assms(2) by (simp add: others_kept_def)
  also have "\<dots> = filter (\<lambda>r. dbid r \<notin> A \<union> B) (rows g)"
    unfolding f(1) using assms(1) by (simp add: others_kept_def)
  finally show ?thesis by (simp add: others_kept_def)
qed

lemma pair_ok_stable:
  assumes "pair_ok (rows g) x" "others_kept ids g h" "pair_ids x \<inter> ids = {}" "same_cluster g h"
  shows "pair_ok (rows h) x"
proof -
  have "r \<in> set (rows h)" if "r \<in> set (rows g)" "dbid r \<in> pair_ids x" for r
    using others_kept_mem [OF assms(2)] that assms(3) by blast
  then show ?thesis using assms(1,4) unfolding pair_ok_def same_cluster_def
    by (metis pair_ids_mem)
qed

lemma pair_step_stable:
  assumes "pair_step guc (rows g) x z" "others_kept ids g h" "pair_ids x \<inter> ids = {}" "same_cluster g h"
  shows "pair_step guc (rows h) x z"
proof -
  have "r \<in> set (rows g)" if "r \<in> set (rows h)" "dbid r \<in> pair_ids x" for r
    using others_kept_mem [OF assms(2)] that assms(3) by blast
  then have "promoted R (rows g) x z \<Longrightarrow> promoted R (rows h) x z" for R
    unfolding promoted_def by (metis pair_ids_mem)
  then show ?thesis using assms pair_ok_stable [OF _ assms(2), of z] unfolding pair_step_def by auto
qed

lemma set_row_mem:
  assumes "r \<in> set (set_row db new alive insync xs)"
  shows "dbid r = db \<Longrightarrow> role r = new \<and> status r = (if alive then STATUS_UP else STATUS_DOWN) \<and>
      mode r = (if insync then MODE_INSYNC else MODE_NOTINSYNC)"
    "dbid r \<noteq> db \<Longrightarrow> r \<in> set xs"
proof -
  obtain q where q: "q \<in> set xs" "r = (if dbid q = db then q\<lparr>role := new, status := (if alive then STATUS_UP else STATUS_DOWN),
       mode := (if insync then MODE_INSYNC else MODE_NOTINSYNC)\<rparr> else q)"
    using assms unfolding set_row_def set_map by (rule imageE)
  then show "dbid r = db \<Longrightarrow> role r = new \<and> status r = (if alive then STATUS_UP else STATUS_DOWN) \<and>
      mode r = (if insync then MODE_INSYNC else MODE_NOTINSYNC)"
    by (cases "dbid q = db") simp_all
  show "dbid r \<noteq> db \<Longrightarrow> r \<in> set xs" using q by (cases "dbid q = db") simp_all
qed

lemma closed_head:
  assumes "closed z" "abs_ok (gp_fts_probe_retries guc) (state z, retry_count z)" "0 \<le> segindex (primary_cdbinfo z)"
    "mirror_cdbinfo z = Some m" "0 \<le> segindex m"
  shows "head_ok guc True z"
  using assms by (simp add: head_ok_def closed_def)

lemma processed_step:
  assumes head: "head_ok guc True x" and pair: "pair_ok (rows g) x" and pr: "processed guc g x y z h"
  shows "pair_step guc (rows h) x z" "same_cluster g h"
proof -
  let ?R = "gp_fts_probe_retries guc" and ?p = "primary_cdbinfo x"
  obtain m where m: "mirror_cdbinfo x = Some m" "segindex m = segindex ?p" by (rule pair_ok_mirror [OF pair])
  note r = pair_ok_roles [OF pair m(1)]
  have mv: "fts_move ?R (state x, retry_count x) (state z, retry_count z)" and cl: "closed z"
    using pr by (simp_all add: processed_def)
  have ab: "abs_ok ?R (state z, retry_count z)" using fts_move_ok(1) [OF mv] head by (simp add: head_ok_def)
  have nn: "0 \<le> segindex ?p" "0 \<le> segindex m" using head m by (simp_all add: head_ok_def)
  consider (kept) "roles_kept g h x z" | (swapped) "roles_swapped g h x z" "failed ?R x y" "state x = FTS_PROBE_SEGMENT"
      "restart_state z \<notin> {PM_IN_RESETTING, PM_IN_RECOVERY_MAKING_PROGRESS}"
    using pr unfolding processed_def by blast
  then have "pair_step guc (rows h) x z \<and> same_cluster g h"
  proof cases
    case kept
    then have k: "roles h = roles g" "primary_cdbinfo z = ?p" "mirror_cdbinfo z = Some m"
      using m by (simp_all add: roles_kept_def)
    have "pair_ok (rows h) z" using r m by (intro pair_ok_intro [of h z m]) (simp_all add: k)
    moreover have "head_ok guc True z" by (rule closed_head [OF cl ab _ k(3)]) (simp_all add: k nn)
    moreover have "pair_ids z = pair_ids x" using k m by (simp add: pair_ids_def)
    moreover have "same_cluster g h"
      by (simp add: same_cluster_def map_fst_roles [symmetric] primaries_of_roles k(1))
    ultimately show ?thesis using mv k m by (simp add: pair_step_def)
  next
    case swapped
    then have k: "rows h = set_row (dbid m) ROLE_PRIMARY (SEGMENT_IS_ALIVE m) False (set_row (dbid ?p) ROLE_MIRROR False False (rows g))"
      "primary_cdbinfo z = m" "mirror_cdbinfo z = Some ?p" "state z = FTS_PROMOTE_SEGMENT" "SEGMENT_IS_IN_SYNC m"
      using m by (auto simp: roles_swapped_def)
    have neq: "dbid m \<noteq> dbid ?p"
    proof
      assume e: "dbid m = dbid ?p"
      show False using distinct_map_fst_unique [OF r(1,2) r(3) [unfolded e]] by simp
    qed
    define g1 where "g1 = g\<lparr>gp_segment_configuration := set_row (dbid ?p) ROLE_MIRROR False False (rows g)\<rparr>"
    have ro: "roles h = set_role (dbid m) ROLE_PRIMARY (set_role (dbid ?p) ROLE_MIRROR (roles g))"
      using roles_set_row [of h "dbid m" _ _ _ g1] roles_set_row [of g1 "dbid ?p" _ _ _ g] by (simp add: g1_def k(1))
    have "pair_ok (rows h) z"
      using r m neq by (intro pair_ok_intro [of h z ?p]) (auto simp: k(2,3) ro set_role_mem)
    moreover have "head_ok guc True z" by (rule closed_head [OF cl ab _ k(3)]) (simp_all add: k nn)
    moreover have "pair_ids z = pair_ids x" using k m by (auto simp: pair_ids_def)
    moreover have "same_cluster g h"
      using swap_count [OF r(1,2,3)] by (simp add: same_cluster_def map_fst_roles [symmetric] primaries_of_roles ro)
    moreover have "promoted ?R (rows h) x z"
    proof -
      have "role r = ROLE_MIRROR \<and> status r = STATUS_DOWN \<and> mode r = MODE_NOTINSYNC"
        if "r \<in> set (rows h)" "dbid r = dbid ?p" for r
        using set_row_mem(1) [OF set_row_mem(2) [OF that(1) [unfolded k(1)]] that(2)] that(2) neq by simp
      moreover have "role r = ROLE_PRIMARY \<and> mode r = MODE_NOTINSYNC" if "r \<in> set (rows h)" "dbid r = dbid m" for r
        using set_row_mem(1) [OF that(1) [unfolded k(1)] that(2)] by simp
      moreover have "retry_count x = ?R" using swapped(2) by (simp add: failed_def keeps_def)
      ultimately show ?thesis using swapped(3,4) k(2-5) m(1) by (simp add: promoted_def)
    qed
    ultimately show ?thesis using mv by (simp add: pair_step_def)
  qed
  then show "pair_step guc (rows h) x z" "same_cluster g h" by simp_all
qed

lemma response_quiet:
  assumes head: "head_ok guc True x" and pair: "pair_ok (rows g) x" and y: "quiet x y"
    and mv: "(state y, retry_count y) = (state x, retry_count x) \<or>
      fts_move (gp_fts_probe_retries guc) (state x, retry_count x) (state y, retry_count y)"
  shows "response_segment guc True y g = Inr (False, y, g)" "pair_step guc (rows g) x y"
proof -
  have ab: "abs_ok (gp_fts_probe_retries guc) (state y, retry_count y)"
    using mv head fts_move_ok(1) by (auto simp: head_ok_def)
  then show "response_segment guc True y g = Inr (False, y, g)"
    by (simp add: response_segment_def ftsResponseReady_def abs_ok_def)
  have p: "primary_cdbinfo y = primary_cdbinfo x" "mirror_cdbinfo y = mirror_cdbinfo x" using y by (simp_all add: quiet_def)
  have "head_ok guc True y" using head ab y by (simp add: head_ok_def quiet_def)
  moreover have "pair_ok (rows g) y" using pair by (simp add: pair_ok_def p)
  moreover have "pair_ids y = pair_ids x" by (simp add: pair_ids_def p)
  ultimately show "pair_step guc (rows g) x y" using mv p by (simp add: pair_step_def)
qed

lemma response_pair:
  assumes head: "head_ok guc True x" and pair: "pair_ok (rows g) x" and y: "outcome (gp_fts_probe_retries guc) x y"
  obtains u z h where "response_segment guc True y g = Inr (u, z, h)" "pair_step guc (rows h) x z" "same_cluster g h"
    "others_kept (pair_ids x) g h"
proof -
  consider (quiet) "quiet x y" "(state y, retry_count y) = (state x, retry_count x) \<or>
      fts_move (gp_fts_probe_retries guc) (state x, retry_count x) (state y, retry_count y)"
    | (ready) u z h where "response_segment guc True y g = Inr (u, z, h)" "processed guc g x y z h"
    using y response_answered_ok [OF head pair, of y] response_failed_ok [OF head pair, of y] unfolding outcome_def by metis
  then show thesis
  proof cases
    case quiet
    from response_quiet [OF head pair this] show thesis by (rule that) simp_all
  next
    case (ready u z h)
    have "others_kept (pair_ids x) g h" using ready(2) by (simp add: processed_def)
    with that [OF ready(1)] processed_step [OF head pair ready(2)] show thesis by blast
  qed
qed

abbreviation disjoint_pairs :: "fts_segment_info list \<Rightarrow> bool" where
  "disjoint_pairs \<equiv> sorted_wrt (\<lambda>x y. pair_ids x \<inter> pair_ids y = {})"

definition all_ids :: "fts_segment_info list \<Rightarrow> int set" where
  "all_ids xs = (\<Union>x \<in> set xs. pair_ids x)"

lemma response_loop_ok:
  assumes "list_all2 (outcome (gp_fts_probe_retries guc)) xs ys" "disjoint_pairs xs"
    "\<forall>x \<in> set xs. head_ok guc True x \<and> pair_ok (rows g) x"
  shows "\<exists>u zs h. response_loop guc True ys g = Inr (u, zs, h) \<and> list_all2 (pair_step guc (rows h)) xs zs \<and>
    same_cluster g h \<and> others_kept (all_ids xs) g h"
  using assms
proof (induction xs ys arbitrary: g rule: list_all2_induct)
  case Nil
  show ?case by (intro exI [of _ False] exI [of _ "[]"] exI [of _ g]) (simp add: all_ids_def)
next
  case (Cons x xs y ys)
  obtain u z h where r: "response_segment guc True y g = Inr (u, z, h)" "pair_step guc (rows h) x z" "same_cluster g h"
    "others_kept (pair_ids x) g h"
    using response_pair [OF _ _ Cons.hyps(1)] Cons.prems by (metis list.set_intros(1))
  have dis: "pair_ids x' \<inter> pair_ids x = {}" if "x' \<in> set xs" for x' using Cons.prems(1) that by auto
  have "\<forall>x' \<in> set xs. head_ok guc True x' \<and> pair_ok (rows h) x'"
    using Cons.prems(2) pair_ok_stable [OF _ r(4) dis r(3)] by simp
  then obtain v zs k where k: "response_loop guc True ys h = Inr (v, zs, k)" "list_all2 (pair_step guc (rows k)) xs zs"
    "same_cluster h k" "others_kept (all_ids xs) h k"
    using Cons.IH [of h] Cons.prems(1) by auto
  have "pair_ids x \<inter> all_ids xs = {}" using dis by (auto simp: all_ids_def)
  then have "pair_step guc (rows k) x z" by (rule pair_step_stable [OF r(2) k(4) _ k(3)])
  moreover have "others_kept (all_ids (x # xs)) g k" using others_kept_trans [OF r(4) k(4)] by (simp add: all_ids_def)
  ultimately show ?case using r(1) k same_cluster_trans [OF r(3) k(3)] by simp
qed

section \<open>The invariant of the loop\<close>

text \<open>
  A mirrored cluster while it is probed: every pair is at the head of the loop, is a primary and
  a mirror of one content in the catalog, and shares no segment with another pair.
\<close>

definition cycle_ok :: "fts_guc \<Rightarrow> fts_context \<Rightarrow> fts_global \<Rightarrow> bool" where
  "cycle_ok guc ctx g \<longleftrightarrow> has_mirrors ctx \<and> disjoint_pairs (perSegInfos ctx) \<and>
     (\<forall>x \<in> set (perSegInfos ctx). head_ok guc True x \<and> pair_ok (rows g) x)"

lemma pair_steps_keep:
  assumes "list_all2 (pair_step guc rs) xs zs"
  shows "disjoint_pairs zs = disjoint_pairs xs" "all_ids zs = all_ids xs"
    "\<forall>z \<in> set zs. head_ok guc True z \<and> pair_ok rs z"
proof -
  have "map pair_ids zs = map pair_ids xs" "\<forall>z \<in> set zs. head_ok guc True z \<and> pair_ok rs z"
    using assms by (induction rule: list_all2_induct) (simp_all add: pair_step_def)
  moreover have "disjoint_pairs ws = sorted_wrt (\<lambda>a b. a \<inter> b = {}) (map pair_ids ws)" for ws
    by (simp add: sorted_wrt_map)
  moreover have "all_ids ws = \<Union> (set (map pair_ids ws))" for ws
    by (simp add: all_ids_def)
  ultimately show "disjoint_pairs zs = disjoint_pairs xs" "all_ids zs = all_ids xs"
    "\<forall>z \<in> set zs. head_ok guc True z \<and> pair_ok rs z" by (simp_all del: set_map)
qed

lemma fts_phases_outcome:
  assumes ok: "cycle_ok guc ctx g" and ph: "fts_phases guc env ctx = Inr ctx'"
  shows "list_all2 (outcome (gp_fts_probe_retries guc)) (perSegInfos ctx) (perSegInfos ctx')" "has_mirrors ctx'"
proof -
  obtain nready where ys: "length (perSegInfos ctx') = length (perSegInfos ctx)" "has_mirrors ctx' = has_mirrors ctx"
    "\<forall>i < length (perSegInfos ctx). seg_run guc (has_mirrors ctx) (env_seg env i) (env_poll_now env) (env_retry_now env) nready
       (perSegInfos ctx ! i) (perSegInfos ctx' ! i)"
    by (rule fts_phases_nth [OF ph])
  have m: "has_mirrors ctx" and heads: "\<forall>x \<in> set (perSegInfos ctx). head_ok guc True x \<and> pair_ok (rows g) x"
    using ok by (simp_all add: cycle_ok_def)
  show "has_mirrors ctx'" using m ys(2) by simp
  show "list_all2 (outcome (gp_fts_probe_retries guc)) (perSegInfos ctx) (perSegInfos ctx')"
  proof (rule list_all2_all_nthI)
    fix i assume i: "i < length (perSegInfos ctx)"
    then have "head_ok guc True (perSegInfos ctx ! i)" using heads by simp
    moreover have "seg_run guc True (env_seg env i) (env_poll_now env) (env_retry_now env) nready
        (perSegInfos ctx ! i) (perSegInfos ctx' ! i)" using ys(1,3) i m by simp
    ultimately show "outcome (gp_fts_probe_retries guc) (perSegInfos ctx ! i) (perSegInfos ctx' ! i)"
      by (rule seg_run_outcome)
  qed (use ys(1) in simp)
qed

lemma processResponse_step:
  assumes ok: "cycle_ok guc ctx g" and ph: "fts_phases guc env ctx = Inr c"
  obtains u ctx' h where "processResponse guc True c g = Inr (u, ctx', h)" "cycle_ok guc ctx' h"
    "list_all2 (pair_step guc (rows h)) (perSegInfos ctx) (perSegInfos ctx')" "same_cluster g h"
    "others_kept (all_ids (perSegInfos ctx)) g h"
proof -
  note out = fts_phases_outcome [OF ok ph]
  have heads: "\<forall>x \<in> set (perSegInfos ctx). head_ok guc True x \<and> pair_ok (rows g) x"
    and dis: "disjoint_pairs (perSegInfos ctx)" using ok by (simp_all add: cycle_ok_def)
  from response_loop_ok [OF out(1) dis heads] obtain u zs h where
    r: "response_loop guc True (perSegInfos c) g = Inr (u, zs, h)" "list_all2 (pair_step guc (rows h)) (perSegInfos ctx) zs"
      "same_cluster g h" "others_kept (all_ids (perSegInfos ctx)) g h" by blast
  have "cycle_ok guc (c\<lparr>perSegInfos := zs\<rparr>) h" using pair_steps_keep [OF r(2)] dis out(2) by (simp add: cycle_ok_def)
  then show thesis using that [of u "c\<lparr>perSegInfos := zs\<rparr>" h] r out(2) by (simp add: processResponse_def)
qed

lemma fts_iteration_step:
  assumes ok: "cycle_ok guc ctx g" and it: "fts_iteration guc env ctx g = Inr (u, ctx', h)"
  shows "cycle_ok guc ctx' h" "list_all2 (pair_step guc (rows h)) (perSegInfos ctx) (perSegInfos ctx')"
    "same_cluster g h" "others_kept (all_ids (perSegInfos ctx)) g h"
proof -
  obtain c where c: "fts_phases guc env ctx = Inr c" "processResponse guc True c g = Inr (u, ctx', h)"
    using it by (auto simp: fts_iteration_phases rbind_Inr_iff)
  obtain u' c' h' where "processResponse guc True c g = Inr (u', c', h')" "cycle_ok guc c' h'"
    "list_all2 (pair_step guc (rows h')) (perSegInfos ctx) (perSegInfos c')" "same_cluster g h'"
    "others_kept (all_ids (perSegInfos ctx)) g h'"
    by (rule processResponse_step [OF ok c(1)])
  then show "cycle_ok guc ctx' h" "list_all2 (pair_step guc (rows h)) (perSegInfos ctx) (perSegInfos ctx')"
    "same_cluster g h" "others_kept (all_ids (perSegInfos ctx)) g h"
    using c(2) by simp_all
qed

end
