(* ===== verification/Fts_Errors.thy ===== *)
theory Fts_Errors
  imports Fts_Cycle
begin

text \<open>
  The errors of an iteration: on a mirrored cluster the checks of the code that guard against
  impossible states never fire, so an iteration can only fail where libpq or \<^verbatim>\<open>poll()\<close> do.
\<close>

unbundle bit_operations_syntax

definition env_errors :: "fts_error set" where
  "env_errors = {Connection_object_is_null, Invalid_connect_poll, Poll_failed_error}"

lemma mid_ok_mirror: "mid_ok x y \<Longrightarrow> mirror_cdbinfo y = mirror_cdbinfo x"
  by (simp add: mid_ok_def keeps_def)

lemma mid_ok_no_fail_error:
  assumes "mid_ok x y" "poll_events y \<noteq> 0 \<or> is_sending_state (state y)"
  shows "fail_segment y \<noteq> Inl e"
proof -
  obtain z where "fail_segment y = Inr z" by (rule mid_ok_fail [OF assms])
  then show ?thesis by simp
qed

lemma fail_segment_conn [simp]:
  "fail_segment (y\<lparr>conn := c\<rparr>) = Inl e \<longleftrightarrow> fail_segment y = Inl e"
  "fail_segment (y\<lparr>timeout_count := n\<rparr>) = Inl e \<longleftrightarrow> fail_segment y = Inl e"
  "fail_segment (y\<lparr>poll_revents := v\<rparr>) = Inl e \<longleftrightarrow> fail_segment y = Inl e"
  "fail_segment (y\<lparr>restart_state := r\<rparr>) = Inl e \<longleftrightarrow> fail_segment y = Inl e"
  by (auto simp: fail_segment_def rbind_Inl_iff)

lemma checkRestart_no_error:
  "mirror_cdbinfo y \<noteq> None \<Longrightarrow> checkIfFailedDueToNormalRestart guc y \<noteq> Inl e"
  by (auto simp: checkIfFailedDueToNormalRestart_def log_mirror_def split: option.split)

lemma connect_segment_error:
  assumes "mid_ok x x" "mirror_cdbinfo x \<noteq> None" "connect_segment guc env x = Inl e"
  shows "e \<in> env_errors"
proof -
  have s: "is_sending_state (state x)" using assms(3) by (auto simp: connect_segment_def split: if_splits)
  have nf: "fail_segment x \<noteq> Inl e'" for e' using mid_ok_no_fail_error [OF assms(1)] s by blast
  let ?x = "x\<lparr>restart_state := PM_NOT_IN_RESTART\<rparr>"
  have poll: "e \<in> env_errors" if "connect_poll guc env ?x = Inl e"
  proof -
    obtain r c where r: "e_connectPoll env = (r, c)" by (cases "e_connectPoll env")
    have m: "mirror_cdbinfo z \<noteq> None" if "fail_segment (?x\<lparr>conn := Some c\<rparr>) = Inr z" for z
      using that assms(2) by (auto simp: fail_segment_Inr)
    show ?thesis
      using that nf m checkRestart_no_error
      by (cases r) (auto simp: connect_poll_def r rbind_Inl_iff env_errors_def)
  qed
  have start: "e \<in> env_errors"
    if "rbind (ftsConnectStart env ?x) (\<lambda>(b, u). if b then Inr u else fail_segment u) = Inl e"
  proof (cases "e_connectStart env")
    case None
    then show ?thesis using that by (simp add: ftsConnectStart_def env_errors_def)
  next
    case (Some c)
    then show ?thesis using that nf by (simp add: ftsConnectStart_def Let_def split: if_splits)
  qed
  show ?thesis
  proof (cases "conn x")
    case None
    then show ?thesis using assms(3) s start by (simp add: connect_segment_def Let_def)
  next
    case (Some c)
    then show ?thesis using assms(3) s poll by (simp add: connect_segment_def Let_def split: if_splits)
  qed
qed

lemma poll_segment_no_error:
  assumes "mid_ok x y"
  shows "poll_segment guc now nready env y \<noteq> Inl e"
proof (cases "is_polled y")
  case True
  then have ne: "poll_events y \<noteq> 0" by (auto simp: is_polled_def)
  define y' where "y' = y\<lparr>poll_revents := (if nready > 0 then e_revents env else 0)\<rparr>"
  have y': "mid_ok x y'" "poll_events y' \<noteq> 0 \<or> is_sending_state (state y')" "state y' = state y"
    using assms ne by (simp_all add: y'_def)
  obtain z where z: "fail_segment y' = Inr z" "mid_ok x z" by (rule mid_ok_fail [OF y'(1,2)])
  let ?F = "if poll_revents y' AND poll_events y' \<noteq> 0 then Inr (y'\<lparr>poll_events := 0\<rparr>)
        else if poll_revents y' AND (POLLHUP OR POLLERR) \<noteq> 0 then fail_segment y'
        else if poll_revents y' \<noteq> 0 then fail_segment y' else Inr y'"
  have "\<exists>u. ?F = Inr u \<and> (u = z \<or> u = y' \<or> u = y'\<lparr>poll_events := 0\<rparr>)" by (simp add: z(1))
  then obtain u where u: "?F = Inr u" "u = z \<or> u = y' \<or> u = y'\<lparr>poll_events := 0\<rparr>" by blast
  have "IsFtsMessageStateFailed (state z)" using z(1) by (auto simp: fail_segment_Inr)
  moreover have "is_sending_state (state y) \<or> IsFtsMessageStateFailed (state y)" using assms ne by (auto simp: mid_ok_def)
  ultimately have "is_sending_state (state u) \<or> IsFtsMessageStateFailed (state u)" using u(2) y'(3) by auto
  then have nf: "fail_segment u \<noteq> Inl e" using nextFailed_cases [of "state u"] nextFailed_failed [of "state u"]
    by (auto simp: fail_segment_def rbind_Inl_iff)
  have "poll_segment guc now nready env y = rbind ?F (\<lambda>info. ftsCheckTimeout guc now
      (if \<not> IsFtsMessageStateSuccess (state info) \<and> nready = 0 then info\<lparr>timeout_count := timeout_count info + 1\<rparr> else info))"
    using True by (simp add: poll_segment_def Let_def y'_def)
  then show ?thesis using nf unfolding u(1) by (auto simp: ftsCheckTimeout_def)
qed (simp add: poll_segment_def)

lemma send_segment_no_error:
  assumes "mid_ok x y"
  shows "send_segment env y \<noteq> Inl e"
proof (cases "is_sending_state (state y)")
  case True
  obtain b c where b: "e_sendQuery env = (b, c)" by (cases "e_sendQuery env")
  have nf: "fail_segment y \<noteq> Inl e" using mid_ok_no_fail_error [OF assms] True by blast
  show ?thesis by (cases "conn y") (simp_all add: send_segment_def b nf Let_def)
qed (simp add: send_segment_def)

lemma receive_segment_no_error:
  assumes "mid_ok x y"
  shows "receive_segment env y \<noteq> Inl e"
proof (cases "is_sending_state (state y)")
  case True
  obtain b c where b: "e_consumeInput env = (b, c)" by (cases "e_consumeInput env")
  obtain b' c' where b': "e_isBusy env = (b', c')" by (cases "e_isBusy env")
  obtain r c'' where r: "e_getResult env = (r, c'')" by (cases "e_getResult env")
  have nf: "fail_segment y \<noteq> Inl e" using mid_ok_no_fail_error [OF assms] True by blast
  have ns: "nextSuccessState (state y) \<noteq> Inl e" using True by (auto simp: is_sending_state_def)
  have st: "state (probeRecordResponse q u) = state u" for q u by (simp add: probeRecordResponse_def)
  show ?thesis
    by (cases "conn y"; cases r) (simp_all add: receive_segment_def b b' r nf ns st Let_def rbind_Inl_iff)
qed (simp add: receive_segment_def)

lemma retry_segment_no_error:
  assumes "mirror_cdbinfo y \<noteq> None"
  shows "retry_segment guc mirrored now y \<noteq> Inl e"
  using assms by (auto simp: retry_segment_def mirror_alive_def rbind_Inl_iff split: FtsMessageState.split)

lemma map_phase_error:
  assumes "rbind (map_index_r f 0 (perSegInfos ctx)) (\<lambda>infos. Inr (ctx\<lparr>perSegInfos := infos\<rparr>)) = Inl e"
  obtains i where "i < length (perSegInfos ctx)" "f i (perSegInfos ctx ! i) = Inl e"
  using assms map_index_r_Inl [of f 0 "perSegInfos ctx" e] by (auto simp: rbind_Inl_iff)

lemma ftsPoll_error:
  assumes "ftsPoll guc env ctx = Inl e"
  shows "e \<in> env_errors \<or> (\<exists>i nready f. i < length (perSegInfos ctx) \<and>
    poll_segment guc (env_poll_now env) nready (env_seg env i) ((perSegInfos ctx ! i)\<lparr>fd_index := f\<rparr>) = Inl e)"
proof -
  obtain k ys where k: "assign_fds 0 (perSegInfos ctx) = (k, ys)" by (cases "assign_fds 0 (perSegInfos ctx)")
  consider "e = Poll_failed_error"
    | nready where "map_index_r (\<lambda>i. poll_segment guc (env_poll_now env) nready (env_seg env i)) 0 ys = Inl e"
    using assms k by (auto simp: ftsPoll_def Let_def rbind_Inl_iff split: poll_outcome.splits if_splits)
  then show ?thesis
  proof cases
    case (2 nready)
    obtain i where i: "i < length ys" "poll_segment guc (env_poll_now env) nready (env_seg env i) (ys ! i) = Inl e"
      using map_index_r_Inl [OF 2] by auto
    moreover obtain f where "ys ! i = (perSegInfos ctx ! i)\<lparr>fd_index := f\<rparr>" using assign_fds_nth [OF k] i(1) by auto
    ultimately show ?thesis using assign_fds_nth [OF k] by auto
  qed (simp add: env_errors_def)
qed

text \<open>The pairs of a context between two phases.\<close>

definition ctx_mid :: "fts_context \<Rightarrow> fts_context \<Rightarrow> bool" where
  "ctx_mid ctx c \<longleftrightarrow> has_mirrors c = has_mirrors ctx \<and> list_all2 mid_ok (perSegInfos ctx) (perSegInfos c)"

lemma ctx_mid_phase:
  assumes "ctx_mid ctx c" "rbind (map_index_r f 0 (perSegInfos c)) (\<lambda>infos. Inr (c\<lparr>perSegInfos := infos\<rparr>)) = Inr c'"
    "\<And>i x y z. x \<in> set (perSegInfos ctx) \<Longrightarrow> mid_ok x y \<Longrightarrow> f i y = Inr z \<Longrightarrow> mid_ok x z"
  shows "ctx_mid ctx c'"
proof -
  note p = map_phase_nth [OF assms(2)]
  have "list_all2 mid_ok (perSegInfos ctx) (perSegInfos c')"
  proof (rule list_all2_all_nthI)
    show "length (perSegInfos ctx) = length (perSegInfos c')" using assms(1) p(2) by (auto simp: ctx_mid_def dest: list_all2_lengthD)
    fix i assume i: "i < length (perSegInfos ctx)"
    then have "mid_ok (perSegInfos ctx ! i) (perSegInfos c ! i)" "i < length (perSegInfos c)"
      using assms(1) by (simp_all add: ctx_mid_def list_all2_conv_all_nth)
    with assms(3) [OF nth_mem [OF i]] p(3) show "mid_ok (perSegInfos ctx ! i) (perSegInfos c' ! i)" by blast
  qed
  then show ?thesis using assms(1) p(1) by (simp add: ctx_mid_def)
qed

lemma ctx_mid_nth:
  assumes "ctx_mid ctx c" "i < length (perSegInfos c)"
  shows "mid_ok (perSegInfos ctx ! i) (perSegInfos c ! i)" "perSegInfos ctx ! i \<in> set (perSegInfos ctx)"
  using assms by (auto simp: ctx_mid_def list_all2_conv_all_nth)

lemma ctx_mid_poll:
  assumes "ctx_mid ctx c" "ftsPoll guc env c = Inr c'"
  shows "ctx_mid ctx c'"
proof -
  obtain nready where p: "has_mirrors c' = has_mirrors c" "length (perSegInfos c') = length (perSegInfos c)"
    "\<forall>i < length (perSegInfos c). \<exists>f. poll_segment guc (env_poll_now env) nready (env_seg env i)
       ((perSegInfos c ! i)\<lparr>fd_index := f\<rparr>) = Inr (perSegInfos c' ! i)"
    by (rule ftsPoll_nth [OF assms(2)])
  have "mid_ok (perSegInfos ctx ! i) (perSegInfos c' ! i)" if i: "i < length (perSegInfos c)" for i
  proof -
    obtain f where "poll_segment guc (env_poll_now env) nready (env_seg env i)
       ((perSegInfos c ! i)\<lparr>fd_index := f\<rparr>) = Inr (perSegInfos c' ! i)" using p(3) i by blast
    then show ?thesis by (rule poll_segment_mid [rotated]) (simp add: ctx_mid_nth(1) [OF assms(1) i])
  qed
  then show ?thesis using assms(1) p(1,2) by (simp add: ctx_mid_def list_all2_conv_all_nth)
qed

lemma phase_no_error:
  assumes "ctx_mid ctx c" "\<And>i x y. x \<in> set (perSegInfos ctx) \<Longrightarrow> mid_ok x y \<Longrightarrow> f i y \<noteq> Inl e"
  shows "rbind (map_index_r f 0 (perSegInfos c)) (\<lambda>infos. Inr (c\<lparr>perSegInfos := infos\<rparr>)) \<noteq> Inl e"
proof
  assume "rbind (map_index_r f 0 (perSegInfos c)) (\<lambda>infos. Inr (c\<lparr>perSegInfos := infos\<rparr>)) = Inl e"
  then obtain i where "i < length (perSegInfos c)" "f i (perSegInfos c ! i) = Inl e" by (rule map_phase_error)
  then show False using assms(2) ctx_mid_nth [OF assms(1)] by blast
qed

lemma ctx_mid_poll_error:
  assumes "ctx_mid ctx c" "ftsPoll guc env c = Inl e"
  shows "e \<in> env_errors"
proof (rule ccontr)
  assume "e \<notin> env_errors"
  then obtain i nready f where i: "i < length (perSegInfos c)"
    and p: "poll_segment guc (env_poll_now env) nready (env_seg env i) ((perSegInfos c ! i)\<lparr>fd_index := f\<rparr>) = Inl e"
    using ftsPoll_error [OF assms(2)] by blast
  have "mid_ok (perSegInfos ctx ! i) ((perSegInfos c ! i)\<lparr>fd_index := f\<rparr>)" using ctx_mid_nth(1) [OF assms(1) i] by simp
  then show False using poll_segment_no_error p by blast
qed

lemma processRetry_no_error:
  assumes "ctx_mid ctx c" "ftsReceive env c = Inr c'" "\<forall>x \<in> set (perSegInfos ctx). mirror_cdbinfo x \<noteq> None"
  shows "processRetry guc env c' \<noteq> Inl e"
proof
  assume "processRetry guc env c' = Inl e"
  then obtain i where i: "i < length (perSegInfos c')" "retry_segment guc (has_mirrors c') (env_retry_now env) (perSegInfos c' ! i) = Inl e"
    unfolding processRetry_def by (rule map_phase_error)
  note p = map_phase_nth [OF assms(2) [unfolded ftsReceive_def]]
  have i': "i < length (perSegInfos c)" using i(1) p(2) by simp
  note m = ctx_mid_nth [OF assms(1) i']
  have "mid_ok (perSegInfos ctx ! i) (perSegInfos c' ! i) \<or> answered (perSegInfos ctx ! i) (perSegInfos c' ! i)"
    by (rule receive_segment_cases [OF m(1) p(3) [OF i']])
  then have "mirror_cdbinfo (perSegInfos c' ! i) = mirror_cdbinfo (perSegInfos ctx ! i)"
    by (auto simp: mid_ok_def keeps_def answered_def)
  then show False using retry_segment_no_error i(2) assms(3) m(2) by metis
qed

lemma fts_phases_error:
  assumes ok: "cycle_ok guc ctx g" and ph: "fts_phases guc env ctx = Inl e"
  shows "e \<in> env_errors"
proof (rule ccontr)
  assume e: "e \<notin> env_errors"
  have heads: "\<forall>x \<in> set (perSegInfos ctx). head_ok guc True x \<and> pair_ok (rows g) x" using ok by (simp add: cycle_ok_def)
  have mirr: "\<forall>x \<in> set (perSegInfos ctx). mirror_cdbinfo x \<noteq> None" using heads by (auto simp: pair_ok_def)
  have self: "mid_ok x x" if "x \<in> set (perSegInfos ctx)" for x using heads that head_ok_mid by blast
  have c0: "ctx_mid ctx ctx" using self by (simp add: ctx_mid_def list_all2_same)
  have "ftsConnect guc env ctx \<noteq> Inl e"
    using connect_segment_error [OF self] mirr e unfolding ftsConnect_def by (metis map_phase_error nth_mem)
  then obtain c1 where c1: "ftsConnect guc env ctx = Inr c1" using ph by (cases "ftsConnect guc env ctx") (auto simp: fts_phases_def)
  note n1 = map_phase_nth [OF c1 [unfolded ftsConnect_def]]
  have "mid_ok (perSegInfos ctx ! i) (perSegInfos c1 ! i)" if i: "i < length (perSegInfos ctx)" for i
    by (rule connect_segment_mid [OF self n1(3) [OF i]]) (simp add: i)
  then have m1: "ctx_mid ctx c1" using n1(1,2) by (simp add: ctx_mid_def list_all2_conv_all_nth)
  obtain c2 where c2: "ftsPoll guc env c1 = Inr c2"
    using ph c1 ctx_mid_poll_error [OF m1] e by (cases "ftsPoll guc env c1") (auto simp: fts_phases_def)
  note m2 = ctx_mid_poll [OF m1 c2]
  have "ftsSend env c2 \<noteq> Inl e" unfolding ftsSend_def by (rule phase_no_error [OF m2]) (rule send_segment_no_error)
  then obtain c3 where c3: "ftsSend env c2 = Inr c3" using ph c1 c2 by (cases "ftsSend env c2") (auto simp: fts_phases_def)
  have m3: "ctx_mid ctx c3" by (rule ctx_mid_phase [OF m2 c3 [unfolded ftsSend_def]]) (rule send_segment_mid)
  have "ftsReceive env c3 \<noteq> Inl e" unfolding ftsReceive_def by (rule phase_no_error [OF m3]) (rule receive_segment_no_error)
  then obtain c4 where c4: "ftsReceive env c3 = Inr c4" using ph c1 c2 c3 by (cases "ftsReceive env c3") (auto simp: fts_phases_def)
  show False using processRetry_no_error [OF m3 c4 mirr] ph c1 c2 c3 c4 by (simp add: fts_phases_def)
qed

lemma fts_iteration_error:
  assumes ok: "cycle_ok guc ctx g" and it: "fts_iteration guc env ctx g = Inl e"
  shows "e \<in> env_errors"
proof (cases "fts_phases guc env ctx")
  case (Inl e')
  then show ?thesis using it fts_phases_error [OF ok] by (simp add: fts_iteration_phases)
next
  case (Inr c)
  obtain u c' h where "processResponse guc True c g = Inr (u, c', h)" by (rule processResponse_step [OF ok Inr])
  then show ?thesis using it Inr by (simp add: fts_iteration_phases)
qed

end
