(* ===== verification/Fts_Live.thy ===== *)
theory Fts_Live
  imports Fts_Errors
begin

text \<open>
  A cycle against a cluster in which no primary accepts a connection: every message fails at
  once, is retried whenever the clock has moved on, and the cycle ends.
\<close>

unbundle bit_operations_syntax

section \<open>One iteration\<close>

definition is_waiting_state :: "FtsMessageState \<Rightarrow> bool" where
  "is_waiting_state st \<longleftrightarrow>
     st = FTS_PROBE_RETRY_WAIT \<or> st = FTS_SYNCREP_OFF_RETRY_WAIT \<or> st = FTS_PROMOTE_RETRY_WAIT"

text \<open>\<^verbatim>\<open>PQconnectStart\<close> returns a connection object in the state \<^verbatim>\<open>CONNECTION_BAD\<close>.\<close>

definition refuses :: "seg_env \<Rightarrow> bool" where
  "refuses env = (case e_connectStart env of Some c \<Rightarrow> conn_status c = CONNECTION_BAD | None \<Rightarrow> False)"

text \<open>Between iterations; \<open>t\<close> is the time the retry phase last read.\<close>

definition resting :: "int \<Rightarrow> fts_segment_info \<Rightarrow> bool" where
  "resting t x \<longleftrightarrow> conn x = None \<and> poll_events x = 0 \<and>
     (is_waiting_state (state x) \<longrightarrow> retryStartTime x = t \<and> 1 \<le> retry_count x)"

text \<open>What the connection phase makes of such a pair, and the retry phase of that.\<close>

definition refused :: "seg_env \<Rightarrow> fts_segment_info \<Rightarrow> fts_segment_info" where
  "refused env x =
     (if is_sending_state (state x)
      then x\<lparr>restart_state := PM_NOT_IN_RESTART, conn := e_connectStart env,
             state := (case nextFailedState (state x) of Inr f \<Rightarrow> f | Inl _ \<Rightarrow> state x)\<rparr>
      else x)"

lemma refused_fields [simp]:
  "poll_events (refused env x) = poll_events x" "retry_count (refused env x) = retry_count x"
  "retryStartTime (refused env x) = retryStartTime x" "mirror_cdbinfo (refused env x) = mirror_cdbinfo x"
  by (simp_all add: refused_def)

lemma refused_not_sending [simp]: "\<not> is_sending_state (state (refused env x))"
  by (auto simp: refused_def is_sending_state_def)

lemma connect_refused:
  assumes "resting t x" "refuses env"
  shows "connect_segment guc env x = Inr (refused env x)"
proof (cases "is_sending_state (state x)")
  case True
  obtain c where c: "e_connectStart env = Some c" "conn_status c = CONNECTION_BAD"
    using assms(2) by (auto simp: refuses_def split: option.splits)
  obtain f where "nextFailedState (state x) = Inr f" using nextFailed_cases [OF True] by blast
  then show ?thesis using assms(1) True
    by (simp add: connect_segment_def ftsConnectStart_def c resting_def fail_segment_def refused_def Let_def)
next
  case False
  then show ?thesis using assms(1) by (simp add: connect_segment_def resting_def refused_def)
qed

lemma phase_map:
  assumes "\<And>i x. x \<in> set xs \<Longrightarrow> f i x = Inr (F i x)"
  shows "map_index_r f 0 xs = Inr (map (\<lambda>i. F i (xs ! i)) [0..<length xs])"
  using assms by (simp add: map_index_r_Inr)

lemma assign_fds_none:
  "\<forall>x \<in> set xs. \<not> is_polled x \<Longrightarrow> assign_fds n xs = (n, map (\<lambda>x. x\<lparr>fd_index := -1\<rparr>) xs)"
  by (induction xs) auto

lemma phase_same:
  assumes "\<And>i x. x \<in> set (perSegInfos ctx) \<Longrightarrow> f i x = Inr x"
  shows "rbind (map_index_r f 0 (perSegInfos ctx)) (\<lambda>infos. Inr (ctx\<lparr>perSegInfos := infos\<rparr>)) = Inr ctx"
  using phase_map [of "perSegInfos ctx" f "\<lambda>i x. x"] assms by (simp add: map_nth)

definition retried :: "fts_guc \<Rightarrow> int \<Rightarrow> seg_env \<Rightarrow> fts_segment_info \<Rightarrow> fts_segment_info" where
  "retried guc now env x = (case retry_segment guc True now ((refused env x)\<lparr>fd_index := -1\<rparr>) of Inr y \<Rightarrow> y | Inl _ \<Rightarrow> x)"

lemma phases_refused:
  assumes m: "has_mirrors ctx" "\<forall>x \<in> set (perSegInfos ctx). mirror_cdbinfo x \<noteq> None"
    and r: "\<forall>x \<in> set (perSegInfos ctx). resting t x" and e: "\<forall>i. refuses (env_seg env i)"
  shows "\<exists>ctx'. fts_phases guc env ctx = Inr ctx' \<and> length (perSegInfos ctx') = length (perSegInfos ctx) \<and>
    (\<forall>i < length (perSegInfos ctx). perSegInfos ctx' ! i = retried guc (env_retry_now env) (env_seg env i) (perSegInfos ctx ! i))"
proof -
  let ?xs = "perSegInfos ctx"
  define c1 where "c1 = ctx\<lparr>perSegInfos := map (\<lambda>i. refused (env_seg env i) (?xs ! i)) [0..<length ?xs]\<rparr>"
  define c2 where "c2 = ctx\<lparr>perSegInfos := map (\<lambda>i. (refused (env_seg env i) (?xs ! i))\<lparr>fd_index := -1\<rparr>) [0..<length ?xs]\<rparr>"
  have "map_index_r (\<lambda>i. connect_segment guc (env_seg env i)) 0 ?xs =
      Inr (map (\<lambda>i. refused (env_seg env i) (?xs ! i)) [0..<length ?xs])"
    by (rule phase_map) (use r e in \<open>auto intro: connect_refused\<close>)
  then have 1: "ftsConnect guc env ctx = Inr c1" by (simp add: ftsConnect_def c1_def)
  have np: "\<forall>x \<in> set (perSegInfos c1). \<not> is_polled x"
    using r by (auto simp: c1_def is_polled_def resting_def)
  have 2: "ftsPoll guc env c1 = Inr c2"
    using assign_fds_none [OF np, of 0] by (simp add: ftsPoll_def c1_def c2_def o_def)
  have ns: "\<not> is_sending_state (state x)" "mirror_cdbinfo x \<noteq> None" if "x \<in> set (perSegInfos c2)" for x
    using that m(2) by (auto simp: c2_def)
  have 3: "ftsSend env c2 = Inr c2" "ftsReceive env c2 = Inr c2"
    unfolding ftsSend_def ftsReceive_def using ns(1) by (auto intro!: phase_same simp: send_segment_def receive_segment_def)
  define R where "R x = (case retry_segment guc True (env_retry_now env) x of Inr y \<Rightarrow> y | Inl _ \<Rightarrow> x)" for x
  have R: "retry_segment guc True (env_retry_now env) x = Inr (R x)" if "x \<in> set (perSegInfos c2)" for x
    using retry_segment_no_error [OF ns(2) [OF that]] by (auto simp: R_def split: sum.splits)
  have 4: "processRetry guc env c2 = Inr (c2\<lparr>perSegInfos := map (\<lambda>i. R (perSegInfos c2 ! i)) [0..<length (perSegInfos c2)]\<rparr>)"
    using phase_map [of "perSegInfos c2" "\<lambda>i. retry_segment guc True (env_retry_now env)" "\<lambda>i. R", OF R] m(1)
    by (simp add: processRetry_def c2_def)
  have "R ((refused (env_seg env i) (?xs ! i))\<lparr>fd_index := -1\<rparr>) = retried guc (env_retry_now env) (env_seg env i) (?xs ! i)"
    if "i < length ?xs" for i
    using R [of "(refused (env_seg env i) (?xs ! i))\<lparr>fd_index := -1\<rparr>"] that by (auto simp: retried_def c2_def)
  then show ?thesis using 1 2 3 4 by (simp add: fts_phases_def c2_def)
qed

definition responds :: "fts_guc \<Rightarrow> fts_segment_info \<Rightarrow> fts_segment_info \<Rightarrow> bool" where
  "responds guc y z \<longleftrightarrow> (\<exists>mirrored g u h. response_segment guc mirrored y g = Inr (u, z, h))"

lemma response_loop_responds:
  "response_loop guc mirrored ys g = Inr (u, zs, h) \<Longrightarrow> list_all2 (responds guc) ys zs"
proof (induction ys arbitrary: g u zs)
  case (Cons y ys)
  obtain u' z g' where r: "response_segment guc mirrored y g = Inr (u', z, g')"
    using Cons.prems by (cases "response_segment guc mirrored y g") auto
  obtain u'' zs' h' where rs: "response_loop guc mirrored ys g' = Inr (u'', zs', h')"
    using Cons.prems r by (cases "response_loop guc mirrored ys g'") auto
  have "zs = z # zs'" "h = h'" using Cons.prems by (simp_all add: r rs)
  moreover have "responds guc y z" using r by (auto simp: responds_def)
  ultimately show ?case using Cons.IH [of g' u'' zs'] rs by simp
qed simp

lemma responds_not_ready: "responds guc y z \<Longrightarrow> \<not> ftsResponseReady y \<Longrightarrow> z = y"
  by (auto simp: responds_def response_segment_def)

lemma responds_closed:
  assumes "responds guc y z" "ftsResponseReady y"
  shows "closed z"
proof -
  obtain w where "z = close_segment w"
    using assms by (auto simp: responds_def response_segment_def Let_def rbind_Inr_iff)
  then show ?thesis by simp
qed

lemma response_probe_failed_state:
  assumes "response_probe_failed guc mirrored pa ma s y g = Inr (u, z, h)"
  shows "state z \<in> {FTS_RESPONSE_PROCESSED, FTS_PROMOTE_SEGMENT}"
  using assms unfolding response_probe_failed_def with_mirror_def Let_def
  by (auto simp: rbind_Inr_iff split: if_splits option.splits)

lemma responds_failed:
  assumes "responds guc y z" "IsFtsMessageStateFailed (state y)"
  shows "state z = FTS_RESPONSE_PROCESSED \<or> state y = FTS_PROBE_FAILED \<and> state z = FTS_PROMOTE_SEGMENT"
proof -
  obtain mirrored g u h where r: "response_segment guc mirrored y g = Inr (u, z, h)" using assms(1) by (auto simp: responds_def)
  have ready: "ftsResponseReady y" using assms(2) by (simp add: ftsResponseReady_def)
  consider "state y = FTS_PROBE_FAILED" | "state y = FTS_SYNCREP_OFF_FAILED" | "state y = FTS_PROMOTE_FAILED"
    using assms(2) by (auto simp: IsFtsMessageStateFailed_def)
  then show ?thesis
  proof cases
    case 1
    then obtain pa ma s v w k where "response_probe_failed guc mirrored pa ma s y g = Inr (v, w, k)" "z = close_segment w"
      using r ready by (auto simp: response_segment_def Let_def rbind_Inr_iff)
    then show ?thesis using response_probe_failed_state 1 by fastforce
  qed (use r ready in \<open>auto simp: response_segment_def Let_def rbind_Inr_iff\<close>)
qed

lemma int_of_time_small: "0 \<le> d \<Longrightarrow> d < 2 ^ 31 \<Longrightarrow> int_of_time d = d"
  by (simp add: int_of_time_def signed_take_bit_int_eq_self)

lemma retried_cases:
  assumes head: "head_ok guc True x" and rest: "resting t x" and time: "0 \<le> now - t" "now - t < 2 ^ 31"
  shows "is_sending_state (state x) \<and> nextFailedState (state x) = Inr (state (retried guc now env x)) \<or>
    is_sending_state (state x) \<and> is_waiting_state (state (retried guc now env x)) \<and> resting now (retried guc now env x) \<or>
    is_waiting_state (state x) \<and> (if t < now then is_sending_state else is_waiting_state) (state (retried guc now env x)) \<and>
      resting now (retried guc now env x) \<or>
    state x = FTS_RESPONSE_PROCESSED \<and> state (retried guc now env x) = FTS_RESPONSE_PROCESSED \<and> resting now (retried guc now env x)"
    (is "?A \<or> ?B \<or> ?C \<or> ?D")
proof -
  let ?y = "(refused env x)\<lparr>fd_index := -1\<rparr>"
  have ab: "abs_ok (gp_fts_probe_retries guc) (state x, retry_count x)" using head by (simp add: head_ok_def)
  consider (sending) "is_sending_state (state x)" | (waiting) "is_waiting_state (state x)" | (finished) "state x = FTS_RESPONSE_PROCESSED"
    using ab by (cases "state x") (simp_all add: abs_ok_def is_sending_state_def is_waiting_state_def
        IsFtsMessageStateSuccess_def IsFtsMessageStateFailed_def)
  then show ?thesis
  proof cases
    case sending
    obtain f where f: "nextFailedState (state x) = Inr f" "IsFtsMessageStateFailed f" using nextFailed_cases [OF sending] by blast
    then have st: "state ?y = f" using sending by (simp add: refused_def)
    have y: "retried guc now env x = retryForFtsFailed guc now ?y"
      using f(2) st by (auto simp: retried_def retry_segment_def IsFtsMessageStateFailed_def)
    show ?thesis
    proof (cases "retry_count x = gp_fts_probe_retries guc")
      case True
      then show ?thesis using sending f(1) st y by (simp add: retryForFtsFailed_def)
    next
      case False
      then have "resting now (retried guc now env x)" "is_waiting_state (state (retried guc now env x))"
        using ab st y by (simp_all add: retryForFtsFailed_def resting_def is_waiting_state_def abs_ok_def)
      then show ?thesis using sending by simp
    qed
  next
    case waiting
    then have x: "?y = x\<lparr>fd_index := -1\<rparr>" "retryStartTime x = t" "conn x = None" "poll_events x = 0" "1 \<le> retry_count x"
      using rest by (auto simp: refused_def is_sending_state_def is_waiting_state_def resting_def)
    have i: "int_of_time (now - t) < 1 \<longleftrightarrow> \<not> t < now" using int_of_time_small [OF time] by auto
    have ?C
      using waiting x(2-5) time(1) by (auto simp: retried_def x(1) retry_segment_def is_waiting_state_def i resting_def is_sending_state_def)
    then show ?thesis by simp
  next
    case finished
    then show ?thesis using rest by (simp add: retried_def refused_def is_sending_state_def retry_segment_def resting_def is_waiting_state_def)
  qed
qed

lemma refused_pair:
  assumes head: "head_ok guc True x" and rest: "resting t x" and time: "0 \<le> now - t" "now - t < 2 ^ 31"
    and z: "responds guc (retried guc now env x) z"
  shows "resting now z" "t < now \<Longrightarrow> state x \<noteq> FTS_RESPONSE_PROCESSED \<Longrightarrow> state z \<noteq> state x"
proof -
  let ?y = "retried guc now env x"
  have same: "z = ?y" if "is_waiting_state (state ?y) \<or> is_sending_state (state ?y) \<or> state ?y = FTS_RESPONSE_PROCESSED"
    using responds_not_ready [OF z] that
    by (auto simp: ftsResponseReady_def is_waiting_state_def is_sending_state_def IsFtsMessageStateSuccess_def IsFtsMessageStateFailed_def)
  have "resting now z \<and> (t < now \<longrightarrow> state x \<noteq> FTS_RESPONSE_PROCESSED \<longrightarrow> state z \<noteq> state x)"
    using retried_cases [OF head rest time, of env]
  proof (elim disjE conjE)
    assume a: "is_sending_state (state x)" "nextFailedState (state x) = Inr (state ?y)"
    then have f: "IsFtsMessageStateFailed (state ?y)" by blast
    have "closed z" using responds_closed [OF z] f by (simp add: ftsResponseReady_def)
    moreover have "state z \<noteq> state x \<and> \<not> is_waiting_state (state z)"
      using responds_failed [OF z f] a by (auto simp: is_sending_state_def is_waiting_state_def)
    ultimately show ?thesis by (simp add: closed_def resting_def)
  qed (use same in \<open>auto simp: is_sending_state_def is_waiting_state_def split: if_splits\<close>)
  then show "resting now z" "t < now \<Longrightarrow> state x \<noteq> FTS_RESPONSE_PROCESSED \<Longrightarrow> state z \<noteq> state x" by simp_all
qed

section \<open>The loop\<close>

definition total_rank :: "int \<Rightarrow> fts_context \<Rightarrow> nat" where
  "total_rank R ctx = sum_list (map (\<lambda>x. fts_rank R (state x, retry_count x)) (perSegInfos ctx))"

lemma pair_step_rank:
  assumes "head_ok guc True x" "pair_step guc rs x z"
  shows "fts_rank (gp_fts_probe_retries guc) (state z, retry_count z) \<le> fts_rank (gp_fts_probe_retries guc) (state x, retry_count x)"
    "state z \<noteq> state x \<Longrightarrow>
      fts_rank (gp_fts_probe_retries guc) (state z, retry_count z) < fts_rank (gp_fts_probe_retries guc) (state x, retry_count x)"
proof -
  have ab: "abs_ok (gp_fts_probe_retries guc) (state x, retry_count x)" using assms(1) by (simp add: head_ok_def)
  show "fts_rank (gp_fts_probe_retries guc) (state z, retry_count z) \<le> fts_rank (gp_fts_probe_retries guc) (state x, retry_count x)"
    using assms(2) fts_move_ok(2) [OF _ ab] unfolding pair_step_def by fastforce
  show "state z \<noteq> state x \<Longrightarrow>
      fts_rank (gp_fts_probe_retries guc) (state z, retry_count z) < fts_rank (gp_fts_probe_retries guc) (state x, retry_count x)"
    using assms(2) fts_move_ok(2) [OF _ ab] unfolding pair_step_def by fastforce
qed

lemma total_rank_step:
  assumes ok: "cycle_ok guc ctx g" and st: "list_all2 (pair_step guc rs) (perSegInfos ctx) (perSegInfos ctx')"
  shows "total_rank (gp_fts_probe_retries guc) ctx' \<le> total_rank (gp_fts_probe_retries guc) ctx"
    "\<exists>i < length (perSegInfos ctx). state (perSegInfos ctx' ! i) \<noteq> state (perSegInfos ctx ! i) \<Longrightarrow>
      total_rank (gp_fts_probe_retries guc) ctx' < total_rank (gp_fts_probe_retries guc) ctx"
proof -
  let ?r = "\<lambda>x. fts_rank (gp_fts_probe_retries guc) (state x, retry_count x)"
  let ?xs = "perSegInfos ctx" and ?zs = "perSegInfos ctx'"
  have n: "length ?zs = length ?xs" using st by (auto dest: list_all2_lengthD)
  have s: "head_ok guc True (?xs ! i)" "pair_step guc rs (?xs ! i) (?zs ! i)" if "i < length ?xs" for i
    using ok st that by (auto simp: cycle_ok_def list_all2_conv_all_nth)
  have le: "?r (?zs ! i) \<le> ?r (?xs ! i)" if "i < length ?xs" for i
    by (rule pair_step_rank(1) [OF s [OF that]])
  have sum: "total_rank (gp_fts_probe_retries guc) ctx = (\<Sum>i<length ?xs. ?r (?xs ! i))"
    "total_rank (gp_fts_probe_retries guc) ctx' = (\<Sum>i<length ?xs. ?r (?zs ! i))"
    using n by (simp_all add: total_rank_def sum_list_sum_nth atLeast0LessThan)
  show "total_rank (gp_fts_probe_retries guc) ctx' \<le> total_rank (gp_fts_probe_retries guc) ctx"
    unfolding sum by (rule sum_mono) (simp add: le)
  assume "\<exists>i < length ?xs. state (?zs ! i) \<noteq> state (?xs ! i)"
  then obtain i where i: "i < length ?xs" "state (?zs ! i) \<noteq> state (?xs ! i)" by blast
  show "total_rank (gp_fts_probe_retries guc) ctx' < total_rank (gp_fts_probe_retries guc) ctx"
    unfolding sum
  proof (rule sum_strict_mono_ex1)
    show "\<forall>i \<in> {..<length ?xs}. ?r (?zs ! i) \<le> ?r (?xs ! i)" by (simp add: le)
    show "\<exists>i \<in> {..<length ?xs}. ?r (?zs ! i) < ?r (?xs ! i)" using i pair_step_rank(2) [OF s [OF i(1)] i(2)] by blast
  qed simp
qed

lemma refused_iteration:
  assumes ok: "cycle_ok guc ctx g" and rest: "\<forall>x \<in> set (perSegInfos ctx). resting t x"
    and e: "\<forall>i. refuses (env_seg env i)" and time: "0 \<le> env_retry_now env - t" "env_retry_now env - t < 2 ^ 31"
  obtains u ctx' h where "fts_iteration guc env ctx g = Inr (u, ctx', h)" "cycle_ok guc ctx' h"
    "\<forall>x \<in> set (perSegInfos ctx'). resting (env_retry_now env) x"
    "total_rank (gp_fts_probe_retries guc) ctx' \<le> total_rank (gp_fts_probe_retries guc) ctx"
    "t < env_retry_now env \<longrightarrow> \<not> allDone ctx \<longrightarrow>
      total_rank (gp_fts_probe_retries guc) ctx' < total_rank (gp_fts_probe_retries guc) ctx"
proof -
  let ?now = "env_retry_now env" and ?xs = "perSegInfos ctx"
  have m: "has_mirrors ctx" "\<forall>x \<in> set ?xs. mirror_cdbinfo x \<noteq> None" and heads: "\<forall>x \<in> set ?xs. head_ok guc True x"
    using ok by (auto simp: cycle_ok_def pair_ok_def)
  obtain c where c: "fts_phases guc env ctx = Inr c" "length (perSegInfos c) = length ?xs"
    "\<forall>i < length ?xs. perSegInfos c ! i = retried guc ?now (env_seg env i) (?xs ! i)"
    using phases_refused [OF m rest e] by blast
  obtain u ctx' h where r: "processResponse guc True c g = Inr (u, ctx', h)" "cycle_ok guc ctx' h"
    "list_all2 (pair_step guc (rows h)) ?xs (perSegInfos ctx')"
    by (rule processResponse_step [OF ok c(1)])
  have it: "fts_iteration guc env ctx g = Inr (u, ctx', h)" using c(1) r(1) by (simp add: fts_iteration_phases)
  have "list_all2 (responds guc) (perSegInfos c) (perSegInfos ctx')"
    using r(1) response_loop_responds by (auto simp: processResponse_def rbind_Inr_iff)
  then have p: "responds guc (retried guc ?now (env_seg env i) (?xs ! i)) (perSegInfos ctx' ! i)" if "i < length ?xs" for i
    using c(2,3) that by (auto simp: list_all2_conv_all_nth)
  have n: "length (perSegInfos ctx') = length ?xs" using r(3) by (auto dest: list_all2_lengthD)
  have hr: "head_ok guc True (?xs ! i)" "resting t (?xs ! i)" if "i < length ?xs" for i using heads rest that by auto
  note q = refused_pair [OF hr time p]
  have "\<forall>x \<in> set (perSegInfos ctx'). resting ?now x" using q(1) n by (auto simp: in_set_conv_nth)
  moreover have "total_rank (gp_fts_probe_retries guc) ctx' < total_rank (gp_fts_probe_retries guc) ctx"
    if tick: "t < ?now" and more: "\<not> allDone ctx"
  proof -
    obtain i where "i < length ?xs" "state (?xs ! i) \<noteq> FTS_RESPONSE_PROCESSED"
      using more by (auto simp: allDone_def list_all_length)
    then show ?thesis using total_rank_step(2) [OF ok r(3)] q(2) tick by blast
  qed
  ultimately show thesis using that [OF it r(2)] total_rank_step(1) [OF ok r(3)] by blast
qed

text \<open>
  The times of the retry phases: they never run back, never jump by \<open>2 ^ 31\<close> seconds, and pass
  every bound.
\<close>

definition ticking :: "int \<Rightarrow> (nat \<Rightarrow> fts_env) \<Rightarrow> bool" where
  "ticking t envs \<longleftrightarrow> (let c = \<lambda>k. env_retry_now (envs k) in
     t \<le> c 0 \<and> c 0 - t < 2 ^ 31 \<and> (\<forall>k. c k \<le> c (Suc k) \<and> c (Suc k) - c k < 2 ^ 31) \<and> (\<forall>T. \<exists>k. T < c k))"

lemma ticking_next:
  assumes "ticking t envs"
  shows "ticking (env_retry_now (envs 0)) (\<lambda>k. envs (Suc k))"
proof -
  have "\<exists>k. T < env_retry_now (envs (Suc k))" for T
  proof -
    have "\<forall>T. \<exists>k. T < env_retry_now (envs k)" using assms by (simp add: ticking_def Let_def)
    then obtain k where "max T (env_retry_now (envs 0)) < env_retry_now (envs k)" by blast
    then show ?thesis by (cases k) auto
  qed
  then show ?thesis using assms by (simp add: ticking_def Let_def)
qed

lemma fts_loop_done: "allDone ctx \<Longrightarrow> fts_loop n guc envs u ctx g = Some (Inr (u, ctx, g))"
  by (simp add: fts_loop.simps)

lemma fts_loop_next:
  assumes "\<not> allDone ctx" "fts_iteration guc (envs 0) ctx g = Inr (v, ctx', h)"
  shows "fts_loop (Suc n) guc envs u ctx g = fts_loop n guc (\<lambda>i. envs (Suc i)) (u \<or> v) ctx' h"
  using assms by (subst fts_loop.simps) simp

text \<open>The loop ends, by induction on the rank and on the next iteration at which the clock has moved.\<close>

lemma refused_loop_aux:
  assumes smaller: "\<And>ctx g t envs u. total_rank (gp_fts_probe_retries guc) ctx < r \<Longrightarrow> cycle_ok guc ctx g \<Longrightarrow>
      \<forall>x \<in> set (perSegInfos ctx). resting t x \<Longrightarrow> ticking t envs \<Longrightarrow> \<forall>k i. refuses (env_seg (envs k) i) \<Longrightarrow>
      \<exists>n s. fts_loop n guc envs u ctx g = Some (Inr s)"
    and "t < env_retry_now (envs k)" "total_rank (gp_fts_probe_retries guc) ctx \<le> r" "cycle_ok guc ctx g"
      "\<forall>x \<in> set (perSegInfos ctx). resting t x" "ticking t envs" "\<forall>k i. refuses (env_seg (envs k) i)"
  shows "\<exists>n s. fts_loop n guc envs u ctx g = Some (Inr s)"
  using assms(2-)
proof (induction k arbitrary: ctx g t envs u)
  case 0
  show ?case
  proof (cases "allDone ctx")
    case False
    have time: "0 \<le> env_retry_now (envs 0) - t" "env_retry_now (envs 0) - t < 2 ^ 31"
      using "0.prems"(5) by (simp_all add: ticking_def Let_def)
    have e: "\<forall>i. refuses (env_seg (envs 0) i)" "\<forall>k i. refuses (env_seg (envs (Suc k)) i)" using "0.prems"(6) by blast+
    obtain v ctx' h where it: "fts_iteration guc (envs 0) ctx g = Inr (v, ctx', h)" "cycle_ok guc ctx' h"
      "\<forall>x \<in> set (perSegInfos ctx'). resting (env_retry_now (envs 0)) x"
      "total_rank (gp_fts_probe_retries guc) ctx' \<le> total_rank (gp_fts_probe_retries guc) ctx"
      "t < env_retry_now (envs 0) \<longrightarrow> \<not> allDone ctx \<longrightarrow>
        total_rank (gp_fts_probe_retries guc) ctx' < total_rank (gp_fts_probe_retries guc) ctx"
      by (rule refused_iteration [OF "0.prems"(3,4) e(1) time])
    have "total_rank (gp_fts_probe_retries guc) ctx' < r" using it(5) "0.prems"(1,2) False by simp
    from smaller [OF this it(2,3) ticking_next [OF "0.prems"(5)] e(2), of "u \<or> v"]
    show ?thesis using fts_loop_next [where envs = envs, OF False it(1)] by metis
  qed (metis fts_loop_done)
next
  case (Suc k)
  show ?case
  proof (cases "allDone ctx")
    case False
    have time: "0 \<le> env_retry_now (envs 0) - t" "env_retry_now (envs 0) - t < 2 ^ 31"
      using Suc.prems(5) by (simp_all add: ticking_def Let_def)
    have e: "\<forall>i. refuses (env_seg (envs 0) i)" "\<forall>k i. refuses (env_seg (envs (Suc k)) i)" using Suc.prems(6) by blast+
    obtain v ctx' h where it: "fts_iteration guc (envs 0) ctx g = Inr (v, ctx', h)" "cycle_ok guc ctx' h"
      "\<forall>x \<in> set (perSegInfos ctx'). resting (env_retry_now (envs 0)) x"
      "total_rank (gp_fts_probe_retries guc) ctx' \<le> total_rank (gp_fts_probe_retries guc) ctx"
      "t < env_retry_now (envs 0) \<longrightarrow> \<not> allDone ctx \<longrightarrow>
        total_rank (gp_fts_probe_retries guc) ctx' < total_rank (gp_fts_probe_retries guc) ctx"
      by (rule refused_iteration [OF Suc.prems(3,4) e(1) time])
    have "\<exists>n s. fts_loop n guc (\<lambda>k. envs (Suc k)) (u \<or> v) ctx' h = Some (Inr s)"
    proof (cases "t < env_retry_now (envs 0)")
      case True
      then have "total_rank (gp_fts_probe_retries guc) ctx' < r" using it(5) Suc.prems(2) False by simp
      from smaller [OF this it(2,3) ticking_next [OF Suc.prems(5)] e(2)] show ?thesis .
    next
      case False
      then have "env_retry_now (envs 0) < env_retry_now (envs (Suc k))" "total_rank (gp_fts_probe_retries guc) ctx' \<le> r"
        using Suc.prems(1,2) it(4) by simp_all
      from Suc.IH [OF this it(2,3) ticking_next [OF Suc.prems(5)] e(2)] show ?thesis .
    qed
    then show ?thesis using fts_loop_next [where envs = envs, OF False it(1)] by metis
  qed (metis fts_loop_done)
qed

lemma refused_loop:
  assumes "cycle_ok guc ctx g" "\<forall>x \<in> set (perSegInfos ctx). resting t x" "ticking t envs"
    "\<forall>k i. refuses (env_seg (envs k) i)"
  shows "\<exists>n s. fts_loop n guc envs u ctx g = Some (Inr s)"
  using assms
proof (induction "total_rank (gp_fts_probe_retries guc) ctx" arbitrary: ctx g t envs u rule: less_induct)
  case less
  have "\<forall>T. \<exists>k. T < env_retry_now (envs k)" using less.prems(3) by (simp add: ticking_def Let_def)
  then obtain k where k: "t < env_retry_now (envs k)" by blast
  show ?case
    by (rule refused_loop_aux [OF less.hyps k order_refl less.prems])
qed

end
