(* ===== verification/Fts_Correct.thy ===== *)
theory Fts_Correct
  imports Fts_Live
begin

text \<open>
  What the probe guarantees: the properties of a probe cycle over a mirrored cluster, the
  liveness of the cycle, and the two situations in which it does not do what it should.
\<close>

unbundle bit_operations_syntax

section \<open>The start of a cycle\<close>

text \<open>
  A cluster in which every primary has exactly one mirror. The component databases are read
  from the catalog when the cycle starts; the coordinator has content -1.
\<close>

definition peers :: "CdbComponentDatabases \<Rightarrow> GpSegConfigEntry \<Rightarrow> GpSegConfigEntry list" where
  "peers cdbs p = filter (\<lambda>r. segindex r = segindex p \<and> dbid r \<noteq> dbid p) (segment_db_info cdbs)"

definition mirrored_cluster :: "CdbComponentDatabases \<Rightarrow> fts_global \<Rightarrow> bool" where
  "mirrored_cluster cdbs g \<longleftrightarrow>
     distinct (map dbid (rows g)) \<and>
     segment_db_info cdbs = filter (\<lambda>r. 0 \<le> segindex r) (rows g) \<and>
     total_segments cdbs = int (length (filter SEGMENT_IS_ACTIVE_PRIMARY (segment_db_info cdbs))) \<and>
     total_segments cdbs \<noteq> int (length (segment_db_info cdbs)) \<and>
     list_all (\<lambda>p. case peers cdbs p of
                [m] \<Rightarrow> role m = ROLE_MIRROR \<and> mode m = mode p
              | _ \<Rightarrow> False)
       (filter SEGMENT_IS_ACTIVE_PRIMARY (segment_db_info cdbs))"

lemma find_filter: "List.find P xs = (case filter P xs of [] \<Rightarrow> None | x # _ \<Rightarrow> Some x)"
  by (induction xs) auto

lemma mirrored_peer:
  assumes "mirrored_cluster cdbs g" "p \<in> set (segment_db_info cdbs)" "role p = ROLE_PRIMARY"
  obtains m where "peers cdbs p = [m]" "role m = ROLE_MIRROR" "mode m = mode p" "segindex m = segindex p"
    "m \<in> set (segment_db_info cdbs)" "dbid m \<noteq> dbid p" "FtsGetPeerSegment cdbs (segindex p) (dbid p) = Some m"
proof -
  have "p \<in> set (filter SEGMENT_IS_ACTIVE_PRIMARY (segment_db_info cdbs))"
    using assms(2,3) by (simp add: SEGMENT_IS_ACTIVE_PRIMARY_def)
  then have "case peers cdbs p of [m] \<Rightarrow> role m = ROLE_MIRROR \<and> mode m = mode p | _ \<Rightarrow> False"
    using assms(1) unfolding mirrored_cluster_def list_all_iff by blast
  then obtain m where m: "peers cdbs p = [m]" "role m = ROLE_MIRROR" "mode m = mode p"
    by (auto split: list.splits)
  have "m \<in> set (peers cdbs p)" using m(1) by simp
  then have "segindex m = segindex p" "m \<in> set (segment_db_info cdbs)" "dbid m \<noteq> dbid p" by (simp_all add: peers_def)
  moreover have "FtsGetPeerSegment cdbs (segindex p) (dbid p) = Some m"
    using m(1) by (simp add: FtsGetPeerSegment_def find_filter peers_def)
  ultimately show thesis using that m by blast
qed

lemma init_segment_pair:
  assumes mc: "mirrored_cluster cdbs g" and p: "p \<in> set (segment_db_info cdbs)" "role p = ROLE_PRIMARY"
    and R: "0 \<le> gp_fts_probe_retries guc"
  defines "x \<equiv> init_segment p (FtsGetPeerSegment cdbs (segindex p) (dbid p))"
  shows "head_ok guc True x" "pair_ok (rows g) x" "resting t x" "(state x, retry_count x) = fts_start"
    "pair_ids x = dbid ` {r \<in> set (segment_db_info cdbs). segindex r = segindex p}"
proof -
  obtain m where m: "peers cdbs p = [m]" "role m = ROLE_MIRROR" "mode m = mode p" "segindex m = segindex p"
    "m \<in> set (segment_db_info cdbs)" "dbid m \<noteq> dbid p" "FtsGetPeerSegment cdbs (segindex p) (dbid p) = Some m"
    by (rule mirrored_peer [OF mc p])
  have x: "x = init_segment p (Some m)" by (simp add: x_def m(7))
  have db: "segment_db_info cdbs = filter (\<lambda>r. 0 \<le> segindex r) (rows g)" and d: "distinct (map dbid (rows g))"
    using mc by (simp_all add: mirrored_cluster_def)
  show "head_ok guc True x"
    using R p(1) m(4) db
    by (simp add: head_ok_def x init_segment_def abs_ok_def no_result_def IsFtsMessageStateSuccess_def IsFtsMessageStateFailed_def)
  have "p \<in> set (rows g)" "m \<in> set (rows g)" using p(1) m(5) db by simp_all
  then show "pair_ok (rows g) x" using d m(2-4) p(2) unfolding pair_ok_def by (auto simp: x init_segment_def)
  show "resting t x" by (simp add: resting_def x init_segment_def is_waiting_state_def)
  show "(state x, retry_count x) = fts_start" by (simp add: x init_segment_def fts_start_def)
  have "{r \<in> set (segment_db_info cdbs). segindex r = segindex p} = insert p {m}"
  proof -
    have "r = p" if "r \<in> set (segment_db_info cdbs)" "dbid r = dbid p" for r
      using that p(1) d db by (auto simp: distinct_map inj_on_def)
    moreover have "set (peers cdbs p) = {m}" using m(1) by simp
    ultimately show ?thesis using p(1) m(4,5) by (auto simp: peers_def)
  qed
  then show "pair_ids x = dbid ` {r \<in> set (segment_db_info cdbs). segindex r = segindex p}"
    by (auto simp: pair_ids_def x init_segment_def)
qed

lemma sorted_wrt_distinct:
  "distinct xs \<Longrightarrow> (\<And>x y. x \<in> set xs \<Longrightarrow> y \<in> set xs \<Longrightarrow> x \<noteq> y \<Longrightarrow> P x y) \<Longrightarrow> sorted_wrt P xs"
  by (induction xs) auto

lemma init_context:
  assumes mc: "mirrored_cluster cdbs g" and R: "0 \<le> gp_fts_probe_retries guc"
  obtains ctx where "FtsWalRepInitProbeContext cdbs = Inr ctx" "cycle_ok guc ctx g"
    "\<forall>x \<in> set (perSegInfos ctx). resting t x" "\<forall>x \<in> set (perSegInfos ctx). (state x, retry_count x) = fts_start"
    "all_ids (perSegInfos ctx) \<subseteq> dbid ` {r \<in> set (rows g). 0 \<le> segindex r}" "int (length (perSegInfos ctx)) = total_segments cdbs"
proof -
  let ?db = "segment_db_info cdbs"
  let ?ps = "filter SEGMENT_IS_ACTIVE_PRIMARY ?db"
  define I where "I p = init_segment p (FtsGetPeerSegment cdbs (segindex p) (dbid p))" for p
  have db: "?db = filter (\<lambda>r. 0 \<le> segindex r) (rows g)" and d: "distinct (map dbid (rows g))"
    and t: "total_segments cdbs = int (length ?ps)" "total_segments cdbs \<noteq> int (length ?db)"
    using mc unfolding mirrored_cluster_def by blast+
  have ps: "p \<in> set ?db" "role p = ROLE_PRIMARY" if "p \<in> set ?ps" for p
    using that by (simp_all add: SEGMENT_IS_ACTIVE_PRIMARY_def)
  note ip = init_segment_pair [OF mc ps R, folded I_def]
  have "FtsGetPeerSegment cdbs (segindex p) (dbid p) \<noteq> None" if "p \<in> set ?ps" for p
    using mirrored_peer [OF mc ps [OF that]] by auto
  then have probed: "filter (\<lambda>(p, m). \<not> (True \<and> m = None)) (map (\<lambda>p. (p, FtsGetPeerSegment cdbs (segindex p) (dbid p))) ?ps) =
      map (\<lambda>p. (p, FtsGetPeerSegment cdbs (segindex p) (dbid p))) ?ps"
    by (simp add: filter_True)
  define ctx where "ctx = \<lparr>has_mirrors = True, perSegInfos = map I ?ps\<rparr>"
  have "FtsWalRepInitProbeContext cdbs = Inr ctx"
    unfolding FtsWalRepInitProbeContext_def Let_def using t probed
    by (simp add: ctx_def I_def o_def)
  moreover have "disjoint_pairs (map I ?ps)"
    unfolding sorted_wrt_map
  proof (rule sorted_wrt_distinct)
    show "distinct ?ps" using d db by (simp add: distinct_map)
    fix p q assume pq: "p \<in> set ?ps" "q \<in> set ?ps" "p \<noteq> q"
    have inj: "inj_on dbid (set ?db)" using d db by (auto simp: distinct_map inj_on_def)
    have "dbid q \<noteq> dbid p" using inj pq ps(1) by (metis inj_onD)
    have "segindex q \<noteq> segindex p"
    proof
      assume "segindex q = segindex p"
      then have "q \<in> set (peers cdbs p)" using ps(1) [OF pq(2)] \<open>dbid q \<noteq> dbid p\<close> by (simp add: peers_def)
      moreover obtain m where "peers cdbs p = [m]" "role m = ROLE_MIRROR" using mirrored_peer [OF mc ps [OF pq(1)]] by metis
      ultimately show False using ps(2) [OF pq(2)] by simp
    qed
    then have "{r \<in> set ?db. segindex r = segindex p} \<inter> {r \<in> set ?db. segindex r = segindex q} = {}" by auto
    then show "pair_ids (I p) \<inter> pair_ids (I q) = {}"
      unfolding ip(5) [OF pq(1) pq(1)] ip(5) [OF pq(2) pq(2)]
      by (subst inj_on_image_Int [OF inj, symmetric]) (blast, blast, simp only: image_empty)
  qed
  moreover have "all_ids (map I ?ps) \<subseteq> dbid ` {r \<in> set (rows g). 0 \<le> segindex r}"
  proof -
    have "pair_ids (I p) \<subseteq> dbid ` {r \<in> set (rows g). 0 \<le> segindex r}" if "p \<in> set ?ps" for p
      unfolding ip(5) [OF that that] using db by auto
    then show ?thesis by (auto simp: all_ids_def)
  qed
  moreover have "\<forall>x \<in> set (perSegInfos ctx). head_ok guc True x \<and> pair_ok (rows g) x \<and> resting t x \<and> (state x, retry_count x) = fts_start"
    using ip(1-4) by (simp add: ctx_def)
  ultimately show thesis
    using that [of ctx] t(1) by (simp add: cycle_ok_def ctx_def)
qed

lemma init_context_facts:
  assumes "mirrored_cluster cdbs g" "0 \<le> gp_fts_probe_retries guc" "FtsWalRepInitProbeContext cdbs = Inr ctx"
  shows "cycle_ok guc ctx g" "\<forall>x \<in> set (perSegInfos ctx). resting t x"
    "\<forall>x \<in> set (perSegInfos ctx). (state x, retry_count x) = fts_start" "int (length (perSegInfos ctx)) = total_segments cdbs"
proof -
  obtain ctx' where "FtsWalRepInitProbeContext cdbs = Inr ctx'" "cycle_ok guc ctx' g"
    "\<forall>x \<in> set (perSegInfos ctx'). resting t x" "\<forall>x \<in> set (perSegInfos ctx'). (state x, retry_count x) = fts_start"
    "all_ids (perSegInfos ctx') \<subseteq> dbid ` {r \<in> set (rows g). 0 \<le> segindex r}" "int (length (perSegInfos ctx')) = total_segments cdbs"
    by (rule init_context [OF assms(1,2)])
  then show "cycle_ok guc ctx g" "\<forall>x \<in> set (perSegInfos ctx). resting t x"
    "\<forall>x \<in> set (perSegInfos ctx). (state x, retry_count x) = fts_start" "int (length (perSegInfos ctx)) = total_segments cdbs"
    using assms(3) by simp_all
qed

section \<open>The iterations of a cycle\<close>

text \<open>
  Any number of iterations in any environments, with the number of those in which the message
  state of some pair changed.
\<close>

inductive fts_reach :: "fts_guc \<Rightarrow> fts_context \<Rightarrow> fts_global \<Rightarrow> nat \<Rightarrow> fts_context \<Rightarrow> fts_global \<Rightarrow> bool" for guc where
  reach_refl: "fts_reach guc ctx g 0 ctx g"
| reach_step: "fts_iteration guc env ctx g = Inr (u, ctx1, g1) \<Longrightarrow> fts_reach guc ctx1 g1 k ctx2 g2 \<Longrightarrow>
    fts_reach guc ctx g (k + of_bool (map state (perSegInfos ctx1) \<noteq> map state (perSegInfos ctx))) ctx2 g2"

definition pair_run :: "int \<Rightarrow> fts_segment_info \<Rightarrow> fts_segment_info \<Rightarrow> bool" where
  "pair_run R x z \<longleftrightarrow> (\<exists>n. fts_run R (state x, retry_count x) n (state z, retry_count z))"

lemma pair_run_step:
  assumes "pair_step guc rs x y" "pair_run (gp_fts_probe_retries guc) y z"
  shows "pair_run (gp_fts_probe_retries guc) x z"
  using assms fts_run_front unfolding pair_step_def pair_run_def by (metis (no_types, lifting))

lemma others_kept_same: "others_kept A g h \<Longrightarrow> others_kept A h k \<Longrightarrow> others_kept A g k"
  using others_kept_trans [of A g h A k] by simp

lemma fts_reach_keeps:
  assumes "fts_reach guc ctx g k ctx' h" "cycle_ok guc ctx g"
  shows "cycle_ok guc ctx' h \<and> k + total_rank (gp_fts_probe_retries guc) ctx' \<le> total_rank (gp_fts_probe_retries guc) ctx \<and>
    same_cluster g h \<and> others_kept (all_ids (perSegInfos ctx)) g h \<and>
    list_all2 (pair_run (gp_fts_probe_retries guc)) (perSegInfos ctx) (perSegInfos ctx')"
  using assms
proof (induction rule: fts_reach.induct)
  case (reach_refl ctx g)
  have "pair_run (gp_fts_probe_retries guc) x x" for x using fts_run.run_refl by (auto simp: pair_run_def)
  then show ?case using reach_refl by (simp add: list_all2_same)
next
  case (reach_step env ctx g u ctx1 g1 k ctx2 g2)
  let ?R = "gp_fts_probe_retries guc"
  note st = fts_iteration_step [OF reach_step.prems reach_step.hyps(1)]
  note IH = reach_step.IH [OF st(1)]
  have n: "length (perSegInfos ctx1) = length (perSegInfos ctx)" using st(2) by (auto dest: list_all2_lengthD)
  have "of_bool (map state (perSegInfos ctx1) \<noteq> map state (perSegInfos ctx)) + total_rank ?R ctx1 \<le> total_rank ?R ctx"
    using total_rank_step [OF reach_step.prems st(2)] n by (auto simp: list_eq_iff_nth_eq Suc_le_eq)
  moreover have "same_cluster g g2" using same_cluster_trans st(3) IH by blast
  moreover have "others_kept (all_ids (perSegInfos ctx)) g g2"
    using others_kept_same [OF st(4)] IH pair_steps_keep(2) [OF st(2)] by simp
  moreover have "list_all2 (pair_run ?R) (perSegInfos ctx) (perSegInfos ctx2)"
  proof -
    have "list_all2 (pair_run ?R) (perSegInfos ctx1) (perSegInfos ctx2)" using IH by simp
    then show ?thesis using st(2) pair_run_step unfolding list_all2_conv_all_nth by metis
  qed
  ultimately show ?case using IH by simp
qed

lemma fts_loop_reach:
  assumes "fts_loop n guc envs u ctx g = Some r"
  shows "case r of Inr (v, ctx', h) \<Rightarrow> allDone ctx' \<and> (\<exists>k. fts_reach guc ctx g k ctx' h)
    | Inl e \<Rightarrow> \<exists>k ctx' h env. fts_reach guc ctx g k ctx' h \<and> fts_iteration guc env ctx' h = Inl e"
  using assms
proof (induction n arbitrary: envs u ctx g)
  case 0
  then show ?case using fts_reach.reach_refl [of guc ctx g] by (auto simp: fts_loop.simps [of 0] split: if_splits)
next
  case (Suc n)
  show ?case
  proof (cases "allDone ctx")
    case True
    then show ?thesis using Suc.prems fts_reach.reach_refl [of guc ctx g] by (auto simp: fts_loop_done)
  next
    case False
    show ?thesis
    proof (cases "fts_iteration guc (envs 0) ctx g")
      case (Inl e)
      then have "r = Inl e" using Suc.prems False by (simp add: fts_loop.simps [of "Suc n"])
      then show ?thesis using Inl fts_reach.reach_refl [of guc ctx g] by auto
    next
      case (Inr s)
      obtain v ctx1 g1 where s: "s = (v, ctx1, g1)" by (cases s)
      have "fts_loop n guc (\<lambda>i. envs (Suc i)) (u \<or> v) ctx1 g1 = Some r"
        using Suc.prems fts_loop_next [where envs = envs, OF False Inr [unfolded s]] by simp
      from Suc.IH [OF this] show ?thesis
        using fts_reach.reach_step [OF Inr [unfolded s]] by (fastforce split: sum.splits prod.splits)
    qed
  qed
qed

lemma cycle_reach:
  assumes mc: "mirrored_cluster cdbs g" and R: "0 \<le> gp_fts_probe_retries guc"
    and run: "FtsWalRepMessageSegments n guc active envs cdbs g = Some (Inr (u, h))"
  obtains ctx k ctx' where "FtsWalRepInitProbeContext cdbs = Inr ctx" "cycle_ok guc ctx g" "fts_reach guc ctx g k ctx' h"
    "all_ids (perSegInfos ctx) \<subseteq> dbid ` {r \<in> set (rows g). 0 \<le> segindex r}"
proof -
  obtain ctx where ctx: "FtsWalRepInitProbeContext cdbs = Inr ctx" "cycle_ok guc ctx g"
    "all_ids (perSegInfos ctx) \<subseteq> dbid ` {r \<in> set (rows g). 0 \<le> segindex r}"
    by (rule init_context [OF mc R])
  show thesis
  proof (cases active)
    case True
    then obtain v ctx' where "fts_loop n guc envs False ctx g = Some (Inr (v, ctx', h))"
      using run ctx(1) by (auto simp: FtsWalRepMessageSegments_def rbind_Inr_iff)
    from fts_loop_reach [OF this] show thesis using that [OF ctx(1,2) _ ctx(3)] by auto
  next
    case False
    then have "h = g" using run ctx(1) by (simp add: FtsWalRepMessageSegments_def)
    then show thesis using that [OF ctx(1,2) _ ctx(3)] fts_reach.reach_refl [of guc ctx g] by simp
  qed
qed

section \<open>A small cluster\<close>

text \<open>One coordinator and one pair in sync, no retries, and a network that refuses every connection.\<close>

definition small_global :: fts_global where
  "small_global = \<lparr>gp_segment_configuration =
       [\<lparr>dbid = 1, segindex = -1, role = ROLE_PRIMARY, mode = MODE_NOTINSYNC, status = STATUS_UP\<rparr>,
        \<lparr>dbid = 2, segindex = 0, role = ROLE_PRIMARY, mode = MODE_INSYNC, status = STATUS_UP\<rparr>,
        \<lparr>dbid = 3, segindex = 0, role = ROLE_MIRROR, mode = MODE_INSYNC, status = STATUS_UP\<rparr>],
     gp_configuration_history = [], probe_status = (\<lambda>_. 0), failedContentIds = {}\<rparr>"

definition small_cdbs :: CdbComponentDatabases where
  "small_cdbs = \<lparr>total_segments = 1, segment_db_info =
       [\<lparr>dbid = 2, segindex = 0, role = ROLE_PRIMARY, mode = MODE_INSYNC, status = STATUS_UP\<rparr>,
        \<lparr>dbid = 3, segindex = 0, role = ROLE_MIRROR, mode = MODE_INSYNC, status = STATUS_UP\<rparr>]\<rparr>"

definition small_guc :: fts_guc where
  "small_guc = \<lparr>gp_fts_probe_retries = 0, gp_fts_probe_timeout = 20, log_output = True, warning_output = True, log_verbose = False\<rparr>"

definition bad_conn :: pg_conn where
  "bad_conn = \<lparr>conn_status = CONNECTION_BAD, asyncStatus = PGASYNC_IDLE, errorMessage = []\<rparr>"

definition refusing_env :: "nat \<Rightarrow> fts_env" where
  "refusing_env k = \<lparr>env_seg = (\<lambda>_. \<lparr>e_connectStart = Some bad_conn, e_time = int k, e_connectPoll = (PGRES_POLLING_FAILED, bad_conn),
       e_revents = 0, e_sendQuery = (False, bad_conn), e_consumeInput = (False, bad_conn), e_isBusy = (False, bad_conn),
       e_getResult = (None, bad_conn)\<rparr>),
     env_poll = Poll_ready 0, env_poll_now = int k, env_retry_now = int k\<rparr>"

lemma small_cluster: "mirrored_cluster small_cdbs small_global"
  by code_simp

lemma small_cycle: "\<exists>h. FtsWalRepMessageSegments 2 small_guc True refusing_env small_cdbs small_global = Some (Inr (True, h)) \<and>
    map (\<lambda>r. (dbid r, role r, status r)) (rows h) = [(1, ROLE_PRIMARY, STATUS_UP), (2, ROLE_MIRROR, STATUS_DOWN), (3, ROLE_PRIMARY, STATUS_UP)]"
proof -
  have "map_option (map_sum id (\<lambda>(u, h). (u, map (\<lambda>r. (dbid r, role r, status r)) (rows h))))
      (FtsWalRepMessageSegments 2 small_guc True refusing_env small_cdbs small_global) =
    Some (Inr (True, [(1, ROLE_PRIMARY, STATUS_UP), (2, ROLE_MIRROR, STATUS_DOWN), (3, ROLE_PRIMARY, STATUS_UP)]))"
    by code_simp
  then obtain r where r: "FtsWalRepMessageSegments 2 small_guc True refusing_env small_cdbs small_global = Some r"
    "map_sum id (\<lambda>(u, h). (u, map (\<lambda>r. (dbid r, role r, status r)) (rows h))) r =
      Inr (True, [(1, ROLE_PRIMARY, STATUS_UP), (2, ROLE_MIRROR, STATUS_DOWN), (3, ROLE_PRIMARY, STATUS_UP)])" by blast
  then show ?thesis by (cases r) auto
qed

lemma small_first_iteration:
  obtains ctx u ctx' h where "FtsWalRepInitProbeContext small_cdbs = Inr ctx"
    "fts_iteration small_guc (refusing_env 0) ctx small_global = Inr (u, ctx', h)" "length (perSegInfos ctx) = 1"
    "dbid (primary_cdbinfo (perSegInfos ctx ! 0)) = 2" "dbid (primary_cdbinfo (perSegInfos ctx' ! 0)) = 3"
    "length (perSegInfos ctx') = 1" "state (perSegInfos ctx' ! 0) = FTS_PROMOTE_SEGMENT" "state (perSegInfos ctx ! 0) = FTS_PROBE_SEGMENT"
    "retry_count (perSegInfos ctx' ! 0) = 0"
proof -
  obtain ctx where c: "FtsWalRepInitProbeContext small_cdbs = Inr ctx"
    by (rule init_context [OF small_cluster, of small_guc]) (simp add: small_guc_def)
  have "case FtsWalRepInitProbeContext small_cdbs of Inr ctx \<Rightarrow> length (perSegInfos ctx) = 1 \<and>
      dbid (primary_cdbinfo (perSegInfos ctx ! 0)) = 2 \<and> state (perSegInfos ctx ! 0) = FTS_PROBE_SEGMENT \<and>
      (case fts_iteration small_guc (refusing_env 0) ctx small_global of Inr (u, ctx', h) \<Rightarrow>
        length (perSegInfos ctx') = 1 \<and> dbid (primary_cdbinfo (perSegInfos ctx' ! 0)) = 3 \<and>
        state (perSegInfos ctx' ! 0) = FTS_PROMOTE_SEGMENT \<and> retry_count (perSegInfos ctx' ! 0) = 0 | _ \<Rightarrow> False) | _ \<Rightarrow> False"
    by code_simp
  then show thesis using that c by (auto split: sum.splits)
qed

section \<open>Properties\<close>

text \<open>
  C9 (invariant): a probe cycle over a mirrored cluster that returns, in any environment and
  after any number of iterations, leaves every content with exactly as many primaries as it
  had, adds and removes no segment, and leaves the rows of the coordinator as they were.
\<close>

theorem FtsWalRepMessageSegments_keeps_primaries:
  assumes "mirrored_cluster cdbs g" "0 \<le> gp_fts_probe_retries guc"
    "FtsWalRepMessageSegments n guc active envs cdbs g = Some (Inr (u, h))"
  shows "primaries_of h c = primaries_of g c \<and> map dbid (rows h) = map dbid (rows g) \<and>
    (\<forall>r. segindex r < 0 \<longrightarrow> r \<in> set (rows g) \<longrightarrow> r \<in> set (rows h))"
proof -
  obtain ctx k ctx' where c: "cycle_ok guc ctx g" "fts_reach guc ctx g k ctx' h"
    "all_ids (perSegInfos ctx) \<subseteq> dbid ` {r \<in> set (rows g). 0 \<le> segindex r}"
    by (rule cycle_reach [OF assms])
  have k: "same_cluster g h" "others_kept (all_ids (perSegInfos ctx)) g h" using fts_reach_keeps [OF c(2,1)] by simp_all
  have d: "distinct (map dbid (rows g))" using assms(1) by (simp add: mirrored_cluster_def)
  have "r \<in> set (rows h)" if r: "segindex r < 0" "r \<in> set (rows g)" for r
  proof -
    have "dbid r \<notin> dbid ` {r \<in> set (rows g). 0 \<le> segindex r}"
    proof
      assume "dbid r \<in> dbid ` {r \<in> set (rows g). 0 \<le> segindex r}"
      then obtain q where q: "q \<in> set (rows g)" "0 \<le> segindex q" "dbid r = dbid q" by blast
      have "r = q" using d q(1,3) r(2) by (simp add: distinct_map inj_on_def)
      then show False using q(2) r(1) by simp
    qed
    then show ?thesis using others_kept_mem [OF k(2)] c(3) r(2) by blast
  qed
  then show ?thesis using k(1) by (simp add: same_cluster_def)
qed

theorem FtsWalRepMessageSegments_keeps_primaries_witness:
  "\<exists>h. FtsWalRepMessageSegments 2 small_guc True refusing_env small_cdbs small_global = Some (Inr (True, h)) \<and>
     primaries_of h 0 = 1 \<and> map dbid (rows h) = [1, 2, 3]"
proof -
  obtain h where h: "FtsWalRepMessageSegments 2 small_guc True refusing_env small_cdbs small_global = Some (Inr (True, h))"
    using small_cycle by blast
  have "primaries_of small_global 0 = 1" "map dbid (rows small_global) = [1, 2, 3]" "0 \<le> gp_fts_probe_retries small_guc"
    by code_simp+
  with FtsWalRepMessageSegments_keeps_primaries [OF small_cluster _ h, of 0] h show ?thesis by auto
qed

text \<open>
  C10 (safety): in an iteration the primary of a pair changes only when its mirror was in sync,
  the probe of the old primary had used up its retries and the old primary was neither
  resetting nor making progress in recovery. The promotion message is then still to be sent,
  but the catalog already has the old primary as a mirror that is down and the mirror as the primary.
\<close>

theorem fts_iteration_promotes_safely:
  assumes "cycle_ok guc ctx g" "fts_iteration guc env ctx g = Inr (u, ctx', h)"
    "i < length (perSegInfos ctx)"
    "primary_cdbinfo (perSegInfos ctx' ! i) \<noteq> primary_cdbinfo (perSegInfos ctx ! i)"
  shows "promoted (gp_fts_probe_retries guc) (rows h) (perSegInfos ctx ! i) (perSegInfos ctx' ! i)"
proof -
  have "pair_step guc (rows h) (perSegInfos ctx ! i) (perSegInfos ctx' ! i)"
    using fts_iteration_step(2) [OF assms(1,2)] assms(3) by (simp add: list_all2_conv_all_nth)
  then show ?thesis using assms(4) by (simp add: pair_step_def)
qed

theorem fts_iteration_promotes_safely_witness:
  "\<exists>ctx u ctx' h. FtsWalRepInitProbeContext small_cdbs = Inr ctx \<and>
     fts_iteration small_guc (refusing_env 0) ctx small_global = Inr (u, ctx', h) \<and>
     promoted 0 (rows h) (perSegInfos ctx ! 0) (perSegInfos ctx' ! 0)"
proof -
  obtain ctx u ctx' h where c: "FtsWalRepInitProbeContext small_cdbs = Inr ctx"
    "fts_iteration small_guc (refusing_env 0) ctx small_global = Inr (u, ctx', h)" "length (perSegInfos ctx) = 1"
    "dbid (primary_cdbinfo (perSegInfos ctx ! 0)) = 2" "dbid (primary_cdbinfo (perSegInfos ctx' ! 0)) = 3"
    by (rule small_first_iteration)
  have R: "gp_fts_probe_retries small_guc = 0" by (simp add: small_guc_def)
  have "cycle_ok small_guc ctx small_global" by (rule init_context_facts(1) [OF small_cluster _ c(1)]) (simp add: R)
  from fts_iteration_promotes_safely [OF this c(2), of 0] have "promoted 0 (rows h) (perSegInfos ctx ! 0) (perSegInfos ctx' ! 0)"
    using c(3-5) R by fastforce
  then show ?thesis using c(1,2) by blast
qed

text \<open>
  C19 (refinement): whatever the environment answers, the message state and the retry count of
  every pair are ones the abstract protocol reaches from its start, in at most \<open>4 * R + 4\<close> moves
  for \<open>R\<close> retries.
\<close>

theorem fts_iteration_refines_protocol:
  assumes "mirrored_cluster cdbs g" "0 \<le> gp_fts_probe_retries guc" "FtsWalRepInitProbeContext cdbs = Inr ctx"
    "fts_reach guc ctx g k ctx' h" "x \<in> set (perSegInfos ctx')"
  shows "\<exists>n \<le> nat (4 * gp_fts_probe_retries guc + 4).
    fts_run (gp_fts_probe_retries guc) fts_start n (state x, retry_count x)"
proof -
  note ok = init_context_facts(1) [OF assms(1-3)] and st = init_context_facts(3) [OF assms(1-3)]
  have "list_all2 (pair_run (gp_fts_probe_retries guc)) (perSegInfos ctx) (perSegInfos ctx')"
    using fts_reach_keeps [OF assms(4) ok] by simp
  then obtain y where "y \<in> set (perSegInfos ctx)" "pair_run (gp_fts_probe_retries guc) y x"
    using assms(5) by (metis list_all2_conv_all_nth in_set_conv_nth)
  then obtain n where n: "fts_run (gp_fts_probe_retries guc) fts_start n (state x, retry_count x)"
    using st by (auto simp: pair_run_def)
  then show ?thesis using fts_run_bound [OF n assms(2)] by blast
qed

theorem fts_iteration_refines_protocol_witness:
  "\<exists>n \<le> 4. fts_run 0 fts_start n (FTS_PROMOTE_SEGMENT, 0)"
proof -
  obtain ctx u ctx' h where c: "FtsWalRepInitProbeContext small_cdbs = Inr ctx"
    "fts_iteration small_guc (refusing_env 0) ctx small_global = Inr (u, ctx', h)"
    "length (perSegInfos ctx') = 1" "state (perSegInfos ctx' ! 0) = FTS_PROMOTE_SEGMENT" "retry_count (perSegInfos ctx' ! 0) = 0"
    by (rule small_first_iteration)
  have R: "gp_fts_probe_retries small_guc = 0" by (simp add: small_guc_def)
  have x: "perSegInfos ctx' ! 0 \<in> set (perSegInfos ctx')" using c(3) by simp
  have "0 \<le> gp_fts_probe_retries small_guc" by (simp add: R)
  from fts_iteration_refines_protocol [OF small_cluster this c(1) reach_step [OF c(2) reach_refl] x] show ?thesis
    by (simp add: c(4,5) R)
qed

text \<open>
  C20 (bounds): over a whole cycle of any length at most \<open>(4 * R + 4) * S\<close> iterations change the message state of
  some pair, for \<open>S\<close> segments; every other iteration only waits.
\<close>

theorem fts_iteration_busy_bound:
  assumes "mirrored_cluster cdbs g" "0 \<le> gp_fts_probe_retries guc" "FtsWalRepInitProbeContext cdbs = Inr ctx"
    "fts_reach guc ctx g k ctx' h"
  shows "int k \<le> (4 * gp_fts_probe_retries guc + 4) * total_segments cdbs"
proof -
  note ok = init_context_facts(1) [OF assms(1-3)] and st = init_context_facts(3) [OF assms(1-3)]
    and len = init_context_facts(4) [OF assms(1-3)]
  have "map (\<lambda>x. fts_rank (gp_fts_probe_retries guc) (state x, retry_count x)) (perSegInfos ctx) =
      map (\<lambda>x. nat (4 * gp_fts_probe_retries guc + 4)) (perSegInfos ctx)"
    using st by (simp add: fts_start_def add.commute)
  then have "total_rank (gp_fts_probe_retries guc) ctx = length (perSegInfos ctx) * nat (4 * gp_fts_probe_retries guc + 4)"
    unfolding total_rank_def by (simp add: sum_list_triv del: map_eq_conv)
  then have "k \<le> length (perSegInfos ctx) * nat (4 * gp_fts_probe_retries guc + 4)"
    using fts_reach_keeps [OF assms(4) ok] by simp
  then have "int k \<le> int (length (perSegInfos ctx) * nat (4 * gp_fts_probe_retries guc + 4))" by (rule zle_int [THEN iffD2])
  then show ?thesis using assms(2) len by (simp add: mult.commute)
qed

theorem fts_iteration_busy_bound_witness:
  "\<exists>ctx k ctx' h. FtsWalRepInitProbeContext small_cdbs = Inr ctx \<and> fts_reach small_guc ctx small_global k ctx' h \<and>
     0 < k \<and> int k \<le> 4"
proof -
  obtain ctx u ctx' h where c: "FtsWalRepInitProbeContext small_cdbs = Inr ctx"
    "fts_iteration small_guc (refusing_env 0) ctx small_global = Inr (u, ctx', h)" "length (perSegInfos ctx) = 1"
    "length (perSegInfos ctx') = 1" "state (perSegInfos ctx' ! 0) = FTS_PROMOTE_SEGMENT" "state (perSegInfos ctx ! 0) = FTS_PROBE_SEGMENT"
    by (rule small_first_iteration)
  have R: "gp_fts_probe_retries small_guc = 0" "total_segments small_cdbs = 1" "0 \<le> gp_fts_probe_retries small_guc"
    by (simp_all add: small_guc_def small_cdbs_def)
  have "map state (perSegInfos ctx') \<noteq> map state (perSegInfos ctx)"
  proof
    assume "map state (perSegInfos ctx') = map state (perSegInfos ctx)"
    then have "map state (perSegInfos ctx') ! 0 = map state (perSegInfos ctx) ! 0" by simp
    then show False using c(3-6) by simp
  qed
  then have r: "fts_reach small_guc ctx small_global 1 ctx' h" using reach_step [OF c(2) reach_refl] by simp
  from fts_iteration_busy_bound [OF small_cluster R(3) c(1) r] have "int 1 \<le> 4" by (simp add: R)
  then show ?thesis using c(1) r zero_less_one by blast
qed

text \<open>
  C21 (error): on a mirrored cluster a cycle raises no error of its own: the guards against
  impossible message states, unknown segments and null mirrors never fire, and an error
  comes from libpq giving no connection object or an unknown poll status, or from \<^verbatim>\<open>poll()\<close>.
\<close>

theorem FtsWalRepMessageSegments_errors:
  assumes "mirrored_cluster cdbs g" "0 \<le> gp_fts_probe_retries guc"
    "FtsWalRepMessageSegments n guc active envs cdbs g = Some (Inl e)"
  shows "e \<in> {Connection_object_is_null, Invalid_connect_poll, Poll_failed_error}"
proof -
  obtain ctx where c: "FtsWalRepInitProbeContext cdbs = Inr ctx" "cycle_ok guc ctx g"
    by (rule init_context [OF assms(1,2)])
  have "fts_loop n guc envs False ctx g = Some (Inl e)"
    using assms(3) c(1) by (auto simp: FtsWalRepMessageSegments_def rbind_Inl_iff split: if_splits)
  from fts_loop_reach [OF this] obtain k ctx' h env where r: "fts_reach guc ctx g k ctx' h" "fts_iteration guc env ctx' h = Inl e"
    by auto
  have "cycle_ok guc ctx' h" using fts_reach_keeps [OF r(1) c(2)] by simp
  from fts_iteration_error [OF this r(2)] show ?thesis by (simp add: env_errors_def)
qed

lemma map_sum_Inl: "map_option (map_sum id f) r = Some (Inl e) \<Longrightarrow> r = Some (Inl e)"
  by (cases r; cases "the r") auto

definition null_env :: "nat \<Rightarrow> fts_env" where
  "null_env k = (refusing_env k)\<lparr>env_seg := (\<lambda>i. (env_seg (refusing_env k) i)\<lparr>e_connectStart := None\<rparr>)\<rparr>"

theorem FtsWalRepMessageSegments_errors_witness:
  "\<exists>e. FtsWalRepMessageSegments 1 small_guc True null_env small_cdbs small_global = Some (Inl e) \<and>
     e \<in> {Connection_object_is_null, Invalid_connect_poll, Poll_failed_error}"
proof -
  have "map_option (map_sum id (\<lambda>_. ())) (FtsWalRepMessageSegments 1 small_guc True null_env small_cdbs small_global) =
      Some (Inl Connection_object_is_null)" by code_simp
  then have r: "FtsWalRepMessageSegments 1 small_guc True null_env small_cdbs small_global = Some (Inl Connection_object_is_null)"
    by (rule map_sum_Inl)
  have "0 \<le> gp_fts_probe_retries small_guc" by (simp add: small_guc_def)
  from FtsWalRepMessageSegments_errors [OF small_cluster this r] r show ?thesis by blast
qed

text \<open>
  C22 (liveness): when no primary accepts a connection, a cycle over a mirrored cluster returns, as
  long as the clock keeps moving forward, in steps of less than \<open>2 ^ 31\<close> seconds.
\<close>

theorem FtsWalRepMessageSegments_ends_when_refused:
  assumes "mirrored_cluster cdbs g" "0 \<le> gp_fts_probe_retries guc" "ticking t envs" "\<forall>k i. refuses (env_seg (envs k) i)"
  shows "\<exists>n u h. FtsWalRepMessageSegments n guc True envs cdbs g = Some (Inr (u, h))"
proof -
  obtain ctx where c: "FtsWalRepInitProbeContext cdbs = Inr ctx" "cycle_ok guc ctx g" "\<forall>x \<in> set (perSegInfos ctx). resting t x"
    by (rule init_context [OF assms(1,2)])
  obtain n s where "fts_loop n guc envs False ctx g = Some (Inr s)" using refused_loop [OF c(2,3) assms(3,4)] by blast
  then have "FtsWalRepMessageSegments n guc True envs cdbs g = Some (Inr (fst s, snd (snd s)))"
    using c(1) by (simp add: FtsWalRepMessageSegments_def split_def)
  then show ?thesis by blast
qed

theorem FtsWalRepMessageSegments_ends_when_refused_witness:
  "\<exists>n u h. FtsWalRepMessageSegments n (small_guc\<lparr>gp_fts_probe_retries := 5\<rparr>) True refusing_env small_cdbs small_global = Some (Inr (u, h))"
proof (rule FtsWalRepMessageSegments_ends_when_refused [OF small_cluster])
  have "\<exists>k. T < int k" for T by (rule exI [of _ "nat (T + 1)"]) simp
  then show "ticking 0 refusing_env" by (auto simp: ticking_def refusing_env_def Let_def)
  show "\<forall>k i. refuses (env_seg (refusing_env k) i)" by (simp add: refuses_def refusing_env_def bad_conn_def)
qed simp

text \<open>
  C23 (liveness): a message whose segment is polled fails, and its retries begin, as soon as
  \<^verbatim>\<open>gp_fts_probe_timeout\<close> seconds have passed since the connection was started, whatever \<^verbatim>\<open>poll()\<close> answers.
\<close>

theorem poll_segment_times_out:
  assumes "is_sending_state (state x)" "is_polled x" "int_of_time (now - startTime x) > gp_fts_probe_timeout guc"
  shows "\<exists>y. poll_segment guc now nready env x = Inr y \<and> nextFailedState (state x) = Inr (state y)"
proof -
  obtain f where f: "nextFailedState (state x) = Inr f" "nextFailedState f = Inr f" "IsFtsMessageStateFailed f"
    using nextFailed_cases [OF assms(1)] by blast
  then have ns: "\<not> IsFtsMessageStateSuccess f" "\<not> IsFtsMessageStateSuccess (state x)"
    using assms(1) by (auto simp: state_defs)
  show ?thesis
    using assms(2,3) f ns by (simp add: poll_segment_def Let_def fail_segment_def ftsCheckTimeout_def)
qed

theorem poll_segment_times_out_witness:
  "\<exists>x y. is_polled x \<and> state x = FTS_PROBE_SEGMENT \<and> startTime x = 100 \<and>
     poll_segment small_guc 121 0 (env_seg (refusing_env 0) 0) x = Inr y \<and> state y = FTS_PROBE_FAILED"
proof -
  let ?x = "(init_segment (hd (segment_db_info small_cdbs)) None)\<lparr>poll_events := POLLIN, startTime := 100\<rparr>"
  have x: "is_sending_state (state ?x)" "is_polled ?x" "int_of_time (121 - startTime ?x) > gp_fts_probe_timeout small_guc"
      "state ?x = FTS_PROBE_SEGMENT"
    by code_simp+
  from poll_segment_times_out [OF x(1-3), of 0 "env_seg (refusing_env 0) 0"]
  obtain y where y: "poll_segment small_guc 121 0 (env_seg (refusing_env 0) 0) ?x = Inr y"
    "nextFailedState FTS_PROBE_SEGMENT = Inr (state y)" using x(4) by auto
  have "startTime ?x = 100" by simp
  then show ?thesis using x(2,4) y by (metis (no_types) nextFailedState.simps(1) Inr_inject)
qed

text \<open>
  A probe whose answer has arrived in part: the connection is established, the segment was last
  found readable, and no event is waited for any more. \<open>hanging\<close> is the rest of the answer
  not arriving: the input is consumed and the result is still incomplete.
\<close>

definition half_answered :: "fts_segment_info \<Rightarrow> bool" where
  "half_answered x \<longleftrightarrow> is_sending_state (state x) \<and> poll_events x = 0 \<and>
     poll_revents x AND POLLIN \<noteq> 0 \<and> poll_revents x AND POLLOUT = 0 \<and>
     (case conn x of Some c \<Rightarrow> conn_status c = CONNECTION_OK | None \<Rightarrow> False)"

definition hanging :: "seg_env \<Rightarrow> bool" where
  "hanging env \<longleftrightarrow> fst (e_consumeInput env) \<and> conn_status (snd (e_consumeInput env)) = CONNECTION_OK \<and>
     fst (e_isBusy env) \<and> conn_status (snd (e_isBusy env)) = CONNECTION_OK"

lemma half_answered_run:
  assumes x: "half_answered x" and e: "hanging env" and r: "seg_run guc mirrored env pn rn nready x y"
  shows "half_answered y"
proof -
  obtain c where c: "conn x = Some c" "conn_status c = CONNECTION_OK" using x by (auto simp: half_answered_def split: option.splits)
  have s: "is_sending_state (state x)" "poll_events x = 0" "poll_revents x AND POLLIN \<noteq> 0" "poll_revents x AND POLLOUT = 0"
    using x by (simp_all add: half_answered_def)
  obtain b1 k1 b2 k2 where k: "e_consumeInput env = (b1, k1)" "e_isBusy env = (b2, k2)" by (metis surj_pair)
  from r obtain a i b d d' where run: "connect_segment guc env x = Inr a" "poll_segment guc pn nready env (a\<lparr>fd_index := i\<rparr>) = Inr b"
    "send_segment env b = Inr d" "receive_segment env d = Inr d'" "retry_segment guc mirrored rn d' = Inr y"
    by (auto simp: seg_run_def)
  have 1: "a = x" using run(1) c by (simp add: connect_segment_def)
  have 2: "b = x\<lparr>fd_index := i\<rparr>" using run(2) s(2) by (simp add: 1 poll_segment_def is_polled_def)
  have 3: "d = b" using run(3) s c by (simp add: 2 send_segment_def)
  have 4: "d' = b\<lparr>conn := Some k2\<rparr>" using run(4) s c e by (simp add: 3 2 receive_segment_def k hanging_def)
  have "state d' = state x" by (simp add: 4 2)
  then have 5: "y = d'" using run(5) s(1) by (auto simp: retry_segment_def is_sending_state_def)
  show ?thesis using s e by (simp add: half_answered_def 5 4 2 hanging_def k)
qed

lemma half_answered_iteration:
  assumes x: "i < length (perSegInfos ctx)" "half_answered (perSegInfos ctx ! i)" and e: "hanging (env_seg env i)"
    and it: "fts_iteration guc env ctx g = Inr (u, ctx', h)"
  shows "i < length (perSegInfos ctx')" "half_answered (perSegInfos ctx' ! i)"
proof -
  obtain c where c: "fts_phases guc env ctx = Inr c" "processResponse guc True c g = Inr (u, ctx', h)"
    using it by (auto simp: fts_iteration_phases rbind_Inr_iff)
  obtain nready where p: "length (perSegInfos c) = length (perSegInfos ctx)" "has_mirrors c = has_mirrors ctx"
    "\<forall>i < length (perSegInfos ctx). seg_run guc (has_mirrors ctx) (env_seg env i) (env_poll_now env) (env_retry_now env) nready
       (perSegInfos ctx ! i) (perSegInfos c ! i)"
    by (rule fts_phases_nth [OF c(1)])
  have h: "half_answered (perSegInfos c ! i)" using half_answered_run [OF x(2) e] p(3) x(1) by blast
  have "list_all2 (responds guc) (perSegInfos c) (perSegInfos ctx')"
    using c(2) response_loop_responds by (auto simp: processResponse_def rbind_Inr_iff)
  then have r: "responds guc (perSegInfos c ! i) (perSegInfos ctx' ! i)" "length (perSegInfos ctx') = length (perSegInfos ctx)"
    using x(1) p(1) by (auto simp: list_all2_conv_all_nth)
  have "\<not> ftsResponseReady (perSegInfos c ! i)" using h by (auto simp: half_answered_def ftsResponseReady_def state_defs)
  then have "perSegInfos ctx' ! i = perSegInfos c ! i" by (rule responds_not_ready [OF r(1)])
  then show "i < length (perSegInfos ctx')" "half_answered (perSegInfos ctx' ! i)" using h r(2) x(1) by simp_all
qed

text \<open>
  C24 (liveness): once the answer to a message has arrived in part and the rest does not come, the
  cycle never completes, however much time passes: \<^verbatim>\<open>ftsReceive\<close> leaves the segment with no
  event to wait for, so \<^verbatim>\<open>ftsPoll\<close> neither polls it nor checks its timeout again.
\<close>

theorem fts_loop_stuck_on_partial_answer:
  assumes "i < length (perSegInfos ctx)" "half_answered (perSegInfos ctx ! i)" "\<forall>k. hanging (env_seg (envs k) i)"
  shows "fts_loop n guc envs u ctx g \<noteq> Some (Inr r)"
  using assms
proof (induction n arbitrary: envs u ctx g)
  case 0
  then have "\<not> allDone ctx" by (auto simp: allDone_def list_all_length half_answered_def is_sending_state_def)
  then show ?case by (simp add: fts_loop.simps [of 0])
next
  case (Suc n)
  then have nd: "\<not> allDone ctx" by (auto simp: allDone_def list_all_length half_answered_def is_sending_state_def)
  show ?case
  proof (cases "fts_iteration guc (envs 0) ctx g")
    case (Inl e)
    then show ?thesis using nd by (simp add: fts_loop.simps [of "Suc n"])
  next
    case (Inr s)
    obtain v ctx' h where s: "s = (v, ctx', h)" by (cases s)
    have "hanging (env_seg (envs 0) i)" using Suc.prems(3) by blast
    note k = half_answered_iteration [OF Suc.prems(1,2) this Inr [unfolded s]]
    show ?thesis using Suc.IH [OF k, of "\<lambda>k. envs (Suc k)"] Suc.prems(3) fts_loop_next [where envs = envs, OF nd Inr [unfolded s]] by simp
  qed
qed

text \<open>The three iterations that lead there: connecting, sending the probe, and half of the answer.\<close>

definition ok_conn :: pg_conn where
  "ok_conn = \<lparr>conn_status = CONNECTION_OK, asyncStatus = PGASYNC_IDLE, errorMessage = []\<rparr>"

definition busy_conn :: pg_conn where
  "busy_conn = \<lparr>conn_status = CONNECTION_OK, asyncStatus = PGASYNC_BUSY, errorMessage = []\<rparr>"

definition partial_env :: "nat \<Rightarrow> fts_env" where
  "partial_env k = \<lparr>env_seg = (\<lambda>_. \<lparr>e_connectStart = Some \<lparr>conn_status = CONNECTION_IN_PROGRESS, asyncStatus = PGASYNC_IDLE, errorMessage = []\<rparr>,
       e_time = int k, e_connectPoll = (PGRES_POLLING_OK, ok_conn), e_revents = (if k < 2 then POLLOUT else POLLIN),
       e_sendQuery = (True, busy_conn), e_consumeInput = (True, busy_conn), e_isBusy = (True, busy_conn), e_getResult = (None, busy_conn)\<rparr>),
     env_poll = Poll_ready 1, env_poll_now = int k, env_retry_now = int k\<rparr>"

definition three_iterations :: "fts_context \<Rightarrow> fts_error + fts_context \<times> fts_global" where
  "three_iterations ctx =
     rbind (fts_iteration small_guc (partial_env 0) ctx small_global) (\<lambda>(_, ctx, g).
     rbind (fts_iteration small_guc (partial_env 1) ctx g) (\<lambda>(_, ctx, g).
     rbind (fts_iteration small_guc (partial_env 2) ctx g) (\<lambda>(_, ctx, g). Inr (ctx, g))))"

theorem fts_loop_stuck_on_partial_answer_witness:
  "\<exists>ctx ctx' g. FtsWalRepInitProbeContext small_cdbs = Inr ctx \<and> three_iterations ctx = Inr (ctx', g) \<and>
     (\<forall>n u r. fts_loop n small_guc (\<lambda>k. partial_env (k + 3)) u ctx' g \<noteq> Some (Inr r))"
proof -
  have "case FtsWalRepInitProbeContext small_cdbs of Inr ctx \<Rightarrow>
      (case three_iterations ctx of Inr (ctx', g) \<Rightarrow> 0 < length (perSegInfos ctx') \<and> half_answered (perSegInfos ctx' ! 0) | _ \<Rightarrow> False)
    | _ \<Rightarrow> False" by code_simp
  then obtain ctx ctx' g where c: "FtsWalRepInitProbeContext small_cdbs = Inr ctx" "three_iterations ctx = Inr (ctx', g)"
    "0 < length (perSegInfos ctx')" "half_answered (perSegInfos ctx' ! 0)"
    by (auto split: sum.splits)
  have "\<forall>k. hanging (env_seg (partial_env (k + 3)) 0)" by (simp add: hanging_def partial_env_def busy_conn_def)
  from fts_loop_stuck_on_partial_answer [OF c(3,4) this] c(1,2) show ?thesis by blast
qed

text \<open>
  C25 (error): in a cluster without mirrors the cycle reads through the null mirror pointer when a
  primary that is resetting refuses the connection and messages of level \<^verbatim>\<open>LOG\<close> are output.
\<close>

theorem connect_segment_mirrorless_null:
  assumes "mirror_cdbinfo x = None" "log_output guc" "is_sending_state (state x)"
    "conn x = Some c" "conn_status c \<noteq> CONNECTION_OK" "poll_revents x AND (POLLOUT OR POLLIN) \<noteq> 0"
    "e_connectPoll env = (PGRES_POLLING_FAILED, c')" "strstr (errorMessage c') POSTMASTER_IN_RESET_MSG \<noteq> None"
    "strstr (errorMessage c') POSTMASTER_IN_RECOVERY_MSG = None" "strstr (errorMessage c') POSTMASTER_IN_STARTUP_MSG = None"
  shows "connect_segment guc env x = Inl Null_pointer"
proof -
  obtain f where "nextFailedState (state x) = Inr f" using nextFailed_cases [OF assms(3)] by blast
  then show ?thesis
    using assms by (simp add: connect_segment_def connect_poll_def fail_segment_def checkIfFailedDueToNormalRestart_def log_mirror_def)
qed

definition reset_env :: "nat \<Rightarrow> fts_env" where
  "reset_env k = (partial_env k)\<lparr>env_seg := (\<lambda>i. (env_seg (partial_env k) i)
     \<lparr>e_connectPoll := (PGRES_POLLING_FAILED, bad_conn\<lparr>errorMessage := POSTMASTER_IN_RESET_MSG\<rparr>)\<rparr>)\<rparr>"

theorem connect_segment_mirrorless_null_witness:
  "let x = (init_segment (hd (segment_db_info small_cdbs)) None)
       \<lparr>conn := e_connectStart (env_seg (reset_env 0) 0), poll_revents := POLLOUT\<rparr>
   in connect_segment small_guc (env_seg (reset_env 1) 0) x = Inl Null_pointer"
proof -
  let ?c = "\<lparr>conn_status = CONNECTION_IN_PROGRESS, asyncStatus = PGASYNC_IDLE, errorMessage = []\<rparr>"
  let ?d = "bad_conn\<lparr>errorMessage := POSTMASTER_IN_RESET_MSG\<rparr>"
  have m: "strstr (errorMessage ?d) POSTMASTER_IN_RESET_MSG \<noteq> None"
    "strstr (errorMessage ?d) POSTMASTER_IN_RECOVERY_MSG = None" "strstr (errorMessage ?d) POSTMASTER_IN_STARTUP_MSG = None"
    by code_simp+
  show ?thesis
    unfolding Let_def
    by (rule connect_segment_mirrorless_null [where c = ?c and c' = ?d])
      (use m in \<open>simp_all add: init_segment_def small_guc_def is_sending_state_def reset_env_def partial_env_def POLLIN_def POLLOUT_def\<close>)
qed



text \<open>
  The set of failed contents follows the last report on each content, and the history
  gets an entry exactly when a content starts or stops being failed; a report repeated is ignored.
\<close>

theorem updateSegmentDownStatus_records_transitions:
  assumes "0 \<le> segindex p"
  shows "\<exists>h. updateSegmentDownStatus p alive mirrored g = Inr h \<and>
    (segindex p \<in> failedContentIds h \<longleftrightarrow> \<not> alive) \<and>
    failedContentIds h - {segindex p} = failedContentIds g - {segindex p} \<and>
    rows h = rows g \<and> updateSegmentDownStatus p alive mirrored h = Inr h \<and>
    length (gp_configuration_history h) = length (gp_configuration_history g) + of_bool (alive = (segindex p \<in> failedContentIds g))"
  using assms by (auto simp: updateSegmentDownStatus_def probeUpdateConfHistory_def Let_def)

theorem updateSegmentDownStatus_records_transitions_witness:
  "\<exists>h. updateSegmentDownStatus (rows small_global ! 1) False True small_global = Inr h \<and> 0 \<in> failedContentIds h \<and>
     length (gp_configuration_history h) = 1"
proof -
  have "0 \<le> segindex (rows small_global ! 1)" by (simp add: small_global_def)
  from updateSegmentDownStatus_records_transitions [OF this, of False True small_global] show ?thesis
    by (auto simp: small_global_def)
qed

end
