(* ===== verification/Xid.thy ===== *)
theory Xid
  imports Pg_Prelude
begin

text \<open>
  Local transaction ids, from \<^verbatim>\<open>access/transam.h\<close> and \<^verbatim>\<open>transam.c\<close>: 32-bit counters with three
  permanent values that wrap around, compared modulo \<open>2 ^ 32\<close>.
\<close>

abbreviation InvalidTransactionId :: TransactionId where "InvalidTransactionId \<equiv> 0"
abbreviation FirstNormalTransactionId :: TransactionId where "FirstNormalTransactionId \<equiv> 3"

definition TransactionIdIsNormal :: "TransactionId \<Rightarrow> bool" where
  "TransactionIdIsNormal xid \<longleftrightarrow> FirstNormalTransactionId \<le> xid"

definition TransactionIdPrecedes :: "TransactionId \<Rightarrow> TransactionId \<Rightarrow> bool" where
  "TransactionIdPrecedes id1 id2 =
     (if \<not> TransactionIdIsNormal id1 \<or> \<not> TransactionIdIsNormal id2 then id1 < id2 else sint (id1 - id2) < 0)"

definition TransactionIdPrecedesOrEquals :: "TransactionId \<Rightarrow> TransactionId \<Rightarrow> bool" where
  "TransactionIdPrecedesOrEquals id1 id2 =
     (if \<not> TransactionIdIsNormal id1 \<or> \<not> TransactionIdIsNormal id2 then id1 \<le> id2 else sint (id1 - id2) \<le> 0)"

definition TransactionIdFollows :: "TransactionId \<Rightarrow> TransactionId \<Rightarrow> bool" where
  "TransactionIdFollows id1 id2 =
     (if \<not> TransactionIdIsNormal id1 \<or> \<not> TransactionIdIsNormal id2 then id1 > id2 else sint (id1 - id2) > 0)"

definition TransactionIdFollowsOrEquals :: "TransactionId \<Rightarrow> TransactionId \<Rightarrow> bool" where
  "TransactionIdFollowsOrEquals id1 id2 =
     (if \<not> TransactionIdIsNormal id1 \<or> \<not> TransactionIdIsNormal id2 then id1 \<ge> id2 else sint (id1 - id2) \<ge> 0)"

definition TransactionIdAdvance :: "TransactionId \<Rightarrow> TransactionId" where
  "TransactionIdAdvance dest =
     (let dest = dest + 1 in if dest < FirstNormalTransactionId then FirstNormalTransactionId else dest)"

primrec TransactionIdLatest :: "TransactionId \<Rightarrow> TransactionId list \<Rightarrow> TransactionId" where
  "TransactionIdLatest mainxid [] = mainxid"
| "TransactionIdLatest mainxid (x # xids) =
     (let result = TransactionIdLatest mainxid xids in if TransactionIdPrecedes result x then x else result)"

section \<open>The circle of ids\<close>

text \<open>How far \<open>b\<close> is ahead of \<open>a\<close>.\<close>

definition ahead :: "TransactionId \<Rightarrow> TransactionId \<Rightarrow> int" where
  "ahead a b = uint (b - a)"

lemma sint_cases: "sint (w :: uint32) = (if uint w < 2 ^ 31 then uint w else uint w - 2 ^ 32)"
proof -
  have u: "0 \<le> uint w" "uint w < 2 ^ 32" using unsigned_less [of w] by simp_all
  have s: "sint w = signed_take_bit 31 (uint w)" by (simp add: sint_uint)
  show ?thesis
  proof (cases "uint w < 2 ^ 31")
    case True
    have "- (2 ^ 31) \<le> uint w" by (rule order_trans [OF _ u(1)]) simp
    then show ?thesis using s True signed_take_bit_int_eq_self [of 31 "uint w"] by simp
  next
    case False
    then have "signed_take_bit 31 (uint w) = uint w - 2 ^ 32"
      unfolding signed_take_bit_eq_take_bit_shift take_bit_eq_mod using u
      by (simp add: mod_pos_geq mod_pos_pos_trivial)
    then show ?thesis using s False by simp
  qed
qed

lemma ahead_bounds: "0 \<le> ahead a b" "ahead a b < 2 ^ 32"
  using unsigned_less [of "b - a"] by (simp_all add: ahead_def)

lemma ahead_not_neg [simp]: "\<not> ahead a b < 0"
  using ahead_bounds(1) [of a b] by simp

lemma ahead_0 [simp]: "ahead a a = 0" and ahead_eq_0: "ahead a b = 0 \<longleftrightarrow> a = b"
  by (auto simp: ahead_def uint_0_iff)

lemma uint_minus:
  assumes "d \<noteq> (0 :: uint32)"
  shows "uint (- d) = 2 ^ 32 - uint d"
proof -
  have "0 \<le> uint d" "uint d < 2 ^ 32" "uint d \<noteq> 0" using assms uint_lt2p [of d] by (simp_all add: uint_0_iff)
  then have "uint d mod 2 ^ 32 = uint d" "uint d \<noteq> 0" by (simp_all add: mod_pos_pos_trivial)
  then show ?thesis by (simp add: uint_word_ariths zmod_zminus1_eq_if)
qed

lemma ahead_swap: "a \<noteq> b \<Longrightarrow> ahead b a = 2 ^ 32 - ahead a b"
  using uint_minus [of "b - a"] by (simp add: ahead_def)

lemma precedes_ahead:
  assumes "TransactionIdIsNormal a" "TransactionIdIsNormal b"
  shows "TransactionIdPrecedes a b \<longleftrightarrow> 0 < ahead a b \<and> ahead a b \<le> 2 ^ 31"
    "TransactionIdFollows a b \<longleftrightarrow> 2 ^ 31 < ahead a b"
    "TransactionIdPrecedesOrEquals a b \<longleftrightarrow> ahead a b \<le> 2 ^ 31"
    "TransactionIdFollowsOrEquals a b \<longleftrightarrow> a = b \<or> 2 ^ 31 < ahead a b"
proof -
  have s: "sint (a - b) = (if ahead b a < 2 ^ 31 then ahead b a else ahead b a - 2 ^ 32)"
    by (simp add: sint_cases ahead_def)
  have "sint (a - b) < 0 \<longleftrightarrow> 0 < ahead a b \<and> ahead a b \<le> 2 ^ 31"
    "sint (a - b) > 0 \<longleftrightarrow> 2 ^ 31 < ahead a b" "sint (a - b) \<le> 0 \<longleftrightarrow> ahead a b \<le> 2 ^ 31"
    "sint (a - b) \<ge> 0 \<longleftrightarrow> a = b \<or> 2 ^ 31 < ahead a b"
    using s ahead_swap [of a b] ahead_bounds [of a b] ahead_eq_0 [of a b] by (cases "a = b"; simp; linarith)+
  then show "TransactionIdPrecedes a b \<longleftrightarrow> 0 < ahead a b \<and> ahead a b \<le> 2 ^ 31"
    "TransactionIdFollows a b \<longleftrightarrow> 2 ^ 31 < ahead a b"
    "TransactionIdPrecedesOrEquals a b \<longleftrightarrow> ahead a b \<le> 2 ^ 31"
    "TransactionIdFollowsOrEquals a b \<longleftrightarrow> a = b \<or> 2 ^ 31 < ahead a b"
    using assms by (simp_all add: TransactionIdPrecedes_def TransactionIdFollows_def
        TransactionIdPrecedesOrEquals_def TransactionIdFollowsOrEquals_def)
qed

lemma ahead_trans: "ahead a c = (ahead a b + ahead b c) mod 2 ^ 32"
proof -
  have "uint (c - a) = uint ((b - a) + (c - b))" by simp
  also have "\<dots> = (uint (b - a) + uint (c - b)) mod 2 ^ LENGTH(32)" by (rule uint_word_ariths(1))
  finally show ?thesis by (simp add: ahead_def)
qed

lemma ahead_add:
  assumes "ahead a b + ahead b c < 2 ^ 32"
  shows "ahead a c = ahead a b + ahead b c"
  using ahead_trans [of a c b] assms ahead_bounds [of a b] ahead_bounds [of b c] by (simp add: mod_pos_pos_trivial)

lemma ahead_diff:
  assumes "ahead a b \<le> ahead a c"
  shows "ahead b c = ahead a c - ahead a b"
proof -
  have "ahead b c = (ahead a c - ahead a b) mod 2 ^ 32"
    using ahead_trans [of a c b] ahead_bounds [of b c]
    by (metis add_diff_cancel_left' mod_diff_left_eq mod_pos_pos_trivial)
  then show ?thesis using assms ahead_bounds [of a b] ahead_bounds [of a c] by (simp add: mod_pos_pos_trivial)
qed

lemma window_order:
  assumes n: "TransactionIdIsNormal a" "TransactionIdIsNormal b" and w: "ahead base a < 2 ^ 31" "ahead base b < 2 ^ 31"
  shows "TransactionIdPrecedes a b \<longleftrightarrow> ahead base a < ahead base b"
    "TransactionIdPrecedesOrEquals a b \<longleftrightarrow> ahead base a \<le> ahead base b"
    "TransactionIdFollows a b \<longleftrightarrow> ahead base b < ahead base a"
proof -
  have "0 \<le> ahead base a" "0 \<le> ahead base b" by (rule ahead_bounds)+
  have "ahead a b = (if ahead base a \<le> ahead base b then ahead base b - ahead base a else 2 ^ 32 - (ahead base a - ahead base b))"
    using ahead_diff [of base a b] ahead_diff [of base b a] ahead_swap [of b a] by (cases "a = b") auto
  then show "TransactionIdPrecedes a b \<longleftrightarrow> ahead base a < ahead base b"
    "TransactionIdPrecedesOrEquals a b \<longleftrightarrow> ahead base a \<le> ahead base b"
    "TransactionIdFollows a b \<longleftrightarrow> ahead base b < ahead base a"
    using w \<open>0 \<le> ahead base a\<close> \<open>0 \<le> ahead base b\<close> by (auto simp: precedes_ahead [OF n])
qed

text \<open>There is no normal id between an id and its successor.\<close>

lemma normal_uint: "TransactionIdIsNormal x \<longleftrightarrow> 3 \<le> uint x"
  by (simp add: TransactionIdIsNormal_def word_le_def)

lemma advance_normal [simp]: "TransactionIdIsNormal (TransactionIdAdvance x)"
  by (simp add: TransactionIdAdvance_def TransactionIdIsNormal_def Let_def not_less)

lemma ahead_cases: "ahead a b = (if uint a \<le> uint b then uint b - uint a else uint b - uint a + 2 ^ 32)"
proof -
  have b: "0 \<le> uint a" "uint a < 2 ^ 32" "0 \<le> uint b" "uint b < 2 ^ 32"
    using uint_lt2p [of a] uint_lt2p [of b] by simp_all
  have d: "ahead a b = (uint b - uint a) mod 2 ^ 32" by (simp add: ahead_def uint_word_ariths)
  show ?thesis
  proof (cases "uint a \<le> uint b")
    case True
    then have "(uint b - uint a) mod 2 ^ 32 = uint b - uint a" using b by (intro mod_pos_pos_trivial) linarith+
    then show ?thesis using d True by simp
  next
    case False
    have "(uint b - uint a) mod 2 ^ 32 = (uint b - uint a + 2 ^ 32) mod 2 ^ 32" by (rule mod_add_self2 [symmetric])
    also have "\<dots> = uint b - uint a + 2 ^ 32" using b False by (intro mod_pos_pos_trivial) linarith+
    finally show ?thesis using d False by simp
  qed
qed

lemma advance_uint: "uint (TransactionIdAdvance x) = (if uint x < 2 \<or> uint x = 2 ^ 32 - 1 then 3 else uint x + 1)"
proof -
  have b: "0 \<le> uint x" "uint x < 2 ^ 32" using uint_lt2p [of x] by simp_all
  have "uint (x + 1) = (uint x + 1) mod 2 ^ 32" by (simp add: uint_word_ariths)
  also have "\<dots> = (if uint x = 2 ^ 32 - 1 then 0 else uint x + 1)" using b by (auto simp: mod_pos_pos_trivial)
  finally show ?thesis by (simp add: TransactionIdAdvance_def Let_def word_less_def)
qed

lemma advance_next:
  assumes "TransactionIdIsNormal x" "TransactionIdIsNormal l" "l \<noteq> x"
  shows "0 < ahead x (TransactionIdAdvance x)" "ahead x (TransactionIdAdvance x) \<le> ahead x l"
proof -
  have b: "3 \<le> uint x" "uint x < 2 ^ 32" "3 \<le> uint l" "uint l < 2 ^ 32" "uint l \<noteq> uint x"
    using assms uint_lt2p [of x] uint_lt2p [of l] by (simp_all add: normal_uint word_uint_eq_iff)
  then show "0 < ahead x (TransactionIdAdvance x)" "ahead x (TransactionIdAdvance x) \<le> ahead x l"
    by (auto simp: ahead_cases advance_uint)
qed

lemma advance_precedes:
  assumes "TransactionIdIsNormal x" "TransactionIdIsNormal l" "TransactionIdPrecedes x l"
  shows "ahead (TransactionIdAdvance x) l < ahead x l" "ahead (TransactionIdAdvance x) l \<le> 2 ^ 31"
    "ahead (TransactionIdAdvance x) l = ahead x l - ahead x (TransactionIdAdvance x)"
proof -
  have a: "0 < ahead x l" "ahead x l \<le> 2 ^ 31" using assms by (simp_all add: precedes_ahead)
  then have "l \<noteq> x" by auto
  note n = advance_next [OF assms(1,2) this]
  show "ahead (TransactionIdAdvance x) l = ahead x l - ahead x (TransactionIdAdvance x)" by (rule ahead_diff [OF n(2)])
  then show "ahead (TransactionIdAdvance x) l < ahead x l" "ahead (TransactionIdAdvance x) l \<le> 2 ^ 31" using n(1) a by simp_all
qed

end
