(* ===== verification/Slru.thy ===== *)
theory Slru
  imports Xid "HOL-Library.AList"
begin

text \<open>
  The page store under the distributed log, from \<^verbatim>\<open>access/transam/slru.c\<close>: pages of entries in
  shared buffers over segment files of 32 pages. One process at a time, as under the control
  lock, and disk operations that do not fail. Which page a full buffer pool gives up is the choice of
  \<^verbatim>\<open>SlruSelectLRUPage\<close>; here it is an operation of its own, \<open>slru_evict\<close>, that may happen
  between any two others.
\<close>

section \<open>State\<close>

text \<open>A page holds 8-byte entries; \<^verbatim>\<open>BLCKSZ\<close> has its default of 32 kB.\<close>

definition ENTRIES_PER_PAGE :: nat where
  "ENTRIES_PER_PAGE = 32768 div 8"

definition SLRU_PAGES_PER_SEGMENT :: int where
  "SLRU_PAGES_PER_SEGMENT = 32"

type_synonym slru_page = "nat \<Rightarrow> uint64"

abbreviation zero_page :: slru_page where
  "zero_page \<equiv> (\<lambda>_. 0)"

text \<open>
  The occupied buffers by page number, each with its dirty flag, and the files of the directory by
  segment number, each a list of pages.
\<close>

record slru =
  page_buffer :: "(int \<times> slru_page \<times> bool) list"
  segment_files :: "(int \<times> slru_page list) list"
  latest_page_number :: int

datatype slru_error = Slru_io_error int

section \<open>Operations\<close>

definition SimpleLruZeroPage :: "int \<Rightarrow> slru \<Rightarrow> slru" where
  "SimpleLruZeroPage pageno ctl =
     ctl\<lparr>page_buffer := AList.update pageno (zero_page, True) (page_buffer ctl), latest_page_number := pageno\<rparr>"

text \<open>Writing past the end of a file fills the gap with zeros.\<close>

definition write_at :: "nat \<Rightarrow> slru_page \<Rightarrow> slru_page list \<Rightarrow> slru_page list" where
  "write_at k p f = (if k < length f then f[k := p] else f @ replicate (k - length f) zero_page @ [p])"

definition SlruPhysicalWritePage :: "int \<Rightarrow> slru_page \<Rightarrow> slru \<Rightarrow> slru" where
  "SlruPhysicalWritePage pageno p ctl =
     (let segno = pageno div SLRU_PAGES_PER_SEGMENT; rpageno = pageno mod SLRU_PAGES_PER_SEGMENT;
          file = (case map_of (segment_files ctl) segno of Some f \<Rightarrow> f | None \<Rightarrow> [])
      in ctl\<lparr>segment_files := AList.update segno (write_at (nat rpageno) p file) (segment_files ctl)\<rparr>)"

definition SlruInternalWritePage :: "int \<Rightarrow> slru \<Rightarrow> slru" where
  "SlruInternalWritePage pageno ctl =
     (case map_of (page_buffer ctl) pageno of
        Some (p, True) \<Rightarrow>
          (SlruPhysicalWritePage pageno p ctl)\<lparr>page_buffer := AList.update pageno (p, False) (page_buffer ctl)\<rparr>
      | _ \<Rightarrow> ctl)"

abbreviation SimpleLruWritePage :: "int \<Rightarrow> slru \<Rightarrow> slru" where
  "SimpleLruWritePage \<equiv> SlruInternalWritePage"

definition SimpleLruDoesPhysicalPageExist :: "slru \<Rightarrow> int \<Rightarrow> bool" where
  "SimpleLruDoesPhysicalPageExist ctl pageno =
     (case map_of (segment_files ctl) (pageno div SLRU_PAGES_PER_SEGMENT) of
        None \<Rightarrow> False
      | Some f \<Rightarrow> nat (pageno mod SLRU_PAGES_PER_SEGMENT) < length f)"

text \<open>A missing file reads as zeros during recovery, a short one is an error.\<close>

definition SlruPhysicalReadPage :: "bool \<Rightarrow> slru \<Rightarrow> int \<Rightarrow> slru_page option" where
  "SlruPhysicalReadPage InRecovery ctl pageno =
     (case map_of (segment_files ctl) (pageno div SLRU_PAGES_PER_SEGMENT) of
        None \<Rightarrow> if InRecovery then Some zero_page else None
      | Some f \<Rightarrow>
          let rpageno = nat (pageno mod SLRU_PAGES_PER_SEGMENT)
          in if rpageno < length f then Some (f ! rpageno) else None)"

definition SimpleLruReadPage :: "bool \<Rightarrow> int \<Rightarrow> slru \<Rightarrow> slru_error + slru_page \<times> slru" where
  "SimpleLruReadPage InRecovery pageno ctl =
     (case map_of (page_buffer ctl) pageno of
        Some (p, _) \<Rightarrow> Inr (p, ctl)
      | None \<Rightarrow>
         (case SlruPhysicalReadPage InRecovery ctl pageno of
            None \<Rightarrow> Inl (Slru_io_error pageno)
          | Some p \<Rightarrow> Inr (p, ctl\<lparr>page_buffer := AList.update pageno (p, False) (page_buffer ctl)\<rparr>)))"

text \<open>The same with a look through the buffers under a shared lock first.\<close>

definition SimpleLruReadPage_ReadOnly :: "bool \<Rightarrow> int \<Rightarrow> slru \<Rightarrow> slru_error + slru_page \<times> slru" where
  "SimpleLruReadPage_ReadOnly InRecovery pageno ctl =
     (case map_of (page_buffer ctl) pageno of
        Some (p, _) \<Rightarrow> Inr (p, ctl)
      | None \<Rightarrow> SimpleLruReadPage InRecovery pageno ctl)"

text \<open>Storing a page changed in its buffer, with \<^verbatim>\<open>page_dirty[slotno] = true\<close>.\<close>

definition slru_store :: "int \<Rightarrow> slru_page \<Rightarrow> slru \<Rightarrow> slru" where
  "slru_store pageno p ctl = ctl\<lparr>page_buffer := AList.update pageno (p, True) (page_buffer ctl)\<rparr>"

definition slru_evict :: "int \<Rightarrow> slru \<Rightarrow> slru" where
  "slru_evict pageno ctl =
     (let ctl = SlruInternalWritePage pageno ctl in ctl\<lparr>page_buffer := AList.delete pageno (page_buffer ctl)\<rparr>)"

definition SimpleLruFlush :: "slru \<Rightarrow> slru" where
  "SimpleLruFlush ctl = fold SlruInternalWritePage (map fst (page_buffer ctl)) ctl"

definition SlruMayDeleteSegment :: "(int \<Rightarrow> int \<Rightarrow> bool) \<Rightarrow> int \<Rightarrow> int \<Rightarrow> bool" where
  "SlruMayDeleteSegment PagePrecedes segpage cutoffPage \<longleftrightarrow>
     (let seg_last_page = segpage + SLRU_PAGES_PER_SEGMENT - 1
      in PagePrecedes segpage cutoffPage \<and> PagePrecedes seg_last_page cutoffPage)"

text \<open>Scanning the directory with \<^verbatim>\<open>SlruScanDirCbReportPresence\<close> and with \<^verbatim>\<open>SlruScanDirCbDeleteCutoff\<close>.\<close>

definition scan_report_presence :: "(int \<Rightarrow> int \<Rightarrow> bool) \<Rightarrow> int \<Rightarrow> slru \<Rightarrow> bool" where
  "scan_report_presence PagePrecedes cutoffPage ctl =
     list_ex (\<lambda>(segno, _). SlruMayDeleteSegment PagePrecedes (segno * SLRU_PAGES_PER_SEGMENT) cutoffPage) (segment_files ctl)"

definition scan_delete_cutoff :: "(int \<Rightarrow> int \<Rightarrow> bool) \<Rightarrow> int \<Rightarrow> slru \<Rightarrow> slru" where
  "scan_delete_cutoff PagePrecedes cutoffPage ctl =
     ctl\<lparr>segment_files := filter
       (\<lambda>(segno, _). \<not> SlruMayDeleteSegment PagePrecedes (segno * SLRU_PAGES_PER_SEGMENT) cutoffPage) (segment_files ctl)\<rparr>"

definition SimpleLruTruncate :: "(int \<Rightarrow> int \<Rightarrow> bool) \<Rightarrow> int \<Rightarrow> slru \<Rightarrow> slru" where
  "SimpleLruTruncate PagePrecedes cutoffPage ctl =
     (if PagePrecedes (latest_page_number ctl) cutoffPage then ctl
      else scan_delete_cutoff PagePrecedes cutoffPage
        (fold slru_evict (filter (\<lambda>p. PagePrecedes p cutoffPage) (map fst (page_buffer ctl))) ctl))"

section \<open>What the pages hold\<close>

definition slru_view :: "bool \<Rightarrow> slru \<Rightarrow> int \<Rightarrow> slru_page option" where
  "slru_view InRecovery ctl pageno =
     (case map_of (page_buffer ctl) pageno of
        Some (p, _) \<Rightarrow> Some p
      | None \<Rightarrow> SlruPhysicalReadPage InRecovery ctl pageno)"

text \<open>A clean buffer has what its file has.\<close>

definition slru_ok :: "slru \<Rightarrow> bool" where
  "slru_ok ctl \<longleftrightarrow> (\<forall>pageno p. map_of (page_buffer ctl) pageno = Some (p, False) \<longrightarrow>
     SlruPhysicalReadPage False ctl pageno = Some p)"

lemma phys_read_same: "SlruPhysicalReadPage r (SlruPhysicalWritePage pageno p ctl) pageno = Some p"
proof -
  have "write_at k p f ! k = p \<and> k < length (write_at k p f)" for k f
    by (simp add: write_at_def nth_append)
  then show ?thesis by (simp add: SlruPhysicalReadPage_def SlruPhysicalWritePage_def Let_def update_conv')
qed

lemma write_at_keeps: "j < length f \<Longrightarrow> j \<noteq> k \<Longrightarrow> write_at k p f ! j = f ! j \<and> j < length (write_at k p f)"
  by (simp add: write_at_def nth_append)

lemma phys_read_other:
  assumes "SlruPhysicalReadPage False ctl q = Some c" "q \<noteq> pageno"
  shows "SlruPhysicalReadPage False (SlruPhysicalWritePage pageno p ctl) q = Some c"
proof (cases "q div SLRU_PAGES_PER_SEGMENT = pageno div SLRU_PAGES_PER_SEGMENT")
  case True
  let ?j = "nat (q mod SLRU_PAGES_PER_SEGMENT)" and ?k = "nat (pageno mod SLRU_PAGES_PER_SEGMENT)"
  have pos: "0 \<le> q mod SLRU_PAGES_PER_SEGMENT" "0 \<le> pageno mod SLRU_PAGES_PER_SEGMENT" by (simp_all add: SLRU_PAGES_PER_SEGMENT_def)
  have "q mod SLRU_PAGES_PER_SEGMENT \<noteq> pageno mod SLRU_PAGES_PER_SEGMENT"
    using assms(2) True by (metis mult_div_mod_eq)
  then have ne: "?j \<noteq> ?k" using pos by simp
  obtain f where f: "map_of (segment_files ctl) (q div SLRU_PAGES_PER_SEGMENT) = Some f" "?j < length f" "f ! ?j = c"
    using assms(1) by (auto simp: SlruPhysicalReadPage_def Let_def split: option.splits if_splits)
  show ?thesis
    using write_at_keeps [OF f(2) ne, of p] f True
    by (simp add: SlruPhysicalReadPage_def SlruPhysicalWritePage_def Let_def update_conv')
next
  case False
  then show ?thesis using assms(1) by (simp add: SlruPhysicalReadPage_def SlruPhysicalWritePage_def Let_def update_conv')
qed

lemma phys_read_buffer [simp]:
  "SlruPhysicalReadPage r (ctl\<lparr>page_buffer := b\<rparr>) q = SlruPhysicalReadPage r ctl q"
  "SlruPhysicalReadPage r (ctl\<lparr>latest_page_number := n\<rparr>) q = SlruPhysicalReadPage r ctl q"
  by (simp_all add: SlruPhysicalReadPage_def)

lemma phys_write_buffer [simp]: "page_buffer (SlruPhysicalWritePage pageno p ctl) = page_buffer ctl"
  by (simp add: SlruPhysicalWritePage_def Let_def)

lemma read_only_eq [simp]: "SimpleLruReadPage_ReadOnly = SimpleLruReadPage"
  by (auto simp: SimpleLruReadPage_ReadOnly_def SimpleLruReadPage_def fun_eq_iff split: option.splits)

section \<open>The interface\<close>

text \<open>
  What a client of the page store relies on: a page that holds something can be read and is not
  changed by reading or giving up other pages; a stored page holds what was stored.
\<close>

locale page_store =
  fixes view :: "'s \<Rightarrow> int \<Rightarrow> 'p option" and ok :: "'s \<Rightarrow> bool"
    and read :: "int \<Rightarrow> 's \<Rightarrow> 'e + 'p \<times> 's" and evict :: "int \<Rightarrow> 's \<Rightarrow> 's" and store :: "int \<Rightarrow> 'p \<Rightarrow> 's \<Rightarrow> 's"
  assumes read_Some: "ok s \<Longrightarrow> view s p = Some c \<Longrightarrow> \<exists>s'. read p s = Inr (c, s') \<and> ok s' \<and> view s' = view s"
    and read_None: "view s p = None \<Longrightarrow> \<exists>e. read p s = Inl e"
    and evict_ok: "ok s \<Longrightarrow> ok (evict q s)"
    and evict_view: "ok s \<Longrightarrow> view s p = Some c \<Longrightarrow> view (evict q s) p = Some c"
    and store_ok: "ok s \<Longrightarrow> ok (store q d s)"
    and store_view: "view (store q d s) = (view s)(q \<mapsto> d)"
begin

lemma read_Inr:
  assumes "ok s" "read p s = Inr (c, s')"
  shows "view s p = Some c \<and> ok s' \<and> view s' = view s"
proof (cases "view s p")
  case None
  then show ?thesis using read_None [OF None] assms(2) by auto
next
  case (Some d)
  then show ?thesis using read_Some [OF assms(1) Some] assms(2) by auto
qed

text \<open>Any sequence of buffer replacements.\<close>

lemma evicts_keep:
  assumes "ok s"
  shows "ok (fold evict qs s) \<and> (\<forall>p c. view s p = Some c \<longrightarrow> view (fold evict qs s) p = Some c)"
  using assms
proof (induction qs arbitrary: s)
  case (Cons q qs)
  from Cons.IH [OF evict_ok [OF Cons.prems, of q]] show ?case
    using evict_view [OF Cons.prems] by auto
qed simp

lemma read_after_evicts:
  assumes "ok s" "read p s = Inr (c, s')"
  shows "\<exists>s''. read p (fold evict qs s) = Inr (c, s'')"
  using read_Inr [OF assms] evicts_keep [OF assms(1), of qs] read_Some by blast

end

section \<open>The store implements the interface\<close>

lemma internal_write_cases:
  obtains (dirty) p where "map_of (page_buffer ctl) pageno = Some (p, True)"
      "SlruInternalWritePage pageno ctl =
        (SlruPhysicalWritePage pageno p ctl)\<lparr>page_buffer := AList.update pageno (p, False) (page_buffer ctl)\<rparr>"
    | (clean) "SlruInternalWritePage pageno ctl = ctl" "\<And>p d. map_of (page_buffer ctl) pageno = Some (p, d) \<Longrightarrow> \<not> d"
proof (cases "map_of (page_buffer ctl) pageno")
  case None
  then show thesis using clean by (simp add: SlruInternalWritePage_def)
next
  case (Some b)
  obtain p d where b: "b = (p, d)" by (cases b)
  show thesis
  proof (cases d)
    case True
    then show thesis using dirty [of p] Some b by (simp add: SlruInternalWritePage_def)
  next
    case False
    then show thesis using clean Some b by (simp add: SlruInternalWritePage_def)
  qed
qed

lemma internal_write_ok:
  assumes "slru_ok ctl"
  shows "slru_ok (SlruInternalWritePage pageno ctl)"
proof (cases rule: internal_write_cases [of ctl pageno])
  case (dirty p)
  have "SlruPhysicalReadPage False (SlruPhysicalWritePage pageno p ctl) q' = Some p'"
    if "map_of (AList.update pageno (p, False) (page_buffer ctl)) q' = Some (p', False)" for q' p'
    using that assms phys_read_same [of False pageno p ctl] phys_read_other [of ctl q' p' pageno p]
    by (auto simp: slru_ok_def update_conv' split: if_splits)
  then show ?thesis by (simp add: dirty(2) slru_ok_def)
next
  case clean
  then show ?thesis using assms by simp
qed

lemma internal_write_buffer:
  "map_of (page_buffer (SlruInternalWritePage pageno ctl)) q =
    map_option (\<lambda>(p, d). (p, if q = pageno then False else d)) (map_of (page_buffer ctl) q)"
proof (cases rule: internal_write_cases [of ctl pageno])
  case (dirty p)
  then show ?thesis by (cases "map_of (page_buffer ctl) q") (auto simp: update_conv')
next
  case clean
  then show ?thesis by (cases "map_of (page_buffer ctl) q") (auto split: if_splits)
qed

lemma internal_write_phys:
  assumes "SlruPhysicalReadPage False ctl q = Some c" "map_of (page_buffer ctl) q = None"
  shows "SlruPhysicalReadPage False (SlruInternalWritePage pageno ctl) q = Some c"
proof (cases rule: internal_write_cases [of ctl pageno])
  case (dirty p)
  then show ?thesis using phys_read_other [OF assms(1), of pageno p] assms(2) by (cases "q = pageno") simp_all
next
  case clean
  then show ?thesis using assms by simp
qed

lemma internal_write_view:
  assumes "slru_ok ctl" "slru_view False ctl q = Some c"
  shows "slru_view False (SlruInternalWritePage pageno ctl) q = Some c"
  using assms internal_write_phys [of ctl q c pageno] by (auto simp: slru_view_def internal_write_buffer split: option.splits)

lemma slru_evict_view:
  assumes "slru_ok ctl" "slru_view False ctl q = Some c"
  shows "slru_view False (slru_evict pageno ctl) q = Some c"
proof -
  let ?w = "SlruInternalWritePage pageno ctl"
  have v: "slru_view False ?w q = Some c" by (rule internal_write_view [OF assms])
  show ?thesis
  proof (cases "q = pageno \<and> map_of (page_buffer ?w) q \<noteq> None")
    case True
    then obtain p d where b: "map_of (page_buffer ctl) q = Some (p, d)" "map_of (page_buffer ?w) q = Some (p, False)"
      using internal_write_buffer [of pageno ctl q] by (cases "map_of (page_buffer ctl) q") auto
    then have "SlruPhysicalReadPage False ?w q = Some p"
      using internal_write_ok [OF assms(1), of pageno] by (auto simp: slru_ok_def)
    moreover have "c = p" using v b by (simp add: slru_view_def)
    ultimately show ?thesis using True by (simp add: slru_evict_def slru_view_def Let_def delete_conv')
  next
    case False
    then show ?thesis using v by (auto simp: slru_evict_def slru_view_def Let_def delete_conv' split: option.splits)
  qed
qed

lemma slru_evict_ok: "slru_ok ctl \<Longrightarrow> slru_ok (slru_evict pageno ctl)"
  using internal_write_ok [of ctl pageno]
  by (auto simp: slru_evict_def slru_ok_def Let_def delete_conv' split: if_splits)

interpretation log_store: page_store "slru_view False" slru_ok "SimpleLruReadPage False" slru_evict slru_store
proof
  fix s p c assume "slru_ok s" "slru_view False s p = Some c"
  then show "\<exists>s'. SimpleLruReadPage False p s = Inr (c, s') \<and> slru_ok s' \<and> slru_view False s' = slru_view False s"
    by (cases "map_of (page_buffer s) p")
      (auto simp: slru_view_def SimpleLruReadPage_def slru_ok_def update_conv' fun_eq_iff split: if_splits option.splits)
next
  fix s p assume "slru_view False s p = None"
  then show "\<exists>e. SimpleLruReadPage False p s = Inl e"
    by (auto simp: slru_view_def SimpleLruReadPage_def split: option.splits)
next
  fix s q p c assume "slru_ok s" "slru_view False s p = Some c"
  then show "slru_view False (slru_evict q s) p = Some c" by (rule slru_evict_view)
next
  fix s q assume "slru_ok s"
  then show "slru_ok (slru_evict q s)" by (rule slru_evict_ok)
next
  fix s q d assume "slru_ok s"
  then show "slru_ok (slru_store q d s)" by (auto simp: slru_ok_def slru_store_def update_conv' split: if_splits)
next
  fix s q d show "slru_view False (slru_store q d s) = (slru_view False s)(q \<mapsto> d)"
    by (auto simp: slru_view_def slru_store_def update_conv' fun_eq_iff split: option.splits)
qed

lemma zero_page_view: "slru_view r (SimpleLruZeroPage pageno ctl) = (slru_view r ctl)(pageno \<mapsto> zero_page)"
  by (auto simp: slru_view_def SimpleLruZeroPage_def update_conv' fun_eq_iff split: option.splits)

lemma zero_page_ok: "slru_ok ctl \<Longrightarrow> slru_ok (SimpleLruZeroPage pageno ctl)"
  by (auto simp: slru_ok_def SimpleLruZeroPage_def update_conv' split: if_splits)

end
