(* ===== verification/Dlog_Model.thy ===== *)
theory Dlog_Model
  imports Slru
begin

text \<open>
  The distributed log of a segment, \<^verbatim>\<open>access/transam/distributedlog.c\<close>: for every local transaction
  id the id of the distributed transaction that committed it, or zero. Each operation runs under
  the control lock; the one variable that several processes change without it, the shared
  \<^verbatim>\<open>oldestXmin\<close>, is changed by an atomic compare-and-exchange, and what
  the others store there meanwhile is an argument of that operation. A process that replays the log has \<^verbatim>\<open>InRecovery\<close> set.
\<close>

section \<open>State\<close>

datatype dlog_record = DISTRIBUTEDLOG_ZEROPAGE int | DISTRIBUTEDLOG_TRUNCATE int | Other_record uint8

record dlog =
  DistributedLogCtl :: slru
  oldestXmin :: TransactionId
  xlog :: "dlog_record list"

datatype dlog_error =
    Dlog_slru_error slru_error
  | Dlog_xid_mismatch DistributedTransactionId DistributedTransactionId TransactionId
  | Dlog_oldestXmin_not_initialized
  | Dlog_unknown_op_code uint8

section \<open>Pages and entries\<close>

definition TransactionIdToPage :: "TransactionId \<Rightarrow> int" where
  "TransactionIdToPage localXid = uint localXid div int ENTRIES_PER_PAGE"

definition TransactionIdToEntry :: "TransactionId \<Rightarrow> nat" where
  "TransactionIdToEntry localXid = nat (uint localXid mod int ENTRIES_PER_PAGE)"

definition TransactionIdToSegment :: "TransactionId \<Rightarrow> int" where
  "TransactionIdToSegment localXid = uint localXid div (int ENTRIES_PER_PAGE * SLRU_PAGES_PER_SEGMENT)"

text \<open>The loop over the special ids at the end of \<^verbatim>\<open>AdvanceTransactionIdToNextPage\<close>.\<close>

function skip_special :: "TransactionId \<Rightarrow> TransactionId" where
  "skip_special xid = (if xid < FirstNormalTransactionId then skip_special (xid + 1) else xid)"
  by pat_completeness auto
termination
proof (relation "measure (\<lambda>xid. 3 - unat xid)")
  fix xid :: TransactionId assume a: "xid < FirstNormalTransactionId"
  then have "unat xid < 3" by (simp add: word_less_nat_alt)
  then have "unat (xid + 1) = unat xid + 1" by (simp add: unat_word_ariths)
  with \<open>unat xid < 3\<close> show "(xid + 1, xid) \<in> measure (\<lambda>xid. 3 - unat xid)" by simp
qed simp

declare skip_special.simps [simp del]

definition AdvanceTransactionIdToNextPage :: "TransactionId \<Rightarrow> TransactionId" where
  "AdvanceTransactionIdToNextPage xid =
     (let xid = xid + of_nat ENTRIES_PER_PAGE;
          xid = xid - xid mod of_nat ENTRIES_PER_PAGE
      in skip_special xid)"

definition DistributedLog_PagePrecedes :: "int \<Rightarrow> int \<Rightarrow> bool" where
  "DistributedLog_PagePrecedes page1 page2 =
     (let xid1 = word_of_int page1 * of_nat ENTRIES_PER_PAGE + FirstNormalTransactionId;
          xid2 = word_of_int page2 * of_nat ENTRIES_PER_PAGE + FirstNormalTransactionId
      in TransactionIdPrecedes xid1 xid2)"

section \<open>Access to the pages\<close>

text \<open>
  Reading a page, with \<^verbatim>\<open>SimpleLruReadPage\<close> or \<^verbatim>\<open>SimpleLruReadPage_ReadOnly\<close>, which return the same
  (lemma \<open>read_only_eq\<close>).
\<close>

definition dlog_read :: "bool \<Rightarrow> int \<Rightarrow> dlog \<Rightarrow> dlog_error + slru_page \<times> dlog" where
  "dlog_read InRecovery page s =
     (case SimpleLruReadPage InRecovery page (DistributedLogCtl s) of
        Inl e \<Rightarrow> Inl (Dlog_slru_error e)
      | Inr (p, ctl) \<Rightarrow> Inr (p, s\<lparr>DistributedLogCtl := ctl\<rparr>))"

definition DistributedLog_WriteZeroPageXlogRec :: "int \<Rightarrow> dlog \<Rightarrow> dlog" where
  "DistributedLog_WriteZeroPageXlogRec page s = s\<lparr>xlog := xlog s @ [DISTRIBUTEDLOG_ZEROPAGE page]\<rparr>"

definition DistributedLog_WriteTruncateXlogRec :: "int \<Rightarrow> dlog \<Rightarrow> dlog" where
  "DistributedLog_WriteTruncateXlogRec page s = s\<lparr>xlog := xlog s @ [DISTRIBUTEDLOG_TRUNCATE page]\<rparr>"

definition DistributedLog_ZeroPage :: "int \<Rightarrow> bool \<Rightarrow> dlog \<Rightarrow> dlog" where
  "DistributedLog_ZeroPage page writeXlog s =
     (let s = s\<lparr>DistributedLogCtl := SimpleLruZeroPage page (DistributedLogCtl s)\<rparr>
      in if writeXlog then DistributedLog_WriteZeroPageXlogRec page s else s)"

section \<open>Recording a commit\<close>

text \<open>The loop over the ids of one page: the entries, and whether one was set.\<close>

fun set_entries :: "TransactionId list \<Rightarrow> DistributedTransactionId \<Rightarrow> slru_page \<Rightarrow> bool \<Rightarrow> dlog_error + slru_page \<times> bool" where
  "set_entries [] distribXid ptr dirty = Inr (ptr, dirty)"
| "set_entries (x # xs) distribXid ptr dirty =
     (let entryno = TransactionIdToEntry x
      in if ptr entryno \<noteq> 0
         then if ptr entryno \<noteq> distribXid
              then Inl (Dlog_xid_mismatch (ptr entryno) distribXid x)
              else set_entries xs distribXid ptr dirty
         else set_entries xs distribXid (ptr(entryno := distribXid)) True)"

definition DistributedLog_SetCommittedWithinAPage ::
  "TransactionId list \<Rightarrow> DistributedTransactionId \<Rightarrow> bool \<Rightarrow> dlog \<Rightarrow> dlog_error + dlog" where
  "DistributedLog_SetCommittedWithinAPage localXid distribXid isRedo s =
     (let page = TransactionIdToPage (hd localXid);
          s = (if isRedo \<and> \<not> SimpleLruDoesPhysicalPageExist (DistributedLogCtl s) page
               then DistributedLog_ZeroPage page False s else s)
      in rbind (dlog_read isRedo page s) (\<lambda>(ptr, s).
           rbind (set_entries localXid distribXid ptr False) (\<lambda>(ptr, dirty).
             Inr (if dirty then s\<lparr>DistributedLogCtl := slru_store page ptr (DistributedLogCtl s)\<rparr> else s))))"

text \<open>
  The two loops of \<^verbatim>\<open>DistributedLog_SetCommittedByPages\<close>. The inner one reads \<^verbatim>\<open>subxids[i]\<close> before it tests
  \<open>i\<close>, so it reads one element past the array, \<open>beyond\<close>.
\<close>

function page_run :: "TransactionId list \<Rightarrow> TransactionId \<Rightarrow> int \<Rightarrow> nat \<Rightarrow> nat" where
  "page_run subxids beyond pageno i =
     (if TransactionIdToPage (if i < length subxids then subxids ! i else beyond) = pageno \<and> i < length subxids
      then page_run subxids beyond pageno (i + 1) else i)"
  by pat_completeness auto
termination by (relation "measure (\<lambda>(xs, b, p, i). length xs - i)") auto

declare page_run.simps [simp del]

lemma page_run_ge: "i \<le> page_run subxids beyond pageno i"
proof (induction subxids beyond pageno i rule: page_run.induct)
  case (1 subxids beyond pageno i)
  then show ?case by (subst page_run.simps) auto
qed

lemma page_run_start:
  assumes "i < length subxids"
  shows "i < page_run subxids beyond (TransactionIdToPage (subxids ! i)) i"
  using assms page_run_ge [of "i + 1" subxids beyond "TransactionIdToPage (subxids ! i)"]
  by (subst page_run.simps) simp

function set_by_pages ::
  "TransactionId list \<Rightarrow> TransactionId \<Rightarrow> DistributedTransactionId \<Rightarrow> bool \<Rightarrow> nat \<Rightarrow> dlog \<Rightarrow> dlog_error + dlog" where
  "set_by_pages subxids beyond distribXid isRedo i s =
     (if i < length subxids then
        let start_of_range = i;
            pageno = TransactionIdToPage (subxids ! start_of_range);
            i = page_run subxids beyond pageno i
        in rbind (DistributedLog_SetCommittedWithinAPage
               (take (i - start_of_range) (drop start_of_range subxids)) distribXid isRedo s)
             (set_by_pages subxids beyond distribXid isRedo i)
      else Inr s)"
  by pat_completeness auto
termination
proof (relation "measure (\<lambda>(xs, b, d, r, i, s). length xs - i)")
  fix subxids beyond distribXid isRedo i s x y z w
  assume "i < length (subxids :: TransactionId list)" "x = i" "y = TransactionIdToPage (subxids ! x)"
    "z = page_run subxids beyond y i"
  then show "((subxids, beyond, distribXid :: DistributedTransactionId, isRedo :: bool, z, w),
      subxids, beyond, distribXid, isRedo, i, s :: dlog) \<in> measure (\<lambda>(xs, b, d, r, i, s). length xs - i)"
    using page_run_start [of i subxids beyond] by simp
qed simp

declare set_by_pages.simps [simp del]

definition DistributedLog_SetCommittedByPages ::
  "TransactionId list \<Rightarrow> TransactionId \<Rightarrow> DistributedTransactionId \<Rightarrow> bool \<Rightarrow> dlog \<Rightarrow> dlog_error + dlog" where
  "DistributedLog_SetCommittedByPages subxids beyond distribXid isRedo s = set_by_pages subxids beyond distribXid isRedo 0 s"

definition DistributedLog_SetCommittedTree ::
  "bool \<Rightarrow> TransactionId \<Rightarrow> TransactionId list \<Rightarrow> TransactionId \<Rightarrow> DistributedTransactionId \<Rightarrow> bool \<Rightarrow> dlog \<Rightarrow> dlog_error + dlog" where
  "DistributedLog_SetCommittedTree IS_QUERY_DISPATCHER xid xids beyond distribXid isRedo s =
     (if IS_QUERY_DISPATCHER then Inr s
      else rbind (DistributedLog_SetCommittedWithinAPage [xid] distribXid isRedo s)
             (DistributedLog_SetCommittedByPages xids beyond distribXid isRedo))"

section \<open>Looking up a transaction\<close>

definition DistributedLog_GetDistributedXid :: "TransactionId \<Rightarrow> dlog \<Rightarrow> dlog_error + DistributedTransactionId \<times> dlog" where
  "DistributedLog_GetDistributedXid localXid s =
     rbind (dlog_read False (TransactionIdToPage localXid) s) (\<lambda>(ptr, s). Inr (ptr (TransactionIdToEntry localXid), s))"

definition DistributedLog_CommittedCheck :: "TransactionId \<Rightarrow> dlog \<Rightarrow> dlog_error + (bool \<times> DistributedTransactionId) \<times> dlog" where
  "DistributedLog_CommittedCheck localXid s =
     (if oldestXmin s = InvalidTransactionId then Inl Dlog_oldestXmin_not_initialized
      else if TransactionIdPrecedes localXid (oldestXmin s) then Inr ((False, 0), s)
      else rbind (dlog_read False (TransactionIdToPage localXid) s) (\<lambda>(ptr, s).
             let distribXid = ptr (TransactionIdToEntry localXid)
             in if distribXid \<noteq> 0 then Inr ((True, distribXid), s) else Inr ((False, distribXid), s)))"

text \<open>The first id of a page, and the loop from an id down to it.\<close>

definition page_floor :: "int \<Rightarrow> TransactionId" where
  "page_floor pageno =
     (let lowXid = word_of_int pageno * of_nat ENTRIES_PER_PAGE
      in if lowXid = InvalidTransactionId then FirstNormalTransactionId else lowXid)"

lemma page_floor_pos: "page_floor pageno \<noteq> 0"
  by (simp add: page_floor_def Let_def)

function scan_page :: "int \<Rightarrow> slru_page \<Rightarrow> TransactionId \<Rightarrow> TransactionId option" where
  "scan_page pageno ptr xid =
     (if page_floor pageno \<le> xid
      then if ptr (TransactionIdToEntry xid) \<noteq> 0 then Some xid else scan_page pageno ptr (xid - 1)
      else None)"
  by pat_completeness auto
termination
proof (relation "measure (\<lambda>(p, ptr, xid). unat xid)")
  fix pageno :: int and ptr :: slru_page and xid :: TransactionId
  assume "page_floor pageno \<le> xid"
  then have "xid \<noteq> 0" using page_floor_pos [of pageno] by auto
  then show "((pageno, ptr, xid - 1), pageno, ptr, xid) \<in> measure (\<lambda>(p, ptr, xid). unat xid)"
    by (simp add: unat_minus_one unat_gt_0)
qed simp

declare scan_page.simps [simp del]

lemma page_start_uint:
  "uint (word_of_int (TransactionIdToPage x) * of_nat ENTRIES_PER_PAGE :: TransactionId) = uint x div 4096 * 4096"
proof -
  have b: "0 \<le> uint x" "uint x < 2 ^ 32" using uint_lt2p [of x] by simp_all
  have q: "uint x div 4096 * 4096 \<le> uint x" by (simp add: minus_mod_eq_div_mult [symmetric])
  have "(uint x div 4096) mod 2 ^ 32 = uint x div 4096" using b by (intro mod_pos_pos_trivial) linarith+
  then have "uint (word_of_int (TransactionIdToPage x) :: TransactionId) = uint x div 4096"
    by (simp add: TransactionIdToPage_def ENTRIES_PER_PAGE_def uint_word_of_int)
  moreover have "(uint x div 4096 * 4096) mod 2 ^ 32 = uint x div 4096 * 4096"
    using order.strict_trans1 [OF q b(2)] by (intro mod_pos_pos_trivial) (simp_all add: pos_imp_zdiv_nonneg_iff)
  ultimately show ?thesis by (simp add: uint_word_ariths ENTRIES_PER_PAGE_def)
qed

lemma page_floor_le:
  assumes "page_floor (TransactionIdToPage highXid) \<noteq> FirstNormalTransactionId"
  shows "page_floor (TransactionIdToPage highXid) \<le> highXid"
proof -
  have "uint highXid div 4096 * 4096 \<le> uint highXid" by (simp add: minus_mod_eq_div_mult [symmetric])
  then show ?thesis using assms page_start_uint [of highXid] by (simp add: page_floor_def Let_def word_le_def split: if_splits)
qed

text \<open>The result flag, \<^verbatim>\<open>*indexXid\<close> and \<^verbatim>\<open>*distribXid\<close>.\<close>

function scan_prev :: "TransactionId \<Rightarrow> dlog \<Rightarrow> dlog_error + (bool \<times> TransactionId \<times> DistributedTransactionId) \<times> dlog" where
  "scan_prev highXid s =
     (let pageno = TransactionIdToPage highXid;
          lowXid = page_floor pageno
      in if \<not> SimpleLruDoesPhysicalPageExist (DistributedLogCtl s) pageno
         then Inr ((False, InvalidTransactionId, 0), s)
         else rbind (dlog_read False pageno s) (\<lambda>(ptr, s).
           case scan_page pageno ptr highXid of
             Some xid \<Rightarrow> Inr ((True, xid, ptr (TransactionIdToEntry xid)), s)
           | None \<Rightarrow> if lowXid = FirstNormalTransactionId then Inr ((False, InvalidTransactionId, 0), s)
                     else scan_prev (lowXid - 1) s))"
  by pat_completeness auto
termination
proof (relation "measure (\<lambda>(highXid, s). unat highXid)")
  fix highXid s pageno lowXid x ptr s'
  assume a: "pageno = TransactionIdToPage highXid" "lowXid = page_floor pageno" "lowXid \<noteq> FirstNormalTransactionId"
  then have "lowXid \<noteq> 0" "lowXid \<le> highXid" using page_floor_pos page_floor_le by auto
  then show "((lowXid - 1, s' :: dlog), highXid, s :: dlog) \<in> measure (\<lambda>(highXid, s). unat highXid)"
    by (simp add: unat_minus_one word_le_nat_alt) (metis Suc_pred le_less_trans lessI less_le_trans not_less unat_gt_0)
qed simp

declare scan_prev.simps [simp del]

definition DistributedLog_ScanForPrevCommitted ::
  "TransactionId \<Rightarrow> dlog \<Rightarrow> dlog_error + (bool \<times> TransactionId \<times> DistributedTransactionId) \<times> dlog" where
  "DistributedLog_ScanForPrevCommitted indexXid s =
     (if indexXid = InvalidTransactionId then Inr ((False, indexXid, 0), s)
      else let highXid = indexXid - 1
           in if highXid < FirstNormalTransactionId then Inr ((False, indexXid, 0), s) else scan_prev highXid s)"

section \<open>Truncation\<close>

definition DistributedLog_Truncate :: "TransactionId \<Rightarrow> dlog \<Rightarrow> dlog" where
  "DistributedLog_Truncate oldest s =
     (let cutoffPage = TransactionIdToPage oldest
      in if \<not> scan_report_presence DistributedLog_PagePrecedes cutoffPage (DistributedLogCtl s) then s
         else let s = DistributedLog_WriteTruncateXlogRec cutoffPage s
              in s\<lparr>DistributedLogCtl := SimpleLruTruncate DistributedLog_PagePrecedes cutoffPage (DistributedLogCtl s)\<rparr>)"

section \<open>The oldest xmin\<close>

text \<open>The loop over the entries, with the page read last.\<close>

lemma advance_scan_decreases:
  assumes "TransactionIdPrecedes x l" "TransactionIdPrecedes (TransactionIdAdvance x) l"
  shows "ahead (TransactionIdAdvance x) l < ahead x l"
proof (cases "TransactionIdIsNormal x \<and> TransactionIdIsNormal l")
  case True
  then show ?thesis using advance_precedes(1) assms(1) by simp
next
  case False
  then have "x < l" using assms(1) by (auto simp: TransactionIdPrecedes_def)
  have l: "TransactionIdIsNormal l"
    using assms advance_normal [of x] by (auto simp: TransactionIdPrecedes_def TransactionIdIsNormal_def not_le split: if_splits)
  with False have "\<not> 3 \<le> uint x" "3 \<le> uint l" by (simp_all add: normal_uint)
  then show ?thesis by (auto simp: ahead_cases advance_uint)
qed

function advance_scan :: "TransactionId \<Rightarrow> DistributedTransactionId \<Rightarrow> (int \<times> slru_page) option \<Rightarrow> TransactionId \<Rightarrow> dlog
    \<Rightarrow> dlog_error + TransactionId \<times> dlog" where
  "advance_scan oldestLocalXmin xminAll cache oldest s =
     (if TransactionIdPrecedes oldest oldestLocalXmin then
        let page = TransactionIdToPage oldest
        in rbind (case cache of
                    Some (currPage, entries) \<Rightarrow>
                      if page \<noteq> currPage then dlog_read False page s else Inr (entries, s)
                  | None \<Rightarrow> dlog_read False page s)
             (\<lambda>(entries, s).
                if xminAll \<le> entries (TransactionIdToEntry oldest) then Inr (oldest, s)
                else advance_scan oldestLocalXmin xminAll (Some (page, entries)) (TransactionIdAdvance oldest) s)
      else Inr (oldest, s))"
  by pat_completeness auto
termination
proof (relation "measure (\<lambda>(l, m, c, x, s). if TransactionIdPrecedes x l then 1 + nat (ahead x l) else 0)")
  fix l m c x page p s' and s :: dlog and q :: slru_page and t :: dlog
  assume "TransactionIdPrecedes x l"
  then show "((l, m :: DistributedTransactionId, Some (page :: int, q), TransactionIdAdvance x, t), l, m, c, x, s)
      \<in> measure (\<lambda>(l, m, c, x, s). if TransactionIdPrecedes x l then 1 + nat (ahead x l) else 0)"
    using advance_scan_decreases [of x l] ahead_bounds(1) [of "TransactionIdAdvance x" l] by auto
qed simp

declare advance_scan.simps [simp del]

text \<open>
  The compare-and-exchange loop. The shared variable holds \<open>cur\<close>; \<open>others\<close> are the values other processes
  store in it, one before each attempt. The results are the shared variable and the local one.
\<close>

function cas_loop :: "TransactionId \<Rightarrow> TransactionId \<Rightarrow> TransactionId \<Rightarrow> TransactionId list \<Rightarrow> TransactionId \<times> TransactionId" where
  "cas_loop expected new cur others =
     (let cur = (case others of [] \<Rightarrow> cur | w # _ \<Rightarrow> w)
      in if cur = expected then (new, new)
         else if TransactionIdPrecedesOrEquals new cur then (cur, cur)
         else cas_loop cur new cur (tl others))"
  by pat_completeness auto
termination
  by (relation "measure (\<lambda>(e, n, c, ws). 2 * length ws + (if e = c then 0 else 1))") (auto split: list.splits)

declare cas_loop.simps [simp del]

definition DistributedLog_AdvanceOldestXmin ::
  "TransactionId \<Rightarrow> DistributedTransactionId \<Rightarrow> TransactionId list \<Rightarrow> dlog \<Rightarrow> dlog_error + TransactionId \<times> dlog" where
  "DistributedLog_AdvanceOldestXmin oldestLocalXmin xminAllDistributedSnapshots others s =
     (let oldOldestXmin = oldestXmin s
      in rbind (advance_scan oldestLocalXmin xminAllDistributedSnapshots None oldOldestXmin s) (\<lambda>(oldest, s).
           let (shared, oldest) =
                 (if oldOldestXmin \<noteq> oldest then cas_loop oldOldestXmin oldest (oldestXmin s) others
                  else (oldestXmin s, oldest));
               s = s\<lparr>oldestXmin := shared\<rparr>;
               s = (if TransactionIdToSegment oldOldestXmin < TransactionIdToSegment oldest
                    then DistributedLog_Truncate oldest s else s)
           in Inr (oldest, s)))"

definition DistributedLog_GetOldestXmin :: "TransactionId \<Rightarrow> dlog \<Rightarrow> TransactionId" where
  "DistributedLog_GetOldestXmin oldestLocalXmin s =
     (let result = oldestXmin s
      in if result = InvalidTransactionId \<or> TransactionIdFollows result oldestLocalXmin then oldestLocalXmin else result)"

text \<open>The first id of the next page is at most a page and the special ids away.\<close>

lemma skip_special_eq: "skip_special x = (if x < 3 then 3 else x)"
proof -
  have "x < 3 \<Longrightarrow> x = 0 \<or> x = 1 \<or> x = 2"
    by (simp add: word_less_nat_alt word_unat_eq_iff) arith
  then show ?thesis
    by (cases "x < 3") (auto simp: skip_special.simps [of 0] skip_special.simps [of 1] skip_special.simps [of 2]
        skip_special.simps [of 3] skip_special.simps [of x])
qed

lemma next_page_uint:
  "uint (AdvanceTransactionIdToNextPage x) =
    (if (uint x div 4096 + 1) * 4096 = 2 ^ 32 then 3 else (uint x div 4096 + 1) * 4096)"
proof -
  define k r where "k = uint x div 4096" and "r = uint x mod 4096"
  have x: "uint x = 4096 * k + r" by (simp add: k_def r_def)
  have r: "0 \<le> r" "r < 4096" by (simp_all add: r_def)
  have "uint x < 2 ^ 32" using uint_lt2p [of x] by simp
  then have k: "k < 2 ^ 20" using x r by simp
  have k0: "0 \<le> k" by (simp add: k_def pos_imp_zdiv_nonneg_iff)
  note k = k0 k
  define j where "j = (if k + 1 = 2 ^ 20 then 0 else k + 1)"
  have "0 \<le> j" using k by (simp add: j_def)
  let ?y = "x + 4096 :: TransactionId"
  have "uint ?y = (uint x + 4096) mod 2 ^ 32" by (simp add: uint_word_ariths)
  also have "\<dots> = (4096 * (k + 1) + r) mod 2 ^ 32" by (simp add: x algebra_simps)
  also have "\<dots> = 4096 * j + r" using k r by (auto simp: mod_pos_pos_trivial j_def)
  finally have y: "uint ?y = 4096 * j + r" .
  have m: "uint (?y mod 4096) = r" using r by (simp add: uint_mod y mod_pos_pos_trivial)
  have "uint (?y - ?y mod 4096) = uint ?y - uint (?y mod 4096)"
    using y m \<open>0 \<le> j\<close> by (intro uint_sub_lem [THEN iffD1]) simp
  then have u: "uint (?y - ?y mod 4096) = 4096 * j" using y m by simp
  have "(k + 1) * 4096 = 2 ^ 32 \<longleftrightarrow> k + 1 = 2 ^ 20" by simp
  with u show ?thesis unfolding k_def [symmetric] using k
    by (auto simp: AdvanceTransactionIdToNextPage_def Let_def skip_special_eq ENTRIES_PER_PAGE_def word_less_def j_def)
qed

lemma next_page_step:
  "TransactionIdIsNormal (AdvanceTransactionIdToNextPage x)"
  "0 < ahead x (AdvanceTransactionIdToNextPage x)" "ahead x (AdvanceTransactionIdToNextPage x) \<le> 4099"
proof -
  define k r where "k = uint x div 4096" and "r = uint x mod 4096"
  have x: "uint x = 4096 * k + r" by (simp add: k_def r_def)
  have r: "0 \<le> r" "r < 4096" by (simp_all add: r_def)
  have "0 \<le> k" by (simp add: k_def pos_imp_zdiv_nonneg_iff)
  have u: "uint (AdvanceTransactionIdToNextPage x) = (if (k + 1) * 4096 = 2 ^ 32 then 3 else (k + 1) * 4096)"
    by (simp add: next_page_uint k_def)
  then show "TransactionIdIsNormal (AdvanceTransactionIdToNextPage x)" using \<open>0 \<le> k\<close> by (simp add: normal_uint)
  show "0 < ahead x (AdvanceTransactionIdToNextPage x)" "ahead x (AdvanceTransactionIdToNextPage x) \<le> 4099"
    using u x r \<open>0 \<le> k\<close> by (auto simp: ahead_cases)
qed

lemma next_page_decreases:
  assumes "\<not> TransactionIdFollows (AdvanceTransactionIdToNextPage x) l"
  shows "ahead (AdvanceTransactionIdToNextPage x) l < ahead x l"
proof -
  let ?y = "AdvanceTransactionIdToNextPage x"
  note y = next_page_step [of x]
  have l: "TransactionIdIsNormal l"
    using assms y(1) by (auto simp: TransactionIdFollows_def TransactionIdIsNormal_def not_le split: if_splits)
  have a: "ahead ?y l \<le> 2 ^ 31" using assms by (simp add: precedes_ahead [OF y(1) l])
  have "ahead x ?y + ahead ?y l < 2 ^ 32" using y(3) a by simp
  then show ?thesis using ahead_add [of x ?y l] y(2) by simp
qed

function init_oldest :: "slru \<Rightarrow> TransactionId \<Rightarrow> TransactionId \<Rightarrow> TransactionId" where
  "init_oldest ctl latestXid oldest =
     (if SimpleLruDoesPhysicalPageExist ctl (TransactionIdToPage oldest) then oldest
      else let xid = AdvanceTransactionIdToNextPage oldest
           in if TransactionIdFollows xid latestXid then TransactionIdAdvance latestXid
              else init_oldest ctl latestXid xid)"
  by pat_completeness auto
termination
proof (relation "measure (\<lambda>(c, l, x). nat (ahead x l))")
  fix ctl :: slru and l x y
  assume "y = AdvanceTransactionIdToNextPage x" "\<not> TransactionIdFollows y l"
  then have "ahead y l < ahead x l" using next_page_decreases by simp
  then show "((ctl, l, y), ctl, l, x) \<in> measure (\<lambda>(c, l, x). nat (ahead x l))"
    using ahead_bounds(1) [of y l] by simp
qed simp

declare init_oldest.simps [simp del]

definition DistributedLog_InitOldestXmin :: "TransactionId \<Rightarrow> TransactionId \<Rightarrow> dlog \<Rightarrow> dlog" where
  "DistributedLog_InitOldestXmin oldestXid latestCompletedXid s =
     s\<lparr>oldestXmin := init_oldest (DistributedLogCtl s) latestCompletedXid oldestXid\<rparr>"

section \<open>Startup, checkpoints and recovery\<close>

definition DistributedLog_ShmemBuffers :: "int \<Rightarrow> int" where
  "DistributedLog_ShmemBuffers NBuffers = min 128 (max 8 (NBuffers div 512))"

text \<open>Creating the shared memory, with \<^verbatim>\<open>SimpleLruInit\<close>: empty buffers over the files in the directory.\<close>

definition DistributedLog_ShmemInit :: "bool \<Rightarrow> bool \<Rightarrow> dlog \<Rightarrow> dlog" where
  "DistributedLog_ShmemInit IS_QUERY_DISPATCHER found s =
     (if IS_QUERY_DISPATCHER then s
      else if found then s
      else s\<lparr>DistributedLogCtl := (DistributedLogCtl s)\<lparr>page_buffer := [], latest_page_number := 0\<rparr>,
             oldestXmin := InvalidTransactionId\<rparr>)"

definition dlog_write_page :: "int \<Rightarrow> dlog \<Rightarrow> dlog" where
  "dlog_write_page page s = s\<lparr>DistributedLogCtl := SimpleLruWritePage page (DistributedLogCtl s)\<rparr>"

definition DistributedLog_BootStrap :: "bool \<Rightarrow> dlog \<Rightarrow> dlog" where
  "DistributedLog_BootStrap IS_QUERY_DISPATCHER s =
     (if IS_QUERY_DISPATCHER then s else dlog_write_page 0 (DistributedLog_ZeroPage 0 False s))"

abbreviation MaxTransactionId :: TransactionId where "MaxTransactionId \<equiv> 0xFFFFFFFF"

lemma page_range: "0 \<le> TransactionIdToPage x" "TransactionIdToPage x \<le> TransactionIdToPage MaxTransactionId"
  using uint_lt2p [of x] by (simp_all add: TransactionIdToPage_def ENTRIES_PER_PAGE_def pos_imp_zdiv_nonneg_iff)

text \<open>How many pages are left from \<open>c\<close> to \<open>e\<close>.\<close>

definition pages_left :: "int \<Rightarrow> int \<Rightarrow> int \<Rightarrow> nat" where
  "pages_left m e c =
     (if c < 0 then nat (2 * m + 2 - c)
      else let c = (if c > m then 0 else c) in nat (if c \<le> e then e - c else e + m + 1 - c))"

lemma pages_left_decreases:
  assumes "0 \<le> e" "e \<le> m" "c' = (if c > m then 0 else c)" "c' \<noteq> e"
  shows "pages_left m e (c' + 1) < pages_left m e c"
  using assms by (simp add: pages_left_def Let_def split: if_splits)

text \<open>The loop of \<^verbatim>\<open>DistributedLog_Startup\<close> over the pages from \<^verbatim>\<open>startPage\<close> round to \<^verbatim>\<open>endPage\<close>, the page of \<open>nextXid\<close>.\<close>

function zero_pages :: "TransactionId \<Rightarrow> int \<Rightarrow> dlog \<Rightarrow> dlog" where
  "zero_pages nextXid currentPage s =
     (let endPage = TransactionIdToPage nextXid;
          currentPage = (if currentPage > TransactionIdToPage MaxTransactionId then 0 else currentPage);
          s = DistributedLog_ZeroPage currentPage False s
      in if currentPage \<noteq> endPage then zero_pages nextXid (currentPage + 1) s else s)"
  by pat_completeness auto
termination
  by (relation "measure (\<lambda>(n, c, s). pages_left (TransactionIdToPage MaxTransactionId) (TransactionIdToPage n) c)")
    (simp_all add: pages_left_decreases page_range)

declare zero_pages.simps [simp del]

text \<open>\<open>convert\<close> is \<^verbatim>\<open>IsBinaryUpgrade || ConvertCoordinatorDataDirToSegment\<close>.\<close>

definition DistributedLog_Startup ::
  "bool \<Rightarrow> bool \<Rightarrow> bool \<Rightarrow> TransactionId \<Rightarrow> TransactionId \<Rightarrow> TransactionId \<Rightarrow> TransactionId \<Rightarrow> dlog \<Rightarrow> dlog_error + dlog" where
  "DistributedLog_Startup IS_QUERY_DISPATCHER convert InRecovery oldestActiveXid nextXid oldestXid latestCompletedXid s =
     (if IS_QUERY_DISPATCHER then Inr s
      else
        let startPage = TransactionIdToPage oldestActiveXid;
            endPage = TransactionIdToPage nextXid;
            s = s\<lparr>DistributedLogCtl := (DistributedLogCtl s)\<lparr>latest_page_number := endPage\<rparr>\<rparr>;
            s = (if convert
                 then zero_pages nextXid startPage
                   (s\<lparr>DistributedLogCtl := SimpleLruTruncate DistributedLog_PagePrecedes startPage (DistributedLogCtl s)\<rparr>)
                 else s);
            entryno = TransactionIdToEntry nextXid
        in rbind (if entryno \<noteq> 0 then
                    rbind (dlog_read InRecovery endPage s) (\<lambda>(ptr, s).
                      Inr (s\<lparr>DistributedLogCtl :=
                        slru_store endPage (\<lambda>i. if entryno \<le> i then 0 else ptr i) (DistributedLogCtl s)\<rparr>))
                  else Inr s)
             (\<lambda>s. Inr (DistributedLog_InitOldestXmin oldestXid latestCompletedXid s)))"

definition DistributedLog_Shutdown :: "bool \<Rightarrow> dlog \<Rightarrow> dlog" where
  "DistributedLog_Shutdown IS_QUERY_DISPATCHER s =
     (if IS_QUERY_DISPATCHER then s else s\<lparr>DistributedLogCtl := SimpleLruFlush (DistributedLogCtl s)\<rparr>)"

definition DistributedLog_CheckPoint :: "bool \<Rightarrow> dlog \<Rightarrow> dlog" where
  "DistributedLog_CheckPoint IS_QUERY_DISPATCHER s =
     (if IS_QUERY_DISPATCHER then s else s\<lparr>DistributedLogCtl := SimpleLruFlush (DistributedLogCtl s)\<rparr>)"

definition DistributedLog_Extend :: "bool \<Rightarrow> TransactionId \<Rightarrow> dlog \<Rightarrow> dlog" where
  "DistributedLog_Extend IS_QUERY_DISPATCHER newestXact s =
     (if IS_QUERY_DISPATCHER then s
      else if TransactionIdToEntry newestXact \<noteq> 0 \<and> newestXact \<noteq> FirstNormalTransactionId then s
      else DistributedLog_ZeroPage (TransactionIdToPage newestXact) True s)"

fun DistributedLog_redo :: "dlog_record \<Rightarrow> dlog \<Rightarrow> dlog_error + dlog" where
  "DistributedLog_redo (DISTRIBUTEDLOG_ZEROPAGE page) s = Inr (dlog_write_page page (DistributedLog_ZeroPage page False s))"
| "DistributedLog_redo (DISTRIBUTEDLOG_TRUNCATE page) s =
     (let ctl = (DistributedLogCtl s)\<lparr>latest_page_number := page\<rparr>
      in Inr (s\<lparr>DistributedLogCtl := SimpleLruTruncate DistributedLog_PagePrecedes page ctl\<rparr>))"
| "DistributedLog_redo (Other_record info) s = Inl (Dlog_unknown_op_code info)"

end
