(* ===== verification/Dlog_Entries.thy ===== *)
theory Dlog_Entries
  imports Dlog_Model
begin

text \<open>
  What the distributed log holds for a local transaction id, and how reading pages and recording
  commits change it.
\<close>

section \<open>Entries\<close>

definition dlog_ok :: "dlog \<Rightarrow> bool" where
  "dlog_ok s = slru_ok (DistributedLogCtl s)"

definition logged :: "dlog \<Rightarrow> TransactionId \<Rightarrow> DistributedTransactionId option" where
  "logged s x = map_option (\<lambda>p. p (TransactionIdToEntry x)) (slru_view False (DistributedLogCtl s) (TransactionIdToPage x))"

lemma entry_page_inj:
  assumes "TransactionIdToPage x = TransactionIdToPage y" "TransactionIdToEntry x = TransactionIdToEntry y"
  shows "x = y"
proof -
  have "uint x mod 4096 = uint y mod 4096"
    using assms(2) by (simp add: TransactionIdToEntry_def ENTRIES_PER_PAGE_def nat_eq_iff split: if_splits)
  moreover have "uint x div 4096 = uint y div 4096" using assms(1) by (simp add: TransactionIdToPage_def ENTRIES_PER_PAGE_def)
  ultimately show ?thesis by (metis mult_div_mod_eq word_uint_eq_iff)
qed

section \<open>Reading\<close>

lemma dlog_read_Inr:
  assumes "dlog_ok s" "dlog_read False page s = Inr (p, s')"
  shows "slru_view False (DistributedLogCtl s) page = Some p" "dlog_ok s'" "logged s' = logged s"
    "slru_view False (DistributedLogCtl s') = slru_view False (DistributedLogCtl s)"
    "oldestXmin s' = oldestXmin s" "xlog s' = xlog s"
    "segment_files (DistributedLogCtl s') = segment_files (DistributedLogCtl s)"
proof -
  from assms(2) obtain ctl where r: "SimpleLruReadPage False page (DistributedLogCtl s) = Inr (p, ctl)"
      and s': "s' = s\<lparr>DistributedLogCtl := ctl\<rparr>"
    by (auto simp: dlog_read_def split: sum.splits)
  have "segment_files ctl = segment_files (DistributedLogCtl s)"
    using r by (auto simp: SimpleLruReadPage_def split: option.splits)
  then show "slru_view False (DistributedLogCtl s) page = Some p" "dlog_ok s'" "logged s' = logged s"
    "slru_view False (DistributedLogCtl s') = slru_view False (DistributedLogCtl s)"
    "oldestXmin s' = oldestXmin s" "xlog s' = xlog s"
    "segment_files (DistributedLogCtl s') = segment_files (DistributedLogCtl s)"
    using log_store.read_Inr [OF _ r] assms(1) by (simp_all add: dlog_ok_def s' logged_def fun_eq_iff)
qed

lemma dlog_read_Some:
  assumes "dlog_ok s" "slru_view False (DistributedLogCtl s) page = Some p"
  obtains s' where "dlog_read False page s = Inr (p, s')"
  using log_store.read_Some [OF assms(1) [unfolded dlog_ok_def] assms(2)] by (auto simp: dlog_read_def)

lemma dlog_read_again:
  assumes "dlog_read False page s = Inr (p, s')"
  shows "dlog_read False page s' = Inr (p, s')"
    "dlog_read False page (s'\<lparr>DistributedLogCtl := slru_store page q (DistributedLogCtl s')\<rparr>) =
      Inr (q, s'\<lparr>DistributedLogCtl := slru_store page q (DistributedLogCtl s')\<rparr>)"
  using assms by (auto simp: dlog_read_def SimpleLruReadPage_def slru_store_def update_conv' split: option.splits sum.splits)

lemma GetDistributedXid_logged:
  assumes "dlog_ok s"
  shows "logged s x = Some d \<Longrightarrow> \<exists>s'. DistributedLog_GetDistributedXid x s = Inr (d, s')"
    "DistributedLog_GetDistributedXid x s = Inr (d, s') \<Longrightarrow> logged s x = Some d"
proof -
  assume "logged s x = Some d"
  then obtain p where p: "slru_view False (DistributedLogCtl s) (TransactionIdToPage x) = Some p" "p (TransactionIdToEntry x) = d"
    by (auto simp: logged_def)
  from dlog_read_Some [OF assms p(1)] obtain s' where "dlog_read False (TransactionIdToPage x) s = Inr (p, s')" .
  then show "\<exists>s'. DistributedLog_GetDistributedXid x s = Inr (d, s')"
    using p(2) by (simp add: DistributedLog_GetDistributedXid_def)
next
  assume "DistributedLog_GetDistributedXid x s = Inr (d, s')"
  then obtain p s1 where "dlog_read False (TransactionIdToPage x) s = Inr (p, s1)" "d = p (TransactionIdToEntry x)"
    by (auto simp: DistributedLog_GetDistributedXid_def rbind_Inr_iff)
  then show "logged s x = Some d" using dlog_read_Inr(1) [OF assms] by (simp add: logged_def)
qed

section \<open>Setting the entries of a page\<close>

lemma set_entries_dirty:
  "set_entries xs d p b = rbind (set_entries xs d p False) (\<lambda>(p', b'). Inr (p', b \<or> b'))"
proof (induction xs arbitrary: p b)
  case (Cons x xs)
  have "set_entries xs d q True = rbind (set_entries xs d q True) (\<lambda>(p', b'). Inr (p', b \<or> b'))" for q
    by (subst (1 2) Cons.IH) (cases "set_entries xs d q False"; auto)
  from this [of "p(TransactionIdToEntry x := d)"] show ?case using Cons.IH [of p b] by (simp add: Let_def)
qed simp

lemma set_entries_Cons:
  "set_entries (x # xs) d p False = rbind (set_entries [x] d p False) (\<lambda>(p', b'). set_entries xs d p' b')"
  by (simp add: Let_def)

lemma set_entries_Inr:
  "set_entries xs d p b = Inr (p', b') \<Longrightarrow>
    (\<forall>i. p' i = (if i \<in> TransactionIdToEntry ` set xs then d else p i)) \<and> (\<not> b' \<longrightarrow> p' = p)"
proof (induction xs arbitrary: p b)
  case (Cons x xs)
  let ?e = "TransactionIdToEntry x"
  show ?case
  proof (cases "p ?e = 0")
    case True
    then have "set_entries xs d (p(?e := d)) True = Inr (p', b')" using Cons.prems by (simp add: Let_def)
    moreover from this have "b'" by (subst (asm) set_entries_dirty) (auto simp: rbind_Inr_iff)
    ultimately show ?thesis using Cons.IH by auto
  next
    case False
    then have "p ?e = d" "set_entries xs d p b = Inr (p', b')" using Cons.prems by (simp_all add: Let_def split: if_splits)
    then show ?thesis using Cons.IH by auto
  qed
qed simp

lemma set_entries_ok:
  assumes "\<forall>x \<in> set xs. p (TransactionIdToEntry x) \<in> {0, d}"
  shows "\<exists>p' b'. set_entries xs d p b = Inr (p', b')"
  using assms
proof (induction xs arbitrary: p b)
  case (Cons x xs)
  then show ?case by (auto simp: Let_def)
qed simp

lemma set_entries_Inl:
  assumes "set_entries xs d p b = Inl e"
  shows "\<exists>x \<in> set xs. p (TransactionIdToEntry x) \<notin> {0, d} \<and> e = Dlog_xid_mismatch (p (TransactionIdToEntry x)) d x"
  using assms
proof (induction xs arbitrary: p b)
  case (Cons x xs)
  let ?e = "TransactionIdToEntry x"
  consider "p ?e = 0" | "p ?e = d" "p ?e \<noteq> 0" | "p ?e \<notin> {0, d}" by auto
  then show ?case
  proof cases
    case 1
    then have "set_entries xs d (p(?e := d)) True = Inl e" using Cons.prems by (simp add: Let_def)
    from Cons.IH [OF this] show ?thesis by (auto split: if_splits)
  next
    case 2
    then have "set_entries xs d p b = Inl e" using Cons.prems by (simp add: Let_def)
    from Cons.IH [OF this] show ?thesis by auto
  next
    case 3
    then show ?thesis using Cons.prems by (auto simp: Let_def)
  qed
qed simp

section \<open>Setting them page by page\<close>

definition store_entries :: "int \<Rightarrow> slru_page \<times> bool \<Rightarrow> dlog \<Rightarrow> dlog" where
  "store_entries page r s =
     (if snd r then s\<lparr>DistributedLogCtl := slru_store page (fst r) (DistributedLogCtl s)\<rparr> else s)"

lemma within_page_eq:
  "DistributedLog_SetCommittedWithinAPage xs d False s =
    rbind (dlog_read False (TransactionIdToPage (hd xs)) s) (\<lambda>(p, s).
      rbind (set_entries xs d p False) (\<lambda>r. Inr (store_entries (TransactionIdToPage (hd xs)) r s)))"
  by (simp add: DistributedLog_SetCommittedWithinAPage_def store_entries_def case_prod_unfold Let_def)

lemma within_page_Cons:
  assumes "TransactionIdToPage x = TransactionIdToPage y"
  shows "DistributedLog_SetCommittedWithinAPage (x # y # ys) d False s =
    rbind (DistributedLog_SetCommittedWithinAPage [x] d False s) (DistributedLog_SetCommittedWithinAPage (y # ys) d False)"
proof (cases "dlog_read False (TransactionIdToPage x) s")
  case (Inl e)
  then show ?thesis by (simp add: within_page_eq)
next
  case (Inr r)
  obtain p s1 where r: "r = (p, s1)" by (cases r)
  note again = dlog_read_again [OF Inr [unfolded r]]
  show ?thesis
  proof (cases "set_entries [x] d p False")
    case (Inl e)
    then show ?thesis using Inr r by (simp add: within_page_eq set_entries_Cons [of x "y # ys"] del: set_entries.simps)
  next
    case r1: (Inr r1)
    obtain p1 b1 where b1: "r1 = (p1, b1)" by (cases r1)
    have "\<not> b1 \<Longrightarrow> p1 = p" using set_entries_Inr [OF r1 [unfolded b1]] by blast
    then have read: "dlog_read False (TransactionIdToPage x) (store_entries (TransactionIdToPage x) (p1, b1) s1) =
        Inr (p1, store_entries (TransactionIdToPage x) (p1, b1) s1)"
      using again by (cases b1) (simp_all add: store_entries_def)
    have twice: "store_entries page r2 (store_entries page (p1, b1) s1) = store_entries page (fst r2, b1 \<or> snd r2) s1"
      if "\<not> snd r2 \<longrightarrow> fst r2 = p1" for page r2
      using that by (cases b1; cases "snd r2") (simp_all add: store_entries_def slru_store_def)
    have "rbind (set_entries (y # ys) d p1 b1) (\<lambda>r. Inr (store_entries (TransactionIdToPage x) r s1)) =
      rbind (set_entries (y # ys) d p1 False)
        (\<lambda>r. Inr (store_entries (TransactionIdToPage x) r (store_entries (TransactionIdToPage x) (p1, b1) s1)))"
    proof (cases "set_entries (y # ys) d p1 False")
      case (Inl e)
      then show ?thesis by (subst set_entries_dirty) simp
    next
      case r2: (Inr r2)
      obtain p2 b2 where b2: "r2 = (p2, b2)" by (cases r2)
      have "\<not> b2 \<longrightarrow> p2 = p1" using set_entries_Inr [OF r2 [unfolded b2]] by blast
      then show ?thesis using twice [of r2] r2 b2 by (subst set_entries_dirty) simp
    qed
    then show ?thesis using Inr r r1 b1 read assms
      by (simp add: within_page_eq set_entries_Cons [of x "y # ys"] del: set_entries.simps)
  qed
qed

text \<open>One id at a time.\<close>

primrec set_each :: "TransactionId list \<Rightarrow> DistributedTransactionId \<Rightarrow> dlog \<Rightarrow> dlog_error + dlog" where
  "set_each [] d s = Inr s"
| "set_each (x # xs) d s = rbind (DistributedLog_SetCommittedWithinAPage [x] d False s) (set_each xs d)"

lemma set_each_append: "set_each (xs @ ys) d s = rbind (set_each xs d s) (set_each ys d)"
  by (induction xs arbitrary: s) (simp_all add: rbind_assoc cong: rbind_cong)

lemma within_page_each:
  assumes "xs \<noteq> []" "\<forall>x \<in> set xs. TransactionIdToPage x = page"
  shows "DistributedLog_SetCommittedWithinAPage xs d False s = set_each xs d s"
  using assms
proof (induction xs arbitrary: s)
  case (Cons x xs)
  show ?case
  proof (cases xs)
    case (Cons y ys)
    then show ?thesis
      using Cons.IH Cons.prems within_page_Cons [of x y ys d s] by (simp del: set_each.simps add: set_each.simps(2) [of x] cong: rbind_cong)
  qed (simp cong: rbind_cong)
qed simp

lemma page_run_page:
  assumes "start \<le> i" "i \<le> length subxids" "\<forall>j. start \<le> j \<and> j < i \<longrightarrow> TransactionIdToPage (subxids ! j) = pageno"
  shows "page_run subxids beyond pageno i \<le> length subxids \<and>
    (\<forall>j. start \<le> j \<and> j < page_run subxids beyond pageno i \<longrightarrow> TransactionIdToPage (subxids ! j) = pageno)"
  using assms
proof (induction subxids beyond pageno i rule: page_run.induct)
  case (1 subxids beyond pageno i)
  show ?case
  proof (cases "i < length subxids \<and> TransactionIdToPage (subxids ! i) = pageno")
    case True
    have "\<forall>j. start \<le> j \<and> j < i + 1 \<longrightarrow> TransactionIdToPage (subxids ! j) = pageno"
      using "1.prems"(3) True by (auto simp: less_Suc_eq)
    then show ?thesis using 1 True by (subst (1 2) page_run.simps) simp
  next
    case False
    then show ?thesis using 1(2-4) by (subst (1 2) page_run.simps) auto
  qed
qed

lemma set_slice:
  assumes "x \<in> set (take (k - i) (drop i xs))" "k \<le> length xs" "\<forall>j. i \<le> j \<and> j < k \<longrightarrow> P (xs ! j)"
  shows "P x"
proof -
  obtain j where "j < k - i" "x = xs ! (i + j)"
    using assms(1,2) by (auto simp: in_set_conv_nth)
  then show ?thesis using assms(3) by simp
qed

lemma slice_split: "i \<le> k \<Longrightarrow> drop i xs = take (k - i) (drop i xs) @ drop k xs"
  by (metis append_take_drop_id drop_drop le_add_diff_inverse2)

lemma set_by_pages_each:
  "i \<le> length subxids \<Longrightarrow> set_by_pages subxids beyond d False i s = set_each (drop i subxids) d s"
proof (induction "length subxids - i" arbitrary: i s rule: less_induct)
  case less
  show ?case
  proof (cases "i < length subxids")
    case True
    define page where "page = TransactionIdToPage (subxids ! i)"
    define k where "k = page_run subxids beyond page i"
    have k: "i < k" using page_run_start [OF True] by (simp add: k_def page_def)
    have run: "k \<le> length subxids \<and> (\<forall>j. i \<le> j \<and> j < k \<longrightarrow> TransactionIdToPage (subxids ! j) = page)"
      unfolding k_def by (rule page_run_page) (use True in simp_all)
    let ?run = "take (k - i) (drop i subxids)"
    have "TransactionIdToPage x = page" if x: "x \<in> set ?run" for x
      by (rule set_slice [OF x, where P = "\<lambda>y. TransactionIdToPage y = page"]) (use run in simp_all)
    then have w: "DistributedLog_SetCommittedWithinAPage ?run d False s = set_each ?run d s"
      using k True by (intro within_page_each [of _ page]) simp_all
    have IH: "set_by_pages subxids beyond d False k t = set_each (drop k subxids) d t" for t
      using k run True by (intro less.hyps) (linarith | simp)+
    have e: "drop i subxids = ?run @ drop k subxids" using k by (intro slice_split) simp
    have "set_each (drop i subxids) d s = set_each (?run @ drop k subxids) d s"
      by (rule arg_cong [OF e, where f = "\<lambda>z. set_each z d s"])
    also have "\<dots> = rbind (set_each ?run d s) (set_by_pages subxids beyond d False k)"
      unfolding set_each_append using IH by (intro rbind_cong refl) simp
    finally show ?thesis
      using True w by (subst set_by_pages.simps) (simp add: Let_def page_def [symmetric] k_def [symmetric])
  next
    case False
    then show ?thesis using less.prems by (subst set_by_pages.simps) simp
  qed
qed

section \<open>What is recorded\<close>

definition dlog_evicts :: "int list \<Rightarrow> dlog \<Rightarrow> dlog" where
  "dlog_evicts qs s = s\<lparr>DistributedLogCtl := fold slru_evict qs (DistributedLogCtl s)\<rparr>"

lemma evicts_logged:
  assumes "dlog_ok s"
  shows "dlog_ok (dlog_evicts qs s)" "logged s x = Some d \<Longrightarrow> logged (dlog_evicts qs s) x = Some d"
  using log_store.evicts_keep [of "DistributedLogCtl s" qs] assms by (auto simp: dlog_ok_def dlog_evicts_def logged_def)

lemma store_logged:
  assumes "dlog_ok s"
  shows "dlog_ok (s\<lparr>DistributedLogCtl := slru_store page p (DistributedLogCtl s)\<rparr>)"
    "logged (s\<lparr>DistributedLogCtl := slru_store page p (DistributedLogCtl s)\<rparr>) y =
      (if TransactionIdToPage y = page then Some (p (TransactionIdToEntry y)) else logged s y)"
  using log_store.store_ok assms by (simp_all add: dlog_ok_def logged_def log_store.store_view)

lemma set_one_Inr:
  assumes ok: "dlog_ok s" and r: "DistributedLog_SetCommittedWithinAPage [x] d False s = Inr s'"
  shows "dlog_ok s' \<and> logged s' = (logged s)(x \<mapsto> d) \<and> oldestXmin s' = oldestXmin s \<and> xlog s' = xlog s"
proof -
  from r obtain p s1 p' b where read: "dlog_read False (TransactionIdToPage x) s = Inr (p, s1)"
      and e: "set_entries [x] d p False = Inr (p', b)" and s': "s' = store_entries (TransactionIdToPage x) (p', b) s1"
    by (auto simp: within_page_eq rbind_Inr_iff simp del: set_entries.simps)
  note s1 = dlog_read_Inr [OF ok read]
  have p': "p' = p(TransactionIdToEntry x := d)" using set_entries_Inr [OF e] by auto
  have "b \<or> p' = p" using set_entries_Inr [OF e] by blast
  moreover have "logged s y = Some (p (TransactionIdToEntry y))" if "TransactionIdToPage y = TransactionIdToPage x" for y
    using s1(1) that by (simp add: logged_def)
  ultimately have l: "logged s' y = (if TransactionIdToPage y = TransactionIdToPage x then Some (p' (TransactionIdToEntry y)) else logged s y)"
    for y
    using store_logged(2) [OF s1(2)] s1(3) unfolding s' by (auto simp: store_entries_def)
  have "logged s' y = ((logged s)(x \<mapsto> d)) y" for y
    using l [of y] p' s1(1) entry_page_inj [of y x] by (auto simp: logged_def)
  moreover have "dlog_ok s'" using store_logged(1) [OF s1(2)] s1(2) unfolding s' by (simp add: store_entries_def)
  ultimately show ?thesis using s1(5,6) by (auto simp: s' store_entries_def)
qed

lemma set_one_ok:
  assumes ok: "dlog_ok s" and l: "logged s x \<in> {Some 0, Some d}"
  shows "\<exists>s'. DistributedLog_SetCommittedWithinAPage [x] d False s = Inr s'"
proof -
  obtain p where p: "slru_view False (DistributedLogCtl s) (TransactionIdToPage x) = Some p" "p (TransactionIdToEntry x) \<in> {0, d}"
    using l by (auto simp: logged_def)
  from dlog_read_Some [OF ok p(1)] obtain s1 where "dlog_read False (TransactionIdToPage x) s = Inr (p, s1)" .
  then show ?thesis using p(2) by (auto simp: within_page_eq Let_def)
qed

lemma set_one_Inl:
  assumes ok: "dlog_ok s" and r: "DistributedLog_SetCommittedWithinAPage [x] d False s = Inl e"
  shows "logged s x = None \<and> (\<exists>q. e = Dlog_slru_error q) \<or>
    (\<exists>c. logged s x = Some c \<and> c \<noteq> 0 \<and> c \<noteq> d \<and> e = Dlog_xid_mismatch c d x)"
proof (cases "slru_view False (DistributedLogCtl s) (TransactionIdToPage x)")
  case None
  from log_store.read_None [OF None] obtain q where "SimpleLruReadPage False (TransactionIdToPage x) (DistributedLogCtl s) = Inl q" ..
  then show ?thesis using r None by (auto simp: within_page_eq dlog_read_def logged_def)
next
  case (Some p)
  from dlog_read_Some [OF ok Some] obtain s1 where "dlog_read False (TransactionIdToPage x) s = Inr (p, s1)" .
  then show ?thesis using r Some by (auto simp: within_page_eq Let_def logged_def split: if_splits)
qed

lemma set_each_Inr:
  "dlog_ok s \<Longrightarrow> set_each xs d s = Inr s' \<Longrightarrow>
    dlog_ok s' \<and> logged s' = (\<lambda>y. if y \<in> set xs then Some d else logged s y) \<and> oldestXmin s' = oldestXmin s \<and> xlog s' = xlog s"
proof (induction xs arbitrary: s)
  case (Cons x xs)
  from Cons.prems(2) obtain s1 where s1: "DistributedLog_SetCommittedWithinAPage [x] d False s = Inr s1" "set_each xs d s1 = Inr s'"
    by (auto simp: rbind_Inr_iff)
  from set_one_Inr [OF Cons.prems(1) s1(1)] Cons.IH [OF _ s1(2)] show ?case by (auto simp: fun_eq_iff)
qed simp

lemma set_each_ok:
  "dlog_ok s \<Longrightarrow> \<forall>x \<in> set xs. logged s x \<in> {Some 0, Some d} \<Longrightarrow> \<exists>s'. set_each xs d s = Inr s'"
proof (induction xs arbitrary: s)
  case (Cons x xs)
  have "logged s x \<in> {Some 0, Some d}" using Cons.prems(2) by simp
  from set_one_ok [OF Cons.prems(1) this] obtain s1 where s1: "DistributedLog_SetCommittedWithinAPage [x] d False s = Inr s1" ..
  from set_one_Inr [OF Cons.prems(1) s1] have "dlog_ok s1" "\<forall>x \<in> set xs. logged s1 x \<in> {Some 0, Some d}"
    using Cons.prems(2) by auto
  from Cons.IH [OF this] show ?case by (simp add: s1)
qed simp

lemma set_each_Inl:
  "dlog_ok s \<Longrightarrow> set_each xs d s = Inl e \<Longrightarrow> \<exists>x \<in> set xs. logged s x = None \<and> (\<exists>q. e = Dlog_slru_error q) \<or>
    (\<exists>c. logged s x = Some c \<and> c \<noteq> 0 \<and> c \<noteq> d \<and> e = Dlog_xid_mismatch c d x)"
proof (induction xs arbitrary: s)
  case (Cons x xs)
  from Cons.prems(2) consider "DistributedLog_SetCommittedWithinAPage [x] d False s = Inl e"
    | s1 where "DistributedLog_SetCommittedWithinAPage [x] d False s = Inr s1" "set_each xs d s1 = Inl e"
    by (auto simp: rbind_Inl_iff)
  then show ?case
  proof cases
    case 1
    from set_one_Inl [OF Cons.prems(1) 1] show ?thesis by auto
  next
    case 2
    note s1 = set_one_Inr [OF Cons.prems(1) 2(1)]
    from Cons.IH [OF _ 2(2)] s1 show ?thesis by (fastforce split: if_splits)
  qed
qed simp

lemma SetCommittedTree_each:
  "DistributedLog_SetCommittedTree False xid xids beyond d False s = set_each (xid # xids) d s"
  by (auto simp: DistributedLog_SetCommittedTree_def DistributedLog_SetCommittedByPages_def set_by_pages_each intro: rbind_cong)

end
