(* ===== verification/Slru_Files.thy ===== *)
theory Slru_Files
  imports Slru
begin

text \<open>
  What flushing the page store, restarting it and truncating it leave of the pages.
\<close>

section \<open>Flushing\<close>

lemma fold_write:
  assumes "slru_ok ctl"
  shows "slru_ok (fold SlruInternalWritePage qs ctl) \<and>
    (\<forall>q c. slru_view False ctl q = Some c \<longrightarrow> slru_view False (fold SlruInternalWritePage qs ctl) q = Some c) \<and>
    (\<forall>q. map_of (page_buffer (fold SlruInternalWritePage qs ctl)) q =
      map_option (\<lambda>(p, d). (p, if q \<in> set qs then False else d)) (map_of (page_buffer ctl) q))"
  using assms
proof (induction qs arbitrary: ctl)
  case Nil
  then show ?case by (simp add: option.map_ident case_prod_unfold)
next
  case (Cons q qs)
  note IH = Cons.IH [OF internal_write_ok [OF Cons.prems, of q]]
  have "map_option (\<lambda>(p, d). (p, if r \<in> set qs then False else d)) (map_of (page_buffer (SlruInternalWritePage q ctl)) r) =
      map_option (\<lambda>(p, d). (p, if r \<in> set (q # qs) then False else d)) (map_of (page_buffer ctl) r)" for r
    by (cases "map_of (page_buffer ctl) r") (auto simp: internal_write_buffer split: if_splits)
  then show ?case using IH internal_write_view [OF Cons.prems] by simp
qed

text \<open>After a flush the files alone hold every page.\<close>

lemma flush_durable:
  assumes "slru_ok ctl" "slru_view False ctl q = Some c"
  shows "SlruPhysicalReadPage False (SimpleLruFlush ctl) q = Some c"
proof -
  let ?f = "SimpleLruFlush ctl"
  note f = fold_write [OF assms(1), of "map fst (page_buffer ctl)", folded SimpleLruFlush_def]
  have v: "slru_view False ?f q = Some c" using f assms(2) by blast
  show ?thesis
  proof (cases "map_of (page_buffer ctl) q")
    case None
    then have "map_of (page_buffer ?f) q = None" using f by simp
    then show ?thesis using v by (simp add: slru_view_def)
  next
    case (Some b)
    then have "q \<in> set (map fst (page_buffer ctl))" by (metis domI dom_map_of_conv_image_fst image_set)
    then have b: "map_of (page_buffer ?f) q = Some (fst b, False)" using f Some by (simp add: case_prod_unfold)
    then have "SlruPhysicalReadPage False ?f q = Some (fst b)" using f by (simp add: slru_ok_def)
    moreover have "c = fst b" using v b by (simp add: slru_view_def)
    ultimately show ?thesis by simp
  qed
qed

section \<open>Truncation\<close>

lemma evicts_buffer:
  "map_of (page_buffer (fold slru_evict qs ctl)) q \<noteq> None \<Longrightarrow> q \<notin> set qs \<and> map_of (page_buffer ctl) q \<noteq> None"
proof (induction qs arbitrary: ctl)
  case (Cons r qs)
  have "map_of (page_buffer (slru_evict r ctl)) q \<noteq> None \<Longrightarrow> q \<noteq> r \<and> map_of (page_buffer ctl) q \<noteq> None"
    by (auto simp: slru_evict_def Let_def delete_conv' internal_write_buffer split: if_splits)
  then show ?case using Cons.IH [of "slru_evict r ctl"] Cons.prems by auto
qed simp

lemma map_of_filter_key: "map_of (filter (\<lambda>(k, _). P k) al) k = (if P k then map_of al k else None)"
  by (induction al) auto

lemma delete_cutoff_read:
  "SlruPhysicalReadPage False (scan_delete_cutoff PagePrecedes c ctl) q =
    (if SlruMayDeleteSegment PagePrecedes (q div SLRU_PAGES_PER_SEGMENT * SLRU_PAGES_PER_SEGMENT) c then None
     else SlruPhysicalReadPage False ctl q)"
  by (simp add: scan_delete_cutoff_def SlruPhysicalReadPage_def map_of_filter_key)

lemma delete_cutoff_buffer [simp]: "page_buffer (scan_delete_cutoff PagePrecedes c ctl) = page_buffer ctl"
  by (simp add: scan_delete_cutoff_def)

lemma truncate_view:
  assumes "slru_ok ctl" "slru_view False ctl q = Some v"
    and "\<not> SlruMayDeleteSegment PagePrecedes (q div SLRU_PAGES_PER_SEGMENT * SLRU_PAGES_PER_SEGMENT) c"
  shows "slru_view False (SimpleLruTruncate PagePrecedes c ctl) q = Some v"
proof -
  let ?e = "fold slru_evict (filter (\<lambda>p. PagePrecedes p c) (map fst (page_buffer ctl))) ctl"
  have "slru_view False ?e q = Some v" using log_store.evicts_keep [OF assms(1)] assms(2) by blast
  then have "slru_view False (scan_delete_cutoff PagePrecedes c ?e) q = Some v"
    using assms(3) by (auto simp: slru_view_def delete_cutoff_read split: option.splits)
  then show ?thesis using assms(2) by (simp add: SimpleLruTruncate_def)
qed

lemma truncate_ok:
  assumes "slru_ok ctl"
    and seg: "\<And>q. SlruMayDeleteSegment PagePrecedes (q div SLRU_PAGES_PER_SEGMENT * SLRU_PAGES_PER_SEGMENT) c \<Longrightarrow> PagePrecedes q c"
  shows "slru_ok (SimpleLruTruncate PagePrecedes c ctl)"
proof -
  let ?qs = "filter (\<lambda>p. PagePrecedes p c) (map fst (page_buffer ctl))"
  let ?e = "fold slru_evict ?qs ctl"
  have e: "slru_ok ?e" using log_store.evicts_keep [OF assms(1)] by blast
  have keep: "\<not> PagePrecedes q c" if b: "map_of (page_buffer ?e) q = Some x" for q x
  proof -
    have "q \<notin> set ?qs" "map_of (page_buffer ctl) q \<noteq> None" using evicts_buffer [of ?qs ctl q] b by auto
    then show ?thesis by (auto simp: map_of_eq_None_iff)
  qed
  have "SlruPhysicalReadPage False (scan_delete_cutoff PagePrecedes c ?e) q = Some p"
    if b: "map_of (page_buffer ?e) q = Some (p, False)" for q p
    using e b keep [OF b] seg [of q] by (auto simp: slru_ok_def delete_cutoff_read)
  then have "slru_ok (scan_delete_cutoff PagePrecedes c ?e)" by (simp add: slru_ok_def)
  then show ?thesis using assms(1) by (simp add: SimpleLruTruncate_def)
qed

end
