(* ===== verification/Dlog_Xmin.thy ===== *)
theory Dlog_Xmin
  imports Dlog_Entries Slru_Files
begin

text \<open>
  The oldest transaction id that a distributed snapshot may still need: how far it is advanced, how
  it is published, how it is found after a restart, and what truncating the log before it removes.
\<close>

section \<open>The scan\<close>

text \<open>Ids in the order they are assigned, starting from \<open>x\<close>.\<close>

lemma advance_split:
  assumes "TransactionIdIsNormal x" "TransactionIdIsNormal z" "z \<noteq> x"
  shows "ahead x z = ahead x (TransactionIdAdvance x) + ahead (TransactionIdAdvance x) z"
  using advance_next [OF assms(1,2)] ahead_diff [of x "TransactionIdAdvance x" z] assms(3) by auto

definition scanned :: "TransactionId \<Rightarrow> DistributedTransactionId \<Rightarrow> TransactionId \<Rightarrow> dlog \<Rightarrow> TransactionId \<Rightarrow> bool" where
  "scanned l m x s y \<longleftrightarrow> TransactionIdIsNormal y \<and>
     (if TransactionIdPrecedes x l
      then ahead x y \<le> ahead x l \<and> (y = l \<or> (\<exists>c. logged s y = Some c \<and> m \<le> c))
      else y = x) \<and>
     (\<forall>z. TransactionIdIsNormal z \<and> ahead x z < ahead x y \<longrightarrow> (\<exists>c. logged s z = Some c \<and> c < m))"

definition same_log :: "dlog \<Rightarrow> dlog \<Rightarrow> bool" where
  "same_log s s' \<longleftrightarrow> dlog_ok s' \<and> slru_view False (DistributedLogCtl s') = slru_view False (DistributedLogCtl s) \<and>
     segment_files (DistributedLogCtl s') = segment_files (DistributedLogCtl s) \<and> oldestXmin s' = oldestXmin s \<and> xlog s' = xlog s"

lemma same_log_refl: "dlog_ok s \<Longrightarrow> same_log s s"
  by (simp add: same_log_def)

lemma same_log_trans: "same_log s s1 \<Longrightarrow> same_log s1 s2 \<Longrightarrow> same_log s s2"
  by (simp add: same_log_def)

lemma same_log_logged: "same_log s s' \<Longrightarrow> logged s' = logged s"
  by (simp add: same_log_def logged_def fun_eq_iff)

lemma read_same_log: "dlog_ok s \<Longrightarrow> dlog_read False page s = Inr (p, s') \<Longrightarrow> same_log s s'"
  using dlog_read_Inr [of s page p s'] by (simp add: same_log_def)

lemma scanned_step:
  assumes n: "TransactionIdIsNormal x" "TransactionIdIsNormal l" and p: "TransactionIdPrecedes x l"
    and c: "logged s x = Some c" "c < m" and y: "scanned l m (TransactionIdAdvance x) s y"
  shows "scanned l m x s y"
proof -
  let ?x = "TransactionIdAdvance x"
  note a = advance_precedes [OF n p]
  have xl: "0 < ahead x l" "ahead x l \<le> 2 ^ 31" using p precedes_ahead(1) [OF n] by simp_all
  have ny: "TransactionIdIsNormal y" using y by (simp add: scanned_def)
  have yl: "ahead ?x y \<le> ahead ?x l" "y = l \<or> (\<exists>c. logged s y = Some c \<and> m \<le> c)"
  proof -
    have "y = l" if "\<not> TransactionIdPrecedes ?x l"
    proof -
      have "ahead ?x l = 0" using that a(2) ahead_bounds(1) [of ?x l] precedes_ahead(1) [of ?x l] n(2) by auto
      then show ?thesis using that y by (simp add: scanned_def ahead_eq_0)
    qed
    then show "ahead ?x y \<le> ahead ?x l" "y = l \<or> (\<exists>c. logged s y = Some c \<and> m \<le> c)"
      using y by (auto simp: scanned_def split: if_splits)
  qed
  have b: "0 < ahead x ?x" "ahead x ?x + ahead ?x y < 2 ^ 32" using advance_next [OF n(1,2)] a xl yl(1) by auto
  have xy: "ahead x y = ahead x ?x + ahead ?x y" by (rule ahead_add [OF b(2)])
  have "\<exists>c. logged s z = Some c \<and> c < m" if z: "TransactionIdIsNormal z" "ahead x z < ahead x y" for z
  proof (cases "z = x")
    case False
    then have "ahead ?x z < ahead ?x y" using advance_split [OF n(1) z(1)] z(2) xy by simp
    then show ?thesis using y z(1) by (simp add: scanned_def)
  qed (use c in simp)
  then show ?thesis using ny p yl xy a(3) by (simp add: scanned_def)
qed

lemma advance_scan_Inr:
  "advance_scan l m cache x s = Inr (y, s') \<Longrightarrow> dlog_ok s \<Longrightarrow> TransactionIdIsNormal x \<Longrightarrow> TransactionIdIsNormal l \<Longrightarrow>
   \<forall>page p. cache = Some (page, p) \<longrightarrow> slru_view False (DistributedLogCtl s) page = Some p \<Longrightarrow>
   scanned l m x s y \<and> same_log s s'"
proof (induction l m cache x s rule: advance_scan.induct)
  case (1 l m cache x s)
  note n = "1.prems"(3,4)
  show ?case
  proof (cases "TransactionIdPrecedes x l")
    case p: True
    let ?page = "TransactionIdToPage x"
    let ?read = "case cache of
        Some (currPage, entries) \<Rightarrow> if ?page \<noteq> currPage then dlog_read False ?page s else Inr (entries, s)
      | None \<Rightarrow> dlog_read False ?page s"
    from "1.prems"(1) p obtain e s1 where r: "?read = Inr (e, s1)"
      and k: "(if m \<le> e (TransactionIdToEntry x) then Inr (x, s1)
        else advance_scan l m (Some (?page, e)) (TransactionIdAdvance x) s1) = Inr (y, s')"
      by (subst (asm) advance_scan.simps) (auto simp: rbind_Inr_iff Let_def)
    have e: "slru_view False (DistributedLogCtl s) ?page = Some e" "same_log s s1"
      using r "1.prems"(2,5) dlog_read_Inr(1) [of s ?page e s1] read_same_log same_log_refl
      by (auto split: option.splits if_splits)
    have c: "logged s x = Some (e (TransactionIdToEntry x))" using e(1) by (simp add: logged_def)
    show ?thesis
    proof (cases "m \<le> e (TransactionIdToEntry x)")
      case True
      then show ?thesis using k p c e(2) n ahead_bounds(1) by (auto simp: scanned_def not_less [symmetric])
    next
      case False
      have s1: "dlog_ok s1" "slru_view False (DistributedLogCtl s1) = slru_view False (DistributedLogCtl s)"
        using e(2) by (simp_all add: same_log_def)
      have y: "scanned l m (TransactionIdAdvance x) s1 y" "same_log s1 s'"
        using "1.IH" [OF p refl r refl False] k False s1 e(1) n by simp_all
      have "scanned l m (TransactionIdAdvance x) s y"
        using y(1) unfolding scanned_def same_log_logged [OF e(2)] .
      then show ?thesis using scanned_step [OF n p c] False same_log_trans [OF e(2) y(2)] by (simp add: not_le)
    qed
  next
    case False
    then show ?thesis using "1.prems" by (subst (asm) advance_scan.simps) (simp add: scanned_def same_log_refl not_less ahead_bounds)
  qed
qed

lemma advance_scan_ok:
  "dlog_ok s \<Longrightarrow> TransactionIdIsNormal x \<Longrightarrow> TransactionIdIsNormal l \<Longrightarrow>
   \<forall>z. TransactionIdIsNormal z \<and> ahead x z < ahead x l \<longrightarrow> logged s z \<noteq> None \<Longrightarrow>
   \<exists>y s'. advance_scan l m cache x s = Inr (y, s')"
proof (induction l m cache x s rule: advance_scan.induct)
  case (1 l m cache x s)
  note n = "1.prems"(2,3)
  show ?case
  proof (cases "TransactionIdPrecedes x l")
    case p: True
    let ?page = "TransactionIdToPage x"
    let ?read = "case cache of
        Some (currPage, entries) \<Rightarrow> if ?page \<noteq> currPage then dlog_read False ?page s else Inr (entries, s)
      | None \<Rightarrow> dlog_read False ?page s"
    have xl: "0 < ahead x l" using p precedes_ahead(1) [OF n] by simp
    then have lx: "l \<noteq> x" by auto
    have "logged s x \<noteq> None" using "1.prems"(4) n xl by simp
    then obtain q where "slru_view False (DistributedLogCtl s) ?page = Some q" by (auto simp: logged_def)
    from dlog_read_Some [OF "1.prems"(1) this] obtain s0 where s0: "dlog_read False ?page s = Inr (q, s0)" .
    then have "\<exists>e s1. ?read = Inr (e, s1) \<and> same_log s s1"
      using read_same_log [OF "1.prems"(1)] same_log_refl [OF "1.prems"(1)] by (auto split: option.splits)
    then obtain e s1 where r: "?read = Inr (e, s1)" and s1: "same_log s s1" by blast
    have "\<exists>y s'. advance_scan l m (Some (?page, e)) (TransactionIdAdvance x) s1 = Inr (y, s')"
      if "\<not> m \<le> e (TransactionIdToEntry x)"
    proof (rule "1.IH" [OF p refl r refl that])
      have "logged s z \<noteq> None" if "TransactionIdIsNormal z" "ahead (TransactionIdAdvance x) z < ahead (TransactionIdAdvance x) l" for z
        using "1.prems"(4) that advance_split [OF n(1), of z] advance_split [OF n lx] xl by (cases "z = x") auto
      then show "\<forall>z. TransactionIdIsNormal z \<and> ahead (TransactionIdAdvance x) z < ahead (TransactionIdAdvance x) l \<longrightarrow> logged s1 z \<noteq> None"
        by (simp add: same_log_logged [OF s1])
    qed (use s1 n in \<open>simp_all add: same_log_def\<close>)
    then show ?thesis using p r by (subst advance_scan.simps) (simp add: Let_def)
  next
    case False
    then show ?thesis by (subst advance_scan.simps) simp
  qed
qed

section \<open>Publishing it\<close>

text \<open>Each value the shared variable held, the later of it and the new one is what the loop leaves.\<close>

lemma cas_loop_later:
  assumes "cas_loop expected new cur others = (shared, r)"
    and "TransactionIdIsNormal new" "ahead base new < 2 ^ 31"
    and "\<forall>w \<in> set (cur # others). TransactionIdIsNormal w \<and> ahead base w < 2 ^ 31"
    and "ahead base expected \<le> ahead base new"
  shows "r = shared \<and> (\<exists>v \<in> set (cur # others). r \<in> {new, v} \<and> ahead base r = max (ahead base new) (ahead base v))"
  using assms
proof (induction expected new cur others rule: cas_loop.induct)
  case (1 expected new cur others)
  let ?v = "case others of [] \<Rightarrow> cur | w # _ \<Rightarrow> w"
  have v: "?v \<in> set (cur # others)" by (cases others) simp_all
  then have w: "TransactionIdPrecedesOrEquals new ?v \<longleftrightarrow> ahead base new \<le> ahead base ?v"
    using "1.prems"(2-4) by (intro window_order(2)) auto
  consider "?v = expected" | "?v \<noteq> expected" "ahead base new \<le> ahead base ?v"
    | "?v \<noteq> expected" "\<not> ahead base new \<le> ahead base ?v" by blast
  then show ?case
  proof cases
    case 1
    then have "shared = new" "r = new" using "1.prems"(1) by (auto simp: cas_loop.simps [of expected] Let_def)
    then show ?thesis using "1.prems"(5) v 1 by (intro conjI bexI [of _ ?v]) simp_all
  next
    case 2
    then have "shared = ?v" "r = ?v" using "1.prems"(1) w by (auto simp: cas_loop.simps [of expected] Let_def)
    then show ?thesis using 2 v by (intro conjI bexI [of _ ?v]) simp_all
  next
    case 3
    then have rec: "cas_loop ?v new ?v (tl others) = (shared, r)" using "1.prems"(1) w by (simp add: cas_loop.simps [of expected] Let_def)
    have sub: "set (?v # tl others) \<subseteq> set (cur # others)" by (cases others) auto
    have "r = shared \<and> (\<exists>v \<in> set (?v # tl others). r \<in> {new, v} \<and> ahead base r = max (ahead base new) (ahead base v))"
      using "1.prems"(2-4) sub 3 w by (intro "1.IH" [OF refl 3(1) _ rec]) (auto simp del: set_simps)
    then show ?thesis using sub by blast
  qed
qed

section \<open>Truncation\<close>

lemma page_precedes_iff:
  "DistributedLog_PagePrecedes p q \<longleftrightarrow> 0 < (q - p) mod 2 ^ 20 \<and> (q - p) mod 2 ^ 20 \<le> 2 ^ 19"
proof -
  let ?x = "\<lambda>p. word_of_int p * of_nat ENTRIES_PER_PAGE + FirstNormalTransactionId :: TransactionId"
  have x: "?x p = word_of_int (p * 4096 + 3)" for p by (simp add: ENTRIES_PER_PAGE_def)
  have n: "TransactionIdIsNormal (?x p)" for p
  proof -
    have "(p * 4096 + 3) mod 2 ^ 32 = (p mod 2 ^ 20) * 4096 + 3"
    proof -
      have k: "0 \<le> p mod 2 ^ 20" "p mod 2 ^ 20 < 2 ^ 20" by simp_all
      have "p * 4096 + 3 = ((p mod 2 ^ 20) * 4096 + 3) + 2 ^ 32 * (p div 2 ^ 20)"
        by simp (use mult_div_mod_eq [of 1048576 p] in linarith)
      then have "(p * 4096 + 3) mod 2 ^ 32 = ((p mod 2 ^ 20) * 4096 + 3) mod 2 ^ 32" by (metis mod_mult_self2)
      also have "\<dots> = (p mod 2 ^ 20) * 4096 + 3" using k by (intro mod_pos_pos_trivial) simp_all
      finally show ?thesis .
    qed
    then have "uint (?x p) = (p mod 2 ^ 20) * 4096 + 3" unfolding x by (subst uint_word_of_int) simp
    then show ?thesis by (simp add: normal_uint)
  qed
  have d: "?x q - ?x p = word_of_int ((q - p) * 4096)" by (simp add: ENTRIES_PER_PAGE_def algebra_simps)
  have "ahead (?x p) (?x q) = ((q - p) * 4096) mod 2 ^ 32"
    unfolding ahead_def d by (subst uint_word_of_int) simp
  also have "\<dots> = ((q - p) mod 2 ^ 20) * 4096"
    using mult_mod_right [of 4096 "q - p" "2 ^ 20"] by (simp add: mult.commute)
  finally have a: "ahead (?x p) (?x q) = ((q - p) mod 2 ^ 20) * 4096" .
  show ?thesis unfolding DistributedLog_PagePrecedes_def Let_def precedes_ahead(1) [OF n n] a by simp
qed

text \<open>Every page of a segment that may be deleted precedes the cutoff page.\<close>

lemma may_delete_pages:
  assumes "SlruMayDeleteSegment DistributedLog_PagePrecedes (q div SLRU_PAGES_PER_SEGMENT * SLRU_PAGES_PER_SEGMENT) c"
  shows "DistributedLog_PagePrecedes q c"
proof -
  define b j where "b = q div 32 * 32" and "j = q mod 32"
  have q: "q = b + j" "0 \<le> j" "j < 32" by (simp_all add: b_def j_def)
  define d where "d = (c - b) mod 2 ^ 20"
  have d: "0 < d" "d \<le> 2 ^ 19" and last: "0 < (c - (b + 31)) mod 2 ^ 20" "(c - (b + 31)) mod 2 ^ 20 \<le> 2 ^ 19"
    using assms by (simp_all add: SlruMayDeleteSegment_def SLRU_PAGES_PER_SEGMENT_def page_precedes_iff b_def d_def Let_def algebra_simps)
  have shift: "(c - (b + i)) mod 2 ^ 20 = (d - i) mod 2 ^ 20" for i
    unfolding d_def mod_diff_left_eq by (simp add: algebra_simps)
  have "31 < d"
  proof (rule ccontr)
    assume a: "\<not> 31 < d"
    show False
    proof (cases "d = 31")
      case True
      then show False using last(1) shift [of 31] by simp
    next
      case False
      have "(d - 31) mod 2 ^ 20 = (d - 31 + 2 ^ 20) mod 2 ^ 20" by (rule mod_add_self2 [symmetric])
      also have "\<dots> = d - 31 + 2 ^ 20" using a d False by (intro mod_pos_pos_trivial) simp_all
      finally show False using last(2) shift [of 31] d by simp
    qed
  qed
  then have "(d - j) mod 2 ^ 20 = d - j" using q d by (intro mod_pos_pos_trivial) simp_all
  then show ?thesis using shift [of j] q d \<open>31 < d\<close> by (simp add: page_precedes_iff)
qed

text \<open>The page of an id in the half circle from \<open>r\<close>, but for its last page, does not precede the page of \<open>r\<close>.\<close>

lemma window_page:
  assumes "ahead r z \<le> 2 ^ 31 - 4096"
  shows "\<not> DistributedLog_PagePrecedes (TransactionIdToPage z) (TransactionIdToPage r)"
proof -
  define pr r0 pz z0 where "pr = uint r div 4096" and "r0 = uint r mod 4096" and "pz = uint z div 4096" and "z0 = uint z mod 4096"
  have e: "uint r = 4096 * pr + r0" "uint z = 4096 * pz + z0" by (simp_all add: pr_def r0_def pz_def z0_def)
  have o: "0 \<le> r0" "r0 < 4096" "0 \<le> z0" "z0 < 4096" by (simp_all add: r0_def z0_def)
  have b: "0 \<le> uint r" "uint r < 4294967296" "0 \<le> uint z" "uint z < 4294967296" using uint_lt2p [of r] uint_lt2p [of z] by simp_all
  have u: "pr \<le> 1048575" "pz \<le> 1048575" using e o b by linarith+
  have l: "0 \<le> pr" "0 \<le> pz" by (simp_all add: pr_def pz_def pos_imp_zdiv_nonneg_iff)
  have m: "(pr - pz) mod 1048576 = (if pr = pz then 0 else if pz < pr then pr - pz else pr - pz + 1048576)"
  proof (cases "pz \<le> pr")
    case True
    then have "(pr - pz) mod 1048576 = pr - pz" using u l by (intro mod_pos_pos_trivial) linarith+
    then show ?thesis using True by simp
  next
    case False
    then have "(pr - pz + 1048576) mod 1048576 = pr - pz + 1048576" using u l by (intro mod_pos_pos_trivial) linarith+
    then show ?thesis using False by simp
  qed
  have p: "TransactionIdToPage z = pz" "TransactionIdToPage r = pr" by (simp_all add: TransactionIdToPage_def ENTRIES_PER_PAGE_def pz_def pr_def)
  have a: "(if uint r \<le> uint z then uint z - uint r else uint z - uint r + 4294967296) \<le> 2147479552"
    using assms by (simp add: ahead_cases split: if_splits)
  show ?thesis unfolding page_precedes_iff p using a e o b by (auto simp: m split: if_splits)
qed

lemma Truncate_keeps:
  assumes "dlog_ok s"
  shows "dlog_ok (DistributedLog_Truncate r s)" "oldestXmin (DistributedLog_Truncate r s) = oldestXmin s"
    "ahead r z \<le> 2 ^ 31 - 4096 \<Longrightarrow> logged s z = Some c \<Longrightarrow> logged (DistributedLog_Truncate r s) z = Some c"
proof -
  show "dlog_ok (DistributedLog_Truncate r s)"
    using assms truncate_ok [of "DistributedLogCtl s" DistributedLog_PagePrecedes "TransactionIdToPage r"] may_delete_pages
    by (simp add: DistributedLog_Truncate_def DistributedLog_WriteTruncateXlogRec_def dlog_ok_def Let_def)
  show "oldestXmin (DistributedLog_Truncate r s) = oldestXmin s"
    by (simp add: DistributedLog_Truncate_def DistributedLog_WriteTruncateXlogRec_def Let_def)
  assume z: "ahead r z \<le> 2 ^ 31 - 4096" and "logged s z = Some c"
  then obtain p where p: "slru_view False (DistributedLogCtl s) (TransactionIdToPage z) = Some p" "p (TransactionIdToEntry z) = c"
    by (auto simp: logged_def)
  have "slru_view False (SimpleLruTruncate DistributedLog_PagePrecedes (TransactionIdToPage r) (DistributedLogCtl s)) (TransactionIdToPage z) = Some p"
    using truncate_view [OF _ p(1)] may_delete_pages window_page [OF z] assms by (auto simp: dlog_ok_def)
  then show "logged (DistributedLog_Truncate r s) z = Some c"
    using p by (simp add: DistributedLog_Truncate_def DistributedLog_WriteTruncateXlogRec_def logged_def Let_def)
qed

section \<open>Advancing the oldest xmin\<close>

lemma AdvanceOldestXmin_Inr:
  assumes r: "DistributedLog_AdvanceOldestXmin l m others s = Inr (r, s')" and ok: "dlog_ok s"
    and n: "TransactionIdIsNormal (oldestXmin s)" "TransactionIdIsNormal l" and l: "ahead (oldestXmin s) l < 2 ^ 31"
    and others: "\<forall>w \<in> set others. TransactionIdIsNormal w \<and> ahead (oldestXmin s) w < 2 ^ 31"
  shows "oldestXmin s' = r \<and> dlog_ok s' \<and>
    (\<exists>y. scanned l m (oldestXmin s) s y \<and> (r = y \<or> r \<in> set others \<and> ahead (oldestXmin s) y \<le> ahead (oldestXmin s) r)) \<and>
    (\<forall>z c. ahead r z \<le> 2 ^ 31 - 4096 \<and> logged s z = Some c \<longrightarrow> logged s' z = Some c)"
proof -
  let ?old = "oldestXmin s"
  from r obtain y s1 where y: "advance_scan l m None ?old s = Inr (y, s1)"
    and k: "(let (shared, oldest) = (if ?old \<noteq> y then cas_loop ?old y (oldestXmin s1) others else (oldestXmin s1, y));
        t = s1\<lparr>oldestXmin := shared\<rparr>
      in (oldest, if TransactionIdToSegment ?old < TransactionIdToSegment oldest then DistributedLog_Truncate oldest t else t)) = (r, s')"
    by (auto simp: DistributedLog_AdvanceOldestXmin_def rbind_Inr_iff Let_def case_prod_unfold)
  from advance_scan_Inr [OF y ok n] have sc: "scanned l m ?old s y" and s1: "same_log s s1" by simp_all
  have ny: "TransactionIdIsNormal y" "ahead ?old y < 2 ^ 31" using sc l by (auto simp: scanned_def split: if_splits)
  obtain shared oldest where so: "(if ?old \<noteq> y then cas_loop ?old y (oldestXmin s1) others else (oldestXmin s1, y)) = (shared, oldest)"
    by (cases "if ?old \<noteq> y then cas_loop ?old y (oldestXmin s1) others else (oldestXmin s1, y)")
  have "shared = oldest \<and> (oldest = y \<or> oldest \<in> set others \<and> ahead ?old y \<le> ahead ?old oldest)"
  proof (cases "?old = y")
    case False
    with so have "cas_loop ?old y ?old others = (shared, oldest)" using s1 by (simp add: same_log_def)
    have "oldest = shared \<and> (\<exists>v \<in> set (?old # others). oldest \<in> {y, v} \<and> ahead ?old oldest = max (ahead ?old y) (ahead ?old v))"
      by (rule cas_loop_later [OF \<open>cas_loop ?old y ?old others = _\<close> ny]) (use others n in \<open>simp_all add: ahead_bounds\<close>)
    then obtain v where
      "oldest = shared" "v \<in> set (?old # others)" "oldest \<in> {y, v}" "ahead ?old oldest = max (ahead ?old y) (ahead ?old v)"
      by blast
    then show ?thesis using False ahead_eq_0 [of ?old y] ahead_bounds(1) [of ?old y] by auto
  qed (use so s1 in \<open>simp add: same_log_def\<close>)
  moreover define t where "t = s1\<lparr>oldestXmin := shared\<rparr>"
  have "dlog_ok t" "logged t = logged s" using s1 same_log_logged [OF s1] by (simp_all add: t_def same_log_def dlog_ok_def logged_def fun_eq_iff)
  moreover have "r = oldest"
    "s' = (if TransactionIdToSegment ?old < TransactionIdToSegment oldest then DistributedLog_Truncate oldest t else t)"
    using k so by (auto simp: t_def Let_def)
  ultimately show ?thesis using sc Truncate_keeps [of t oldest] by (auto simp: t_def)
qed

section \<open>Finding it after a restart\<close>

lemma before_next_page:
  assumes "TransactionIdIsNormal z" "ahead x z < ahead x (AdvanceTransactionIdToNextPage x)"
  shows "TransactionIdToPage z = TransactionIdToPage x"
proof -
  define k r where "k = uint x div 4096" and "r = uint x mod 4096"
  have x: "uint x = 4096 * k + r" by (simp add: k_def r_def)
  have r: "0 \<le> r" "r < 4096" by (simp_all add: r_def)
  have z: "3 \<le> uint z" "uint z < 4294967296" using assms(1) uint_lt2p [of z] by (simp_all add: normal_uint)
  have "uint x < 4294967296" using uint_lt2p [of x] by simp
  then have k: "k \<le> 1048575" using x r by linarith
  have u: "uint (AdvanceTransactionIdToNextPage x) = (if (k + 1) * 4096 = 4294967296 then 3 else (k + 1) * 4096)"
    by (simp add: next_page_uint k_def)
  have "4096 * k \<le> uint z \<and> uint z < 4096 * k + 4096"
    using assms(2) u x r z k by (auto simp: ahead_cases split: if_splits)
  then have "uint z div 4096 = k" by (intro int_div_pos_eq [of _ _ _ "uint z - 4096 * k"]) simp_all
  then show ?thesis by (simp add: TransactionIdToPage_def ENTRIES_PER_PAGE_def k_def)
qed

definition log_starts :: "slru \<Rightarrow> TransactionId \<Rightarrow> TransactionId \<Rightarrow> TransactionId \<Rightarrow> bool" where
  "log_starts ctl latest x r \<longleftrightarrow> TransactionIdIsNormal r \<and> ahead x r \<le> ahead x latest + 4 \<and>
     (SimpleLruDoesPhysicalPageExist ctl (TransactionIdToPage r) \<or> r = TransactionIdAdvance latest) \<and>
     (\<forall>z. TransactionIdIsNormal z \<and> ahead x z < ahead x r \<and> ahead x z \<le> ahead x latest \<longrightarrow>
        \<not> SimpleLruDoesPhysicalPageExist ctl (TransactionIdToPage z))"

lemma advance_ahead:
  assumes "TransactionIdIsNormal l" "ahead x l < 2 ^ 31"
  shows "ahead x (TransactionIdAdvance l) \<le> ahead x l + 4"
proof -
  have "3 \<le> uint l" "uint l < 4294967296" using assms(1) uint_lt2p [of l] by (simp_all add: normal_uint)
  then have a: "ahead l (TransactionIdAdvance l) \<le> 4" by (auto simp: ahead_cases advance_uint)
  then show ?thesis using ahead_add [of x l "TransactionIdAdvance l"] assms(2) by simp
qed

lemma init_oldest_starts:
  "TransactionIdIsNormal x \<Longrightarrow> TransactionIdIsNormal latest \<Longrightarrow> ahead x latest < 2 ^ 31 \<Longrightarrow>
    log_starts ctl latest x (init_oldest ctl latest x)"
proof (induction ctl latest x rule: init_oldest.induct)
  case (1 ctl latest x)
  let ?y = "AdvanceTransactionIdToNextPage x"
  show ?case
  proof (cases "SimpleLruDoesPhysicalPageExist ctl (TransactionIdToPage x)")
    case True
    then show ?thesis using "1.prems" ahead_bounds(1) [of x latest] by (subst init_oldest.simps) (simp add: log_starts_def)
  next
    case gone: False
    note y = next_page_step [of x]
    have near: "\<not> SimpleLruDoesPhysicalPageExist ctl (TransactionIdToPage z)" if "TransactionIdIsNormal z" "ahead x z < ahead x ?y" for z
      using before_next_page [OF that] gone by simp
    show ?thesis
    proof (cases "TransactionIdFollows ?y latest")
      case True
      have "ahead x latest < ahead x ?y"
      proof (rule ccontr)
        assume "\<not> ?thesis"
        then have "ahead ?y latest = ahead x latest - ahead x ?y" by (intro ahead_diff) simp
        then show False using True y "1.prems" by (simp add: precedes_ahead(2) [OF y(1) "1.prems"(2)])
      qed
      then show ?thesis using True gone near advance_ahead [OF "1.prems"(2,3)] by (subst init_oldest.simps) (auto simp: log_starts_def)
    next
      case False
      let ?r = "init_oldest ctl latest ?y"
      have le: "ahead ?y latest \<le> 2 ^ 31" using False precedes_ahead(2) [OF y(1) "1.prems"(2)] by simp
      have xl: "ahead x latest = ahead x ?y + ahead ?y latest" by (rule ahead_add) (use le y(3) in simp)
      then have IH: "log_starts ctl latest ?y ?r" using "1.IH" [OF gone refl False] "1.prems" y by simp
      have xr: "ahead x ?r = ahead x ?y + ahead ?y ?r" by (rule ahead_add) (use IH le y(3) in \<open>simp add: log_starts_def\<close>)
      have "\<not> SimpleLruDoesPhysicalPageExist ctl (TransactionIdToPage z)"
        if z: "TransactionIdIsNormal z" "ahead x z < ahead x ?r" "ahead x z \<le> ahead x latest" for z
      proof (cases "ahead x z < ahead x ?y")
        case False
        then have "ahead ?y z = ahead x z - ahead x ?y" by (intro ahead_diff) simp
        then show ?thesis using IH z xr xl by (simp add: log_starts_def)
      qed (use near z in blast)
      then show ?thesis using IH False gone xr xl by (subst (1) init_oldest.simps) (simp add: log_starts_def)
    qed
  qed
qed

end
