(* ===== verification/Dlog_Scan.thy ===== *)
theory Dlog_Scan
  imports Dlog_Xmin
begin

text \<open>
  The scan of the distributed log for the previous committed transaction.
\<close>

lemma word_pred:
  assumes "(l :: TransactionId) \<le> x" "l \<noteq> 0"
  shows "z \<le> x \<longleftrightarrow> z = x \<or> z \<le> x - 1" "x - 1 < x"
proof -
  have "x \<noteq> 0" using assms by auto
  then have "unat (x - 1) = unat x - 1" "0 < unat x" by (simp_all add: unat_minus_one unat_gt_0)
  then show "z \<le> x \<longleftrightarrow> z = x \<or> z \<le> x - 1" "x - 1 < x"
    by (auto simp: word_le_nat_alt word_less_nat_alt word_unat_eq_iff)
qed

lemma scan_page_Some:
  "scan_page page p h = Some x \<Longrightarrow> page_floor page \<le> x \<and> x \<le> h \<and> p (TransactionIdToEntry x) \<noteq> 0 \<and>
    (\<forall>z. x < z \<and> z \<le> h \<longrightarrow> p (TransactionIdToEntry z) = 0)"
proof (induction page p h rule: scan_page.induct)
  case (1 page p h)
  show ?case
  proof (cases "page_floor page \<le> h \<and> p (TransactionIdToEntry h) = 0")
    case True
    then have "scan_page page p (h - 1) = Some x" using "1.prems" by (simp add: scan_page.simps [of page p h])
    from "1.IH" [OF _ _ this] True word_pred [of "page_floor page" h] page_floor_pos [of page] show ?thesis by fastforce
  next
    case False
    then show ?thesis using "1.prems" by (auto simp: scan_page.simps [of page p h] split: if_splits)
  qed
qed

lemma scan_page_None:
  "scan_page page p h = None \<Longrightarrow> \<forall>z. page_floor page \<le> z \<and> z \<le> h \<longrightarrow> p (TransactionIdToEntry z) = 0"
proof (induction page p h rule: scan_page.induct)
  case (1 page p h)
  show ?case
  proof (cases "page_floor page \<le> h")
    case True
    then have "p (TransactionIdToEntry h) = 0" "scan_page page p (h - 1) = None"
      using "1.prems" by (simp_all add: scan_page.simps [of page p h] split: if_splits)
    then show ?thesis using "1.IH" True word_pred(1) [of "page_floor page" h] page_floor_pos [of page] by auto
  next
    case False
    then show ?thesis by auto
  qed
qed

lemma floor_page:
  assumes "page_floor (TransactionIdToPage h) \<le> z" "z \<le> h"
  shows "TransactionIdToPage z = TransactionIdToPage h"
proof -
  have "uint h div 4096 * 4096 \<le> uint z"
    using assms(1) page_start_uint [of h] by (auto simp: page_floor_def Let_def word_le_def uint_0_iff split: if_splits)
  then have "uint h div 4096 \<le> uint z div 4096" using zdiv_mono1 [of _ "uint z" 4096] by fastforce
  moreover have "uint z div 4096 \<le> uint h div 4096" using assms(2) by (intro zdiv_mono1) (simp_all add: word_le_def)
  ultimately show ?thesis by (simp add: TransactionIdToPage_def ENTRIES_PER_PAGE_def)
qed

text \<open>What the scan from \<open>h\<close> downwards finds.\<close>

definition scan_result :: "dlog \<Rightarrow> TransactionId \<Rightarrow> bool \<times> TransactionId \<times> DistributedTransactionId \<Rightarrow> bool" where
  "scan_result s h r = (case r of (found, x, d) \<Rightarrow>
     if found then x \<le> h \<and> logged s x = Some d \<and> d \<noteq> 0 \<and> (\<forall>z. x < z \<and> z \<le> h \<longrightarrow> logged s z = Some 0)
     else x = InvalidTransactionId \<and> d = 0 \<and>
       (\<exists>lo. (\<forall>z. lo < z \<and> z \<le> h \<longrightarrow> logged s z = Some 0) \<and>
         (lo < FirstNormalTransactionId \<or> \<not> SimpleLruDoesPhysicalPageExist (DistributedLogCtl s) (TransactionIdToPage lo))))"

lemma scan_result_extend:
  assumes "scan_result s (l - 1) r" "l \<le> h" "l \<noteq> 0" "\<forall>z. l \<le> z \<and> z \<le> h \<longrightarrow> logged s z = Some 0"
  shows "scan_result s h r"
proof -
  obtain found x d where r: "r = (found, x, d)" by (cases r)
  have less: "l - 1 < l" by (rule word_pred(2) [OF order_refl assms(3)])
  have ext: "\<forall>z. y < z \<and> z \<le> h \<longrightarrow> logged s z = Some 0" if "\<forall>z. y < z \<and> z \<le> l - 1 \<longrightarrow> logged s z = Some 0" for y
    using that assms(4) word_pred(1) [OF order_refl assms(3)] by (metis linear)
  show ?thesis
  proof (cases found)
    case True
    then show ?thesis using assms(1,2) less ext unfolding r scan_result_def by (auto intro: order_trans less_imp_le)
  next
    case False
    then show ?thesis using assms(1) ext unfolding r scan_result_def by auto
  qed
qed

lemma scan_prev_result:
  "scan_prev h s = Inr (r, s') \<Longrightarrow> dlog_ok s \<Longrightarrow> scan_result s h r \<and> same_log s s'"
proof (induction h s rule: scan_prev.induct)
  case (1 h s)
  let ?page = "TransactionIdToPage h"
  let ?lo = "page_floor ?page"
  show ?case
  proof (cases "SimpleLruDoesPhysicalPageExist (DistributedLogCtl s) ?page")
    case False
    then have "r = (False, InvalidTransactionId, 0)" "s' = s" using "1.prems"(1) by (auto simp: scan_prev.simps [of h s] Let_def)
    then show ?thesis using False "1.prems"(2) by (auto simp: scan_result_def same_log_refl not_less intro!: exI [of _ h])
  next
    case page: True
    from "1.prems"(1) page obtain p s1 where read: "dlog_read False ?page s = Inr (p, s1)"
      and k: "(case scan_page ?page p h of Some xid \<Rightarrow> Inr ((True, xid, p (TransactionIdToEntry xid)), s1)
         | None \<Rightarrow> if ?lo = FirstNormalTransactionId then Inr ((False, InvalidTransactionId, 0), s1) else scan_prev (?lo - 1) s1) = Inr (r, s')"
      by (auto simp: scan_prev.simps [of h s] Let_def rbind_Inr_iff)
    have s1: "same_log s s1" by (rule read_same_log [OF "1.prems"(2) read])
    have l: "logged s z = Some (p (TransactionIdToEntry z))" if "?lo \<le> z" "z \<le> h" for z
      using floor_page [OF that] dlog_read_Inr(1) [OF "1.prems"(2) read] by (simp add: logged_def)
    show ?thesis
    proof (cases "scan_page ?page p h")
      case (Some x)
      then have r: "r = (True, x, p (TransactionIdToEntry x))" "s' = s1" using k by auto
      from scan_page_Some [OF Some] have x: "?lo \<le> x" "x \<le> h" "p (TransactionIdToEntry x) \<noteq> 0"
          "\<forall>z. x < z \<and> z \<le> h \<longrightarrow> p (TransactionIdToEntry z) = 0" by blast+
      have "logged s z = Some 0" if "x < z" "z \<le> h" for z
        using l [of z] x(1,4) that by auto
      then show ?thesis using r x l [of x] s1 by (simp add: scan_result_def)
    next
      case None
      have z: "\<forall>z. ?lo \<le> z \<and> z \<le> h \<longrightarrow> logged s z = Some 0" using scan_page_None [OF None] l by auto
      show ?thesis
      proof (cases "?lo = FirstNormalTransactionId")
        case True
        have "3 \<le> z" if "(2 :: TransactionId) < z" for z using that by (simp add: word_le_nat_alt word_less_nat_alt)
        then show ?thesis using k None True z s1 by (auto simp: scan_result_def intro!: exI [of _ 2])
      next
        case False
        have lo: "?lo \<le> h" by (rule page_floor_le [OF False])
        have k': "scan_prev (?lo - 1) s1 = Inr (r, s')" using k None False by simp
        have "scan_result s1 (?lo - 1) r \<and> same_log s1 s'"
          using "1.IH" [OF refl refl _ read refl None False k'] page s1 by (simp add: same_log_def)
        moreover have "scan_result s1 (?lo - 1) r = scan_result s (?lo - 1) r"
          using s1 same_log_logged [OF s1] by (simp add: scan_result_def SimpleLruDoesPhysicalPageExist_def same_log_def)
        ultimately show ?thesis using scan_result_extend [OF _ lo page_floor_pos z] same_log_trans [OF s1] by blast
      qed
    qed
  qed
qed

end
