(* ===== verification/Dlog_Steps.thy ===== *)
theory Dlog_Steps
  imports Dlog_Scan
begin

text \<open>
  The distributed log as a state machine: from a freshly installed segment, every operation of the
  component, buffer replacement and restarts, and that the buffers agree with the files throughout.
\<close>

section \<open>Operations keep the buffers consistent\<close>

lemma zero_page_dlog_ok [wf_intros]: "dlog_ok s \<Longrightarrow> dlog_ok (DistributedLog_ZeroPage page writeXlog s)"
  by (simp add: dlog_ok_def DistributedLog_ZeroPage_def DistributedLog_WriteZeroPageXlogRec_def zero_page_ok Let_def)

lemma write_page_dlog_ok [wf_intros]: "dlog_ok s \<Longrightarrow> dlog_ok (dlog_write_page page s)"
  by (simp add: dlog_ok_def dlog_write_page_def internal_write_ok)

lemma store_dlog_ok [wf_intros]: "dlog_ok s \<Longrightarrow> dlog_ok (s\<lparr>DistributedLogCtl := slru_store page p (DistributedLogCtl s)\<rparr>)"
  by (rule store_logged(1))

lemma physical_read:
  "SimpleLruDoesPhysicalPageExist ctl page \<Longrightarrow> SlruPhysicalReadPage True ctl page = SlruPhysicalReadPage False ctl page"
  by (simp add: SimpleLruDoesPhysicalPageExist_def SlruPhysicalReadPage_def split: option.splits)

lemma recovery_read_ok:
  assumes "dlog_ok s" "dlog_read r page s = Inr (p, s')"
    and "r \<longrightarrow> SimpleLruDoesPhysicalPageExist (DistributedLogCtl s) page \<or> map_of (page_buffer (DistributedLogCtl s)) page \<noteq> None"
  shows "dlog_ok s'"
proof -
  have "dlog_read r page s = dlog_read False page s"
    using assms(3) by (cases r) (auto simp: dlog_read_def SimpleLruReadPage_def physical_read split: option.splits)
  then show ?thesis using dlog_read_Inr(2) assms(1,2) by metis
qed

lemma within_page_ok:
  assumes "dlog_ok s" "DistributedLog_SetCommittedWithinAPage xs d isRedo s = Inr s'"
  shows "dlog_ok s'"
proof -
  let ?page = "TransactionIdToPage (hd xs)"
  let ?s = "if isRedo \<and> \<not> SimpleLruDoesPhysicalPageExist (DistributedLogCtl s) ?page then DistributedLog_ZeroPage ?page False s else s"
  from assms(2) obtain x where x: "dlog_read isRedo ?page ?s = Inr x"
      and "\<exists>y. set_entries xs d (fst x) False = Inr y \<and>
        s' = (if snd y then (snd x)\<lparr>DistributedLogCtl := slru_store ?page (fst y) (DistributedLogCtl (snd x))\<rparr> else snd x)"
    unfolding DistributedLog_SetCommittedWithinAPage_def Let_def rbind_Inr_iff case_prod_unfold by auto
  then obtain p' b where s': "s' = (if b then (snd x)\<lparr>DistributedLogCtl := slru_store ?page p' (DistributedLogCtl (snd x))\<rparr> else snd x)"
    by blast
  obtain p s1 where x1: "x = (p, s1)" by (cases x)
  note read = x [unfolded x1] and s' = s' [unfolded x1 snd_conv]
  have "dlog_ok ?s" using assms(1) zero_page_dlog_ok by simp
  moreover have "isRedo \<longrightarrow> SimpleLruDoesPhysicalPageExist (DistributedLogCtl ?s) ?page \<or> map_of (page_buffer (DistributedLogCtl ?s)) ?page \<noteq> None"
    by (auto simp: DistributedLog_ZeroPage_def SimpleLruZeroPage_def update_conv')
  ultimately have "dlog_ok s1" by (intro recovery_read_ok [OF _ read])
  then show ?thesis using s' store_dlog_ok by simp
qed

lemma set_by_pages_ok:
  "dlog_ok s \<Longrightarrow> set_by_pages subxids beyond d isRedo i s = Inr s' \<Longrightarrow> dlog_ok s'"
proof (induction subxids beyond d isRedo i s rule: set_by_pages.induct)
  case (1 subxids beyond d isRedo i s)
  show ?case
  proof (cases "i < length subxids")
    case True
    let ?k = "page_run subxids beyond (TransactionIdToPage (subxids ! i)) i"
    from "1.prems"(2) True obtain s1 where s1: "DistributedLog_SetCommittedWithinAPage (take (?k - i) (drop i subxids)) d isRedo s = Inr s1"
        "set_by_pages subxids beyond d isRedo ?k s1 = Inr s'"
      by (auto simp: set_by_pages.simps [of subxids beyond d isRedo i] Let_def rbind_Inr_iff)
    from "1.IH" [OF True refl refl refl s1(1) within_page_ok [OF "1.prems"(1) s1(1)] s1(2)] show ?thesis .
  next
    case False
    then show ?thesis using "1.prems" by (simp add: set_by_pages.simps [of subxids beyond d isRedo i])
  qed
qed

lemma SetCommittedTree_ok [wf_intros]:
  assumes "dlog_ok s" "DistributedLog_SetCommittedTree qd x xs beyond d isRedo s = Inr s'"
  shows "dlog_ok s'"
proof (cases qd)
  case False
  with assms(2) obtain s1 where s1: "DistributedLog_SetCommittedWithinAPage [x] d isRedo s = Inr s1"
      and "set_by_pages xs beyond d isRedo 0 s1 = Inr s'"
    by (auto simp: DistributedLog_SetCommittedTree_def DistributedLog_SetCommittedByPages_def rbind_Inr_iff)
  then show ?thesis using set_by_pages_ok [OF within_page_ok [OF assms(1) s1]] by simp
qed (use assms in \<open>simp add: DistributedLog_SetCommittedTree_def\<close>)

lemma truncate_dlog_ok: "dlog_ok s \<Longrightarrow> slru_ok (SimpleLruTruncate DistributedLog_PagePrecedes c (DistributedLogCtl s))"
  by (simp add: dlog_ok_def truncate_ok may_delete_pages)

lemma advance_scan_same:
  "advance_scan l m cache x s = Inr (y, s') \<Longrightarrow> dlog_ok s \<Longrightarrow> same_log s s'"
proof (induction l m cache x s rule: advance_scan.induct)
  case (1 l m cache x s)
  let ?page = "TransactionIdToPage x"
  let ?read = "case cache of
      Some (currPage, entries) \<Rightarrow> if ?page \<noteq> currPage then dlog_read False ?page s else Inr (entries, s)
    | None \<Rightarrow> dlog_read False ?page s"
  show ?case
  proof (cases "TransactionIdPrecedes x l")
    case p: True
    from "1.prems"(1) p obtain e s1 where r: "?read = Inr (e, s1)"
      and k: "(if m \<le> e (TransactionIdToEntry x) then Inr (x, s1)
        else advance_scan l m (Some (?page, e)) (TransactionIdAdvance x) s1) = Inr (y, s')"
      by (subst (asm) advance_scan.simps) (auto simp: rbind_Inr_iff Let_def)
    have e: "same_log s s1"
      using r "1.prems"(2) read_same_log same_log_refl by (auto split: option.splits if_splits)
    show ?thesis
    proof (cases "m \<le> e (TransactionIdToEntry x)")
      case False
      have "same_log s1 s'" using "1.IH" [OF p refl r refl False] k False e by (simp add: same_log_def)
      then show ?thesis by (rule same_log_trans [OF e])
    qed (use k e in simp)
  qed (use "1.prems" in \<open>simp add: advance_scan.simps [of l m cache x s] same_log_refl\<close>)
qed

lemma AdvanceOldestXmin_ok [wf_intros]:
  assumes "dlog_ok s" "DistributedLog_AdvanceOldestXmin l m others s = Inr (r, s')"
  shows "dlog_ok s'"
proof -
  let ?cas = "\<lambda>y s1. if oldestXmin s \<noteq> y then cas_loop (oldestXmin s) y (oldestXmin s1) others else (oldestXmin s1, y)"
  from assms(2) obtain y s1 where y: "advance_scan l m None (oldestXmin s) s = Inr (y, s1)"
    and k: "s' = (let t = s1\<lparr>oldestXmin := fst (?cas y s1)\<rparr> in
      if TransactionIdToSegment (oldestXmin s) < TransactionIdToSegment (snd (?cas y s1))
      then DistributedLog_Truncate (snd (?cas y s1)) t else t)"
    by (auto simp: DistributedLog_AdvanceOldestXmin_def rbind_Inr_iff Let_def case_prod_unfold)
  have t: "dlog_ok (s1\<lparr>oldestXmin := x\<rparr>)" for x
    using advance_scan_same [OF y assms(1)] by (simp add: same_log_def dlog_ok_def)
  show ?thesis unfolding k Let_def using t Truncate_keeps(1) [OF t] by presburger
qed

lemma read_ops_ok [wf_intros]:
  "dlog_ok s \<Longrightarrow> DistributedLog_GetDistributedXid x s = Inr (d, s') \<Longrightarrow> dlog_ok s'"
  "dlog_ok s \<Longrightarrow> DistributedLog_CommittedCheck x s = Inr (c, s') \<Longrightarrow> dlog_ok s'"
  "dlog_ok s \<Longrightarrow> DistributedLog_ScanForPrevCommitted x s = Inr (r, s') \<Longrightarrow> dlog_ok s'"
proof -
  assume ok: "dlog_ok s"
  show "DistributedLog_GetDistributedXid x s = Inr (d, s') \<Longrightarrow> dlog_ok s'"
    using dlog_read_Inr(2) [OF ok] by (auto simp: DistributedLog_GetDistributedXid_def rbind_Inr_iff)
  show "DistributedLog_CommittedCheck x s = Inr (c, s') \<Longrightarrow> dlog_ok s'"
    using dlog_read_Inr(2) [OF ok] ok
    by (auto simp: DistributedLog_CommittedCheck_def rbind_Inr_iff Let_def split: if_splits)
  show "DistributedLog_ScanForPrevCommitted x s = Inr (r, s') \<Longrightarrow> dlog_ok s'"
    using scan_prev_result [of "x - 1" s r s'] ok
    by (auto simp: DistributedLog_ScanForPrevCommitted_def Let_def same_log_def split: if_splits)
qed

lemma zero_pages_ok: "dlog_ok s \<Longrightarrow> dlog_ok (zero_pages nextXid c s)"
proof (induction nextXid c s rule: zero_pages.induct)
  case (1 nextXid c s)
  let ?c = "if c > TransactionIdToPage MaxTransactionId then 0 else c"
  have "dlog_ok (DistributedLog_ZeroPage ?c False s)" by (rule zero_page_dlog_ok [OF "1.prems"])
  then show ?case using "1.IH" [OF refl refl refl] by (auto simp: zero_pages.simps [of nextXid c s] Let_def split: if_splits)
qed

lemma latest_ok: "slru_ok (ctl\<lparr>latest_page_number := n\<rparr>) = slru_ok ctl"
  by (simp add: slru_ok_def)

lemma InitOldestXmin_ok [simp]: "dlog_ok (DistributedLog_InitOldestXmin x l s) = dlog_ok s"
  by (simp add: DistributedLog_InitOldestXmin_def dlog_ok_def)

lemma Startup_ok [wf_intros]:
  assumes "dlog_ok s" "DistributedLog_Startup qd convert False oldestActive nextXid oldest latest s = Inr s'"
  shows "dlog_ok s'"
proof (cases qd)
  case False
  let ?s = "s\<lparr>DistributedLogCtl := (DistributedLogCtl s)\<lparr>latest_page_number := TransactionIdToPage nextXid\<rparr>\<rparr>"
  let ?c = "?s\<lparr>DistributedLogCtl := SimpleLruTruncate DistributedLog_PagePrecedes (TransactionIdToPage oldestActive) (DistributedLogCtl ?s)\<rparr>"
  define s1 where "s1 = (if convert then zero_pages nextXid (TransactionIdToPage oldestActive) ?c else ?s)"
  have "dlog_ok ?s" using assms(1) by (simp add: dlog_ok_def latest_ok)
  then have s1: "dlog_ok s1" using zero_pages_ok [of ?c] truncate_dlog_ok [of ?s] by (simp add: s1_def dlog_ok_def)
  from assms(2) False consider "s' = DistributedLog_InitOldestXmin oldest latest s1"
    | p t q where "dlog_read False (TransactionIdToPage nextXid) s1 = Inr (p, t)"
        "s' = DistributedLog_InitOldestXmin oldest latest
          (t\<lparr>DistributedLogCtl := slru_store (TransactionIdToPage nextXid) q (DistributedLogCtl t)\<rparr>)"
    by (auto simp: DistributedLog_Startup_def Let_def rbind_Inr_iff s1_def [symmetric] split: if_splits)
  then show ?thesis
    by cases (use s1 dlog_read_Inr(2) [OF s1] store_dlog_ok in auto)
qed (use assms in \<open>simp add: DistributedLog_Startup_def\<close>)

lemma redo_ok [wf_intros]:
  assumes "dlog_ok s" "DistributedLog_redo r s = Inr s'"
  shows "dlog_ok s'"
proof (cases r)
  case (DISTRIBUTEDLOG_ZEROPAGE page)
  then show ?thesis using assms write_page_dlog_ok zero_page_dlog_ok by auto
next
  case (DISTRIBUTEDLOG_TRUNCATE page)
  have "dlog_ok (s\<lparr>DistributedLogCtl := (DistributedLogCtl s)\<lparr>latest_page_number := page\<rparr>\<rparr>)"
    using assms(1) by (simp add: dlog_ok_def latest_ok)
  from truncate_dlog_ok [OF this] show ?thesis using assms(2) DISTRIBUTEDLOG_TRUNCATE by (auto simp: dlog_ok_def Let_def)
qed (use assms in simp)

lemma flush_ok: "dlog_ok s \<Longrightarrow> dlog_ok (s\<lparr>DistributedLogCtl := SimpleLruFlush (DistributedLogCtl s)\<rparr>)"
  using fold_write [of "DistributedLogCtl s" "map fst (page_buffer (DistributedLogCtl s))"]
  by (simp add: dlog_ok_def SimpleLruFlush_def)

section \<open>The machine\<close>

definition empty_log :: dlog where
  "empty_log = \<lparr>DistributedLogCtl = \<lparr>page_buffer = [], segment_files = [], latest_page_number = 0\<rparr>, oldestXmin = 0, xlog = []\<rparr>"

inductive dlog_step :: "dlog \<Rightarrow> dlog \<Rightarrow> bool" where
  commit: "DistributedLog_SetCommittedTree qd x xs beyond d isRedo s = Inr s' \<Longrightarrow> dlog_step s s'"
| lookup: "DistributedLog_GetDistributedXid x s = Inr (d, s') \<Longrightarrow> dlog_step s s'"
| check: "DistributedLog_CommittedCheck x s = Inr (c, s') \<Longrightarrow> dlog_step s s'"
| scan: "DistributedLog_ScanForPrevCommitted x s = Inr (r, s') \<Longrightarrow> dlog_step s s'"
| advance: "DistributedLog_AdvanceOldestXmin l m others s = Inr (r, s') \<Longrightarrow> dlog_step s s'"
| extend: "dlog_step s (DistributedLog_Extend qd x s)"
| bootstrap: "dlog_step s (DistributedLog_BootStrap qd s)"
| startup: "DistributedLog_Startup qd convert False a n old l s = Inr s' \<Longrightarrow> dlog_step s s'"
| checkpoint: "dlog_step s (DistributedLog_CheckPoint qd s)"
| shutdown: "dlog_step s (DistributedLog_Shutdown qd s)"
| restart: "dlog_step s (DistributedLog_ShmemInit qd found s)"
| replay: "DistributedLog_redo r s = Inr s' \<Longrightarrow> dlog_step s s'"
| replace: "dlog_step s (dlog_evicts qs s)"

inductive dlog_reach :: "dlog \<Rightarrow> bool" where
  start: "dlog_reach empty_log"
| step: "dlog_reach s \<Longrightarrow> dlog_step s s' \<Longrightarrow> dlog_reach s'"

lemma dlog_step_ok: "dlog_step s s' \<Longrightarrow> dlog_ok s \<Longrightarrow> dlog_ok s'"
proof (induction rule: dlog_step.induct)
  case (extend s qd x)
  then show ?case using zero_page_dlog_ok by (simp add: DistributedLog_Extend_def)
next
  case (bootstrap s qd)
  then show ?case using zero_page_dlog_ok write_page_dlog_ok by (simp add: DistributedLog_BootStrap_def)
next
  case (restart s qd found)
  then show ?case by (simp add: DistributedLog_ShmemInit_def dlog_ok_def slru_ok_def)
qed (auto intro: wf_intros flush_ok evicts_logged(1) simp: DistributedLog_CheckPoint_def DistributedLog_Shutdown_def)

lemma dlog_reach_ok: "dlog_reach s \<Longrightarrow> dlog_ok s"
proof (induction rule: dlog_reach.induct)
  case start
  show ?case by (simp add: empty_log_def dlog_ok_def slru_ok_def)
qed (rule dlog_step_ok)

end
