(* ===== verification/Dlog_Correct.thy ===== *)
theory Dlog_Correct
  imports Dlog_Steps
begin

text \<open>
  What the distributed log promises: a recorded commit is found again, also after buffer replacement and
  a restart; the oldest xmin moves only over transactions no distributed snapshot needs; and the two
  places where the code does less than it means to.
\<close>

section \<open>Examples\<close>

definition small_log :: dlog where
  "small_log = \<lparr>DistributedLogCtl = \<lparr>page_buffer = [(0, zero_page, True)], segment_files = [], latest_page_number = 0\<rparr>,
     oldestXmin = 3, xlog = []\<rparr>"

lemma small_log_ok: "dlog_ok small_log"
  by (auto simp: dlog_ok_def slru_ok_def small_log_def split: if_splits)

lemma small_log_logged: "TransactionIdToPage x = 0 \<Longrightarrow> logged small_log x = Some 0"
  by (simp add: logged_def small_log_def slru_view_def)

lemma small_page: "TransactionIdToPage 3 = 0" "TransactionIdToPage 5 = 0" "TransactionIdToPage 6 = 0" "TransactionIdToPage 7 = 0"
  by (simp_all add: TransactionIdToPage_def ENTRIES_PER_PAGE_def)

lemma small_entry: "TransactionIdToEntry 3 = 3" "TransactionIdToEntry 5 = 5" "TransactionIdToEntry 6 = 6" "TransactionIdToEntry 7 = 7"
  by (simp_all add: TransactionIdToEntry_def ENTRIES_PER_PAGE_def)

lemma small_normal: "TransactionIdIsNormal 3" "TransactionIdIsNormal 5" "TransactionIdIsNormal 6" "TransactionIdIsNormal 7"
  by (simp_all add: TransactionIdIsNormal_def)

section \<open>Recording commits\<close>

text \<open>
  C12 (roundtrip): recording the commit of a transaction and its subtransactions succeeds when none of them is
  recorded yet, or only with the same distributed id. Afterwards, whatever pages are given up to make
  room in the buffers, a lookup of each of them returns that id, and a lookup of any other transaction returns what it
  returned before.
\<close>

theorem DistributedLog_SetCommittedTree_recorded:
  assumes "dlog_ok s" "\<forall>x \<in> set (xid # xids). logged s x \<in> {Some 0, Some d}"
  shows "\<exists>s'. DistributedLog_SetCommittedTree False xid xids beyond d False s = Inr s' \<and>
    (\<forall>qs. (\<forall>y \<in> set (xid # xids). \<exists>t. DistributedLog_GetDistributedXid y (dlog_evicts qs s') = Inr (d, t)) \<and>
      (\<forall>y c u. y \<notin> set (xid # xids) \<and> DistributedLog_GetDistributedXid y s = Inr (c, u) \<longrightarrow>
        (\<exists>t. DistributedLog_GetDistributedXid y (dlog_evicts qs s') = Inr (c, t))))"
proof -
  from set_each_ok [OF assms] obtain s' where s': "set_each (xid # xids) d s = Inr s'" ..
  note l = set_each_Inr [OF assms(1) s']
  have look: "\<exists>t. DistributedLog_GetDistributedXid y (dlog_evicts qs s') = Inr (c, t)" if "logged s' y = Some c" for y c qs
    using evicts_logged [where s = s' and qs = qs] l that by (intro GetDistributedXid_logged(1)) simp_all
  show ?thesis
    using l look GetDistributedXid_logged(2) [OF assms(1)] s' unfolding SetCommittedTree_each by (intro exI [of _ s']) auto
qed

theorem DistributedLog_SetCommittedTree_recorded_witness:
  "\<exists>s' t. DistributedLog_SetCommittedTree False 5 [6, 7] 0 900 False small_log = Inr s' \<and>
    DistributedLog_GetDistributedXid 6 (dlog_evicts [0] s') = Inr (900, t)"
  using DistributedLog_SetCommittedTree_recorded [OF small_log_ok, of 5 "[6, 7]" 900 0] small_log_logged small_page
  by fastforce


definition taken_log :: dlog where
  "taken_log = \<lparr>DistributedLogCtl = \<lparr>page_buffer = [(0, zero_page(6 := 800), True)], segment_files = [], latest_page_number = 0\<rparr>,
     oldestXmin = 3, xlog = []\<rparr>"

lemma taken_log_error: "DistributedLog_SetCommittedTree False 5 [6] 0 900 False taken_log = Inl (Dlog_xid_mismatch 800 900 6)"
  unfolding SetCommittedTree_each
  by (simp add: within_page_eq dlog_read_def SimpleLruReadPage_def taken_log_def small_page small_entry Let_def store_entries_def slru_store_def)


text \<open>
  C27 (equivalence): recording subtransactions page by page, with the loop that collects the run of ids on one page,
  is recording them one at a time, whatever the loop reads past the end of the array.
\<close>

theorem DistributedLog_SetCommittedByPages_each:
  "DistributedLog_SetCommittedByPages subxids beyond d False s = set_each subxids d s"
  by (simp add: DistributedLog_SetCommittedByPages_def set_by_pages_each)

section \<open>Every reachable state\<close>

text \<open>
  C28 (invariant): in every state the log can get into, by any sequence of commits, lookups, extensions,
  truncations, checkpoints, replays, restarts and buffer replacements, whether a transaction committed
  in a distributed transaction is answered from its entry, once the oldest xmin is known and unless the transaction is before it;
  and giving up any buffers before the question does not change the answer.
\<close>

theorem DistributedLog_CommittedCheck_reachable:
  assumes "dlog_reach s" "oldestXmin s \<noteq> InvalidTransactionId" "logged s x = Some d"
  shows "\<exists>t. DistributedLog_CommittedCheck x (dlog_evicts qs s) =
    Inr (if TransactionIdPrecedes x (oldestXmin s) then (False, 0) else (d \<noteq> 0, d), t)"
proof -
  note ok = evicts_logged [OF dlog_reach_ok [OF assms(1)], where qs = qs]
  have x: "oldestXmin (dlog_evicts qs s) = oldestXmin s" by (simp add: dlog_evicts_def)
  obtain p where p: "slru_view False (DistributedLogCtl (dlog_evicts qs s)) (TransactionIdToPage x) = Some p" "p (TransactionIdToEntry x) = d"
    using ok(2) [OF assms(3)] by (auto simp: logged_def)
  from dlog_read_Some [OF ok(1) p(1)] obtain t where "dlog_read False (TransactionIdToPage x) (dlog_evicts qs s) = Inr (p, t)" .
  then show ?thesis using p(2) assms(2) by (simp add: DistributedLog_CommittedCheck_def x Let_def)
qed

text \<open>A log that was installed and started up.\<close>

definition started_log :: dlog where
  "started_log = \<lparr>DistributedLogCtl = \<lparr>page_buffer = [(0, zero_page, True)], segment_files = [(0, [zero_page])], latest_page_number = 0\<rparr>,
     oldestXmin = 3, xlog = []\<rparr>"

lemma empty_bootstrap:
  "DistributedLog_BootStrap False empty_log =
    \<lparr>DistributedLogCtl = \<lparr>page_buffer = [(0, zero_page, False)], segment_files = [(0, [zero_page])], latest_page_number = 0\<rparr>,
     oldestXmin = 0, xlog = []\<rparr>"
  by (simp add: DistributedLog_BootStrap_def empty_log_def DistributedLog_ZeroPage_def SimpleLruZeroPage_def dlog_write_page_def
      SlruInternalWritePage_def SlruPhysicalWritePage_def SLRU_PAGES_PER_SEGMENT_def write_at_def Let_def)

lemma started_log_eq:
  "DistributedLog_Startup False False False 3 3 3 3 (DistributedLog_BootStrap False empty_log) = Inr started_log"
  "oldestXmin started_log = 3" "logged started_log 5 = Some 0"
  by (simp_all add: empty_bootstrap DistributedLog_Startup_def Let_def small_page small_entry dlog_read_def SimpleLruReadPage_def
      slru_store_def DistributedLog_InitOldestXmin_def init_oldest.simps SimpleLruDoesPhysicalPageExist_def SLRU_PAGES_PER_SEGMENT_def
      started_log_def logged_def slru_view_def)

theorem DistributedLog_CommittedCheck_reachable_witness:
  "\<exists>t. DistributedLog_CommittedCheck 5 (dlog_evicts [0] started_log) = Inr ((False, 0), t)"
proof -
  have "dlog_reach started_log"
    using dlog_reach.start dlog_step.bootstrap dlog_step.startup [OF started_log_eq(1)] by (meson dlog_reach.step)
  from DistributedLog_CommittedCheck_reachable [OF this, of 5 0 "[0]"] started_log_eq show ?thesis by (auto split: if_splits)
qed

section \<open>The oldest xmin\<close>

text \<open>
  C13 (safety): when the oldest xmin is advanced, while other processes may publish values of their own, the value left
  in shared memory and returned does not go back, and every transaction it moves over is one whose distributed
  id is below the oldest a distributed snapshot needs, or one another process had already moved over. What the
  log has for the transactions from the new value on is kept, although old segments may be removed, as long as
  they span less than half of the ids by one page.
\<close>

theorem DistributedLog_AdvanceOldestXmin_safe:
  assumes "dlog_ok s" "DistributedLog_AdvanceOldestXmin l m others s = Inr (r, s')"
    and "TransactionIdIsNormal (oldestXmin s)" "TransactionIdIsNormal l" "ahead (oldestXmin s) l < 2 ^ 31"
    and "\<forall>w \<in> set others. TransactionIdIsNormal w \<and> ahead (oldestXmin s) w < 2 ^ 31"
  shows "oldestXmin s' = r \<and> TransactionIdPrecedesOrEquals (oldestXmin s) r \<and>
    (\<forall>z. TransactionIdIsNormal z \<and> ahead (oldestXmin s) z < ahead (oldestXmin s) r \<longrightarrow>
      (\<exists>c. logged s z = Some c \<and> c < m) \<or> (\<exists>w \<in> set others. ahead (oldestXmin s) z < ahead (oldestXmin s) w)) \<and>
    (\<forall>z c. ahead r z \<le> 2 ^ 31 - 4096 \<and> logged s z = Some c \<longrightarrow> logged s' z = Some c)"
proof -
  note a = AdvanceOldestXmin_Inr [OF assms(2,1,3-6)]
  from a obtain y where y: "scanned l m (oldestXmin s) s y" "r = y \<or> r \<in> set others" by blast
  have "TransactionIdIsNormal r" "ahead (oldestXmin s) r < 2 ^ 31"
    using y assms(3-6) by (auto simp: scanned_def split: if_splits)
  then have "TransactionIdPrecedesOrEquals (oldestXmin s) r" using assms(3) by (simp add: precedes_ahead(3))
  moreover have "\<forall>z. TransactionIdIsNormal z \<and> ahead (oldestXmin s) z < ahead (oldestXmin s) r \<longrightarrow>
      (\<exists>c. logged s z = Some c \<and> c < m) \<or> (\<exists>w \<in> set others. ahead (oldestXmin s) z < ahead (oldestXmin s) w)"
    using y by (auto simp: scanned_def)
  ultimately show ?thesis using a by blast
qed

lemma small_ahead: "ahead 3 7 = 4" "ahead 3 6 = 3" "ahead 3 5 = 2"
  by (simp_all add: ahead_cases)

lemma small_logged_before:
  assumes "TransactionIdIsNormal z" "ahead 3 z < ahead 3 7"
  shows "logged small_log z = Some 0"
proof (rule small_log_logged)
  have "3 \<le> uint z" "uint z < 7" using assms by (auto simp: normal_uint ahead_cases split: if_splits)
  then show "TransactionIdToPage z = 0" by (simp add: TransactionIdToPage_def ENTRIES_PER_PAGE_def div_pos_pos_trivial)
qed

lemma small_advance: "\<exists>r s'. DistributedLog_AdvanceOldestXmin 7 900 [5] small_log = Inr (r, s')"
proof -
  have "\<exists>y s'. advance_scan 7 900 None 3 small_log = Inr (y, s')"
    using small_logged_before by (intro advance_scan_ok small_log_ok small_normal) auto
  then obtain y s' where "advance_scan 7 900 None 3 small_log = Inr (y, s')" by blast
  moreover have "oldestXmin small_log = 3" by (simp add: small_log_def)
  ultimately show ?thesis by (simp add: DistributedLog_AdvanceOldestXmin_def Let_def case_prod_unfold)
qed

theorem DistributedLog_AdvanceOldestXmin_safe_witness:
  "\<exists>r s'. DistributedLog_AdvanceOldestXmin 7 900 [5] small_log = Inr (r, s') \<and> oldestXmin s' = r \<and> TransactionIdPrecedesOrEquals 3 r"
proof -
  from small_advance obtain r s' where r: "DistributedLog_AdvanceOldestXmin 7 900 [5] small_log = Inr (r, s')" by blast
  have "oldestXmin small_log = 3" by (simp add: small_log_def)
  with DistributedLog_AdvanceOldestXmin_safe [OF small_log_ok r] r show ?thesis by (simp add: small_normal small_ahead)
qed

text \<open>
  C30 (liveness): advancing the oldest xmin ends without an error when the log has pages for the ids up to the local xmin, and
  without other writers it stops exactly at the local xmin or at the first transaction whose
  distributed id is not below the oldest a distributed snapshot needs.
\<close>

theorem DistributedLog_AdvanceOldestXmin_exact:
  assumes "dlog_ok s" "TransactionIdIsNormal (oldestXmin s)" "TransactionIdIsNormal l" "TransactionIdPrecedes (oldestXmin s) l"
    and "ahead (oldestXmin s) l < 2 ^ 31"
    and "\<forall>z. TransactionIdIsNormal z \<and> ahead (oldestXmin s) z < ahead (oldestXmin s) l \<longrightarrow> logged s z \<noteq> None"
  shows "\<exists>r s'. DistributedLog_AdvanceOldestXmin l m [] s = Inr (r, s') \<and> oldestXmin s' = r \<and>
    (r = l \<or> (\<exists>c. logged s r = Some c \<and> m \<le> c)) \<and> ahead (oldestXmin s) r \<le> ahead (oldestXmin s) l \<and>
    (\<forall>z. TransactionIdIsNormal z \<and> ahead (oldestXmin s) z < ahead (oldestXmin s) r \<longrightarrow> (\<exists>c. logged s z = Some c \<and> c < m))"
proof -
  from advance_scan_ok [OF assms(1-3,6), of m None] obtain y t where "advance_scan l m None (oldestXmin s) s = Inr (y, t)" by blast
  then obtain r s' where r: "DistributedLog_AdvanceOldestXmin l m [] s = Inr (r, s')"
    by (simp add: DistributedLog_AdvanceOldestXmin_def Let_def case_prod_unfold)
  from AdvanceOldestXmin_Inr [OF r assms(1-3,5)] have "oldestXmin s' = r" "scanned l m (oldestXmin s) s r" by auto
  then show ?thesis using r assms(4) by (auto simp: scanned_def)
qed

theorem DistributedLog_AdvanceOldestXmin_exact_witness:
  "\<exists>s'. DistributedLog_AdvanceOldestXmin 7 900 [] small_log = Inr (7, s') \<and> oldestXmin s' = 7"
proof -
  have x: "oldestXmin small_log = 3" by (simp add: small_log_def)
  have "TransactionIdPrecedes 3 7" by (simp add: precedes_ahead(1) small_normal small_ahead)
  with DistributedLog_AdvanceOldestXmin_exact [OF small_log_ok, of 7 900, unfolded x] small_logged_before
  obtain r s' where r: "DistributedLog_AdvanceOldestXmin 7 900 [] small_log = Inr (r, s')" "oldestXmin s' = r"
      "r = 7 \<or> (\<exists>c. logged small_log r = Some c \<and> 900 \<le> c)" "ahead 3 r \<le> ahead 3 7"
    by (auto simp: small_normal small_ahead)
  have "r = 7"
  proof (rule ccontr)
    assume "r \<noteq> 7"
    then obtain c where c: "logged small_log r = Some c" "900 \<le> c" using r(3) by blast
    have "uint r \<le> 7" using r(4) by (auto simp: small_ahead ahead_cases split: if_splits)
    then have "TransactionIdToPage r = 0" by (simp add: TransactionIdToPage_def ENTRIES_PER_PAGE_def div_pos_pos_trivial)
    from small_log_logged [OF this] c show False by simp
  qed
  then show ?thesis using r by blast
qed

section \<open>Restarts\<close>

text \<open>
  C29 (roundtrip): what is in the log at a checkpoint survives a restart: when every buffer is lost after it, a lookup of
  a transaction still returns what it returned before.
\<close>

theorem DistributedLog_CheckPoint_durable:
  assumes "dlog_ok s" "DistributedLog_GetDistributedXid x s = Inr (d, t)"
  shows "\<exists>t'. DistributedLog_GetDistributedXid x (DistributedLog_ShmemInit False False (DistributedLog_CheckPoint False s)) = Inr (d, t')"
proof -
  let ?r = "DistributedLog_ShmemInit False False (DistributedLog_CheckPoint False s)"
  have r: "dlog_ok ?r" by (simp add: dlog_ok_def slru_ok_def DistributedLog_ShmemInit_def)
  obtain p where p: "slru_view False (DistributedLogCtl s) (TransactionIdToPage x) = Some p" "p (TransactionIdToEntry x) = d"
    using GetDistributedXid_logged(2) [OF assms] by (auto simp: logged_def)
  have "SlruPhysicalReadPage False (SimpleLruFlush (DistributedLogCtl s)) (TransactionIdToPage x) = Some p"
    using flush_durable [OF _ p(1)] assms(1) by (simp add: dlog_ok_def)
  then have "logged ?r x = Some d"
    using p(2) by (simp add: logged_def slru_view_def DistributedLog_ShmemInit_def DistributedLog_CheckPoint_def)
  then show ?thesis by (rule GetDistributedXid_logged(1) [OF r])
qed

theorem DistributedLog_CheckPoint_durable_witness:
  "\<exists>t'. DistributedLog_GetDistributedXid 6 (DistributedLog_ShmemInit False False (DistributedLog_CheckPoint False taken_log)) = Inr (800, t')"
proof (rule DistributedLog_CheckPoint_durable)
  show "dlog_ok taken_log" by (auto simp: dlog_ok_def slru_ok_def taken_log_def split: if_splits)
  show "DistributedLog_GetDistributedXid 6 taken_log = Inr (800, taken_log)"
    by (simp add: DistributedLog_GetDistributedXid_def dlog_read_def SimpleLruReadPage_def taken_log_def small_page small_entry)
qed

text \<open>The ids of the page of \<open>nextXid\<close> from it on.\<close>

definition rest_of_page :: "TransactionId \<Rightarrow> TransactionId \<Rightarrow> bool" where
  "rest_of_page nextXid z \<longleftrightarrow> TransactionIdToEntry nextXid \<noteq> 0 \<and> TransactionIdToPage z = TransactionIdToPage nextXid \<and>
     TransactionIdToEntry nextXid \<le> TransactionIdToEntry z"

lemma Startup_cleared:
  assumes "dlog_ok s" "DistributedLog_Startup False False False oldestActive nextXid oldest latest s = Inr s'"
  shows "\<exists>s1. dlog_ok s1 \<and> segment_files (DistributedLogCtl s1) = segment_files (DistributedLogCtl s) \<and>
    (\<forall>z. logged s1 z = (if rest_of_page nextXid z then Some 0 else logged s z)) \<and>
    s' = DistributedLog_InitOldestXmin oldest latest s1"
proof -
  let ?page = "TransactionIdToPage nextXid" and ?e = "TransactionIdToEntry nextXid"
  define s0 where "s0 = s\<lparr>DistributedLogCtl := (DistributedLogCtl s)\<lparr>latest_page_number := ?page\<rparr>\<rparr>"
  have v0: "slru_view False (DistributedLogCtl s0) q = slru_view False (DistributedLogCtl s) q" for q
    by (simp add: s0_def slru_view_def split: option.split)
  have s0: "dlog_ok s0" "logged s0 = logged s" "segment_files (DistributedLogCtl s0) = segment_files (DistributedLogCtl s)"
    using assms(1) by (simp_all add: dlog_ok_def slru_ok_def logged_def v0 fun_eq_iff) (simp_all add: s0_def)
  show ?thesis
  proof (cases "?e = 0")
    case True
    then show ?thesis using s0 assms(2) by (intro exI [of _ s0]) (simp add: DistributedLog_Startup_def Let_def s0_def rest_of_page_def)
  next
    case False
    with assms(2) obtain p t where read: "dlog_read False ?page s0 = Inr (p, t)"
      and s': "s' = DistributedLog_InitOldestXmin oldest latest
        (t\<lparr>DistributedLogCtl := slru_store ?page (\<lambda>i. if ?e \<le> i then 0 else p i) (DistributedLogCtl t)\<rparr>)"
      by (auto simp: DistributedLog_Startup_def Let_def rbind_Inr_iff s0_def)
    note t = dlog_read_Inr [OF s0(1) read]
    let ?s1 = "t\<lparr>DistributedLogCtl := slru_store ?page (\<lambda>i. if ?e \<le> i then 0 else p i) (DistributedLogCtl t)\<rparr>"
    have "logged s z = Some (p (TransactionIdToEntry z))" if "TransactionIdToPage z = ?page" for z
      using t(1) that v0 by (simp add: logged_def)
    then have "logged ?s1 z = (if rest_of_page nextXid z then Some 0 else logged s z)" for z
      using store_logged(2) [OF t(2)] t(3) s0(2) False by (simp add: rest_of_page_def)
    moreover have "segment_files (DistributedLogCtl ?s1) = segment_files (DistributedLogCtl s)"
      using t(7) s0(3) by (simp add: slru_store_def)
    ultimately show ?thesis using s' store_logged(1) [OF t(2)] by blast
  qed
qed

text \<open>
  Starting the log up leaves the recorded transactions before the next id as they were and clears the rest of
  its page. The oldest xmin it finds is on the first page, from the oldest id on, that exists on disk, or just
  after the latest completed transaction; no transaction from the oldest id to it has a page on disk.
\<close>

theorem DistributedLog_Startup_state:
  assumes "dlog_ok s" "DistributedLog_Startup False False False oldestActive nextXid oldest latest s = Inr s'"
    and "TransactionIdIsNormal oldest" "TransactionIdIsNormal latest" "ahead oldest latest < 2 ^ 31"
  shows "dlog_ok s' \<and> log_starts (DistributedLogCtl s) latest oldest (oldestXmin s') \<and>
    (\<forall>z. logged s' z = (if rest_of_page nextXid z then Some 0 else logged s z))"
proof -
  from Startup_cleared [OF assms(1,2)] obtain s1 where s1: "dlog_ok s1"
      "segment_files (DistributedLogCtl s1) = segment_files (DistributedLogCtl s)"
      "\<forall>z. logged s1 z = (if rest_of_page nextXid z then Some 0 else logged s z)"
      "s' = DistributedLog_InitOldestXmin oldest latest s1"
    by blast
  have same: "SimpleLruDoesPhysicalPageExist (DistributedLogCtl s1) = SimpleLruDoesPhysicalPageExist (DistributedLogCtl s)"
    by (simp add: fun_eq_iff SimpleLruDoesPhysicalPageExist_def s1(2))
  have "log_starts (DistributedLogCtl s1) latest oldest (oldestXmin s')"
    using init_oldest_starts [OF assms(3-5)] by (simp add: s1(4) DistributedLog_InitOldestXmin_def)
  then have "log_starts (DistributedLogCtl s) latest oldest (oldestXmin s')" unfolding log_starts_def same .
  moreover have "dlog_ok s'" "logged s' = logged s1"
    using s1(1) by (simp_all add: s1(4) DistributedLog_InitOldestXmin_def dlog_ok_def logged_def fun_eq_iff)
  ultimately show ?thesis using s1(3) by simp
qed

lemma Startup_taken: "\<exists>s'. DistributedLog_Startup False False False 3 6 3 5 taken_log = Inr s'"
  by (simp add: DistributedLog_Startup_def Let_def small_entry small_page dlog_read_def SimpleLruReadPage_def taken_log_def)

theorem DistributedLog_Startup_state_witness:
  "\<exists>s'. DistributedLog_Startup False False False 3 6 3 5 taken_log = Inr s' \<and> logged s' 6 = Some 0"
proof -
  from Startup_taken obtain s' where s': "DistributedLog_Startup False False False 3 6 3 5 taken_log = Inr s'" ..
  have "dlog_ok taken_log" by (auto simp: dlog_ok_def slru_ok_def taken_log_def split: if_splits)
  from DistributedLog_Startup_state [OF this s' small_normal(1,2)] s' show ?thesis
    by (simp add: small_ahead rest_of_page_def small_entry)
qed

section \<open>The previous committed transaction\<close>


definition file_log :: dlog where
  "file_log = \<lparr>DistributedLogCtl = \<lparr>page_buffer = [], segment_files = [(0, [zero_page(5 := 800)])], latest_page_number = 0\<rparr>,
     oldestXmin = 3, xlog = []\<rparr>"

lemma file_scan: "\<exists>s'. DistributedLog_ScanForPrevCommitted 7 file_log = Inr ((True, 5, 800), s')"
proof -
  have "scan_page 0 (zero_page(5 := 800)) 6 = Some 5"
    by (simp add: scan_page.simps page_floor_def small_entry)
  then show ?thesis
    by (simp add: DistributedLog_ScanForPrevCommitted_def Let_def scan_prev.simps file_log_def SimpleLruDoesPhysicalPageExist_def
        small_page small_entry SLRU_PAGES_PER_SEGMENT_def dlog_read_def SimpleLruReadPage_def SlruPhysicalReadPage_def)
qed


section \<open>Where the code does less\<close>

lemma redo_one:
  assumes "\<not> SimpleLruDoesPhysicalPageExist (DistributedLogCtl s) (TransactionIdToPage x)"
  shows "\<exists>s'. DistributedLog_SetCommittedWithinAPage [x] d True s = Inr s' \<and>
    slru_view False (DistributedLogCtl s') (TransactionIdToPage x) = Some (zero_page(TransactionIdToEntry x := d)) \<and>
    segment_files (DistributedLogCtl s') = segment_files (DistributedLogCtl s)"
  using assms by (simp add: DistributedLog_SetCommittedWithinAPage_def Let_def DistributedLog_ZeroPage_def SimpleLruZeroPage_def
      dlog_read_def SimpleLruReadPage_def update_conv' slru_store_def slru_view_def)

text \<open>
  C33 (error): replaying a commit whose page is not on disk: the page is zeroed in the buffers for the transaction itself, and
  zeroed again for a subtransaction on the same page, since the test looks only at the disk. The
  transaction is not recorded afterwards.
\<close>

theorem DistributedLog_SetCommittedTree_redo_forgets:
  assumes "\<not> SimpleLruDoesPhysicalPageExist (DistributedLogCtl s) (TransactionIdToPage x)"
    and "TransactionIdToPage y = TransactionIdToPage x" "y \<noteq> x"
  shows "\<exists>s'. DistributedLog_SetCommittedTree False x [y] beyond d True s = Inr s' \<and>
    logged s' x = Some 0 \<and> logged s' y = Some d"
proof -
  have ne: "TransactionIdToEntry x \<noteq> TransactionIdToEntry y" using entry_page_inj assms(2,3) by metis
  from redo_one [OF assms(1)] obtain s1 where s1: "DistributedLog_SetCommittedWithinAPage [x] d True s = Inr s1"
      "segment_files (DistributedLogCtl s1) = segment_files (DistributedLogCtl s)" by blast
  have "\<not> SimpleLruDoesPhysicalPageExist (DistributedLogCtl s1) (TransactionIdToPage y)"
    using assms(1,2) s1(2) by (simp add: SimpleLruDoesPhysicalPageExist_def)
  from redo_one [OF this] obtain s' where s': "DistributedLog_SetCommittedWithinAPage [y] d True s1 = Inr s'"
      "slru_view False (DistributedLogCtl s') (TransactionIdToPage y) = Some (zero_page(TransactionIdToEntry y := d))" by blast
  have "page_run [y] beyond (TransactionIdToPage y) 0 = 1" by (simp add: page_run.simps)
  then have "DistributedLog_SetCommittedTree False x [y] beyond d True s = Inr s'"
    using s1(1) s'(1) by (simp add: DistributedLog_SetCommittedTree_def DistributedLog_SetCommittedByPages_def set_by_pages.simps)
  then show ?thesis using s'(2) assms(2) ne by (simp add: logged_def)
qed

theorem DistributedLog_SetCommittedTree_redo_forgets_witness:
  "\<exists>s'. DistributedLog_SetCommittedTree False 5 [6] 0 900 True
      \<lparr>DistributedLogCtl = \<lparr>page_buffer = [], segment_files = [], latest_page_number = 0\<rparr>, oldestXmin = 3, xlog = []\<rparr> = Inr s' \<and>
    logged s' 5 = Some 0 \<and> logged s' 6 = Some 900"
  by (rule DistributedLog_SetCommittedTree_redo_forgets) (simp_all add: SimpleLruDoesPhysicalPageExist_def small_page)

text \<open>
  Two pages that are half of all pages apart each precede the other.
\<close>

theorem DistributedLog_PagePrecedes_opposite:
  "DistributedLog_PagePrecedes page (page + 2 ^ 19) \<and> DistributedLog_PagePrecedes (page + 2 ^ 19) page"
  by (simp add: page_precedes_iff)

end
