(* ===== verification/Le_Bytes.thy ===== *)
theory Le_Bytes
  imports Pg_Prelude
begin

text \<open>
  Machine integers in memory: what \<^verbatim>\<open>memcpy\<close> of an integer stores and reads on a little-endian machine, and
  reading the fields of a message one after the other.
\<close>

unbundle bit_operations_syntax

section \<open>Integers as bytes\<close>

primrec le_bytes :: "nat \<Rightarrow> 'a::len word \<Rightarrow> uint8 list" where
  "le_bytes 0 w = []"
| "le_bytes (Suc n) w = ucast w # le_bytes n (drop_bit 8 w)"

primrec le_word :: "uint8 list \<Rightarrow> 'a::len word" where
  "le_word [] = 0"
| "le_word (b # bs) = ucast b OR push_bit 8 (le_word bs)"

lemma length_le_bytes [simp]: "length (le_bytes n w) = n"
  by (induction n arbitrary: w) simp_all

lemma le_word_bytes: "le_word (le_bytes n w) = take_bit (8 * n) (w :: 'a::len word)"
proof (induction n arbitrary: w)
  case (Suc n)
  show ?case
    by (rule bit_eqI) (auto simp: Suc.IH bit_simps)
qed simp

lemma le_round_trip [simp]:
  "le_word (le_bytes 8 w) = (w :: uint64)" "le_word (le_bytes 4 v) = (v :: uint32)"
  unfolding le_word_bytes by (simp_all add: take_bit_word_eq_self)

section \<open>Reading fields\<close>

text \<open>
  Taking \<open>n\<close> bytes off the front. Reading past the end of the message is undefined in C; here it is \<open>None\<close>.
\<close>

definition take_bytes :: "nat \<Rightarrow> uint8 list \<Rightarrow> (uint8 list \<times> uint8 list) option" where
  "take_bytes n p = (if n \<le> length p then Some (take n p, drop n p) else None)"

lemma take_bytes_append [simp]: "length b = n \<Longrightarrow> take_bytes n (b @ p) = Some (b, p)"
  by (simp add: take_bytes_def)

definition get_word :: "nat \<Rightarrow> uint8 list \<Rightarrow> ('a::len word \<times> uint8 list) option" where
  "get_word n p = map_option (\<lambda>(b, p). (le_word b, p)) (take_bytes n p)"

lemma get_word_append [simp]:
  "get_word 8 (le_bytes 8 w @ p) = Some (w :: uint64, p)"
  "get_word 4 (le_bytes 4 v @ p) = Some (v :: uint32, p)"
  by (simp_all add: get_word_def del: le_bytes.simps)

text \<open>A \<^verbatim>\<open>bool\<close> is one byte.\<close>

definition bool_bytes :: "bool \<Rightarrow> uint8 list" where
  "bool_bytes b = [if b then 1 else 0]"

definition get_bool :: "uint8 list \<Rightarrow> (bool \<times> uint8 list) option" where
  "get_bool p = (case p of [] \<Rightarrow> None | b # p \<Rightarrow> Some (b \<noteq> 0, p))"

lemma get_bool_append [simp]: "get_bool (bool_bytes b @ p) = Some (b, p)"
  by (simp add: bool_bytes_def get_bool_def)

lemma length_bool_bytes [simp]: "length (bool_bytes b) = 1"
  by (simp add: bool_bytes_def)

primrec get_words :: "nat \<Rightarrow> uint8 list \<Rightarrow> (uint64 list \<times> uint8 list) option" where
  "get_words 0 p = Some ([], p)"
| "get_words (Suc n) p =
     (case get_word 8 p of None \<Rightarrow> None
      | Some (w, p) \<Rightarrow> map_option (\<lambda>(ws, p). (w # ws, p)) (get_words n p))"

lemma get_words_append [simp]: "length ws = n \<Longrightarrow> get_words n (concat (map (le_bytes 8) ws) @ p) = Some (ws, p)"
  by (induction ws arbitrary: n) (auto simp del: le_bytes.simps)

lemma length_words [simp]: "length (concat (map (le_bytes 8) ws)) = 8 * length (ws :: uint64 list)"
  by (induction ws) (simp_all del: le_bytes.simps)

end
