(* ===== verification/Dtx_Snapshot.thy ===== *)
theory Dtx_Snapshot
  imports Xid Le_Bytes
begin

text \<open>
  Distributed snapshots: how the coordinator takes one from the transactions in progress
  (\<^verbatim>\<open>storage/ipc/procarray.c\<close>), and how it is reset, copied and sent to the segments
  (\<^verbatim>\<open>cdb/cdbdistributedsnapshot.c\<close>). What is undefined in C, reading past the end of a message and writing
  past the end of an array, is an error here; what \<^verbatim>\<open>malloc\<close> returns is an argument.
\<close>

section \<open>State\<close>

abbreviation InvalidDistributedTransactionId :: DistributedTransactionId where
  "InvalidDistributedTransactionId \<equiv> 0"

record DistributedSnapshot =
  xminAllDistributedSnapshots :: DistributedTransactionId
  distribSnapshotId :: uint32
  ds_xmin :: DistributedTransactionId
  ds_xmax :: DistributedTransactionId
  ds_count :: uint32
  inProgressXidArray :: "DistributedTransactionId list option"

datatype dtx_error = Out_of_memory | Read_past_end | Array_overrun | Recovery_not_finished | Too_many_commands

text \<open>The 32-bit \<^verbatim>\<open>count\<close> as the number of array elements.\<close>

definition ds_n :: "DistributedSnapshot \<Rightarrow> nat" where
  "ds_n ds = nat (sint (ds_count ds))"

definition ds_array :: "DistributedSnapshot \<Rightarrow> DistributedTransactionId list" where
  "ds_array ds = (case inProgressXidArray ds of None \<Rightarrow> [] | Some a \<Rightarrow> a)"

definition in_progress :: "DistributedSnapshot \<Rightarrow> DistributedTransactionId list" where
  "in_progress ds = take (ds_n ds) (ds_array ds)"

section \<open>Reset and copy\<close>

definition DistributedSnapshot_Reset :: "DistributedTransactionId list option \<Rightarrow> DistributedSnapshot \<Rightarrow> dtx_error + DistributedSnapshot" where
  "DistributedSnapshot_Reset mem ds =
     (let ds = ds\<lparr>xminAllDistributedSnapshots := InvalidDistributedTransactionId, distribSnapshotId := 0,
                ds_xmin := InvalidDistributedTransactionId, ds_xmax := InvalidDistributedTransactionId, ds_count := 0\<rparr>
      in case inProgressXidArray ds of
           Some _ \<Rightarrow> Inr ds
         | None \<Rightarrow> (case mem of None \<Rightarrow> Inl Out_of_memory | Some a \<Rightarrow> Inr (ds\<lparr>inProgressXidArray := Some a\<rparr>)))"

text \<open>Copying \<open>n\<close> elements over the front of an array.\<close>

definition copy_front :: "nat \<Rightarrow> 'a list \<Rightarrow> 'a list \<Rightarrow> dtx_error + 'a list" where
  "copy_front n src dst = (if n \<le> length src \<and> n \<le> length dst then Inr (take n src @ drop n dst) else Inl Array_overrun)"

definition DistributedSnapshot_Copy ::
  "DistributedTransactionId list option \<Rightarrow> DistributedSnapshot \<Rightarrow> DistributedSnapshot \<Rightarrow> dtx_error + DistributedSnapshot" where
  "DistributedSnapshot_Copy mem target source =
     rbind (DistributedSnapshot_Reset mem target) (\<lambda>target.
       let target = target\<lparr>xminAllDistributedSnapshots := xminAllDistributedSnapshots source,
             distribSnapshotId := distribSnapshotId source, ds_xmin := ds_xmin source, ds_xmax := ds_xmax source,
             ds_count := ds_count source\<rparr>
       in if ds_count source = 0 then Inr target
          else rbind (copy_front (ds_n source) (ds_array source) (ds_array target)) (\<lambda>a.
                 Inr (target\<lparr>inProgressXidArray := Some a\<rparr>)))"

section \<open>Messages\<close>

definition DistributedSnapshot_SerializeSize :: "DistributedSnapshot \<Rightarrow> nat" where
  "DistributedSnapshot_SerializeSize ds = 4 + 3 * 8 + 4 + 8 * ds_n ds"

definition DistributedSnapshot_Serialize :: "DistributedSnapshot \<Rightarrow> dtx_error + uint8 list" where
  "DistributedSnapshot_Serialize ds =
     (if ds_n ds \<le> length (ds_array ds)
      then Inr (le_bytes 8 (xminAllDistributedSnapshots ds) @ le_bytes 4 (distribSnapshotId ds) @
             le_bytes 8 (ds_xmin ds) @ le_bytes 8 (ds_xmax ds) @ le_bytes 4 (ds_count ds) @
             concat (map (le_bytes 8) (take (ds_n ds) (ds_array ds))))
      else Inl Array_overrun)"

text \<open>The rest of the message is returned with the snapshot.\<close>

definition dtx_read :: "'a option \<Rightarrow> ('a \<Rightarrow> dtx_error + 'b) \<Rightarrow> dtx_error + 'b" where
  "dtx_read r f = (case r of None \<Rightarrow> Inl Read_past_end | Some x \<Rightarrow> f x)"

lemma dtx_read_simps [simp]: "dtx_read None f = Inl Read_past_end" "dtx_read (Some x) f = f x"
  by (simp_all add: dtx_read_def)

definition DistributedSnapshot_Deserialize ::
  "DistributedTransactionId list option \<Rightarrow> uint8 list \<Rightarrow> DistributedSnapshot \<Rightarrow> dtx_error + DistributedSnapshot \<times> uint8 list" where
  "DistributedSnapshot_Deserialize mem p ds =
     dtx_read (get_word 8 p) (\<lambda>(xminAll, p).
     dtx_read (get_word 4 p) (\<lambda>(i, p).
     dtx_read (get_word 8 p) (\<lambda>(mn, p).
     dtx_read (get_word 8 p) (\<lambda>(mx, p).
     dtx_read (get_word 4 p) (\<lambda>(c, p).
       let ds = ds\<lparr>xminAllDistributedSnapshots := xminAll, distribSnapshotId := i, ds_xmin := mn, ds_xmax := mx, ds_count := c\<rparr>
       in if 0 < sint c then
            case (case inProgressXidArray ds of None \<Rightarrow> mem | Some a \<Rightarrow> Some a) of
              None \<Rightarrow> Inl Out_of_memory
            | Some a \<Rightarrow>
                dtx_read (get_words (ds_n ds) p) (\<lambda>(ws, p).
                  rbind (copy_front (ds_n ds) ws a) (\<lambda>a. Inr (ds\<lparr>inProgressXidArray := Some a\<rparr>, p)))
          else Inr (ds, p))))))"

section \<open>Taking a snapshot on the coordinator\<close>

text \<open>The global transaction of a backend, and the shared state the snapshot is taken from.\<close>

record TMGXACT =
  gxid :: DistributedTransactionId
  xminDistributedSnapshot :: DistributedTransactionId

record tm_state =
  latestCompletedGxid :: DistributedTransactionId
  allTmGxact :: "TMGXACT list"
  pgprocnos :: "nat list"
  shmCommittedGxidArray :: "DistributedTransactionId list"
  shmNextSnapshotId :: uint32

definition DistributedSnapshotMappedEntry_Compare :: "DistributedTransactionId \<Rightarrow> DistributedTransactionId \<Rightarrow> int" where
  "DistributedSnapshotMappedEntry_Compare distribXid1 distribXid2 =
     (if distribXid1 = distribXid2 then 0 else if distribXid1 > distribXid2 then 1 else -1)"

text \<open>\<^verbatim>\<open>xmin\<close>, \<^verbatim>\<open>count\<close> and the array while it is filled.\<close>

type_synonym gathered = "DistributedTransactionId \<times> nat \<times> DistributedTransactionId list"

definition push_gxid :: "DistributedTransactionId \<Rightarrow> gathered \<Rightarrow> dtx_error + gathered" where
  "push_gxid g st = (case st of (xmin, cnt, a) \<Rightarrow>
     if cnt < length a then Inr (xmin, cnt + 1, a[cnt := g]) else Inl Array_overrun)"

fun gather_committed :: "DistributedTransactionId \<Rightarrow> DistributedTransactionId list \<Rightarrow> gathered \<Rightarrow> dtx_error + gathered" where
  "gather_committed xmax [] st = Inr st"
| "gather_committed xmax (g # gs) (xmin, cnt, a) =
     (if g = InvalidDistributedTransactionId \<or> g \<ge> xmax then gather_committed xmax gs (xmin, cnt, a)
      else let xmin = (if g < xmin then g else xmin)
           in rbind (push_gxid g (xmin, cnt, a)) (gather_committed xmax gs))"

fun gather_procs :: "nat \<Rightarrow> TMGXACT list \<Rightarrow> DistributedTransactionId \<Rightarrow> nat list \<Rightarrow>
    DistributedTransactionId \<Rightarrow> gathered \<Rightarrow> dtx_error + DistributedTransactionId \<times> gathered" where
  "gather_procs me all xmax [] globalXmin st = Inr (globalXmin, st)"
| "gather_procs me all xmax (p # ps) globalXmin (xmin, cnt, a) =
     (let dxid = xminDistributedSnapshot (all ! p);
          globalXmin = (if dxid \<noteq> InvalidDistributedTransactionId \<and> dxid < globalXmin then dxid else globalXmin);
          g = gxid (all ! p)
      in if g = InvalidDistributedTransactionId \<or> g \<ge> xmax then gather_procs me all xmax ps globalXmin (xmin, cnt, a)
         else let xmin = (if g < xmin then g else xmin)
              in if p = me then gather_procs me all xmax ps globalXmin (xmin, cnt, a)
                 else rbind (push_gxid g (xmin, cnt, a)) (gather_procs me all xmax ps globalXmin))"

definition CreateDistributedSnapshot ::
  "bool \<Rightarrow> nat \<Rightarrow> tm_state \<Rightarrow> DistributedSnapshot \<Rightarrow> dtx_error + DistributedSnapshot \<times> tm_state" where
  "CreateDistributedSnapshot IS_HOT_STANDBY_QD me tm ds =
     (if \<not> IS_HOT_STANDBY_QD \<and> shmCommittedGxidArray tm \<noteq> [] then Inl Recovery_not_finished
      else
        let xmax = latestCompletedGxid tm + 1
        in rbind (if IS_HOT_STANDBY_QD then gather_committed xmax (shmCommittedGxidArray tm) (xmax, 0, ds_array ds)
                  else Inr (xmax, 0, ds_array ds)) (\<lambda>st.
           rbind (gather_procs me (allTmGxact tm) xmax (pgprocnos tm) xmax st) (\<lambda>(globalXmin, xmin, cnt, a).
             let snapshotId = shmNextSnapshotId tm + 1;
                 globalXmin = (if xmin < globalXmin then xmin else globalXmin);
                 ds = ds\<lparr>xminAllDistributedSnapshots := globalXmin, distribSnapshotId := snapshotId,
                        ds_xmin := xmin, ds_xmax := xmax, ds_count := of_nat cnt, inProgressXidArray := Some a\<rparr>;
                 mine = allTmGxact tm ! me;
                 mine = (if xminDistributedSnapshot mine = InvalidDistributedTransactionId
                         then mine\<lparr>xminDistributedSnapshot := xmin\<rparr> else mine)
             in Inr (ds, tm\<lparr>shmNextSnapshotId := snapshotId, allTmGxact := (allTmGxact tm)[me := mine]\<rparr>))))"

text \<open>
  The distributed part of \<^verbatim>\<open>GetSnapshotData\<close> on the coordinator: the array is sorted after the snapshot is
  taken, by \<^verbatim>\<open>qsort\<close> with the comparison above. The ids are totally ordered by it, so every sorting algorithm gives the list that insertion gives.
\<close>

fun insert_gxid :: "DistributedTransactionId \<Rightarrow> DistributedTransactionId list \<Rightarrow> DistributedTransactionId list" where
  "insert_gxid g [] = [g]"
| "insert_gxid g (h # hs) = (if DistributedSnapshotMappedEntry_Compare g h \<le> 0 then g # h # hs else h # insert_gxid g hs)"

definition qsort_gxids :: "DistributedTransactionId list \<Rightarrow> DistributedTransactionId list" where
  "qsort_gxids gs = foldr insert_gxid gs []"

definition sort_snapshot :: "DistributedSnapshot \<Rightarrow> DistributedSnapshot" where
  "sort_snapshot ds =
     (if 1 < sint (ds_count ds)
      then ds\<lparr>inProgressXidArray := Some (qsort_gxids (take (ds_n ds) (ds_array ds)) @ drop (ds_n ds) (ds_array ds))\<rparr> else ds)"

definition take_snapshot :: "bool \<Rightarrow> nat \<Rightarrow> tm_state \<Rightarrow> DistributedSnapshot \<Rightarrow> dtx_error + DistributedSnapshot \<times> tm_state" where
  "take_snapshot IS_HOT_STANDBY_QD me tm ds = rbind (CreateDistributedSnapshot IS_HOT_STANDBY_QD me tm ds) (\<lambda>(ds, tm). Inr (sort_snapshot ds, tm))"

end
