(* ===== verification/Dtx_Facts.thy ===== *)
theory Dtx_Facts
  imports Dtx_Snapshot
begin

text \<open>
  What a snapshot taken on the coordinator holds, and that sending it keeps it.
\<close>

section \<open>Counts\<close>

lemma nat_sint_of_nat: "n < 2 ^ 31 \<Longrightarrow> nat (sint (of_nat n :: uint32)) = n"
proof -
  assume a: "n < 2 ^ 31"
  then have "uint (of_nat n :: uint32) = int n" by (simp add: uint_nat unat_of_nat)
  then show ?thesis using a by (simp add: sint_cases)
qed

section \<open>Messages\<close>

definition same_snapshot :: "DistributedSnapshot \<Rightarrow> DistributedSnapshot \<Rightarrow> bool" where
  "same_snapshot ds ds' \<longleftrightarrow> xminAllDistributedSnapshots ds' = xminAllDistributedSnapshots ds \<and>
     distribSnapshotId ds' = distribSnapshotId ds \<and> ds_xmin ds' = ds_xmin ds \<and> ds_xmax ds' = ds_xmax ds \<and>
     ds_count ds' = ds_count ds \<and> in_progress ds' = in_progress ds"

text \<open>The array of the receiver, or the one it will get, has room for the snapshot.\<close>

definition has_room :: "DistributedTransactionId list option \<Rightarrow> DistributedSnapshot \<Rightarrow> nat \<Rightarrow> bool" where
  "has_room mem ds n = (case inProgressXidArray ds of
     Some a \<Rightarrow> n \<le> length a
   | None \<Rightarrow> (case mem of Some a \<Rightarrow> n \<le> length a | None \<Rightarrow> False))"

lemma Serialize_size: "DistributedSnapshot_Serialize ds = Inr bs \<Longrightarrow> length bs = DistributedSnapshot_SerializeSize ds"
  by (auto simp: DistributedSnapshot_Serialize_def DistributedSnapshot_SerializeSize_def split: if_splits)

lemma Deserialize_Serialize:
  assumes "DistributedSnapshot_Serialize ds = Inr bs" "has_room mem target (ds_n ds)"
  shows "\<exists>target'. DistributedSnapshot_Deserialize mem (bs @ rest) target = Inr (target', rest) \<and> same_snapshot ds target'"
proof -
  let ?t = "target\<lparr>xminAllDistributedSnapshots := xminAllDistributedSnapshots ds, distribSnapshotId := distribSnapshotId ds,
    ds_xmin := ds_xmin ds, ds_xmax := ds_xmax ds, ds_count := ds_count ds\<rparr>"
  have n: "ds_n ds \<le> length (ds_array ds)" and bs: "bs = le_bytes 8 (xminAllDistributedSnapshots ds) @ le_bytes 4 (distribSnapshotId ds) @
      le_bytes 8 (ds_xmin ds) @ le_bytes 8 (ds_xmax ds) @ le_bytes 4 (ds_count ds) @ concat (map (le_bytes 8) (in_progress ds))"
    using assms(1) by (auto simp: DistributedSnapshot_Serialize_def in_progress_def split: if_splits)
  have len: "length (in_progress ds) = ds_n ds" using n by (simp add: in_progress_def)
  have nt: "ds_n ?t = ds_n ds" by (simp add: ds_n_def)
  obtain a where a: "(case inProgressXidArray target of None \<Rightarrow> mem | Some a \<Rightarrow> Some a) = Some a" "ds_n ds \<le> length a"
    using assms(2) by (auto simp: has_room_def split: option.splits)
  show ?thesis
  proof (cases "0 < sint (ds_count ds)")
    case True
    have "DistributedSnapshot_Deserialize mem (bs @ rest) target =
        Inr (?t\<lparr>inProgressXidArray := Some (in_progress ds @ drop (ds_n ds) a)\<rparr>, rest)"
      using True a len by (simp add: DistributedSnapshot_Deserialize_def bs nt copy_front_def Let_def del: le_bytes.simps)
    then show ?thesis using len by (simp add: same_snapshot_def in_progress_def [of "DistributedSnapshot.inProgressXidArray_update _ _"] ds_n_def ds_array_def)
  next
    case False
    then have "ds_n ds = 0" by (simp add: ds_n_def)
    then have "DistributedSnapshot_Deserialize mem (bs @ rest) target = Inr (?t, rest)"
      using False len by (simp add: DistributedSnapshot_Deserialize_def bs Let_def del: le_bytes.simps)
    then show ?thesis using \<open>ds_n ds = 0\<close> nt by (simp add: same_snapshot_def in_progress_def)
  qed
qed

section \<open>Copying\<close>

lemma Reset_Inr:
  assumes "has_room mem ds n"
  shows "\<exists>t a. DistributedSnapshot_Reset mem ds = Inr t \<and> inProgressXidArray t = Some a \<and> n \<le> length a \<and> ds_count t = 0"
  using assms by (cases "inProgressXidArray ds"; cases mem) (auto simp: has_room_def DistributedSnapshot_Reset_def Let_def)

lemma Copy_same:
  assumes "has_room mem target (ds_n source)" "ds_n source \<le> length (ds_array source)"
  shows "\<exists>t. DistributedSnapshot_Copy mem target source = Inr t \<and> same_snapshot source t"
proof -
  from Reset_Inr [OF assms(1)] obtain r a where r: "DistributedSnapshot_Reset mem target = Inr r"
      "inProgressXidArray r = Some a" "ds_n source \<le> length a" by blast
  let ?t = "r\<lparr>xminAllDistributedSnapshots := xminAllDistributedSnapshots source,
    distribSnapshotId := distribSnapshotId source, ds_xmin := ds_xmin source, ds_xmax := ds_xmax source, ds_count := ds_count source\<rparr>"
  have a: "ds_array ?t = a" using r(2) by (simp add: ds_array_def)
  show ?thesis
  proof (cases "ds_count source = 0")
    case True
    then have "ds_n source = 0" "ds_n ?t = 0" by (simp_all add: ds_n_def)
    then show ?thesis using r(1) True by (auto simp: DistributedSnapshot_Copy_def Let_def same_snapshot_def in_progress_def)
  next
    case False
    let ?u = "?t\<lparr>inProgressXidArray := Some (take (ds_n source) (ds_array source) @ drop (ds_n source) a)\<rparr>"
    have "DistributedSnapshot_Copy mem target source = Inr ?u"
      using r(1,3) a assms(2) False by (simp add: DistributedSnapshot_Copy_def Let_def copy_front_def)
    moreover have "ds_n ?u = ds_n source" by (simp add: ds_n_def)
    moreover have "ds_array ?u = take (ds_n source) (ds_array source) @ drop (ds_n source) a" by (simp add: ds_array_def)
    ultimately show ?thesis using assms(2) by (simp add: same_snapshot_def in_progress_def)
  qed
qed

section \<open>Taking a snapshot\<close>

definition live :: "DistributedTransactionId \<Rightarrow> DistributedTransactionId \<Rightarrow> bool" where
  "live xmax g \<longleftrightarrow> g \<noteq> InvalidDistributedTransactionId \<and> g < xmax"

lemma push_gxid_Inr:
  "push_gxid g (xm, c, a) = Inr st \<longleftrightarrow> c < length a \<and> st = (xm, c + 1, a[c := g])"
  by (auto simp: push_gxid_def)

lemma take_update_next: "c < length a \<Longrightarrow> take (Suc c) (a[c := g]) = take c a @ [g]"
  by (simp add: take_Suc_conv_app_nth)

lemma lower_min: "(if g < x then g else x) = min g (x :: DistributedTransactionId)"
  "(if d \<noteq> 0 \<and> d < x then d else x) = (if d \<noteq> 0 then min d x else (x :: DistributedTransactionId))"
  by (auto simp: min_def)

lemma gather_committed_Cons:
  "gather_committed xmax (g # gs) (xm, c, a) =
    (if live xmax g then rbind (push_gxid g (min g xm, c, a)) (gather_committed xmax gs) else gather_committed xmax gs (xm, c, a))"
  unfolding gather_committed.simps Let_def lower_min live_def by auto

lemma gather_committed_spec:
  "gather_committed xmax gs (xm, c, a) = Inr (xm', c', a') \<Longrightarrow> c \<le> length a \<Longrightarrow>
    xm' = fold min (filter (live xmax) gs) xm \<and> c' \<le> length a' \<and> length a' = length a \<and>
    take c' a' = take c a @ filter (live xmax) gs"
proof (induction gs arbitrary: xm c a)
  case (Cons g gs)
  show ?case
  proof (cases "live xmax g")
    case True
    then have "c < length a" and r: "gather_committed xmax gs (min g xm, c + 1, a[c := g]) = Inr (xm', c', a')"
      using Cons.prems(1) by (auto simp: live_def push_gxid_Inr rbind_Inr_iff min_def Let_def split: if_splits)
    from Cons.IH [OF r] \<open>c < length a\<close> show ?thesis using True by (simp add: take_update_next)
  next
    case False
    then have "gather_committed xmax gs (xm, c, a) = Inr (xm', c', a')"
      using Cons.prems(1) by (auto simp: live_def not_less split: if_splits)
    from Cons.IH [OF this Cons.prems(2)] False show ?thesis by simp
  qed
qed simp

lemma gather_procs_Cons:
  "gather_procs me all xmax (p # ps) gm (xm, c, a) =
    (let d = xminDistributedSnapshot (all ! p); g = gxid (all ! p); gm = (if d \<noteq> 0 then min d gm else gm)
     in if \<not> live xmax g then gather_procs me all xmax ps gm (xm, c, a)
        else if p = me then gather_procs me all xmax ps gm (min g xm, c, a)
        else rbind (push_gxid g (min g xm, c, a)) (gather_procs me all xmax ps gm))"
  unfolding gather_procs.simps Let_def lower_min live_def by (simp add: not_less)

lemma gather_procs_spec:
  "gather_procs me all xmax ps gm (xm, c, a) = Inr (gm', xm', c', a') \<Longrightarrow> c \<le> length a \<Longrightarrow>
    xm' = fold min (filter (live xmax) (map (\<lambda>p. gxid (all ! p)) ps)) xm \<and>
    gm' = fold min (filter (\<lambda>d. d \<noteq> 0) (map (\<lambda>p. xminDistributedSnapshot (all ! p)) ps)) gm \<and>
    c' \<le> length a' \<and> length a' = length a \<and>
    take c' a' = take c a @ filter (live xmax) (map (\<lambda>p. gxid (all ! p)) (filter (\<lambda>p. p \<noteq> me) ps))"
proof (induction ps arbitrary: gm xm c a)
  case (Cons p ps)
  let ?d = "xminDistributedSnapshot (all ! p)" and ?g = "gxid (all ! p)"
  let ?gm = "if ?d \<noteq> 0 then min ?d gm else gm"
  consider "\<not> live xmax ?g" | "live xmax ?g" "p = me" | "live xmax ?g" "p \<noteq> me" by blast
  then show ?case
  proof cases
    case 1
    then have "gather_procs me all xmax ps ?gm (xm, c, a) = Inr (gm', xm', c', a')"
      using Cons.prems(1) unfolding gather_procs_Cons Let_def by simp
    from Cons.IH [OF this Cons.prems(2)] 1 show ?thesis by simp
  next
    case 2
    then have "gather_procs me all xmax ps ?gm (min ?g xm, c, a) = Inr (gm', xm', c', a')"
      using Cons.prems(1) unfolding gather_procs_Cons Let_def by simp
    from Cons.IH [OF this Cons.prems(2)] 2 show ?thesis by simp
  next
    case 3
    then have "rbind (push_gxid ?g (min ?g xm, c, a)) (gather_procs me all xmax ps ?gm) = Inr (gm', xm', c', a')"
      using Cons.prems(1) unfolding gather_procs_Cons Let_def by simp
    then have "c < length a" and r: "gather_procs me all xmax ps ?gm (min ?g xm, c + 1, a[c := ?g]) = Inr (gm', xm', c', a')"
      unfolding rbind_Inr_iff push_gxid_Inr by auto
    from Cons.IH [OF r] \<open>c < length a\<close> 3 show ?thesis by (simp add: take_update_next)
  qed
qed (simp add: live_def)

declare gather_committed.simps(2) [simp del] gather_procs.simps(2) [simp del]

text \<open>Enough room for all of them.\<close>

lemma gather_committed_ok:
  "c + length (filter (live xmax) gs) \<le> length a \<Longrightarrow> \<exists>st. gather_committed xmax gs (xm, c, a) = Inr st"
proof (induction gs arbitrary: xm c a)
  case (Cons g gs)
  then show ?case by (cases "live xmax g") (simp_all add: gather_committed_Cons push_gxid_def)
qed simp

lemma gather_procs_ok:
  "c + length (filter (live xmax) (map (\<lambda>p. gxid (all ! p)) (filter (\<lambda>p. p \<noteq> me) ps))) \<le> length a \<Longrightarrow>
    \<exists>r. gather_procs me all xmax ps gm (xm, c, a) = Inr r"
proof (induction ps arbitrary: gm xm c a)
  case (Cons p ps)
  show ?case
  proof (cases "live xmax (gxid (all ! p)) \<and> p \<noteq> me")
    case True
    then show ?thesis using Cons.prems Cons.IH by (simp add: gather_procs_Cons Let_def push_gxid_def)
  next
    case False
    then show ?thesis using Cons.prems Cons.IH by (auto simp: gather_procs_Cons Let_def split: if_splits)
  qed
qed simp

text \<open>The transactions a snapshot taken by backend \<open>me\<close> treats as in progress.\<close>

definition running :: "bool \<Rightarrow> nat \<Rightarrow> tm_state \<Rightarrow> DistributedTransactionId list" where
  "running standby me tm =
     (let xmax = latestCompletedGxid tm + 1
      in (if standby then filter (live xmax) (shmCommittedGxidArray tm) else []) @
         filter (live xmax) (map (\<lambda>p. gxid (allTmGxact tm ! p)) (filter (\<lambda>p. p \<noteq> me) (pgprocnos tm))))"

definition snapshot_of :: "bool \<Rightarrow> nat \<Rightarrow> tm_state \<Rightarrow> DistributedSnapshot \<Rightarrow> bool" where
  "snapshot_of standby me tm ds \<longleftrightarrow> ds_xmax ds = latestCompletedGxid tm + 1 \<and>
     set (in_progress ds) = set (running standby me tm) \<and> sorted (in_progress ds) \<and> ds_n ds = length (in_progress ds) \<and>
     ds_xmin ds \<le> ds_xmax ds \<and> (\<forall>g \<in> set (in_progress ds). ds_xmin ds \<le> g \<and> g < ds_xmax ds) \<and>
     (\<forall>p \<in> set (pgprocnos tm). live (ds_xmax ds) (gxid (allTmGxact tm ! p)) \<longrightarrow> ds_xmin ds \<le> gxid (allTmGxact tm ! p)) \<and>
     xminAllDistributedSnapshots ds \<le> ds_xmin ds \<and>
     (\<forall>p \<in> set (pgprocnos tm). xminDistributedSnapshot (allTmGxact tm ! p) \<noteq> 0 \<longrightarrow>
        xminAllDistributedSnapshots ds \<le> xminDistributedSnapshot (allTmGxact tm ! p))"

lemma fold_min_le: "fold min xs x \<le> (x :: 'a::linorder)" "y \<in> set xs \<Longrightarrow> fold min xs x \<le> y"
  unfolding Min.set_eq_fold [symmetric] by simp_all

lemma CreateDistributedSnapshot_Inr:
  assumes "CreateDistributedSnapshot standby me tm ds = Inr (ds', tm')"
  shows "\<exists>c a. ds_count ds' = of_nat c \<and> inProgressXidArray ds' = Some a \<and> c \<le> length a \<and> length a = length (ds_array ds) \<and>
    take c a = running standby me tm \<and> ds_xmax ds' = latestCompletedGxid tm + 1 \<and>
    ds_xmin ds' = fold min (filter (live (ds_xmax ds')) (map (\<lambda>p. gxid (allTmGxact tm ! p)) (pgprocnos tm)))
      (fold min (if standby then filter (live (ds_xmax ds')) (shmCommittedGxidArray tm) else []) (ds_xmax ds')) \<and>
    xminAllDistributedSnapshots ds' = min (ds_xmin ds')
      (fold min (filter (\<lambda>d. d \<noteq> 0) (map (\<lambda>p. xminDistributedSnapshot (allTmGxact tm ! p)) (pgprocnos tm))) (ds_xmax ds'))"
proof -
  let ?xmax = "latestCompletedGxid tm + 1"
  from assms obtain st gm xm c a where
    st: "(if standby then gather_committed ?xmax (shmCommittedGxidArray tm) (?xmax, 0, ds_array ds) else Inr (?xmax, 0, ds_array ds)) = Inr st"
    and g: "gather_procs me (allTmGxact tm) ?xmax (pgprocnos tm) ?xmax st = Inr (gm, xm, c, a)"
    and ds': "ds' = ds\<lparr>xminAllDistributedSnapshots := (if xm < gm then xm else gm), distribSnapshotId := shmNextSnapshotId tm + 1,
      ds_xmin := xm, ds_xmax := ?xmax, ds_count := of_nat c, inProgressXidArray := Some a\<rparr>"
    by (auto simp: CreateDistributedSnapshot_def Let_def rbind_Inr_iff split: if_splits)
  obtain xm1 c1 a1 where st1: "st = (xm1, c1, a1)" by (cases st)
  have s1: "xm1 = fold min (if standby then filter (live ?xmax) (shmCommittedGxidArray tm) else []) ?xmax" "c1 \<le> length a1"
    "length a1 = length (ds_array ds)" "take c1 a1 = (if standby then filter (live ?xmax) (shmCommittedGxidArray tm) else [])"
    using st gather_committed_spec [of ?xmax "shmCommittedGxidArray tm" ?xmax 0 "ds_array ds" xm1 c1 a1]
    by (auto simp: st1 split: if_splits)
  from gather_procs_spec [OF g [unfolded st1] s1(2)] show ?thesis
    using s1 by (intro exI [of _ c] exI [of _ a]) (simp add: ds' running_def Let_def lower_min)
qed

lemma qsort_gxids_sort: "qsort_gxids gs = sort gs"
proof -
  have "insert_gxid g hs = insort g hs" for g hs
    by (induction hs) (auto simp: DistributedSnapshotMappedEntry_Compare_def)
  then have "insert_gxid = insort" by (intro ext)
  then show ?thesis by (simp add: qsort_gxids_def sort_key_def)
qed

lemma sort_snapshot_facts:
  assumes "ds_n ds \<le> length (ds_array ds)"
  shows "in_progress (sort_snapshot ds) = sort (in_progress ds)" "ds_n (sort_snapshot ds) = ds_n ds"
    "ds_xmin (sort_snapshot ds) = ds_xmin ds" "ds_xmax (sort_snapshot ds) = ds_xmax ds"
    "xminAllDistributedSnapshots (sort_snapshot ds) = xminAllDistributedSnapshots ds"
proof -
  have n: "ds_n (sort_snapshot ds) = ds_n ds" by (simp add: sort_snapshot_def ds_n_def)
  have short: "sort xs = xs" if "length xs \<le> 1" for xs :: "DistributedTransactionId list"
    using that by (cases xs; cases "tl xs") auto
  show "in_progress (sort_snapshot ds) = sort (in_progress ds)"
  proof (cases "1 < sint (ds_count ds)")
    case True
    then have "ds_array (sort_snapshot ds) = sort (in_progress ds) @ drop (ds_n ds) (ds_array ds)"
      by (simp add: sort_snapshot_def ds_array_def in_progress_def qsort_gxids_sort)
    then show ?thesis using n assms by (simp add: in_progress_def [of "sort_snapshot ds"]) (simp add: in_progress_def)
  next
    case False
    then have "length (in_progress ds) \<le> 1" by (simp add: in_progress_def ds_n_def)
    from short [OF this] False show ?thesis by (simp add: sort_snapshot_def)
  qed
  show "ds_n (sort_snapshot ds) = ds_n ds" by (rule n)
qed (simp_all add: sort_snapshot_def)

lemma take_snapshot_of:
  assumes r: "take_snapshot standby me tm ds0 = Inr (ds', tm')" and cap: "length (ds_array ds0) < 2 ^ 31"
  shows "snapshot_of standby me tm ds'"
proof -
  from r obtain ds1 where ds1: "CreateDistributedSnapshot standby me tm ds0 = Inr (ds1, tm')" and ds': "ds' = sort_snapshot ds1"
    by (auto simp: take_snapshot_def rbind_Inr_iff)
  from CreateDistributedSnapshot_Inr [OF ds1] obtain c a where c: "ds_count ds1 = of_nat c" "inProgressXidArray ds1 = Some a"
      "c \<le> length a" "length a = length (ds_array ds0)" "take c a = running standby me tm" "ds_xmax ds1 = latestCompletedGxid tm + 1"
    and xm: "ds_xmin ds1 = fold min (filter (live (ds_xmax ds1)) (map (\<lambda>p. gxid (allTmGxact tm ! p)) (pgprocnos tm)))
      (fold min (if standby then filter (live (ds_xmax ds1)) (shmCommittedGxidArray tm) else []) (ds_xmax ds1))"
    and gm: "xminAllDistributedSnapshots ds1 = min (ds_xmin ds1)
      (fold min (filter (\<lambda>d. d \<noteq> 0) (map (\<lambda>p. xminDistributedSnapshot (allTmGxact tm ! p)) (pgprocnos tm))) (ds_xmax ds1))"
    by blast
  have n: "ds_n ds1 = c" using c cap by (simp add: ds_n_def nat_sint_of_nat)
  have ip1: "in_progress ds1 = running standby me tm" using c n by (simp add: in_progress_def ds_array_def)
  have "ds_n ds1 \<le> length (ds_array ds1)" using c(2,3) n by (simp add: ds_array_def)
  note sf = sort_snapshot_facts [OF this]
  have len: "length (running standby me tm) = c" unfolding c(5) [symmetric] using c(3) by simp
  have f: "in_progress ds' = sort (running standby me tm)" "ds_n ds' = length (running standby me tm)"
      "ds_xmin ds' = ds_xmin ds1" "ds_xmax ds' = ds_xmax ds1" "xminAllDistributedSnapshots ds' = xminAllDistributedSnapshots ds1"
    unfolding ds' sf ip1 len n by (rule refl)+
  let ?A = "filter (live (ds_xmax ds1)) (map (\<lambda>p. gxid (allTmGxact tm ! p)) (pgprocnos tm))"
  let ?B = "if standby then filter (live (ds_xmax ds1)) (shmCommittedGxidArray tm) else []"
  have A: "ds_xmin ds1 \<le> g" if "g \<in> set ?A" for g unfolding xm using that by (rule fold_min_le(2))
  have B: "ds_xmin ds1 \<le> g" if "g \<in> set ?B" for g unfolding xm by (rule order_trans [OF fold_min_le(1) fold_min_le(2) [OF that]])
  have mx: "ds_xmin ds1 \<le> ds_xmax ds1" unfolding xm by (rule order_trans [OF fold_min_le(1) fold_min_le(1)])
  have sub: "set (running standby me tm) \<subseteq> set ?A \<union> set ?B" by (auto simp: running_def Let_def c(6))
  have lt: "g < ds_xmax ds1" if "g \<in> set (running standby me tm)" for g
    using that by (auto simp: running_def Let_def c(6) live_def split: if_splits)
  have own: "ds_xmin ds1 \<le> gxid (allTmGxact tm ! p)" if "p \<in> set (pgprocnos tm)" "live (ds_xmax ds1) (gxid (allTmGxact tm ! p))" for p
    using that by (intro A) simp
  have all: "xminAllDistributedSnapshots ds1 \<le> xminDistributedSnapshot (allTmGxact tm ! p)"
    if "p \<in> set (pgprocnos tm)" "xminDistributedSnapshot (allTmGxact tm ! p) \<noteq> 0" for p
    unfolding gm using that by (intro min.coboundedI2 fold_min_le(2)) simp
  have low: "ds_xmin ds1 \<le> g" if "g \<in> set (running standby me tm)" for g using A B sub that by blast
  show ?thesis unfolding snapshot_of_def f using c(6) low mx lt own all gm by simp
qed

end
