(* ===== verification/Snapshot_Data.thy ===== *)
theory Snapshot_Data
  imports Dtx_Facts
begin

text \<open>
  The snapshot of a backend (\<^verbatim>\<open>utils/snapshot.h\<close>): the local transactions in progress and, on a segment, the
  distributed snapshot with the local ids already mapped to it. How the distributed part is reset
  (\<^verbatim>\<open>storage/ipc/procarray.c\<close>) and how a snapshot is copied (\<^verbatim>\<open>utils/time/snapmgr.c\<close>). Arrays are
  lists as long as the memory behind them; a counter says how much of an array is in use.
\<close>

section \<open>State\<close>

record DistributedSnapshotWithLocalMapping =
  lm_ds :: DistributedSnapshot
  minCachedLocalXid :: TransactionId
  maxCachedLocalXid :: TransactionId
  currentLocalXidsCount :: uint32
  inProgressMappedLocalXids :: "TransactionId list option"

datatype SnapshotType =
    SNAPSHOT_MVCC
  | SNAPSHOT_SELF
  | SNAPSHOT_ANY
  | SNAPSHOT_TOAST
  | SNAPSHOT_DIRTY
  | SNAPSHOT_HISTORIC_MVCC
  | SNAPSHOT_NON_VACUUMABLE

record SnapshotData =
  snapshot_type :: SnapshotType
  sn_xmin :: TransactionId
  sn_xmax :: TransactionId
  xip :: "TransactionId list option"
  xcnt :: uint32
  subxip :: "TransactionId list option"
  subxcnt :: uint32
  suboverflowed :: bool
  takenDuringRecovery :: bool
  copied :: bool
  haveDistribSnapshot :: bool
  sn_curcid :: uint32
  active_count :: uint32
  regd_count :: uint32
  distribSnapshotWithLocalMapping :: DistributedSnapshotWithLocalMapping

definition IsMVCCSnapshot :: "SnapshotData \<Rightarrow> bool" where
  "IsMVCCSnapshot s \<longleftrightarrow> snapshot_type s = SNAPSHOT_MVCC \<or> snapshot_type s = SNAPSHOT_HISTORIC_MVCC"

text \<open>An array behind a pointer that may be null, and the local ids mapped so far.\<close>

definition buf :: "'a list option \<Rightarrow> 'a list" where
  "buf p = (case p of None \<Rightarrow> [] | Some a \<Rightarrow> a)"

lemma buf_simps [simp]: "buf None = []" "buf (Some a) = a"
  by (simp_all add: buf_def)

definition mapped :: "DistributedSnapshotWithLocalMapping \<Rightarrow> TransactionId list" where
  "mapped dslm = take (nat (sint (currentLocalXidsCount dslm))) (buf (inProgressMappedLocalXids dslm))"

section \<open>Reset\<close>

definition SnapshotResetDslm ::
  "TransactionId list option \<Rightarrow> DistributedTransactionId list option \<Rightarrow> SnapshotData \<Rightarrow> dtx_error + SnapshotData" where
  "SnapshotResetDslm xmem dmem snapshot =
     (let dslm = (distribSnapshotWithLocalMapping snapshot)\<lparr>currentLocalXidsCount := 0,
            minCachedLocalXid := InvalidTransactionId, maxCachedLocalXid := InvalidTransactionId\<rparr>
      in case (case inProgressMappedLocalXids dslm of None \<Rightarrow> xmem | Some a \<Rightarrow> Some a) of
           None \<Rightarrow> Inl Out_of_memory
         | Some a \<Rightarrow>
             rbind (DistributedSnapshot_Reset dmem (lm_ds dslm)) (\<lambda>d.
               Inr (snapshot\<lparr>haveDistribSnapshot := False,
                      distribSnapshotWithLocalMapping := dslm\<lparr>inProgressMappedLocalXids := Some a, lm_ds := d\<rparr>\<rparr>)))"

section \<open>Copy\<close>

text \<open>
  The copy and its arrays share one block of memory, so each array is exactly as long as its counter says;
  \<open>raw\<close> is what the block holds in the part for the mapped local ids before they are copied.
\<close>

definition clip :: "nat \<Rightarrow> 'a list \<Rightarrow> dtx_error + 'a list" where
  "clip n a = (if n \<le> length a then Inr (take n a) else Inl Array_overrun)"

definition copy_dslm ::
  "TransactionId list \<Rightarrow> bool \<Rightarrow> DistributedSnapshotWithLocalMapping \<Rightarrow> dtx_error + DistributedSnapshotWithLocalMapping" where
  "copy_dslm raw have_ds dslm =
     (let new = dslm\<lparr>lm_ds := (lm_ds dslm)\<lparr>inProgressXidArray := None\<rparr>, inProgressMappedLocalXids := None\<rparr>
      in if have_ds \<and> 0 < sint (ds_count (lm_ds dslm)) then
           rbind (clip (ds_n (lm_ds dslm)) (ds_array (lm_ds dslm))) (\<lambda>a.
           rbind (if 0 < sint (currentLocalXidsCount dslm)
                  then copy_front (nat (sint (currentLocalXidsCount dslm))) (buf (inProgressMappedLocalXids dslm)) raw
                  else Inr raw) (\<lambda>m.
             Inr (new\<lparr>lm_ds := (lm_ds dslm)\<lparr>inProgressXidArray := Some a\<rparr>, inProgressMappedLocalXids := Some m\<rparr>)))
         else Inr new)"

definition CopySnapshot :: "TransactionId list \<Rightarrow> SnapshotData \<Rightarrow> dtx_error + SnapshotData" where
  "CopySnapshot raw snapshot =
     (if \<not> IsMVCCSnapshot snapshot then Inr snapshot
      else
        rbind (if 0 < xcnt snapshot then map_sum id Some (clip (unat (xcnt snapshot)) (buf (xip snapshot))) else Inr None) (\<lambda>x.
        rbind (if 0 < sint (subxcnt snapshot) \<and> (\<not> suboverflowed snapshot \<or> takenDuringRecovery snapshot)
               then map_sum id Some (clip (nat (sint (subxcnt snapshot))) (buf (subxip snapshot))) else Inr None) (\<lambda>sx.
        rbind (copy_dslm raw (haveDistribSnapshot snapshot) (distribSnapshotWithLocalMapping snapshot)) (\<lambda>dslm.
          Inr (snapshot\<lparr>regd_count := 0, active_count := 0, copied := True, xip := x, subxip := sx,
                 distribSnapshotWithLocalMapping := dslm\<rparr>)))))"

section \<open>What a reset leaves\<close>

lemma SnapshotResetDslm_Inr:
  assumes "SnapshotResetDslm xmem dmem s = Inr s'"
  shows "currentLocalXidsCount (distribSnapshotWithLocalMapping s') = 0 \<and> \<not> haveDistribSnapshot s' \<and>
    inProgressXidArray (lm_ds (distribSnapshotWithLocalMapping s')) \<noteq> None \<and>
    inProgressMappedLocalXids (distribSnapshotWithLocalMapping s') \<noteq> None \<and>
    sn_xmin s' = sn_xmin s \<and> sn_xmax s' = sn_xmax s"
  using assms
  by (auto simp: SnapshotResetDslm_def DistributedSnapshot_Reset_def Let_def rbind_Inr_iff split: option.splits)

end
