(* ===== verification/Xact_Cache.thy ===== *)
theory Xact_Cache
  imports Xid "HOL-Library.AList"
begin

text \<open>
  The state of a distributed transaction in a backend, and the cache of recently looked up committed
  transactions, from \<^verbatim>\<open>cdb/cdblocaldistribxact.c\<close>. The hash table is an association list, the LRU list a list of keys
  with the most recently used first.
\<close>

section \<open>The state of a distributed transaction\<close>

datatype LocalDistribXactState =
    LOCALDISTRIBXACT_STATE_NONE
  | LOCALDISTRIBXACT_STATE_ACTIVE
  | LOCALDISTRIBXACT_STATE_COMMITTED
  | LOCALDISTRIBXACT_STATE_ABORTED
  | LOCALDISTRIBXACT_STATE_PREPARED

record LocalDistribXactData =
  ld_state :: LocalDistribXactState
  ld_distribXid :: DistributedTransactionId

text \<open>The two kinds of \<^verbatim>\<open>PANIC\<close>: the old state does not allow the new one, or the new one is never set here.\<close>

datatype xact_panic =
    Panic_found_state DistributedTransactionId string
  | Panic_unexpected_state string
  | Panic_unrecognized_state LocalDistribXactState

fun LocalDistribXactStateToString :: "LocalDistribXactState \<Rightarrow> string" where
  "LocalDistribXactStateToString LOCALDISTRIBXACT_STATE_ACTIVE = ''Active''"
| "LocalDistribXactStateToString LOCALDISTRIBXACT_STATE_COMMITTED = ''Committed''"
| "LocalDistribXactStateToString LOCALDISTRIBXACT_STATE_ABORTED = ''Aborted''"
| "LocalDistribXactStateToString LOCALDISTRIBXACT_STATE_PREPARED = ''Prepared''"
| "LocalDistribXactStateToString LOCALDISTRIBXACT_STATE_NONE = ''Unknown''"

definition LocalDistribXact_ChangeState ::
  "nat \<Rightarrow> LocalDistribXactState \<Rightarrow> LocalDistribXactData list \<Rightarrow> xact_panic + LocalDistribXactData list" where
  "LocalDistribXact_ChangeState pgprocno newState allProcs =
     (let oldState = ld_state (allProcs ! pgprocno);
          distribXid = ld_distribXid (allProcs ! pgprocno);
          wrong = Inl (Panic_found_state distribXid (LocalDistribXactStateToString oldState));
          moved = Inr (allProcs[pgprocno := (allProcs ! pgprocno)\<lparr>ld_state := newState\<rparr>])
      in case newState of
           LOCALDISTRIBXACT_STATE_PREPARED \<Rightarrow> if oldState \<noteq> LOCALDISTRIBXACT_STATE_ACTIVE then wrong else moved
         | LOCALDISTRIBXACT_STATE_COMMITTED \<Rightarrow> if oldState \<noteq> LOCALDISTRIBXACT_STATE_ACTIVE then wrong else moved
         | LOCALDISTRIBXACT_STATE_ABORTED \<Rightarrow>
             if oldState \<noteq> LOCALDISTRIBXACT_STATE_ACTIVE \<and> oldState \<noteq> LOCALDISTRIBXACT_STATE_ABORTED then wrong else moved
         | LOCALDISTRIBXACT_STATE_ACTIVE \<Rightarrow> Inl (Panic_unexpected_state (LocalDistribXactStateToString newState))
         | _ \<Rightarrow> Inl (Panic_unrecognized_state newState))"

section \<open>The cache\<close>

record LocalDistribXactCacheEntry =
  ce_distribXid :: DistributedTransactionId
  visits :: uint64

record LocalDistribXactCache =
  LocalDistribCacheMemCxt :: bool
  LocalDistribCacheHtab :: "(TransactionId \<times> LocalDistribXactCacheEntry) list"
  lruDoublyLinkedHead :: "TransactionId list"
  lc_count :: int
  hitCount :: uint64
  totalCount :: uint64
  addCount :: uint64
  removeCount :: uint64

text \<open>
  The error that adding a key twice raises, and what only assertions exclude: adding before the table exists, and removing
  the last entry of an empty list.
\<close>

datatype cache_error = Cache_found TransactionId | Cache_no_entry | Cache_not_created

definition fresh_cache :: LocalDistribXactCache where
  "fresh_cache = \<lparr>LocalDistribCacheMemCxt = True, LocalDistribCacheHtab = [], lruDoublyLinkedHead = [], lc_count = 0,
     hitCount = 0, totalCount = 0, addCount = 0, removeCount = 0\<rparr>"

definition LocalDistribXactCache_CommittedFind ::
  "int \<Rightarrow> TransactionId \<Rightarrow> LocalDistribXactCache \<Rightarrow> DistributedTransactionId option \<times> LocalDistribXactCache" where
  "LocalDistribXactCache_CommittedFind gp_max_local_distributed_cache localXid c =
     (if gp_max_local_distributed_cache = 0 then (None, c)
      else
        let c = (if LocalDistribCacheMemCxt c then c else fresh_cache);
            (distribXid, c) =
              (case map_of (LocalDistribCacheHtab c) localXid of
                 Some entry \<Rightarrow>
                   (Some (ce_distribXid entry),
                    c\<lparr>lruDoublyLinkedHead := localXid # remove1 localXid (lruDoublyLinkedHead c),
                      LocalDistribCacheHtab := AList.update localXid (entry\<lparr>visits := visits entry + 1\<rparr>) (LocalDistribCacheHtab c),
                      hitCount := hitCount c + 1\<rparr>)
               | None \<Rightarrow> (None, c))
        in (distribXid, c\<lparr>totalCount := totalCount c + 1\<rparr>))"

text \<open>Removing the least recently used entry; taking the tail of an empty list is undefined in C, an error here.\<close>

definition remove_oldest :: "LocalDistribXactCache \<Rightarrow> cache_error + LocalDistribXactCache" where
  "remove_oldest c =
     (if lruDoublyLinkedHead c = [] then Inl Cache_no_entry
      else let lastXid = last (lruDoublyLinkedHead c)
           in Inr (c\<lparr>lruDoublyLinkedHead := butlast (lruDoublyLinkedHead c),
                LocalDistribCacheHtab := AList.delete lastXid (LocalDistribCacheHtab c),
                lc_count := lc_count c - 1, removeCount := removeCount c + 1\<rparr>))"

definition LocalDistribXactCache_AddCommitted ::
  "int \<Rightarrow> TransactionId \<Rightarrow> DistributedTransactionId \<Rightarrow> LocalDistribXactCache \<Rightarrow> cache_error + LocalDistribXactCache" where
  "LocalDistribXactCache_AddCommitted gp_max_local_distributed_cache localXid distribXid c =
     (if gp_max_local_distributed_cache = 0 then Inr c
      else if \<not> LocalDistribCacheMemCxt c then Inl Cache_not_created
      else rbind (if lc_count c \<ge> gp_max_local_distributed_cache then remove_oldest c else Inr c) (\<lambda>c.
        if map_of (LocalDistribCacheHtab c) localXid \<noteq> None then Inl (Cache_found localXid)
        else Inr (c\<lparr>lruDoublyLinkedHead := localXid # lruDoublyLinkedHead c,
               LocalDistribCacheHtab := AList.update localXid \<lparr>ce_distribXid = distribXid, visits = 1\<rparr> (LocalDistribCacheHtab c),
               lc_count := lc_count c + 1, addCount := addCount c + 1\<rparr>)))"

section \<open>What the cache holds\<close>

definition cache_content :: "LocalDistribXactCache \<Rightarrow> TransactionId \<Rightarrow> DistributedTransactionId option" where
  "cache_content c x = map_option ce_distribXid (map_of (LocalDistribCacheHtab c) x)"

definition cache_ok :: "int \<Rightarrow> LocalDistribXactCache \<Rightarrow> bool" where
  "cache_ok m c \<longleftrightarrow> distinct (lruDoublyLinkedHead c) \<and> set (lruDoublyLinkedHead c) = fst ` set (LocalDistribCacheHtab c) \<and>
     lc_count c = int (length (lruDoublyLinkedHead c)) \<and> lc_count c \<le> m \<and> (\<not> LocalDistribCacheMemCxt c \<longrightarrow> LocalDistribCacheHtab c = [])"

text \<open>Using a key: it moves to the front and the list is cut to the capacity.\<close>

definition lru_touch :: "nat \<Rightarrow> 'k \<Rightarrow> 'k list \<Rightarrow> 'k list" where
  "lru_touch m k ks = take m (k # removeAll k ks)"

lemma cache_ok_mem: "cache_ok m c \<Longrightarrow> x \<in> set (lruDoublyLinkedHead c) \<longleftrightarrow> cache_content c x \<noteq> None"
  by (auto simp: cache_ok_def cache_content_def map_of_eq_None_iff)

lemma touch_hit:
  assumes "distinct ks" "k \<in> set ks" "length ks \<le> m"
  shows "lru_touch m k ks = k # remove1 k ks"
  using assms by (simp add: lru_touch_def distinct_remove1_removeAll [symmetric] length_remove1) (metis One_nat_def Suc_pred length_pos_if_in_set not_less_eq_eq take_all_iff length_remove1 take_Suc_Cons)

lemma front_length: "k \<in> set ks \<Longrightarrow> int (length (remove1 k ks)) = int (length ks) - 1"
  using length_pos_if_in_set [of k ks] by (simp add: length_remove1 of_nat_diff Suc_le_eq)

lemma touch_miss:
  assumes "k \<notin> set ks" "length ks \<le> m" "0 < m"
  shows "lru_touch m k ks = k # (if m \<le> length ks then butlast ks else ks)"
  using assms by (cases m) (auto simp: lru_touch_def butlast_conv_take le_Suc_eq not_less_eq_eq)

section \<open>The interface\<close>

text \<open>
  What a client of a lookup cache relies on: looking up returns what the cache holds and does not change it; adding a key
  that was just looked up and not found succeeds, and afterwards the cache holds nothing that it did not hold before but the new key.
\<close>

locale lookup_cache =
  fixes look :: "'k \<Rightarrow> 'c \<Rightarrow> 'v option \<times> 'c" and add :: "'k \<Rightarrow> 'v \<Rightarrow> 'c \<Rightarrow> 'e + 'c"
    and content :: "'c \<Rightarrow> 'k \<Rightarrow> 'v option" and ok :: "'c \<Rightarrow> bool"
  assumes find_content: "ok c \<Longrightarrow> look k c = (v, c') \<Longrightarrow> v = content c k \<and> content c' = content c \<and> ok c'"
    and add_content: "ok c \<Longrightarrow> look k c = (None, c') \<Longrightarrow>
      \<exists>c''. add k w c' = Inr c'' \<and> ok c'' \<and> content c'' \<subseteq>\<^sub>m (content c)(k \<mapsto> w)"

text \<open>What the cache is in front of: a lookup that may be expensive, but does not change what it answers.\<close>

locale commit_log =
  fixes check :: "'k \<Rightarrow> 's \<Rightarrow> 'f + (bool \<times> 'v) \<times> 's" and answer :: "'s \<Rightarrow> 'k \<Rightarrow> 'v option option" and log_ok :: "'s \<Rightarrow> bool"
  assumes check_found: "log_ok s \<Longrightarrow> answer s k = Some (Some v) \<Longrightarrow>
      \<exists>s'. check k s = Inr ((True, v), s') \<and> log_ok s' \<and> answer s' = answer s"
    and check_missing: "log_ok s \<Longrightarrow> answer s k = Some None \<Longrightarrow>
      \<exists>d s'. check k s = Inr ((False, d), s') \<and> log_ok s' \<and> answer s' = answer s"

text \<open>Looking in the cache first, and adding what only the log knows.\<close>

definition cached_lookup ::
  "('k \<Rightarrow> 'c \<Rightarrow> 'v option \<times> 'c) \<Rightarrow> ('k \<Rightarrow> 'v \<Rightarrow> 'c \<Rightarrow> 'e + 'c) \<Rightarrow> ('k \<Rightarrow> 's \<Rightarrow> 'f + (bool \<times> 'v) \<times> 's) \<Rightarrow>
   'k \<Rightarrow> 'c \<Rightarrow> 's \<Rightarrow> ('e + 'f) + 'v option \<times> 'c \<times> 's" where
  "cached_lookup look add check k c s =
     (case look k c of
        (Some v, c) \<Rightarrow> Inr (Some v, c, s)
      | (None, c) \<Rightarrow>
          (case check k s of
             Inl f \<Rightarrow> Inl (Inr f)
           | Inr ((found, v), s) \<Rightarrow>
               if found then (case add k v c of Inl e \<Rightarrow> Inl (Inl e) | Inr c \<Rightarrow> Inr (Some v, c, s))
               else Inr (None, c, s)))"

locale cached_log = lookup_cache look add content ok + commit_log check answer log_ok
  for look :: "'k \<Rightarrow> 'c \<Rightarrow> 'v option \<times> 'c" and add :: "'k \<Rightarrow> 'v \<Rightarrow> 'c \<Rightarrow> 'e + 'c"
    and content :: "'c \<Rightarrow> 'k \<Rightarrow> 'v option" and ok :: "'c \<Rightarrow> bool"
    and check :: "'k \<Rightarrow> 's \<Rightarrow> 'f + (bool \<times> 'v) \<times> 's" and answer :: "'s \<Rightarrow> 'k \<Rightarrow> 'v option option" and log_ok :: "'s \<Rightarrow> bool"
begin

lemma lookup_answer:
  assumes "ok c" "log_ok s" "\<forall>k v. content c k = Some v \<longrightarrow> answer s k = Some (Some v)" "answer s k = Some r"
  shows "\<exists>c' s'. cached_lookup look add check k c s = Inr (r, c', s') \<and> ok c' \<and> log_ok s' \<and> answer s' = answer s \<and>
    (\<forall>k v. content c' k = Some v \<longrightarrow> answer s' k = Some (Some v))"
proof -
  obtain v c1 where f: "look k c = (v, c1)" by (cases "look k c")
  from find_content [OF assms(1) f] have c1: "v = content c k" "content c1 = content c" "ok c1" by simp_all
  show ?thesis
  proof (cases v)
    case (Some w)
    then have "r = Some w" using assms(3,4) c1(1) by auto
    then show ?thesis using Some f c1 assms(2,3) by (simp add: cached_lookup_def)
  next
    case miss: None
    show ?thesis
    proof (cases r)
      case None
      from check_missing [OF assms(2)] assms(4) None obtain d s' where
        "check k s = Inr ((False, d), s')" "log_ok s'" "answer s' = answer s" by blast
      then show ?thesis using None miss f c1 assms(3) by (simp add: cached_lookup_def)
    next
      case (Some w)
      from check_found [OF assms(2)] assms(4) Some obtain s' where
        s': "check k s = Inr ((True, w), s')" "log_ok s'" "answer s' = answer s" by blast
      from add_content [OF assms(1)] f miss obtain c' where
        c': "add k w c1 = Inr c'" "ok c'" "content c' \<subseteq>\<^sub>m (content c)(k \<mapsto> w)" by blast
      have "answer s' j = Some (Some u)" if "content c' j = Some u" for j u
      proof -
        have "((content c)(k \<mapsto> w)) j = Some u" using c'(3) that by (auto simp: map_le_def dom_def)
        then show ?thesis using assms(3,4) Some s'(3) by (auto split: if_splits)
      qed
      then show ?thesis using Some miss f s' c' by (simp add: cached_lookup_def)
    qed
  qed
qed

end

section \<open>The cache implements it\<close>

lemma CommittedFind_cases:
  assumes "cache_ok m c" "LocalDistribXactCache_CommittedFind m x c = (v, c')"
  shows "v = cache_content c x \<and> cache_content c' = cache_content c \<and> cache_ok m c' \<and> (m \<noteq> 0 \<longrightarrow> LocalDistribCacheMemCxt c') \<and>
    lruDoublyLinkedHead c' = (if v = None then lruDoublyLinkedHead c else lru_touch (nat m) x (lruDoublyLinkedHead c))"
proof (cases "m = 0")
  case True
  then have "LocalDistribCacheHtab c = []" using assms(1) by (auto simp: cache_ok_def)
  then show ?thesis using assms True by (auto simp: LocalDistribXactCache_CommittedFind_def cache_content_def)
next
  case False
  define c0 where "c0 = (if LocalDistribCacheMemCxt c then c else fresh_cache)"
  have c0: "cache_ok m c0" "cache_content c0 = cache_content c" "lruDoublyLinkedHead c0 = lruDoublyLinkedHead c" "LocalDistribCacheMemCxt c0"
    using assms(1) by (auto simp: c0_def cache_ok_def cache_content_def fresh_cache_def fun_eq_iff)
  show ?thesis
  proof (cases "map_of (LocalDistribCacheHtab c0) x")
    case None
    then have "v = None" "c' = c0\<lparr>totalCount := totalCount c0 + 1\<rparr>"
      using assms(2) False by (simp_all add: LocalDistribXactCache_CommittedFind_def c0_def [symmetric] Let_def)
    moreover have "cache_content c x = None" using None c0(2) by (metis cache_content_def option.map_disc_iff)
    ultimately show ?thesis using c0 by (simp add: cache_ok_def cache_content_def fun_eq_iff)
  next
    case (Some e)
    have v: "v = Some (ce_distribXid e)" and c': "c' = c0\<lparr>lruDoublyLinkedHead := x # remove1 x (lruDoublyLinkedHead c0),
        LocalDistribCacheHtab := AList.update x (e\<lparr>visits := visits e + 1\<rparr>) (LocalDistribCacheHtab c0),
        hitCount := hitCount c0 + 1, totalCount := totalCount c0 + 1\<rparr>"
      using assms(2) False Some by (simp_all add: LocalDistribXactCache_CommittedFind_def c0_def [symmetric] Let_def)
    have x: "x \<in> set (lruDoublyLinkedHead c0)" using Some c0(1) by (metis cache_content_def cache_ok_mem option.map_disc_iff option.simps(3))
    have "cache_content c x = v" unfolding c0(2) [symmetric] using Some by (simp add: cache_content_def v)
    moreover have "cache_content c' = cache_content c0" using Some by (auto simp: c' cache_content_def update_conv' fun_eq_iff)
    moreover have "cache_ok m c'" using c0(1,4) x by (auto simp: c' cache_ok_def dom_update front_length)
    moreover have "lru_touch (nat m) x (lruDoublyLinkedHead c0) = x # remove1 x (lruDoublyLinkedHead c0)"
      using c0(1) x by (intro touch_hit) (auto simp: cache_ok_def)
    ultimately show ?thesis using c0(2-4) v by (simp add: c')
  qed
qed

lemma keys_delete: "fst ` set (AList.delete k al) = fst ` set al - {k}"
  by (metis delete_keys set_map set_removeAll)

lemma remove_oldest_ok:
  assumes "cache_ok m c" "lruDoublyLinkedHead c \<noteq> []"
  shows "\<exists>c'. remove_oldest c = Inr c' \<and> cache_ok m c' \<and> lc_count c' = lc_count c - 1 \<and>
    lruDoublyLinkedHead c' = butlast (lruDoublyLinkedHead c) \<and> cache_content c' \<subseteq>\<^sub>m cache_content c"
proof -
  obtain ks k where ks: "lruDoublyLinkedHead c = ks @ [k]" using assms(2) by (metis rev_exhaust)
  define c' where "c' = c\<lparr>lruDoublyLinkedHead := ks, LocalDistribCacheHtab := AList.delete k (LocalDistribCacheHtab c),
    lc_count := lc_count c - 1, removeCount := removeCount c + 1\<rparr>"
  have "remove_oldest c = Inr c'" by (simp add: remove_oldest_def ks c'_def)
  moreover have "cache_ok m c'" using assms(1) by (auto simp: cache_ok_def c'_def ks keys_delete)
  moreover have "cache_content c' \<subseteq>\<^sub>m cache_content c"
    by (auto simp: map_le_def cache_content_def c'_def delete_conv' dom_def split: if_splits)
  ultimately show ?thesis by (simp add: c'_def ks)
qed

lemma AddCommitted_ok:
  assumes "cache_ok m c" "cache_content c x = None" "LocalDistribCacheMemCxt c" "m \<noteq> 0"
  shows "\<exists>c'. LocalDistribXactCache_AddCommitted m x d c = Inr c' \<and> cache_ok m c' \<and>
    cache_content c' \<subseteq>\<^sub>m (cache_content c)(x \<mapsto> d) \<and> cache_content c' x = Some d \<and>
    lruDoublyLinkedHead c' = lru_touch (nat m) x (lruDoublyLinkedHead c)"
proof -
  let ?full = "m \<le> lc_count c"
  have m: "0 < m" "lc_count c \<le> m" "lc_count c = int (length (lruDoublyLinkedHead c))" using assms(1,4) by (auto simp: cache_ok_def)
  have "\<exists>c1. (if ?full then remove_oldest c else Inr c) = Inr c1 \<and> cache_ok m c1 \<and> lc_count c1 < m \<and>
      lruDoublyLinkedHead c1 = (if ?full then butlast (lruDoublyLinkedHead c) else lruDoublyLinkedHead c) \<and> cache_content c1 \<subseteq>\<^sub>m cache_content c"
  proof (cases ?full)
    case True
    then have "lruDoublyLinkedHead c \<noteq> []" using m by auto
    from remove_oldest_ok [OF assms(1) this] show ?thesis using True m by auto
  qed (use assms(1) in auto)
  then obtain c1 where c1: "(if ?full then remove_oldest c else Inr c) = Inr c1" "cache_ok m c1" "lc_count c1 < m"
    "lruDoublyLinkedHead c1 = (if ?full then butlast (lruDoublyLinkedHead c) else lruDoublyLinkedHead c)"
    "cache_content c1 \<subseteq>\<^sub>m cache_content c" by blast
  have free: "cache_content c1 x = None" using c1(5) assms(2) by (metis domIff map_le_def)
  then have free': "map_of (LocalDistribCacheHtab c1) x = None" "x \<notin> set (lruDoublyLinkedHead c1)"
    using cache_ok_mem [OF c1(2), of x] by (auto simp: cache_content_def)
  have x: "x \<notin> set (lruDoublyLinkedHead c)" using assms(2) cache_ok_mem [OF assms(1), of x] by simp
  define c' where "c' = c1\<lparr>lruDoublyLinkedHead := x # lruDoublyLinkedHead c1,
    LocalDistribCacheHtab := AList.update x \<lparr>ce_distribXid = d, visits = 1\<rparr> (LocalDistribCacheHtab c1),
    lc_count := lc_count c1 + 1, addCount := addCount c1 + 1\<rparr>"
  have mem: "LocalDistribCacheMemCxt c1"
    using c1(1) assms(3) by (auto simp: remove_oldest_def Let_def split: if_splits)
  have "LocalDistribXactCache_AddCommitted m x d c = Inr c'"
    using assms(3,4) c1(1) free'(1) by (simp add: LocalDistribXactCache_AddCommitted_def c'_def)
  moreover have "cache_ok m c'" using c1(2,3) free'(2) mem by (auto simp: cache_ok_def c'_def dom_update)
  moreover have "cache_content c' = (cache_content c1)(x \<mapsto> d)" by (auto simp: cache_content_def c'_def update_conv' fun_eq_iff)
  moreover have "lruDoublyLinkedHead c' = lru_touch (nat m) x (lruDoublyLinkedHead c)"
    using m c1(4) touch_miss [OF x, of "nat m"] by (simp add: c'_def nat_le_iff le_nat_iff)
  ultimately show ?thesis using c1(5) by (auto intro: map_le_upd)
qed

interpretation xact_cache: lookup_cache "LocalDistribXactCache_CommittedFind m" "LocalDistribXactCache_AddCommitted m" cache_content "cache_ok m" for m
proof
  fix c k v c'
  show "cache_ok m c \<Longrightarrow> LocalDistribXactCache_CommittedFind m k c = (v, c') \<Longrightarrow>
      v = cache_content c k \<and> cache_content c' = cache_content c \<and> cache_ok m c'"
    using CommittedFind_cases by blast
next
  fix c k c' w
  assume c: "cache_ok m c" and f: "LocalDistribXactCache_CommittedFind m k c = (None, c')"
  note facts = CommittedFind_cases [OF c f]
  show "\<exists>c''. LocalDistribXactCache_AddCommitted m k w c' = Inr c'' \<and> cache_ok m c'' \<and> cache_content c'' \<subseteq>\<^sub>m (cache_content c)(k \<mapsto> w)"
  proof (cases "m = 0")
    case True
    have "cache_content c \<subseteq>\<^sub>m (cache_content c)(k \<mapsto> w)" using facts by (simp add: map_le_def dom_def)
    then show ?thesis using True facts by (simp add: LocalDistribXactCache_AddCommitted_def)
  next
    case False
    from AddCommitted_ok [of m c' k w] facts False show ?thesis by auto
  qed
qed

end
