(* ===== verification/Dtx_Visibility.thy ===== *)
theory Dtx_Visibility
  imports Snapshot_Data Xact_Cache Dlog_Entries
begin

text \<open>
  Whether a transaction that committed on a segment is visible to a distributed snapshot
  (\<^verbatim>\<open>cdb/cdbdistributedsnapshot.c\<close>), and the check of the table access methods that calls it
  (\<^verbatim>\<open>XidInMVCCSnapshot\<close> in \<^verbatim>\<open>utils/time/snapmgr.c\<close>). The test consults the local ids mapped so far, the cache of the
  process and the distributed log, in this order. Reading or writing past the end of an array is an error here.
\<close>

section \<open>The test\<close>

datatype DistributedSnapshotCommitted =
    DISTRIBUTEDSNAPSHOT_COMMITTED_NONE
  | DISTRIBUTEDSNAPSHOT_COMMITTED_INPROGRESS
  | DISTRIBUTEDSNAPSHOT_COMMITTED_VISIBLE
  | DISTRIBUTEDSNAPSHOT_COMMITTED_UNKNOWN
  | DISTRIBUTEDSNAPSHOT_COMMITTED_IGNORE

datatype test_error = Test_lookup "cache_error + dlog_error" | Test_array | Test_unrecognized DistributedSnapshotCommitted

text \<open>The two loops: over the mapped local ids, and over the sorted distributed ids with its early end.\<close>

fun scan_local :: "TransactionId \<Rightarrow> nat \<Rightarrow> TransactionId list \<Rightarrow> test_error + bool" where
  "scan_local x 0 a = Inr False"
| "scan_local x (Suc n) [] = Inl Test_array"
| "scan_local x (Suc n) (y # a) = (if x = y then Inr True else scan_local x n a)"

fun scan_distributed :: "DistributedTransactionId \<Rightarrow> nat \<Rightarrow> DistributedTransactionId list \<Rightarrow> test_error + bool" where
  "scan_distributed d 0 a = Inr False"
| "scan_distributed d (Suc n) [] = Inl Test_array"
| "scan_distributed d (Suc n) (e # a) = (if d = e then Inr True else if d < e then Inr False else scan_distributed d n a)"

definition mapped_hit :: "TransactionId \<Rightarrow> DistributedSnapshotWithLocalMapping \<Rightarrow> test_error + bool" where
  "mapped_hit localXid dslm =
     (if 0 < sint (currentLocalXidsCount dslm) then
        if localXid = minCachedLocalXid dslm \<or> localXid = maxCachedLocalXid dslm then Inr True
        else if TransactionIdFollows localXid (minCachedLocalXid dslm) \<and> TransactionIdPrecedes localXid (maxCachedLocalXid dslm)
        then scan_local localXid (unat (currentLocalXidsCount dslm)) (buf (inProgressMappedLocalXids dslm))
        else Inr False
      else Inr False)"

definition remember_mapping :: "TransactionId \<Rightarrow> DistributedSnapshotWithLocalMapping \<Rightarrow> test_error + DistributedSnapshotWithLocalMapping" where
  "remember_mapping localXid dslm =
     (if sint (currentLocalXidsCount dslm) < sint (ds_count (lm_ds dslm)) then
        let i = unat (currentLocalXidsCount dslm); a = buf (inProgressMappedLocalXids dslm)
        in if i < length a then
             Inr (dslm\<lparr>inProgressMappedLocalXids := Some (a[i := localXid]),
               currentLocalXidsCount := currentLocalXidsCount dslm + 1,
               minCachedLocalXid :=
                 (if minCachedLocalXid dslm = InvalidTransactionId \<or> TransactionIdPrecedes localXid (minCachedLocalXid dslm)
                  then localXid else minCachedLocalXid dslm),
               maxCachedLocalXid :=
                 (if maxCachedLocalXid dslm = InvalidTransactionId \<or> TransactionIdFollows localXid (maxCachedLocalXid dslm)
                  then localXid else maxCachedLocalXid dslm)\<rparr>)
           else Inl Test_array
      else Inr dslm)"

text \<open>The part of the test after the distributed id is known.\<close>

definition test_distributed ::
  "DistributedTransactionId \<Rightarrow> TransactionId \<Rightarrow> bool \<Rightarrow> DistributedSnapshotWithLocalMapping \<Rightarrow>
   test_error + DistributedSnapshotCommitted \<times> DistributedSnapshotWithLocalMapping" where
  "test_distributed distribXid localXid isVacuumCheck dslm =
     (let d = lm_ds dslm
      in if distribXid < xminAllDistributedSnapshots d then Inr (DISTRIBUTEDSNAPSHOT_COMMITTED_IGNORE, dslm)
         else if isVacuumCheck then Inr (DISTRIBUTEDSNAPSHOT_COMMITTED_INPROGRESS, dslm)
         else if distribXid < ds_xmin d then Inr (DISTRIBUTEDSNAPSHOT_COMMITTED_VISIBLE, dslm)
         else if distribXid \<ge> ds_xmax d then Inr (DISTRIBUTEDSNAPSHOT_COMMITTED_INPROGRESS, dslm)
         else rbind (scan_distributed distribXid (unat (ds_count d)) (ds_array d)) (\<lambda>found.
                if found then rbind (remember_mapping localXid dslm) (\<lambda>dslm. Inr (DISTRIBUTEDSNAPSHOT_COMMITTED_INPROGRESS, dslm))
                else Inr (DISTRIBUTEDSNAPSHOT_COMMITTED_VISIBLE, dslm)))"

definition find_distributed ::
  "int \<Rightarrow> TransactionId \<Rightarrow> LocalDistribXactCache \<Rightarrow> dlog \<Rightarrow>
   (cache_error + dlog_error) + DistributedTransactionId option \<times> LocalDistribXactCache \<times> dlog" where
  "find_distributed m = cached_lookup (LocalDistribXactCache_CommittedFind m) (LocalDistribXactCache_AddCommitted m) DistributedLog_CommittedCheck"

type_synonym test_state = "DistributedSnapshotWithLocalMapping \<times> LocalDistribXactCache \<times> dlog"

definition DistributedSnapshotWithLocalMapping_CommittedTest ::
  "int \<Rightarrow> TransactionId \<Rightarrow> bool \<Rightarrow> test_state \<Rightarrow> test_error + DistributedSnapshotCommitted \<times> test_state" where
  "DistributedSnapshotWithLocalMapping_CommittedTest gp_max_local_distributed_cache localXid isVacuumCheck st =
     (case st of (dslm, c, log) \<Rightarrow>
        if \<not> TransactionIdIsNormal localXid then Inr (DISTRIBUTEDSNAPSHOT_COMMITTED_IGNORE, dslm, c, log)
        else rbind (mapped_hit localXid dslm) (\<lambda>hit.
          if hit then Inr (DISTRIBUTEDSNAPSHOT_COMMITTED_INPROGRESS, dslm, c, log)
          else rbind (map_sum Test_lookup id (find_distributed gp_max_local_distributed_cache localXid c log)) (\<lambda>(distribXid, c, log).
            case distribXid of
              None \<Rightarrow> Inr (DISTRIBUTEDSNAPSHOT_COMMITTED_UNKNOWN, dslm, c, log)
            | Some distribXid \<Rightarrow>
                rbind (test_distributed distribXid localXid isVacuumCheck dslm) (\<lambda>(r, dslm). Inr (r, dslm, c, log)))))"

section \<open>The check of the table access methods\<close>

datatype XidInMVCCSnapshotCheckResult = XID_NOT_IN_SNAPSHOT | XID_IN_SNAPSHOT | XID_SURELY_COMMITTED

text \<open>
  The local check. \<open>topmost\<close> is what \<^verbatim>\<open>SubTransGetTopmostTransaction\<close> reads from \<^verbatim>\<open>pg_subtrans\<close>.
\<close>

definition XidInMVCCSnapshot_Local :: "(TransactionId \<Rightarrow> TransactionId) \<Rightarrow> TransactionId \<Rightarrow> SnapshotData \<Rightarrow> test_error + bool" where
  "XidInMVCCSnapshot_Local topmost xid snapshot =
     (if TransactionIdPrecedes xid (sn_xmin snapshot) then Inr False
      else if TransactionIdFollowsOrEquals xid (sn_xmax snapshot) then Inr True
      else
        let sub = nat (sint (subxcnt snapshot)); top = (if suboverflowed snapshot then topmost xid else xid)
        in if \<not> takenDuringRecovery snapshot then
             if \<not> suboverflowed snapshot then
               rbind (scan_local xid sub (buf (subxip snapshot))) (\<lambda>found.
                 if found then Inr True else scan_local xid (unat (xcnt snapshot)) (buf (xip snapshot)))
             else if TransactionIdPrecedes top (sn_xmin snapshot) then Inr False
             else scan_local top (unat (xcnt snapshot)) (buf (xip snapshot))
           else if suboverflowed snapshot \<and> TransactionIdPrecedes top (sn_xmin snapshot) then Inr False
           else scan_local top sub (buf (subxip snapshot)))"

definition local_result :: "bool \<Rightarrow> XidInMVCCSnapshotCheckResult" where
  "local_result b = (if b then XID_IN_SNAPSHOT else XID_NOT_IN_SNAPSHOT)"

text \<open>The second component of the result is \<^verbatim>\<open>*setDistributedSnapshotIgnore\<close>.\<close>

definition XidInMVCCSnapshot ::
  "int \<Rightarrow> bool \<Rightarrow> (TransactionId \<Rightarrow> TransactionId) \<Rightarrow> TransactionId \<Rightarrow> bool \<Rightarrow> SnapshotData \<times> LocalDistribXactCache \<times> dlog \<Rightarrow>
   test_error + (XidInMVCCSnapshotCheckResult \<times> bool) \<times> SnapshotData \<times> LocalDistribXactCache \<times> dlog" where
  "XidInMVCCSnapshot m IS_QUERY_DISPATCHER topmost xid distributedSnapshotIgnore st =
     (case st of (snapshot, c, log) \<Rightarrow>
        let check_local = (\<lambda>ignore snapshot c log.
              rbind (XidInMVCCSnapshot_Local topmost xid snapshot) (\<lambda>b. Inr ((local_result b, ignore), snapshot, c, log)))
        in if haveDistribSnapshot snapshot \<and> \<not> distributedSnapshotIgnore \<and> \<not> IS_QUERY_DISPATCHER then
             if \<not> TransactionIdIsNormal xid then Inr ((XID_NOT_IN_SNAPSHOT, False), snapshot, c, log)
             else if TransactionIdFollowsOrEquals xid (sn_xmax snapshot) then Inr ((XID_IN_SNAPSHOT, False), snapshot, c, log)
             else
               rbind (DistributedSnapshotWithLocalMapping_CommittedTest m xid False (distribSnapshotWithLocalMapping snapshot, c, log))
                 (\<lambda>(r, dslm, c, log).
                    let snapshot = snapshot\<lparr>distribSnapshotWithLocalMapping := dslm\<rparr>
                    in case r of
                         DISTRIBUTEDSNAPSHOT_COMMITTED_INPROGRESS \<Rightarrow> Inr ((XID_IN_SNAPSHOT, False), snapshot, c, log)
                       | DISTRIBUTEDSNAPSHOT_COMMITTED_VISIBLE \<Rightarrow> Inr ((XID_SURELY_COMMITTED, False), snapshot, c, log)
                       | DISTRIBUTEDSNAPSHOT_COMMITTED_IGNORE \<Rightarrow> check_local True snapshot c log
                       | DISTRIBUTEDSNAPSHOT_COMMITTED_UNKNOWN \<Rightarrow> check_local False snapshot c log
                       | DISTRIBUTEDSNAPSHOT_COMMITTED_NONE \<Rightarrow> Inl (Test_unrecognized r))
           else check_local False snapshot c log)"

end
