(* ===== verification/Dtx_Test.thy ===== *)
theory Dtx_Test
  imports Dtx_Visibility
begin

text \<open>
  The visibility test decides as if it asked the distributed log every time and looked through the whole snapshot: the
  caches in front of the log do not show. The invariant says what the caches may hold.
\<close>

section \<open>The log behind the cache\<close>

text \<open>What the log answers about a local transaction: an error, no distributed transaction, or its id.\<close>

definition log_answer :: "dlog \<Rightarrow> TransactionId \<Rightarrow> DistributedTransactionId option option" where
  "log_answer s x =
     (if oldestXmin s = InvalidTransactionId then None
      else if TransactionIdPrecedes x (oldestXmin s) then Some None
      else map_option (\<lambda>d. if d = 0 then None else Some d) (logged s x))"

lemma CommittedCheck_answer:
  assumes "dlog_ok s" "log_answer s x = Some r"
  shows "\<exists>d s'. DistributedLog_CommittedCheck x s = Inr ((r \<noteq> None, d), s') \<and> (\<forall>v. r = Some v \<longrightarrow> d = v) \<and>
    dlog_ok s' \<and> log_answer s' = log_answer s"
proof (cases "TransactionIdPrecedes x (oldestXmin s)")
  case True
  then show ?thesis using assms by (auto simp: log_answer_def DistributedLog_CommittedCheck_def split: if_splits)
next
  case False
  then obtain p where p: "slru_view False (DistributedLogCtl s) (TransactionIdToPage x) = Some p"
      "r = (if p (TransactionIdToEntry x) = 0 then None else Some (p (TransactionIdToEntry x)))"
    using assms(2) by (auto simp: log_answer_def logged_def split: if_splits)
  from dlog_read_Some [OF assms(1) p(1)] obtain s' where s': "dlog_read False (TransactionIdToPage x) s = Inr (p, s')" .
  note f = dlog_read_Inr [OF assms(1) s']
  have "log_answer s' = log_answer s" using f(3,5) by (simp add: log_answer_def fun_eq_iff)
  then show ?thesis using assms(2) False s' f(2) p(2)
    by (auto simp: DistributedLog_CommittedCheck_def log_answer_def Let_def split: if_splits)
qed

interpretation dist_log: commit_log DistributedLog_CommittedCheck log_answer dlog_ok
proof
  fix s k v
  assume "dlog_ok s" "log_answer s k = Some (Some v)"
  from CommittedCheck_answer [OF this]
  show "\<exists>s'. DistributedLog_CommittedCheck k s = Inr ((True, v), s') \<and> dlog_ok s' \<and> log_answer s' = log_answer s" by auto
next
  fix s k
  assume "dlog_ok s" "log_answer s k = Some None"
  from CommittedCheck_answer [OF this]
  show "\<exists>d s'. DistributedLog_CommittedCheck k s = Inr ((False, d), s') \<and> dlog_ok s' \<and> log_answer s' = log_answer s" by auto
qed

interpretation dist_lookup: cached_log "LocalDistribXactCache_CommittedFind m" "LocalDistribXactCache_AddCommitted m" cache_content
  "cache_ok m" DistributedLog_CommittedCheck log_answer dlog_ok for m
  by unfold_locales

definition coherent :: "LocalDistribXactCache \<Rightarrow> dlog \<Rightarrow> bool" where
  "coherent c log \<longleftrightarrow> (\<forall>x d. cache_content c x = Some d \<longrightarrow> log_answer log x = Some (Some d))"

lemma find_distributed_answer:
  assumes "cache_ok m c" "dlog_ok log" "coherent c log" "log_answer log x = Some r"
  shows "\<exists>c' log'. find_distributed m x c log = Inr (r, c', log') \<and> cache_ok m c' \<and> dlog_ok log' \<and>
    log_answer log' = log_answer log \<and> coherent c' log'"
  using dist_lookup.lookup_answer [OF assms(1,2) _ assms(4)] assms(3) unfolding find_distributed_def coherent_def by blast

section \<open>The loops\<close>

lemma unat_sint: "0 \<le> sint (w :: uint32) \<Longrightarrow> unat w = nat (sint w)"
  using uint_lt2p [of w] by (simp add: sint_cases split: if_splits)

lemma sint_plus_one:
  assumes "0 \<le> sint (w :: uint32)" "sint w < sint (v :: uint32)"
  shows "sint (w + 1) = sint w + 1"
proof -
  have "uint v < 4294967296" using uint_lt2p [of v] by simp
  then have "uint w + 1 < 2147483648"
    using assms uint_lt2p [of w] by (simp add: sint_cases split: if_splits)
  then have "uint (w + 1) = uint w + 1" by (simp add: uint_word_ariths mod_pos_pos_trivial)
  then show ?thesis using \<open>uint w + 1 < 2147483648\<close> by (simp add: sint_cases)
qed

lemma scan_local_eq: "n \<le> length a \<Longrightarrow> scan_local x n a = Inr (x \<in> set (take n a))"
  by (induction x n a rule: scan_local.induct) auto

lemma scan_distributed_eq: "n \<le> length a \<Longrightarrow> sorted (take n a) \<Longrightarrow> scan_distributed d n a = Inr (d \<in> set (take n a))"
  by (induction d n a rule: scan_distributed.induct) auto

section \<open>The invariant\<close>

definition snapshot_ok :: "DistributedSnapshot \<Rightarrow> bool" where
  "snapshot_ok d \<longleftrightarrow> 0 \<le> sint (ds_count d) \<and> ds_n d = length (in_progress d) \<and> sorted (in_progress d) \<and>
     xminAllDistributedSnapshots d \<le> ds_xmin d \<and> ds_xmin d \<le> ds_xmax d \<and> (\<forall>g \<in> set (in_progress d). ds_xmin d \<le> g)"

definition in_progress_local :: "dlog \<Rightarrow> DistributedSnapshot \<Rightarrow> TransactionId \<Rightarrow> bool" where
  "in_progress_local log d x \<longleftrightarrow> (\<exists>g \<in> set (in_progress d). log_answer log x = Some (Some g))"

definition dslm_ok :: "dlog \<Rightarrow> DistributedSnapshotWithLocalMapping \<Rightarrow> bool" where
  "dslm_ok log dslm \<longleftrightarrow> snapshot_ok (lm_ds dslm) \<and>
     0 \<le> sint (currentLocalXidsCount dslm) \<and> sint (currentLocalXidsCount dslm) \<le> sint (ds_count (lm_ds dslm)) \<and>
     ds_n (lm_ds dslm) \<le> length (buf (inProgressMappedLocalXids dslm)) \<and>
     (\<forall>x \<in> set (mapped dslm). in_progress_local log (lm_ds dslm) x) \<and>
     (if currentLocalXidsCount dslm = 0 then minCachedLocalXid dslm = 0 \<and> maxCachedLocalXid dslm = 0
      else minCachedLocalXid dslm \<in> set (mapped dslm) \<and> maxCachedLocalXid dslm \<in> set (mapped dslm))"

lemma mapping_room:
  assumes "dslm_ok log dslm"
  shows "nat (sint (currentLocalXidsCount dslm)) \<le> length (buf (inProgressMappedLocalXids dslm))"
proof -
  have "nat (sint (currentLocalXidsCount dslm)) \<le> ds_n (lm_ds dslm)"
    unfolding ds_n_def by (rule nat_mono) (use assms in \<open>simp add: dslm_ok_def\<close>)
  then show ?thesis using assms by (simp add: dslm_ok_def)
qed

lemma mapped_hit_ok:
  assumes "dslm_ok log dslm"
  shows "\<exists>b. mapped_hit x dslm = Inr b \<and> (b \<longrightarrow> in_progress_local log (lm_ds dslm) x)"
proof (cases "0 < sint (currentLocalXidsCount dslm)")
  case True
  then have nz: "currentLocalXidsCount dslm \<noteq> 0" by auto
  have n: "unat (currentLocalXidsCount dslm) = nat (sint (currentLocalXidsCount dslm))" using True by (simp add: unat_sint)
  have "unat (currentLocalXidsCount dslm) \<le> length (buf (inProgressMappedLocalXids dslm))"
    using mapping_room [OF assms] by (simp add: n)
  from scan_local_eq [OF this, of x] assms True nz show ?thesis
    by (auto simp: mapped_hit_def dslm_ok_def mapped_def n)
qed (auto simp: mapped_hit_def)

lemma remember_mapping_ok:
  assumes ok: "dslm_ok log dslm" and x: "in_progress_local log (lm_ds dslm) x"
  shows "\<exists>dslm'. remember_mapping x dslm = Inr dslm' \<and> dslm_ok log dslm' \<and> lm_ds dslm' = lm_ds dslm"
proof (cases "sint (currentLocalXidsCount dslm) < sint (ds_count (lm_ds dslm))")
  case True
  define n where "n = unat (currentLocalXidsCount dslm)"
  define a where "a = buf (inProgressMappedLocalXids dslm)"
  let ?c = "currentLocalXidsCount dslm"
  have n: "int n = sint ?c" "0 \<le> sint ?c" using ok by (simp_all add: dslm_ok_def n_def unat_sint)
  have "n < ds_n (lm_ds dslm)" using True n by (simp add: ds_n_def zless_nat_eq_int_zless)
  then have a: "n < length a" using ok by (simp add: dslm_ok_def a_def)
  have s: "sint (?c + 1) = sint ?c + 1"
    using sint_plus_one [OF n(2) True] .
  have nz: "?c + 1 \<noteq> 0" using s n(2) by auto
  have k: "nat (sint ?c) = n" "nat (sint (?c + 1)) = Suc n" using n(1) s by linarith+
  have m: "mapped dslm = take n a" by (simp add: mapped_def a_def k(1))
  have m': "take (Suc n) (a[n := x]) = mapped dslm @ [x]" using a by (simp add: m take_update_next)
  obtain dslm' where r: "remember_mapping x dslm = Inr dslm'" and d: "lm_ds dslm' = lm_ds dslm"
    "currentLocalXidsCount dslm' = ?c + 1" "inProgressMappedLocalXids dslm' = Some (a[n := x])"
    "minCachedLocalXid dslm' \<in> {x, minCachedLocalXid dslm}" "maxCachedLocalXid dslm' \<in> {x, maxCachedLocalXid dslm}"
    "?c = 0 \<longrightarrow> minCachedLocalXid dslm = 0 \<longrightarrow> minCachedLocalXid dslm' = x"
    "?c = 0 \<longrightarrow> maxCachedLocalXid dslm = 0 \<longrightarrow> maxCachedLocalXid dslm' = x"
    using True a by (auto simp: remember_mapping_def Let_def n_def a_def)
  have md: "mapped dslm' = mapped dslm @ [x]" unfolding mapped_def [of dslm'] d k using m' by simp
  have "dslm_ok log dslm'"
    using ok x True s nz n(2) d(4-7) unfolding dslm_ok_def md d(1-3) by (cases "?c = 0") (auto simp: a_def)
  then show ?thesis using r d(1) by blast
qed (use ok in \<open>simp add: remember_mapping_def\<close>)

section \<open>The reference\<close>

text \<open>What the test means: the decision from the id in the log and the whole snapshot.\<close>

definition verdict :: "DistributedSnapshot \<Rightarrow> bool \<Rightarrow> DistributedTransactionId option \<Rightarrow> DistributedSnapshotCommitted" where
  "verdict d isVacuumCheck r = (case r of
     None \<Rightarrow> DISTRIBUTEDSNAPSHOT_COMMITTED_UNKNOWN
   | Some g \<Rightarrow>
       if g < xminAllDistributedSnapshots d then DISTRIBUTEDSNAPSHOT_COMMITTED_IGNORE
       else if isVacuumCheck \<or> ds_xmax d \<le> g \<or> g \<in> set (in_progress d) then DISTRIBUTEDSNAPSHOT_COMMITTED_INPROGRESS
       else DISTRIBUTEDSNAPSHOT_COMMITTED_VISIBLE)"

fun test_ok :: "int \<Rightarrow> test_state \<Rightarrow> bool" where
  "test_ok m (dslm, c, log) \<longleftrightarrow> dslm_ok log dslm \<and> cache_ok m c \<and> coherent c log \<and> dlog_ok log"

lemma dslm_ok_cong: "dslm_ok log dslm \<Longrightarrow> log_answer log' = log_answer log \<Longrightarrow> dslm_ok log' dslm"
  by (simp add: dslm_ok_def in_progress_local_def)

lemma test_distributed_verdict:
  assumes ok: "dslm_ok log dslm" and g: "log_answer log x = Some (Some g)"
  shows "\<exists>dslm'. test_distributed g x vac dslm = Inr (verdict (lm_ds dslm) vac (Some g), dslm') \<and> dslm_ok log dslm' \<and>
    lm_ds dslm' = lm_ds dslm"
proof -
  let ?d = "lm_ds dslm"
  have d: "unat (ds_count ?d) = ds_n ?d" "ds_n ?d \<le> length (ds_array ?d)" "sorted (in_progress ?d)"
    "\<forall>g \<in> set (in_progress ?d). ds_xmin ?d \<le> g" "ds_xmin ?d \<le> ds_xmax ?d"
    using ok by (auto simp: dslm_ok_def snapshot_ok_def unat_sint ds_n_def in_progress_def)
  have scan: "scan_distributed g (unat (ds_count ?d)) (ds_array ?d) = Inr (g \<in> set (in_progress ?d))"
    using scan_distributed_eq [OF d(2)] d(3) by (simp add: d(1) in_progress_def)
  have low: "g < ds_xmin ?d \<Longrightarrow> g \<notin> set (in_progress ?d) \<and> \<not> ds_xmax ?d \<le> g" using d(4,5) by auto
  show ?thesis
  proof (cases "g \<in> set (in_progress ?d)")
    case True
    with g have "in_progress_local log ?d x" by (auto simp: in_progress_local_def)
    from remember_mapping_ok [OF ok this] obtain dslm' where
      "remember_mapping x dslm = Inr dslm'" "dslm_ok log dslm'" "lm_ds dslm' = ?d" by blast
    then show ?thesis using True scan low ok by (auto simp: test_distributed_def verdict_def Let_def)
  next
    case False
    then show ?thesis using scan low ok by (auto simp: test_distributed_def verdict_def Let_def)
  qed
qed

lemma verdict_mapped:
  assumes "snapshot_ok d" "in_progress_local log d x" "log_answer log x = Some r"
  shows "verdict d vac r = DISTRIBUTEDSNAPSHOT_COMMITTED_INPROGRESS"
  using assms by (fastforce simp: verdict_def in_progress_local_def snapshot_ok_def)

lemma CommittedTest_verdict:
  assumes ok: "test_ok m (dslm, c, log)" and x: "TransactionIdIsNormal x" and r: "log_answer log x = Some r"
  shows "\<exists>dslm' c' log'. DistributedSnapshotWithLocalMapping_CommittedTest m x vac (dslm, c, log) =
      Inr (verdict (lm_ds dslm) vac r, dslm', c', log') \<and>
    test_ok m (dslm', c', log') \<and> lm_ds dslm' = lm_ds dslm \<and> log_answer log' = log_answer log"
proof -
  from ok have ok': "dslm_ok log dslm" "cache_ok m c" "dlog_ok log" "coherent c log" by simp_all
  from mapped_hit_ok [OF ok'(1)] obtain b where b: "mapped_hit x dslm = Inr b" "b \<longrightarrow> in_progress_local log (lm_ds dslm) x" by blast
  show ?thesis
  proof (cases b)
    case True
    have "verdict (lm_ds dslm) vac r = DISTRIBUTEDSNAPSHOT_COMMITTED_INPROGRESS"
      using verdict_mapped b(2) True r ok'(1) by (auto simp: dslm_ok_def)
    then show ?thesis using x b(1) True ok by (simp add: DistributedSnapshotWithLocalMapping_CommittedTest_def)
  next
    case False
    from find_distributed_answer [OF ok'(2,3,4) r] obtain c' log' where f: "find_distributed m x c log = Inr (r, c', log')"
      "cache_ok m c'" "dlog_ok log'" "log_answer log' = log_answer log" "coherent c' log'" by blast
    show ?thesis
    proof (cases r)
      case None
      then show ?thesis using x b(1) False f dslm_ok_cong [OF ok'(1) f(4)]
        by (simp add: DistributedSnapshotWithLocalMapping_CommittedTest_def verdict_def)
    next
      case (Some g)
      from test_distributed_verdict [OF ok'(1), of x g vac] r Some obtain dslm' where
        t: "test_distributed g x vac dslm = Inr (verdict (lm_ds dslm) vac (Some g), dslm')" "dslm_ok log dslm'" "lm_ds dslm' = lm_ds dslm" by blast
      then show ?thesis using x b(1) False f Some dslm_ok_cong [OF t(2) f(4)]
        by (simp add: DistributedSnapshotWithLocalMapping_CommittedTest_def)
    qed
  qed
qed

text \<open>Without an answer of the log there is no result, so every result leaves the invariant.\<close>

lemma CommittedCheck_None: "dlog_ok s \<Longrightarrow> log_answer s x = None \<Longrightarrow> \<exists>e. DistributedLog_CommittedCheck x s = Inl e"
proof (cases "dlog_read False (TransactionIdToPage x) s")
  case (Inr ps)
  obtain p s' where "ps = (p, s')" by (cases ps)
  moreover assume "dlog_ok s" "log_answer s x = None"
  ultimately show ?thesis using Inr dlog_read_Inr(1) [of s "TransactionIdToPage x" p s']
    by (auto simp: log_answer_def logged_def DistributedLog_CommittedCheck_def split: if_splits)
qed (auto simp: log_answer_def DistributedLog_CommittedCheck_def split: if_splits)

lemma find_distributed_Inr:
  assumes "cache_ok m c" "dlog_ok log" "coherent c log" "find_distributed m x c log = Inr r"
  shows "log_answer log x \<noteq> None"
proof
  assume n: "log_answer log x = None"
  then have "cache_content c x = None" using assms(3) by (cases "cache_content c x") (auto simp: coherent_def)
  moreover obtain v c' where f: "LocalDistribXactCache_CommittedFind m x c = (v, c')" by (cases "LocalDistribXactCache_CommittedFind m x c")
  ultimately have "v = None" using xact_cache.find_content [OF assms(1) f] by simp
  then show False using assms(4) f CommittedCheck_None [OF assms(2) n] by (auto simp: find_distributed_def cached_lookup_def)
qed

lemma CommittedTest_ok:
  assumes ok: "test_ok m (dslm, c, log)"
    and t: "DistributedSnapshotWithLocalMapping_CommittedTest m x vac (dslm, c, log) = Inr (v, dslm', c', log')"
  shows "test_ok m (dslm', c', log') \<and> lm_ds dslm' = lm_ds dslm \<and> log_answer log' = log_answer log"
proof (cases "TransactionIdIsNormal x \<and> log_answer log x \<noteq> None")
  case True
  then obtain r where "TransactionIdIsNormal x" "log_answer log x = Some r" by auto
  from CommittedTest_verdict [OF ok this, of vac] t show ?thesis by auto
next
  case False
  from ok have ok': "dslm_ok log dslm" "cache_ok m c" "dlog_ok log" "coherent c log" by simp_all
  have "find_distributed m x c log \<noteq> Inr q" if "TransactionIdIsNormal x" for q
    using find_distributed_Inr [OF ok'(2-4)] False that by blast
  moreover from mapped_hit_ok [OF ok'(1)] obtain b where b: "mapped_hit x dslm = Inr b" by blast
  ultimately show ?thesis
    using t ok b by (cases "find_distributed m x c log") (auto simp: DistributedSnapshotWithLocalMapping_CommittedTest_def split: if_splits)
qed

end
