(* ===== verification/Dtx_Context.thy ===== *)
theory Dtx_Context
  imports Snapshot_Data
begin

text \<open>
  The distributed transaction context the coordinator sends with every statement
  (\<^verbatim>\<open>cdb/cdbdtxcontextinfo.c\<close>), and how a segment takes its distributed snapshot from it
  (\<^verbatim>\<open>GetSnapshotData\<close> in \<^verbatim>\<open>storage/ipc/procarray.c\<close>). The id and the nesting level of the current transaction are arguments.
\<close>

section \<open>The context\<close>

type_synonym CommandId = uint32

record DtxContextInfo =
  distributedXid :: DistributedTransactionId
  haveDistributedSnapshot :: bool
  cursorContext :: bool
  distributedSnapshot :: DistributedSnapshot
  distributedTxnOptions :: uint32
  segmateSync :: uint32
  nestingLevel :: uint32
  curcid :: CommandId

definition TMGIDSIZE :: nat where
  "TMGIDSIZE = 21"

definition DtxContextInfo_Reset :: "DistributedTransactionId list option \<Rightarrow> DtxContextInfo \<Rightarrow> dtx_error + DtxContextInfo" where
  "DtxContextInfo_Reset mem info =
     rbind (DistributedSnapshot_Reset mem (distributedSnapshot info)) (\<lambda>d.
       Inr (info\<lparr>distributedXid := InvalidDistributedTransactionId, curcid := 0, segmateSync := 0, nestingLevel := 0,
              haveDistributedSnapshot := False, distributedSnapshot := d, distributedTxnOptions := 0\<rparr>))"

definition DtxContextInfo_Copy ::
  "DistributedTransactionId list option \<Rightarrow> DtxContextInfo \<Rightarrow> DtxContextInfo \<Rightarrow> dtx_error + DtxContextInfo" where
  "DtxContextInfo_Copy mem target source =
     rbind (DtxContextInfo_Reset mem target) (\<lambda>target.
     let target = target\<lparr>distributedXid := distributedXid source, segmateSync := segmateSync source,
           nestingLevel := nestingLevel source, curcid := curcid source,
           haveDistributedSnapshot := haveDistributedSnapshot source, cursorContext := cursorContext source\<rparr>
     in rbind (if haveDistributedSnapshot source
               then DistributedSnapshot_Copy mem (distributedSnapshot target) (distributedSnapshot source)
               else Inr (distributedSnapshot target)) (\<lambda>d.
          Inr (target\<lparr>distributedSnapshot := d, distributedTxnOptions := distributedTxnOptions source\<rparr>)))"

text \<open>
  \<^verbatim>\<open>syncCount\<close> is a static variable of the session, returned with the context. The test against the largest
  value is a \<^verbatim>\<open>FATAL\<close> error, which ends the session.
\<close>

definition DtxContextInfo_CreateOnCoordinator ::
  "DistributedTransactionId list option \<Rightarrow> DistributedTransactionId \<Rightarrow> uint32 \<Rightarrow> bool \<Rightarrow> uint32 \<Rightarrow> SnapshotData option \<Rightarrow>
   DtxContextInfo \<Rightarrow> uint32 \<Rightarrow> dtx_error + DtxContextInfo \<times> uint32" where
  "DtxContextInfo_CreateOnCoordinator mem myGxid nestLevel inCursor txnOptions snapshot info syncCount =
     (let cid = (case snapshot of None \<Rightarrow> 0 | Some s \<Rightarrow> sn_curcid s)
      in rbind (DtxContextInfo_Reset mem info) (\<lambda>info.
         let info = info\<lparr>distributedXid := myGxid\<rparr>;
             info = (if myGxid \<noteq> InvalidDistributedTransactionId then info\<lparr>curcid := cid\<rparr> else info);
             syncCount = (if inCursor then syncCount else syncCount + 1);
             info = info\<lparr>segmateSync := syncCount\<rparr>
         in if segmateSync info = - 1 then Inl Too_many_commands
            else
              let info = info\<lparr>cursorContext := inCursor, nestingLevel := nestLevel, haveDistributedSnapshot := False\<rparr>
              in rbind (case snapshot of
                          None \<Rightarrow> Inr info
                        | Some s \<Rightarrow>
                            if haveDistribSnapshot s then
                              rbind (DistributedSnapshot_Copy mem (distributedSnapshot info) (lm_ds (distribSnapshotWithLocalMapping s))) (\<lambda>d.
                                Inr (info\<lparr>distributedSnapshot := d, haveDistributedSnapshot := True\<rparr>))
                            else Inr info) (\<lambda>info.
                   Inr (info\<lparr>distributedTxnOptions := txnOptions\<rparr>, syncCount))))"

section \<open>Messages\<close>

definition DtxContextInfo_SerializeSize :: "DtxContextInfo \<Rightarrow> nat" where
  "DtxContextInfo_SerializeSize info =
     8 + (if distributedXid info \<noteq> InvalidDistributedTransactionId then TMGIDSIZE + 4 else 0) + 4 + 4 + 1 + 1 +
     (if haveDistributedSnapshot info then DistributedSnapshot_SerializeSize (distributedSnapshot info) else 0) + 4"

definition DtxContextInfo_Serialize :: "DtxContextInfo \<Rightarrow> dtx_error + uint8 list" where
  "DtxContextInfo_Serialize info =
     rbind (if haveDistributedSnapshot info then DistributedSnapshot_Serialize (distributedSnapshot info) else Inr []) (\<lambda>d.
       Inr (le_bytes 8 (distributedXid info) @
            (if distributedXid info \<noteq> InvalidDistributedTransactionId then le_bytes 4 (curcid info) else []) @
            le_bytes 4 (segmateSync info) @ le_bytes 4 (nestingLevel info) @ bool_bytes (haveDistributedSnapshot info) @
            bool_bytes (cursorContext info) @ d @ le_bytes 4 (distributedTxnOptions info)))"

definition DtxContextInfo_Deserialize ::
  "DistributedTransactionId list option \<Rightarrow> uint8 list \<Rightarrow> DtxContextInfo \<Rightarrow> dtx_error + DtxContextInfo" where
  "DtxContextInfo_Deserialize mem p info =
     rbind (DtxContextInfo_Reset mem info) (\<lambda>info.
     if length p = 0 then Inr info
     else
       dtx_read (get_word 8 p) (\<lambda>(x, p).
       let info = info\<lparr>distributedXid := x\<rparr>
       in rbind (if x \<noteq> InvalidDistributedTransactionId
                 then dtx_read (get_word 4 p) (\<lambda>(c, p). Inr (info\<lparr>curcid := c\<rparr>, p)) else Inr (info, p)) (\<lambda>(info, p).
       dtx_read (get_word 4 p) (\<lambda>(sync, p).
       dtx_read (get_word 4 p) (\<lambda>(level, p).
       dtx_read (get_bool p) (\<lambda>(have_ds, p).
       dtx_read (get_bool p) (\<lambda>(cursor, p).
       let info = info\<lparr>segmateSync := sync, nestingLevel := level, haveDistributedSnapshot := have_ds, cursorContext := cursor\<rparr>
       in rbind (if have_ds
                 then rbind (DistributedSnapshot_Deserialize mem p (distributedSnapshot info)) (\<lambda>(d, p).
                        Inr (info\<lparr>distributedSnapshot := d\<rparr>, p))
                 else Inr (info, p)) (\<lambda>(info, p).
       dtx_read (get_word 4 p) (\<lambda>(opts, p). Inr (info\<lparr>distributedTxnOptions := opts\<rparr>))))))))))"

section \<open>The snapshot of a segment\<close>

datatype DtxContext =
    DTX_CONTEXT_LOCAL_ONLY
  | DTX_CONTEXT_QD_DISTRIBUTED_CAPABLE
  | DTX_CONTEXT_QD_RETRY_PHASE_2
  | DTX_CONTEXT_QE_ENTRY_DB_SINGLETON
  | DTX_CONTEXT_QE_AUTO_COMMIT_IMPLICIT
  | DTX_CONTEXT_QE_TWO_PHASE_EXPLICIT_WRITER
  | DTX_CONTEXT_QE_TWO_PHASE_IMPLICIT_WRITER
  | DTX_CONTEXT_QE_READER
  | DTX_CONTEXT_QE_PREPARED
  | DTX_CONTEXT_QE_FINISH_PREPARED

definition GetSnapshotData_segment ::
  "TransactionId list option \<Rightarrow> DistributedTransactionId list option \<Rightarrow> bool \<Rightarrow> DtxContext \<Rightarrow> DtxContextInfo \<Rightarrow> SnapshotData \<Rightarrow>
   dtx_error + SnapshotData" where
  "GetSnapshotData_segment xmem dmem Debug_disable_distributed_snapshot ctx QEDtxContextInfo snapshot =
     rbind (SnapshotResetDslm xmem dmem snapshot) (\<lambda>snapshot.
     if (ctx = DTX_CONTEXT_QE_TWO_PHASE_EXPLICIT_WRITER \<or> ctx = DTX_CONTEXT_QE_TWO_PHASE_IMPLICIT_WRITER \<or>
         ctx = DTX_CONTEXT_QE_AUTO_COMMIT_IMPLICIT \<or> ctx = DTX_CONTEXT_QE_ENTRY_DB_SINGLETON \<or> ctx = DTX_CONTEXT_QE_READER) \<and>
        haveDistributedSnapshot QEDtxContextInfo \<and> \<not> Debug_disable_distributed_snapshot
     then
       let dslm = distribSnapshotWithLocalMapping snapshot
       in rbind (DistributedSnapshot_Copy dmem (lm_ds dslm) (distributedSnapshot QEDtxContextInfo)) (\<lambda>d.
            Inr (snapshot\<lparr>distribSnapshotWithLocalMapping := dslm\<lparr>lm_ds := d\<rparr>, haveDistribSnapshot := True\<rparr>))
     else Inr snapshot)"

text \<open>
  The distributed part of \<^verbatim>\<open>GetSnapshotData\<close> for every role; the local part, which fills in the local transactions in progress, is
  not modelled and does not touch it.
\<close>

definition GetSnapshotData ::
  "TransactionId list option \<Rightarrow> DistributedTransactionId list option \<Rightarrow> bool \<Rightarrow> bool \<Rightarrow> bool \<Rightarrow> nat \<Rightarrow> DtxContext \<Rightarrow> DtxContextInfo \<Rightarrow>
   tm_state \<Rightarrow> SnapshotData \<Rightarrow> dtx_error + SnapshotData \<times> tm_state" where
  "GetSnapshotData xmem dmem Debug_disable_distributed_snapshot needDistributedSnapshot IS_HOT_STANDBY_QD me ctx QEDtxContextInfo tm snapshot =
     rbind (GetSnapshotData_segment xmem dmem Debug_disable_distributed_snapshot ctx QEDtxContextInfo snapshot) (\<lambda>snapshot.
     if ctx = DTX_CONTEXT_QD_DISTRIBUTED_CAPABLE \<and> \<not> Debug_disable_distributed_snapshot \<and> needDistributedSnapshot
     then
       let dslm = distribSnapshotWithLocalMapping snapshot
       in rbind (take_snapshot IS_HOT_STANDBY_QD me tm (lm_ds dslm)) (\<lambda>(d, tm).
            Inr (snapshot\<lparr>distribSnapshotWithLocalMapping := dslm\<lparr>lm_ds := d\<rparr>, haveDistribSnapshot := True\<rparr>, tm))
     else Inr (snapshot, tm))"

section \<open>Facts\<close>

text \<open>Two contexts that agree on everything a segment reads.\<close>

definition same_context :: "DtxContextInfo \<Rightarrow> DtxContextInfo \<Rightarrow> bool" where
  "same_context a b \<longleftrightarrow> distributedXid b = distributedXid a \<and> haveDistributedSnapshot b = haveDistributedSnapshot a \<and>
     cursorContext b = cursorContext a \<and> distributedTxnOptions b = distributedTxnOptions a \<and> segmateSync b = segmateSync a \<and>
     nestingLevel b = nestingLevel a \<and> (distributedXid a \<noteq> 0 \<longrightarrow> curcid b = curcid a) \<and>
     (haveDistributedSnapshot a \<longrightarrow> same_snapshot (distributedSnapshot a) (distributedSnapshot b))"

lemma has_room_reset:
  assumes "has_room mem d n" "DistributedSnapshot_Reset mem d = Inr d'"
  shows "has_room mem d' n"
  using assms by (auto simp: has_room_def DistributedSnapshot_Reset_def Let_def split: option.splits)

lemma has_room_mono: "has_room mem d n \<Longrightarrow> m \<le> n \<Longrightarrow> has_room mem d m"
  by (auto simp: has_room_def split: option.splits)

lemma Context_Reset_Inr:
  assumes "has_room mem (distributedSnapshot info) n"
  shows "\<exists>t. DtxContextInfo_Reset mem info = Inr t \<and> has_room mem (distributedSnapshot t) n \<and> \<not> haveDistributedSnapshot t \<and>
    distributedXid t = 0 \<and> curcid t = 0"
proof -
  from Reset_Inr [OF assms] obtain d where d: "DistributedSnapshot_Reset mem (distributedSnapshot info) = Inr d" by blast
  from has_room_reset [OF assms d] show ?thesis by (simp add: DtxContextInfo_Reset_def d)
qed

lemma same_snapshot_refl [simp]: "same_snapshot a a"
  by (simp add: same_snapshot_def)

lemma same_snapshot_trans: "same_snapshot a b \<Longrightarrow> same_snapshot b c \<Longrightarrow> same_snapshot a c"
  by (simp add: same_snapshot_def)

lemma bytes_nonempty: "le_bytes n w = [] \<longleftrightarrow> n = 0"
  by (metis length_0_conv length_le_bytes)

lemma Context_Deserialize_Serialize:
  assumes "DtxContextInfo_Serialize info = Inr bs"
    and room: "has_room mem (distributedSnapshot target) (if haveDistributedSnapshot info then ds_n (distributedSnapshot info) else 0)"
  shows "\<exists>t. DtxContextInfo_Deserialize mem (bs @ rest) target = Inr t \<and> same_context info t"
proof -
  from Context_Reset_Inr [OF room] obtain r where r: "DtxContextInfo_Reset mem target = Inr r"
    "has_room mem (distributedSnapshot r) (if haveDistributedSnapshot info then ds_n (distributedSnapshot info) else 0)"
    "\<not> haveDistributedSnapshot r" by blast
  show ?thesis
  proof (cases "haveDistributedSnapshot info")
    case True
    from assms(1) True obtain d where d: "DistributedSnapshot_Serialize (distributedSnapshot info) = Inr d"
      by (auto simp: DtxContextInfo_Serialize_def rbind_Inr_iff)
    have room': "has_room mem (distributedSnapshot r) (ds_n (distributedSnapshot info))" using r(2) True by simp
    from Deserialize_Serialize [OF d room', of "le_bytes 4 (distributedTxnOptions info) @ rest"] obtain t where
      "DistributedSnapshot_Deserialize mem (d @ le_bytes 4 (distributedTxnOptions info) @ rest) (distributedSnapshot r) =
        Inr (t, le_bytes 4 (distributedTxnOptions info) @ rest)" "same_snapshot (distributedSnapshot info) t" by blast
    then show ?thesis using assms(1) d True r(1)
      by (cases "distributedXid info = 0") (auto simp: bytes_nonempty DtxContextInfo_Serialize_def DtxContextInfo_Deserialize_def same_context_def Let_def simp del: le_bytes.simps)
  next
    case False
    then show ?thesis using assms(1) r(1)
      by (cases "distributedXid info = 0") (auto simp: bytes_nonempty DtxContextInfo_Serialize_def DtxContextInfo_Deserialize_def same_context_def Let_def simp del: le_bytes.simps)
  qed
qed

lemma Copy_Inr_same:
  assumes "DistributedSnapshot_Copy mem target source = Inr t"
  shows "same_snapshot source t" "inProgressXidArray t \<noteq> None"
  using assms
  by (auto simp: DistributedSnapshot_Copy_def rbind_Inr_iff DistributedSnapshot_Reset_def copy_front_def same_snapshot_def
      in_progress_def ds_array_def ds_n_def Let_def split: option.splits if_splits)

text \<open>The context of a statement carries the distributed snapshot of the coordinator's snapshot.\<close>

lemma CreateOnCoordinator_snapshot:
  assumes "DtxContextInfo_CreateOnCoordinator mem g level inCursor opts (Some s) info n = Inr (info', n')" "haveDistribSnapshot s"
  shows "haveDistributedSnapshot info' \<and> same_snapshot (lm_ds (distribSnapshotWithLocalMapping s)) (distributedSnapshot info') \<and>
    distributedXid info' = g \<and> cursorContext info' = inCursor \<and> segmateSync info' = n' \<and> n' = (if inCursor then n else n + 1) \<and> n' \<noteq> - 1"
  using assms Copy_Inr_same(1)
  by (fastforce simp: DtxContextInfo_CreateOnCoordinator_def rbind_Inr_iff Let_def split: if_splits)

definition segment_ctx :: "DtxContext \<Rightarrow> bool" where
  "segment_ctx ctx \<longleftrightarrow> ctx \<in> {DTX_CONTEXT_QE_TWO_PHASE_EXPLICIT_WRITER, DTX_CONTEXT_QE_TWO_PHASE_IMPLICIT_WRITER,
     DTX_CONTEXT_QE_AUTO_COMMIT_IMPLICIT, DTX_CONTEXT_QE_ENTRY_DB_SINGLETON, DTX_CONTEXT_QE_READER}"

lemma segment_snapshot:
  assumes "GetSnapshotData_segment xmem dmem False ctx info snap = Inr snap'" "segment_ctx ctx" "haveDistributedSnapshot info"
  shows "haveDistribSnapshot snap' \<and> same_snapshot (distributedSnapshot info) (lm_ds (distribSnapshotWithLocalMapping snap')) \<and>
    currentLocalXidsCount (distribSnapshotWithLocalMapping snap') = 0 \<and>
    inProgressXidArray (lm_ds (distribSnapshotWithLocalMapping snap')) \<noteq> None \<and> sn_xmin snap' = sn_xmin snap \<and> sn_xmax snap' = sn_xmax snap"
proof -
  from assms obtain s d where s: "SnapshotResetDslm xmem dmem snap = Inr s"
    and d: "DistributedSnapshot_Copy dmem (lm_ds (distribSnapshotWithLocalMapping s)) (distributedSnapshot info) = Inr d"
    and e: "snap' = s\<lparr>distribSnapshotWithLocalMapping := (distribSnapshotWithLocalMapping s)\<lparr>lm_ds := d\<rparr>, haveDistribSnapshot := True\<rparr>"
    by (auto simp: GetSnapshotData_segment_def segment_ctx_def rbind_Inr_iff Let_def)
  from SnapshotResetDslm_Inr [OF s] Copy_Inr_same [OF d] show ?thesis by (simp add: e)
qed

lemma coordinator_snapshot:
  assumes "GetSnapshotData xmem dmem False True standby me DTX_CONTEXT_QD_DISTRIBUTED_CAPABLE info tm snap = Inr (snap', tm')"
  shows "\<exists>r. DistributedSnapshot_Reset dmem (lm_ds (distribSnapshotWithLocalMapping snap)) = Inr r \<and>
    take_snapshot standby me tm r = Inr (lm_ds (distribSnapshotWithLocalMapping snap'), tm') \<and> haveDistribSnapshot snap'"
  using assms
  by (auto simp: GetSnapshotData_def GetSnapshotData_segment_def SnapshotResetDslm_def rbind_Inr_iff Let_def split: option.splits)

lemma GetSnapshotData_on_segment:
  "segment_ctx ctx \<Longrightarrow> GetSnapshotData xmem dmem disable need standby me ctx info tm snap =
    rbind (GetSnapshotData_segment xmem dmem disable ctx info snap) (\<lambda>snap. Inr (snap, tm))"
  by (auto simp: GetSnapshotData_def segment_ctx_def)

end
