(* ===== verification/Dtx_Session.thy ===== *)
theory Dtx_Session
  imports Dtx_Test Dtx_Context
begin

text \<open>
  A backend of a segment over time: it tests transactions, takes new snapshots and copies them, while other backends record
  commits in the distributed log and buffers are given up. In every state it can get into, the caches hold what the log says.
\<close>

section \<open>Other backends\<close>

definition extends :: "dlog \<Rightarrow> dlog \<Rightarrow> bool" where
  "extends log log' \<longleftrightarrow> (\<forall>x d. log_answer log x = Some (Some d) \<longrightarrow> log_answer log' x = Some (Some d))"

lemma extends_ok:
  assumes "extends log log'"
  shows "dslm_ok log dslm \<Longrightarrow> dslm_ok log' dslm" "coherent c log \<Longrightarrow> coherent c log'"
proof -
  have "in_progress_local log d x \<Longrightarrow> in_progress_local log' d x" for d x using assms by (auto simp: extends_def in_progress_local_def)
  then show "dslm_ok log dslm \<Longrightarrow> dslm_ok log' dslm" by (simp add: dslm_ok_def)
  show "coherent c log \<Longrightarrow> coherent c log'" using assms by (simp add: coherent_def extends_def)
qed

lemma set_one_prev:
  assumes "dlog_ok s" "DistributedLog_SetCommittedWithinAPage [x] d False s = Inr s'" "logged s x = Some e"
  shows "e \<in> {0, d}"
proof -
  from assms(2) obtain p s1 r where p: "dlog_read False (TransactionIdToPage x) s = Inr (p, s1)" "set_entries [x] d p False = Inr r"
    by (auto simp: within_page_eq rbind_Inr_iff simp del: set_entries.simps)
  have "e = p (TransactionIdToEntry x)" using dlog_read_Inr(1) [OF assms(1) p(1)] assms(3) by (simp add: logged_def)
  then show ?thesis using p(2) by (auto simp: Let_def split: if_splits)
qed

lemma set_each_extends:
  assumes "dlog_ok s" "set_each xs d s = Inr s'" "d \<noteq> 0"
  shows "extends s s'"
  using assms(1,2)
proof (induction xs arbitrary: s)
  case (Cons x xs)
  from Cons.prems(2) obtain s1 where s1: "DistributedLog_SetCommittedWithinAPage [x] d False s = Inr s1" "set_each xs d s1 = Inr s'"
    by (auto simp: rbind_Inr_iff)
  note one = set_one_Inr [OF Cons.prems(1) s1(1)]
  have "extends s s1" using one set_one_prev [OF Cons.prems(1) s1(1)] assms(3)
    by (auto simp: extends_def log_answer_def split: if_splits)
  moreover have "extends s1 s'" using Cons.IH s1(2) one by simp
  ultimately show ?case by (simp add: extends_def)
qed (simp add: extends_def)

lemma evicts_extends: "dlog_ok s \<Longrightarrow> extends s (dlog_evicts qs s)"
  using evicts_logged [of s] by (fastforce simp: extends_def log_answer_def dlog_evicts_def split: if_splits)

section \<open>Snapshots\<close>

definition fresh_dslm :: "DistributedSnapshotWithLocalMapping \<Rightarrow> bool" where
  "fresh_dslm dslm \<longleftrightarrow> snapshot_ok (lm_ds dslm) \<and> currentLocalXidsCount dslm = 0 \<and> minCachedLocalXid dslm = 0 \<and> maxCachedLocalXid dslm = 0 \<and>
     ds_n (lm_ds dslm) \<le> length (buf (inProgressMappedLocalXids dslm))"

lemma fresh_dslm_ok: "fresh_dslm dslm \<Longrightarrow> dslm_ok log dslm"
  by (auto simp: fresh_dslm_def dslm_ok_def mapped_def snapshot_ok_def)

lemma copy_dslm_ok:
  assumes "dslm_ok log dslm" "copy_dslm raw True dslm = Inr dslm'" "length raw = ds_n (lm_ds dslm)"
  shows "dslm_ok log dslm' \<and> same_snapshot (lm_ds dslm) (lm_ds dslm') \<and> mapped dslm' = mapped dslm"
proof (cases "0 < sint (ds_count (lm_ds dslm))")
  case True
  let ?n = "nat (sint (currentLocalXidsCount dslm))"
  from assms(2) True obtain m where a: "ds_n (lm_ds dslm) \<le> length (ds_array (lm_ds dslm))"
    and m: "(if 0 < sint (currentLocalXidsCount dslm) then copy_front ?n (buf (inProgressMappedLocalXids dslm)) raw else Inr raw) = Inr m"
    and e: "dslm' = dslm\<lparr>lm_ds := (lm_ds dslm)\<lparr>inProgressXidArray := Some (take (ds_n (lm_ds dslm)) (ds_array (lm_ds dslm)))\<rparr>,
        inProgressMappedLocalXids := Some m\<rparr>"
    by (auto simp: copy_dslm_def clip_def rbind_Inr_iff Let_def split: if_splits)
  have mm: "length m = length raw" "take ?n m = mapped dslm"
    using m by (auto simp: copy_front_def mapped_def split: if_splits)
  have same: "same_snapshot (lm_ds dslm) (lm_ds dslm')"
    by (simp add: e same_snapshot_def in_progress_def ds_n_def ds_array_def)
  have md: "mapped dslm' = mapped dslm" using mm(2) by (simp add: e mapped_def)
  have "dslm_ok log dslm'" using assms(1,3) same mm(1) md unfolding dslm_ok_def
    by (simp add: same_snapshot_def snapshot_ok_def in_progress_local_def ds_n_def) (simp add: e)
  then show ?thesis using same md by simp
next
  case False
  then have z: "ds_count (lm_ds dslm) = 0" "currentLocalXidsCount dslm = 0"
    using assms(1) by (auto simp: dslm_ok_def snapshot_ok_def signed_eq_0_iff)
  have e: "dslm' = dslm\<lparr>lm_ds := (lm_ds dslm)\<lparr>inProgressXidArray := None\<rparr>, inProgressMappedLocalXids := None\<rparr>"
    using assms(2) False by (simp add: copy_dslm_def Let_def)
  then show ?thesis using assms(1) z
    by (simp add: dslm_ok_def snapshot_ok_def same_snapshot_def in_progress_def ds_n_def mapped_def)
qed

section \<open>The backend\<close>

inductive backend :: "int \<Rightarrow> test_state \<Rightarrow> bool" for m :: int where
  start: "0 \<le> m \<Longrightarrow> fresh_dslm dslm \<Longrightarrow> dlog_ok log \<Longrightarrow> backend m (dslm, fresh_cache\<lparr>LocalDistribCacheMemCxt := False\<rparr>, log)"
| test: "backend m (dslm, c, log) \<Longrightarrow> DistributedSnapshotWithLocalMapping_CommittedTest m x vac (dslm, c, log) = Inr (v, dslm', c', log') \<Longrightarrow>
    backend m (dslm', c', log')"
| commit: "backend m (dslm, c, log) \<Longrightarrow> DistributedLog_SetCommittedTree False x xs beyond d False log = Inr log' \<Longrightarrow> d \<noteq> 0 \<Longrightarrow>
    backend m (dslm, c, log')"
| replace: "backend m (dslm, c, log) \<Longrightarrow> backend m (dslm, c, dlog_evicts qs log)"
| new_snapshot: "backend m (dslm, c, log) \<Longrightarrow> fresh_dslm dslm' \<Longrightarrow> backend m (dslm', c, log)"
| copy_snapshot: "backend m (dslm, c, log) \<Longrightarrow> copy_dslm raw True dslm = Inr dslm' \<Longrightarrow> length raw = ds_n (lm_ds dslm) \<Longrightarrow>
    backend m (dslm', c, log)"

lemma backend_ok: "backend m st \<Longrightarrow> test_ok m st"
proof (induction rule: backend.induct)
  case (start dslm log)
  then show ?case by (auto simp: fresh_dslm_ok cache_ok_def coherent_def cache_content_def fresh_cache_def)
next
  case (test dslm c log x vac v dslm' c' log')
  then show ?case using CommittedTest_ok by blast
next
  case (commit dslm c log x xs beyond d log')
  have s: "set_each (x # xs) d log = Inr log'" using commit.hyps(2) by (simp only: SetCommittedTree_each)
  have "dlog_ok log" using commit.IH by simp
  from set_each_extends [OF this s commit.hyps(3)] set_each_Inr [OF this s] commit.IH show ?case by (simp add: extends_ok)
next
  case (replace dslm c log qs)
  then show ?case using evicts_extends [of log qs] evicts_logged(1) [of log qs] by (simp add: extends_ok)
next
  case (new_snapshot dslm c log dslm')
  then show ?case by (simp add: fresh_dslm_ok)
next
  case (copy_snapshot dslm c log raw dslm')
  then show ?case using copy_dslm_ok [OF _ copy_snapshot.hyps(2,3), of log] by simp
qed

section \<open>From the coordinator to a segment\<close>

lemma same_snapshot_ok: "same_snapshot a b \<Longrightarrow> snapshot_ok a \<Longrightarrow> snapshot_ok b"
  by (simp add: same_snapshot_def snapshot_ok_def ds_n_def)

lemma snapshot_ok_room: "snapshot_ok d \<Longrightarrow> ds_n d \<le> length (ds_array d)"
  by (auto simp: snapshot_ok_def in_progress_def)

lemma take_snapshot_ok:
  assumes "take_snapshot standby me tm r = Inr (d, tm')" "length (ds_array r) < 2 ^ 31"
  shows "snapshot_ok d"
proof -
  from assms(1) obtain d1 where c: "CreateDistributedSnapshot standby me tm r = Inr (d1, tm')" and d: "d = sort_snapshot d1"
    by (auto simp: take_snapshot_def rbind_Inr_iff)
  from CreateDistributedSnapshot_Inr [OF c] obtain n where n: "ds_count d1 = of_nat n" "n \<le> length (ds_array r)" by auto
  then have "n < 2 ^ 31" using assms(2) by simp
  then have "uint (of_nat n :: uint32) < 2147483648" by (simp add: uint_nat unat_of_nat)
  then have "0 \<le> sint (ds_count d)" by (simp add: d sort_snapshot_def n(1) sint_cases)
  then show ?thesis using take_snapshot_of [OF assms] by (auto simp: snapshot_of_def snapshot_ok_def)
qed

lemma GetSnapshotData_coordinator:
  assumes "GetSnapshotData xmem dmem False True standby me DTX_CONTEXT_QD_DISTRIBUTED_CAPABLE info tm snap = Inr (snap', tm')"
    and cap: "\<forall>a. inProgressXidArray (lm_ds (distribSnapshotWithLocalMapping snap)) = Some a \<or> dmem = Some a \<longrightarrow> length a < 2 ^ 31"
  shows "haveDistribSnapshot snap' \<and> snapshot_ok (lm_ds (distribSnapshotWithLocalMapping snap')) \<and>
    snapshot_of standby me tm (lm_ds (distribSnapshotWithLocalMapping snap'))"
proof -
  from coordinator_snapshot [OF assms(1)] obtain r where r: "DistributedSnapshot_Reset dmem (lm_ds (distribSnapshotWithLocalMapping snap)) = Inr r"
    and t: "take_snapshot standby me tm r = Inr (lm_ds (distribSnapshotWithLocalMapping snap'), tm')" "haveDistribSnapshot snap'" by blast
  have "length (ds_array r) < 2 ^ 31"
    using r cap by (auto simp: DistributedSnapshot_Reset_def Let_def ds_array_def split: option.splits)
  from take_snapshot_of [OF t(1) this] take_snapshot_ok [OF t(1) this] t(2) show ?thesis by simp
qed

text \<open>The memory a segment has for the snapshot and for the local ids mapped to it.\<close>

definition snapshot_space :: "TransactionId list option \<Rightarrow> DistributedTransactionId list option \<Rightarrow> SnapshotData \<Rightarrow> nat \<Rightarrow> bool" where
  "snapshot_space xmem dmem snap n \<longleftrightarrow> has_room dmem (lm_ds (distribSnapshotWithLocalMapping snap)) n \<and>
     (case inProgressMappedLocalXids (distribSnapshotWithLocalMapping snap) of
        Some a \<Rightarrow> n \<le> length a
      | None \<Rightarrow> (case xmem of Some a \<Rightarrow> n \<le> length a | None \<Rightarrow> False))"

lemma SnapshotResetDslm_room:
  assumes "snapshot_space xmem dmem snap n"
  shows "\<exists>s. SnapshotResetDslm xmem dmem snap = Inr s \<and> has_room dmem (lm_ds (distribSnapshotWithLocalMapping s)) n \<and>
    n \<le> length (buf (inProgressMappedLocalXids (distribSnapshotWithLocalMapping s))) \<and>
    currentLocalXidsCount (distribSnapshotWithLocalMapping s) = 0 \<and> minCachedLocalXid (distribSnapshotWithLocalMapping s) = 0 \<and>
    maxCachedLocalXid (distribSnapshotWithLocalMapping s) = 0"
proof -
  let ?l = "distribSnapshotWithLocalMapping snap"
  have room: "has_room dmem (lm_ds ?l) n" using assms by (simp add: snapshot_space_def)
  from Reset_Inr [OF this] obtain d where d: "DistributedSnapshot_Reset dmem (lm_ds ?l) = Inr d" by blast
  show ?thesis using assms d has_room_reset [OF room d]
    by (auto simp: SnapshotResetDslm_def snapshot_space_def Let_def split: option.splits)
qed

lemma segment_snapshot_ok:
  assumes "snapshot_space xmem dmem snap (ds_n (distributedSnapshot info))" "segment_ctx ctx"
    "haveDistributedSnapshot info" "snapshot_ok (distributedSnapshot info)"
  shows "\<exists>snap'. GetSnapshotData_segment xmem dmem False ctx info snap = Inr snap' \<and> haveDistribSnapshot snap' \<and>
    fresh_dslm (distribSnapshotWithLocalMapping snap') \<and>
    same_snapshot (distributedSnapshot info) (lm_ds (distribSnapshotWithLocalMapping snap'))"
proof -
  let ?n = "ds_n (distributedSnapshot info)"
  from SnapshotResetDslm_room [OF assms(1)] obtain s where s: "SnapshotResetDslm xmem dmem snap = Inr s"
    "has_room dmem (lm_ds (distribSnapshotWithLocalMapping s)) ?n"
    "?n \<le> length (buf (inProgressMappedLocalXids (distribSnapshotWithLocalMapping s)))"
    "currentLocalXidsCount (distribSnapshotWithLocalMapping s) = 0" "minCachedLocalXid (distribSnapshotWithLocalMapping s) = 0"
    "maxCachedLocalXid (distribSnapshotWithLocalMapping s) = 0" by blast
  from Copy_same [OF s(2) snapshot_ok_room [OF assms(4)]] obtain d where
    d: "DistributedSnapshot_Copy dmem (lm_ds (distribSnapshotWithLocalMapping s)) (distributedSnapshot info) = Inr d"
      "same_snapshot (distributedSnapshot info) d" by blast
  have "ds_n d = ?n" using d(2) by (simp add: same_snapshot_def ds_n_def)
  moreover have "GetSnapshotData_segment xmem dmem False ctx info snap =
      Inr (s\<lparr>distribSnapshotWithLocalMapping := (distribSnapshotWithLocalMapping s)\<lparr>lm_ds := d\<rparr>, haveDistribSnapshot := True\<rparr>)"
    using assms(2,3) s(1) d(1) by (auto simp: GetSnapshotData_segment_def segment_ctx_def Let_def)
  ultimately show ?thesis using s(3-6) d(2) same_snapshot_ok [OF d(2) assms(4)] by (simp add: fresh_dslm_def)
qed

section \<open>The check of the access methods\<close>

lemma XidInMVCCSnapshot_verdict:
  assumes "test_ok m (distribSnapshotWithLocalMapping snap, c, log)" "haveDistribSnapshot snap" "TransactionIdIsNormal x"
    "log_answer log x = Some r" "\<not> TransactionIdFollowsOrEquals x (sn_xmax snap)"
  shows "\<exists>dslm c' log'. test_ok m (dslm, c', log') \<and>
    XidInMVCCSnapshot m False topmost x False (snap, c, log) =
      (case verdict (lm_ds (distribSnapshotWithLocalMapping snap)) False r of
         DISTRIBUTEDSNAPSHOT_COMMITTED_INPROGRESS \<Rightarrow> Inr ((XID_IN_SNAPSHOT, False), snap\<lparr>distribSnapshotWithLocalMapping := dslm\<rparr>, c', log')
       | DISTRIBUTEDSNAPSHOT_COMMITTED_VISIBLE \<Rightarrow> Inr ((XID_SURELY_COMMITTED, False), snap\<lparr>distribSnapshotWithLocalMapping := dslm\<rparr>, c', log')
       | v \<Rightarrow> rbind (XidInMVCCSnapshot_Local topmost x snap) (\<lambda>b.
           Inr ((local_result b, v = DISTRIBUTEDSNAPSHOT_COMMITTED_IGNORE), snap\<lparr>distribSnapshotWithLocalMapping := dslm\<rparr>, c', log')))"
proof -
  let ?l = "distribSnapshotWithLocalMapping snap"
  from CommittedTest_verdict [OF assms(1,3,4), of False] obtain dslm c' log' where
    t: "DistributedSnapshotWithLocalMapping_CommittedTest m x False (?l, c, log) = Inr (verdict (lm_ds ?l) False r, dslm, c', log')"
      "test_ok m (dslm, c', log')" by blast
  have l: "XidInMVCCSnapshot_Local topmost x (snap\<lparr>distribSnapshotWithLocalMapping := dslm\<rparr>) = XidInMVCCSnapshot_Local topmost x snap"
    by (simp add: XidInMVCCSnapshot_Local_def Let_def cong: if_cong)
  have "verdict (lm_ds ?l) False r \<noteq> DISTRIBUTEDSNAPSHOT_COMMITTED_NONE" by (simp add: verdict_def split: option.splits)
  then show ?thesis using t assms(2,3,5)
    by (intro exI [of _ dslm] exI [of _ c'] exI [of _ log'])
      (simp add: XidInMVCCSnapshot_def l Let_def split: DistributedSnapshotCommitted.splits)
qed

end
