(* ===== verification/Dtx_Correct.thy ===== *)
theory Dtx_Correct
  imports Dtx_Session
begin

text \<open>
  What distributed snapshots promise: a segment decides about the visibility of a distributed transaction as the coordinator saw it,
  whatever its caches hold; and what the messages, the cache and the transaction state promise by themselves.
\<close>

section \<open>Facts about runs\<close>

lemma CommittedTest_Inr:
  assumes ok: "test_ok m (dslm, c, log)" and x: "TransactionIdIsNormal x"
    and t: "DistributedSnapshotWithLocalMapping_CommittedTest m x vac (dslm, c, log) = Inr (v, st)"
  shows "\<exists>r. log_answer log x = Some r \<and> v = verdict (lm_ds dslm) vac r"
proof (cases "log_answer log x")
  case None
  from ok have ok': "dslm_ok log dslm" "cache_ok m c" "dlog_ok log" "coherent c log" by simp_all
  from mapped_hit_ok [OF ok'(1), of x] None have "mapped_hit x dslm = Inr False" by (auto simp: in_progress_local_def)
  moreover have "\<exists>e. find_distributed m x c log = Inl e"
    using find_distributed_Inr [OF ok'(2-4), of x] None by (cases "find_distributed m x c log") auto
  ultimately show ?thesis using t x by (auto simp: DistributedSnapshotWithLocalMapping_CommittedTest_def)
next
  case (Some r)
  from CommittedTest_verdict [OF ok x Some, of vac] t Some show ?thesis by auto
qed

lemma ignore_hint:
  assumes "test_ok m (distribSnapshotWithLocalMapping snap, c, log)"
    "XidInMVCCSnapshot m False topmost x False (snap, c, log) = Inr ((r, True), st)"
  shows "TransactionIdIsNormal x \<and>
    (\<exists>g. log_answer log x = Some (Some g) \<and> g < xminAllDistributedSnapshots (lm_ds (distribSnapshotWithLocalMapping snap)))"
proof -
  let ?l = "distribSnapshotWithLocalMapping snap"
  from assms(2) obtain st' where x: "TransactionIdIsNormal x" and
    t: "DistributedSnapshotWithLocalMapping_CommittedTest m x False (?l, c, log) = Inr (DISTRIBUTEDSNAPSHOT_COMMITTED_IGNORE, st')"
    by (auto simp: XidInMVCCSnapshot_def rbind_Inr_iff Let_def split: if_splits DistributedSnapshotCommitted.splits)
      (use DistributedSnapshotCommitted.exhaust in blast)
  from CommittedTest_Inr [OF assms(1) x t] x show ?thesis
    by (auto simp: verdict_def split: option.splits if_splits)
qed

section \<open>Examples\<close>

text \<open>Three global transactions on the coordinator, whose own one is the first, and a segment where the second one committed locally.\<close>

definition ex_tm :: tm_state where
  "ex_tm = \<lparr>latestCompletedGxid = 20,
     allTmGxact = [\<lparr>gxid = 10, xminDistributedSnapshot = 0\<rparr>, \<lparr>gxid = 12, xminDistributedSnapshot = 9\<rparr>, \<lparr>gxid = 11, xminDistributedSnapshot = 0\<rparr>],
     pgprocnos = [0, 1, 2], shmCommittedGxidArray = [], shmNextSnapshotId = 5\<rparr>"

definition empty_ds :: DistributedSnapshot where
  "empty_ds = \<lparr>xminAllDistributedSnapshots = 0, distribSnapshotId = 0, ds_xmin = 0, ds_xmax = 0, ds_count = 0, inProgressXidArray = Some [0, 0, 0]\<rparr>"

definition ex_ds :: DistributedSnapshot where
  "ex_ds = \<lparr>xminAllDistributedSnapshots = 9, distribSnapshotId = 6, ds_xmin = 10, ds_xmax = 21, ds_count = 2, inProgressXidArray = Some [11, 12, 0]\<rparr>"

definition snapshot_with :: "DistributedSnapshot \<Rightarrow> bool \<Rightarrow> SnapshotData" where
  "snapshot_with d b = \<lparr>snapshot_type = SNAPSHOT_MVCC, sn_xmin = 4, sn_xmax = 8, xip = None, xcnt = 0, subxip = None, subxcnt = 0,
     suboverflowed = False, takenDuringRecovery = False, copied = False, haveDistribSnapshot = b, sn_curcid = 1, active_count = 0, regd_count = 0,
     distribSnapshotWithLocalMapping = \<lparr>lm_ds = d, minCachedLocalXid = 0, maxCachedLocalXid = 0, currentLocalXidsCount = 0,
       inProgressMappedLocalXids = Some [0, 0, 0]\<rparr>\<rparr>"

definition context_with :: "DistributedTransactionId \<Rightarrow> bool \<Rightarrow> DistributedSnapshot \<Rightarrow> uint32 \<Rightarrow> DtxContextInfo" where
  "context_with g b d n = \<lparr>distributedXid = g, haveDistributedSnapshot = b, cursorContext = False, distributedSnapshot = d,
     distributedTxnOptions = 3, segmateSync = n, nestingLevel = 1, curcid = (if g = 0 then 0 else 1)\<rparr>"

definition ex_log :: dlog where
  "ex_log = \<lparr>DistributedLogCtl = \<lparr>page_buffer = [(0, zero_page(5 := 12, 6 := 8), True)], segment_files = [], latest_page_number = 0\<rparr>,
     oldestXmin = 3, xlog = []\<rparr>"

definition no_cache :: LocalDistribXactCache where
  "no_cache = fresh_cache\<lparr>LocalDistribCacheMemCxt := False\<rparr>"

lemmas ex_defs = ex_tm_def empty_ds_def ex_ds_def snapshot_with_def context_with_def

lemma ex_snapshot: "GetSnapshotData None None False True False 0 DTX_CONTEXT_QD_DISTRIBUTED_CAPABLE (context_with 0 False empty_ds 0) ex_tm (snapshot_with empty_ds False) =
    Inr (snapshot_with ex_ds True,
      ex_tm\<lparr>shmNextSnapshotId := 6, allTmGxact := (allTmGxact ex_tm)[0 := \<lparr>gxid = 10, xminDistributedSnapshot = 10\<rparr>]\<rparr>)"
  by (simp add: GetSnapshotData_def GetSnapshotData_segment_def SnapshotResetDslm_def take_snapshot_def DistributedSnapshot_Reset_def CreateDistributedSnapshot_def
      sort_snapshot_def qsort_gxids_sort ds_n_def ds_array_def push_gxid_def gather_procs.simps ex_defs Let_def)

lemma ex_context: "DtxContextInfo_CreateOnCoordinator None 10 1 False 3 (Some (snapshot_with ex_ds True)) (context_with 0 False empty_ds 0) 1 =
    Inr (context_with 10 True ex_ds 2, 2)"
  by (simp add: DtxContextInfo_CreateOnCoordinator_def DtxContextInfo_Reset_def DistributedSnapshot_Copy_def DistributedSnapshot_Reset_def
      copy_front_def ds_n_def ds_array_def ex_defs Let_def)

lemma ex_log_answer: "log_answer ex_log 5 = Some (Some 12)" "log_answer ex_log 6 = Some (Some 8)"
  by (simp_all add: log_answer_def logged_def slru_view_def ex_log_def TransactionIdPrecedes_def TransactionIdIsNormal_def
      TransactionIdToPage_def TransactionIdToEntry_def ENTRIES_PER_PAGE_def)

lemma ex_state_ok: "dlog_ok ex_log" "cache_ok 4 no_cache" "coherent no_cache ex_log"
  by (auto simp: dlog_ok_def slru_ok_def ex_log_def cache_ok_def coherent_def cache_content_def no_cache_def fresh_cache_def split: if_splits)

lemma ex_normal: "TransactionIdIsNormal 5" "TransactionIdIsNormal 6" "\<not> TransactionIdFollowsOrEquals 5 8" "\<not> TransactionIdFollowsOrEquals 6 8"
  "\<not> TransactionIdPrecedes 6 4"
  by (simp_all add: TransactionIdIsNormal_def TransactionIdFollowsOrEquals_def TransactionIdPrecedes_def)

lemma ex_room: "has_room mem empty_ds (ds_n ex_ds)" "snapshot_space xmem dmem (snapshot_with empty_ds False) (ds_n ex_ds)"
  by (simp_all add: has_room_def snapshot_space_def ds_n_def ex_defs)

lemma ex_fresh: "fresh_dslm (distribSnapshotWithLocalMapping (snapshot_with ex_ds True))"
  by (simp add: fresh_dslm_def snapshot_ok_def in_progress_def ds_n_def ds_array_def ex_defs)

section \<open>Visibility\<close>

text \<open>
  C4 (functional): a distributed snapshot taken by the coordinator, put into the context of a statement, serialised,
  deserialised on a segment (whatever follows the message) and copied into the segment's snapshot makes the segment see what the coordinator saw: a
  local transaction that the distributed log says committed as part of the distributed transaction \<open>g\<close> is still in progress for the snapshot
  exactly if \<open>g\<close> was running when the coordinator took it, or started later, or the local snapshot is older than the transaction;
  otherwise it is surely committed. This holds for every \<open>g\<close> not older than all distributed snapshots, whatever the process cache holds.
\<close>

theorem segment_sees_coordinator_snapshot:
  assumes "GetSnapshotData qxmem qdmem False True standby me DTX_CONTEXT_QD_DISTRIBUTED_CAPABLE qd tm s0 = Inr (s, tm')"
    and "\<forall>a. inProgressXidArray (lm_ds (distribSnapshotWithLocalMapping s0)) = Some a \<or> qdmem = Some a \<longrightarrow> length a < 2 ^ 31"
    and "DtxContextInfo_CreateOnCoordinator cmem myGxid level inCursor opts (Some s) info0 n = Inr (info, n')"
    and d: "d = lm_ds (distribSnapshotWithLocalMapping s)"
    and "has_room mem (distributedSnapshot qe0) (ds_n d)" "snapshot_space xmem dmem snap0 (ds_n d)" "segment_ctx ctx"
    and "dlog_ok log" "cache_ok m c" "coherent c log"
    and "TransactionIdIsNormal x" "log_answer log x = Some (Some g)" "xminAllDistributedSnapshots d \<le> g"
  shows "\<exists>bs qe snap st. DtxContextInfo_Serialize info = Inr bs \<and> DtxContextInfo_Deserialize mem (bs @ pad) qe0 = Inr qe \<and>
    GetSnapshotData xmem dmem False need standby' me' ctx qe stm snap0 = Inr (snap, stm) \<and>
    XidInMVCCSnapshot m False topmost x False (snap\<lparr>sn_xmin := xmin, sn_xmax := xmax\<rparr>, c, log) =
      Inr ((if TransactionIdFollowsOrEquals x xmax \<or> latestCompletedGxid tm + 1 \<le> g \<or> g \<in> set (running standby me tm)
            then XID_IN_SNAPSHOT else XID_SURELY_COMMITTED, False), st)"
proof -
  from GetSnapshotData_coordinator [OF assms(1,2)] have s: "haveDistribSnapshot s" and ok: "snapshot_ok d" "snapshot_of standby me tm d" by (simp_all add: d)
  from CreateOnCoordinator_snapshot [OF assms(3) s] have i: "haveDistributedSnapshot info" "same_snapshot d (distributedSnapshot info)" by (simp_all add: d)
  have n: "ds_n (distributedSnapshot info) = ds_n d" using i(2) by (simp add: same_snapshot_def ds_n_def)
  have "ds_n (distributedSnapshot info) \<le> length (ds_array (distributedSnapshot info))"
    by (rule snapshot_ok_room [OF same_snapshot_ok [OF i(2) ok(1)]])
  then obtain bs where bs: "DtxContextInfo_Serialize info = Inr bs" by (simp add: DtxContextInfo_Serialize_def DistributedSnapshot_Serialize_def i(1))
  from Context_Deserialize_Serialize [OF bs, of mem qe0 pad] assms(5) i(1) n obtain qe where
    qe: "DtxContextInfo_Deserialize mem (bs @ pad) qe0 = Inr qe" "same_context info qe" by auto
  have q: "haveDistributedSnapshot qe" "same_snapshot d (distributedSnapshot qe)"
    using qe(2) i same_snapshot_trans [OF i(2)] by (simp_all add: same_context_def)
  have nq: "ds_n (distributedSnapshot qe) = ds_n d" using q(2) by (simp add: same_snapshot_def ds_n_def)
  from segment_snapshot_ok [OF assms(6) [folded nq] assms(7) q(1) same_snapshot_ok [OF q(2) ok(1)]] obtain snap where
    snap: "GetSnapshotData_segment xmem dmem False ctx qe snap0 = Inr snap" "haveDistribSnapshot snap"
      "fresh_dslm (distribSnapshotWithLocalMapping snap)" "same_snapshot (distributedSnapshot qe) (lm_ds (distribSnapshotWithLocalMapping snap))" by blast
  let ?snap = "snap\<lparr>sn_xmin := xmin, sn_xmax := xmax\<rparr>"
  let ?d = "lm_ds (distribSnapshotWithLocalMapping snap)"
  have same: "same_snapshot d ?d" by (rule same_snapshot_trans [OF q(2) snap(4)])
  have tok: "test_ok m (distribSnapshotWithLocalMapping ?snap, c, log)" using fresh_dslm_ok [OF snap(3)] assms(8-10) by simp
  have "\<exists>st. XidInMVCCSnapshot m False topmost x False (?snap, c, log) =
      Inr ((if TransactionIdFollowsOrEquals x xmax \<or> latestCompletedGxid tm + 1 \<le> g \<or> g \<in> set (running standby me tm)
            then XID_IN_SNAPSHOT else XID_SURELY_COMMITTED, False), st)"
  proof (cases "TransactionIdFollowsOrEquals x xmax")
    case True
    then show ?thesis using snap(2) assms(11) by (simp add: XidInMVCCSnapshot_def)
  next
    case False
    have "verdict ?d False (Some g) = (if latestCompletedGxid tm + 1 \<le> g \<or> g \<in> set (running standby me tm)
        then DISTRIBUTEDSNAPSHOT_COMMITTED_INPROGRESS else DISTRIBUTEDSNAPSHOT_COMMITTED_VISIBLE)"
      using same ok(2) assms(13) by (auto simp: verdict_def same_snapshot_def snapshot_of_def)
    then show ?thesis using XidInMVCCSnapshot_verdict [OF tok _ assms(11,12), of topmost] snap(2) False by fastforce
  qed
  then show ?thesis using bs qe(1) snap(1) GetSnapshotData_on_segment [OF assms(7)] by fastforce
qed

theorem segment_sees_coordinator_snapshot_witness:
  "\<exists>bs qe snap st. DtxContextInfo_Serialize (context_with 10 True ex_ds 2) = Inr bs \<and>
    DtxContextInfo_Deserialize None (bs @ replicate 21 0) (context_with 0 False empty_ds 0) = Inr qe \<and>
    GetSnapshotData None None False True False 0 DTX_CONTEXT_QE_READER qe ex_tm (snapshot_with empty_ds False) = Inr (snap, ex_tm) \<and>
    XidInMVCCSnapshot 4 False id 5 False (snap\<lparr>sn_xmin := 4, sn_xmax := 8\<rparr>, no_cache, ex_log) = Inr ((XID_IN_SNAPSHOT, False), st)"
proof -
  have "(12 :: DistributedTransactionId) \<in> set (running False 0 ex_tm)" by (simp add: running_def live_def ex_tm_def)
  moreover have "\<forall>a. inProgressXidArray (lm_ds (distribSnapshotWithLocalMapping (snapshot_with empty_ds False))) = Some a \<or> None = Some a \<longrightarrow> length a < 2 ^ 31"
    by (simp add: ex_defs)
  moreover have "has_room None (distributedSnapshot (context_with 0 False empty_ds 0)) (ds_n ex_ds)" by (simp add: ex_room context_with_def)
  moreover have "ex_ds = lm_ds (distribSnapshotWithLocalMapping (snapshot_with ex_ds True))" by (simp add: snapshot_with_def)
  ultimately show ?thesis
    using segment_sees_coordinator_snapshot [OF ex_snapshot _ ex_context _ _ ex_room(2) _ ex_state_ok ex_normal(1) ex_log_answer(1),
        where ctx = DTX_CONTEXT_QE_READER and topmost = id and pad = "replicate 21 0" and mem = None and xmin = 4 and xmax = 8 and
          need = True and standby' = False and me' = 0 and stm = ex_tm]
    by (simp add: segment_ctx_def) (simp add: ex_ds_def)
qed





section \<open>Messages\<close>

text \<open>
  C35 (roundtrip): a segment reads from the message of a statement, whatever follows it, the context the coordinator wrote, with the distributed
  snapshot if there is one and the command id if there is a distributed transaction, provided that its array has room for the snapshot.
\<close>

theorem DtxContextInfo_round_trip:
  assumes "DtxContextInfo_Serialize info = Inr bs"
    and "has_room mem (distributedSnapshot target) (if haveDistributedSnapshot info then ds_n (distributedSnapshot info) else 0)"
  shows "\<exists>t. DtxContextInfo_Deserialize mem (bs @ rest) target = Inr t \<and> same_context info t"
  by (rule Context_Deserialize_Serialize [OF assms])

theorem DtxContextInfo_round_trip_witness:
  "\<exists>bs t. DtxContextInfo_Serialize (context_with 10 True ex_ds 2) = Inr bs \<and>
    DtxContextInfo_Deserialize None (bs @ [7]) (context_with 0 False empty_ds 0) = Inr t \<and> curcid t = 1 \<and> in_progress (distributedSnapshot t) = [11, 12]"
proof -
  obtain bs where bs: "DtxContextInfo_Serialize (context_with 10 True ex_ds 2) = Inr bs"
    by (simp add: DtxContextInfo_Serialize_def DistributedSnapshot_Serialize_def ds_n_def ds_array_def ex_defs)
  have "in_progress ex_ds = [11, 12]" by (simp add: in_progress_def ds_n_def ds_array_def ex_ds_def)
  then show ?thesis using DtxContextInfo_round_trip [OF bs, of None "context_with 0 False empty_ds 0" "[7]"] bs ex_room(1) [of None]
    by (auto simp: context_with_def same_context_def same_snapshot_def)
qed

text \<open>
  The size computed for a message is what is written plus, when there is a distributed transaction, 21 bytes for
  an identifier that is never written: those bytes of the buffer are sent uninitialised.
\<close>

theorem DtxContextInfo_SerializeSize_excess:
  assumes "DtxContextInfo_Serialize info = Inr bs"
  shows "DtxContextInfo_SerializeSize info = length bs + (if distributedXid info = InvalidDistributedTransactionId then 0 else TMGIDSIZE)"
  using assms Serialize_size
  by (auto simp: DtxContextInfo_Serialize_def DtxContextInfo_SerializeSize_def rbind_Inr_iff simp del: le_bytes.simps)

theorem DtxContextInfo_SerializeSize_excess_witness:
  "\<exists>bs. DtxContextInfo_Serialize (context_with 10 True ex_ds 2) = Inr bs \<and>
    DtxContextInfo_SerializeSize (context_with 10 True ex_ds 2) = length bs + 21"
proof -
  obtain bs where bs: "DtxContextInfo_Serialize (context_with 10 True ex_ds 2) = Inr bs"
    by (simp add: DtxContextInfo_Serialize_def DistributedSnapshot_Serialize_def ds_n_def ds_array_def ex_defs)
  from DtxContextInfo_SerializeSize_excess [OF this] bs show ?thesis by (simp add: context_with_def TMGIDSIZE_def)
qed

section \<open>The process cache\<close>

primrec lookup_all :: "int \<Rightarrow> TransactionId list \<Rightarrow> LocalDistribXactCache \<times> dlog \<Rightarrow> (cache_error + dlog_error) + LocalDistribXactCache \<times> dlog" where
  "lookup_all m [] st = Inr st"
| "lookup_all m (x # xs) st = rbind (find_distributed m x (fst st) (snd st)) (\<lambda>(r, st). lookup_all m xs st)"

lemma find_distributed_lru:
  assumes "cache_ok m c" "m \<noteq> 0" "find_distributed m x c log = Inr (Some d, c', log')"
  shows "lruDoublyLinkedHead c' = lru_touch (nat m) x (lruDoublyLinkedHead c)"
proof -
  obtain v c1 where f: "LocalDistribXactCache_CommittedFind m x c = (v, c1)" by (cases "LocalDistribXactCache_CommittedFind m x c")
  note c1 = CommittedFind_cases [OF assms(1) f]
  show ?thesis
  proof (cases v)
    case None
    from assms(3) f None obtain w where "LocalDistribXactCache_AddCommitted m x w c1 = Inr c'"
      by (auto simp: find_distributed_def cached_lookup_def split: sum.splits if_splits prod.splits)
    with AddCommitted_ok [of m c1 x w] c1 None assms(2) show ?thesis by auto
  next
    case (Some w)
    then show ?thesis using assms(3) f c1 by (auto simp: find_distributed_def cached_lookup_def)
  qed
qed

text \<open>
  C36 (refinement): the process cache is a least-recently-used cache: looking up any sequence of transactions that the log
  knows succeeds and leaves the keys of the abstract LRU list of the capacity, in its order, and the cache then holds exactly the log's answers for these keys.
\<close>

theorem process_cache_is_lru:
  assumes "0 < m" "cache_ok m c" "dlog_ok log" "coherent c log" "\<forall>x \<in> set xs. \<exists>d. log_answer log x = Some (Some d)"
  shows "\<exists>c' log'. lookup_all m xs (c, log) = Inr (c', log') \<and> log_answer log' = log_answer log \<and> cache_ok m c' \<and>
    lruDoublyLinkedHead c' = fold (lru_touch (nat m)) xs (lruDoublyLinkedHead c) \<and>
    (\<forall>x. cache_content c' x = (if x \<in> set (lruDoublyLinkedHead c') then the (log_answer log x) else None))"
  using assms(2-5)
proof (induction xs arbitrary: c log)
  case Nil
  have "cache_content c x = (if x \<in> set (lruDoublyLinkedHead c) then the (log_answer log x) else None)" for x
    using cache_ok_mem [OF Nil.prems(1), of x] Nil.prems(3) by (cases "cache_content c x") (auto simp: coherent_def)
  then show ?case using Nil.prems(1) by simp
next
  case (Cons x xs)
  from Cons.prems(4) obtain d where d: "log_answer log x = Some (Some d)" by auto
  from find_distributed_answer [OF Cons.prems(1-3) d] obtain c1 log1 where f: "find_distributed m x c log = Inr (Some d, c1, log1)"
    "cache_ok m c1" "dlog_ok log1" "log_answer log1 = log_answer log" "coherent c1 log1" by blast
  have "lruDoublyLinkedHead c1 = lru_touch (nat m) x (lruDoublyLinkedHead c)"
    using find_distributed_lru [OF Cons.prems(1) _ f(1)] assms(1) by simp
  then show ?case using Cons.IH [OF f(2,3,5)] Cons.prems(4) f(1,4) by auto
qed

theorem process_cache_is_lru_witness:
  "\<exists>c' log'. lookup_all 1 [5, 6] (no_cache, ex_log) = Inr (c', log') \<and> lruDoublyLinkedHead c' = [6] \<and> cache_content c' 6 = Some 8 \<and> cache_content c' 5 = None"
proof -
  have "cache_ok 1 no_cache" "lruDoublyLinkedHead no_cache = []" by (simp_all add: cache_ok_def no_cache_def fresh_cache_def)
  with process_cache_is_lru [of 1 no_cache ex_log "[5, 6]"] ex_state_ok ex_log_answer show ?thesis by (auto simp: lru_touch_def)
qed

section \<open>The state of a local distributed transaction\<close>

primrec change_all :: "nat \<Rightarrow> LocalDistribXactState list \<Rightarrow> LocalDistribXactData list \<Rightarrow> xact_panic + LocalDistribXactData list" where
  "change_all p [] procs = Inr procs"
| "change_all p (n # ns) procs = rbind (LocalDistribXact_ChangeState p n procs) (change_all p ns)"

lemma ChangeState_Inr:
  "(\<exists>procs'. LocalDistribXact_ChangeState p n procs = Inr procs') \<longleftrightarrow>
    (ld_state (procs ! p) = LOCALDISTRIBXACT_STATE_ACTIVE \<and>
       n \<in> {LOCALDISTRIBXACT_STATE_PREPARED, LOCALDISTRIBXACT_STATE_COMMITTED, LOCALDISTRIBXACT_STATE_ABORTED} \<or>
     ld_state (procs ! p) = LOCALDISTRIBXACT_STATE_ABORTED \<and> n = LOCALDISTRIBXACT_STATE_ABORTED)"
  by (cases n) (auto simp: LocalDistribXact_ChangeState_def Let_def)

lemma ChangeState_moves:
  "LocalDistribXact_ChangeState p n procs = Inr procs' \<Longrightarrow> procs' = procs[p := (procs ! p)\<lparr>ld_state := n\<rparr>]"
  by (cases n) (auto simp: LocalDistribXact_ChangeState_def Let_def split: if_splits)

lemma same_state: "ld_state r = a \<Longrightarrow> r\<lparr>ld_state := a\<rparr> = (r :: LocalDistribXactData)"
  by (cases r) simp

lemma change_all_stuck:
  assumes "p < length procs"
    "ld_state (procs ! p) \<notin> {LOCALDISTRIBXACT_STATE_ACTIVE, LOCALDISTRIBXACT_STATE_ABORTED}"
  shows "change_all p ns procs = Inr procs' \<longleftrightarrow> ns = [] \<and> procs' = procs"
proof (cases ns)
  case (Cons n ns')
  have "\<nexists>q. LocalDistribXact_ChangeState p n procs = Inr q" unfolding ChangeState_Inr using assms(2) by auto
  then show ?thesis using Cons by (cases "LocalDistribXact_ChangeState p n procs") auto
qed auto

lemma change_all_aborted:
  assumes "p < length procs" "ld_state (procs ! p) = LOCALDISTRIBXACT_STATE_ABORTED"
  shows "change_all p ns procs = Inr procs' \<longleftrightarrow> set ns \<subseteq> {LOCALDISTRIBXACT_STATE_ABORTED} \<and> procs' = procs"
  using assms
proof (induction ns)
  case (Cons n ns)
  show ?case
  proof (cases "LocalDistribXact_ChangeState p n procs")
    case (Inl e)
    then show ?thesis using ChangeState_Inr [of p n procs] Cons.prems by auto
  next
    case (Inr q)
    then have n: "n = LOCALDISTRIBXACT_STATE_ABORTED" using ChangeState_Inr [of p n procs] Cons.prems by auto
    have "q = procs" using ChangeState_moves [OF Inr] n Cons.prems by (simp add: same_state)
    then show ?thesis using Inr n Cons by simp
  qed
qed auto

text \<open>
  C37 (type): from the active state the changes that do not panic are exactly: none, one to prepared, one to committed, and any number to
  aborted. The entry of the process is then in the last of these states, and nothing else has changed.
\<close>

theorem LocalDistribXact_ChangeState_paths:
  assumes "p < length procs" "ld_state (procs ! p) = LOCALDISTRIBXACT_STATE_ACTIVE"
  shows "change_all p ns procs = Inr procs' \<longleftrightarrow>
    (ns \<in> {[], [LOCALDISTRIBXACT_STATE_PREPARED], [LOCALDISTRIBXACT_STATE_COMMITTED]} \<or> set ns \<subseteq> {LOCALDISTRIBXACT_STATE_ABORTED}) \<and>
    procs' = procs[p := (procs ! p)\<lparr>ld_state := last (LOCALDISTRIBXACT_STATE_ACTIVE # ns)\<rparr>]"
proof (cases ns)
  case Nil
  then show ?thesis using assms by (auto simp: same_state)
next
  case (Cons n ns')
  show ?thesis
  proof (cases "LocalDistribXact_ChangeState p n procs")
    case (Inl e)
    then show ?thesis using ChangeState_Inr [of p n procs] assms(2) Cons by auto
  next
    case (Inr q)
    then have n: "n \<in> {LOCALDISTRIBXACT_STATE_PREPARED, LOCALDISTRIBXACT_STATE_COMMITTED, LOCALDISTRIBXACT_STATE_ABORTED}"
      using ChangeState_Inr [of p n procs] assms(2) by auto
    have q: "q = procs[p := (procs ! p)\<lparr>ld_state := n\<rparr>]" by (rule ChangeState_moves [OF Inr])
    then have qp: "p < length q" "ld_state (q ! p) = n" using assms(1) by simp_all
    have last: "last (LOCALDISTRIBXACT_STATE_ABORTED # ns') = LOCALDISTRIBXACT_STATE_ABORTED" if "set ns' \<subseteq> {LOCALDISTRIBXACT_STATE_ABORTED}"
      using that by (induction ns') auto
    show ?thesis
    proof (cases "n = LOCALDISTRIBXACT_STATE_ABORTED")
      case True
      then show ?thesis using Cons Inr qp change_all_aborted [OF qp(1), of ns' procs'] last q by auto
    next
      case False
      then show ?thesis using Cons Inr n qp change_all_stuck [OF qp(1), of ns' procs'] q by auto
    qed
  qed
qed

theorem LocalDistribXact_ChangeState_paths_witness:
  "change_all 1 [LOCALDISTRIBXACT_STATE_ABORTED, LOCALDISTRIBXACT_STATE_ABORTED]
     [\<lparr>ld_state = LOCALDISTRIBXACT_STATE_NONE, ld_distribXid = 0\<rparr>, \<lparr>ld_state = LOCALDISTRIBXACT_STATE_ACTIVE, ld_distribXid = 9\<rparr>] =
   Inr [\<lparr>ld_state = LOCALDISTRIBXACT_STATE_NONE, ld_distribXid = 0\<rparr>, \<lparr>ld_state = LOCALDISTRIBXACT_STATE_ABORTED, ld_distribXid = 9\<rparr>]"
  by (subst LocalDistribXact_ChangeState_paths) simp_all

end
