(* ===== verification/Tm_Gxid.thy ===== *)
theory Tm_Gxid
  imports Pg_Prelude
begin

text \<open>
  Distributed transaction ids: how the coordinator hands them out (\<^verbatim>\<open>cdb/cdbtm.c\<close>), and how the counter survives a crash
  (\<^verbatim>\<open>access/transam/xlog.c\<close>). A batch of ids is reserved by logging its end before any of them is used. Other backends take ids while a batch is
  being reserved, so reserving is three steps, in the order of the code.
\<close>

section \<open>State\<close>

text \<open>
  The counter in shared memory and the log: \<open>gx_base\<close> is the counter in the last checkpoint, \<open>gx_recs\<close> the values logged since its redo pointer;
  a checkpoint that has begun has the values logged since its own redo pointer, and the counter once it has been read.
\<close>

datatype bump_phase = Bump_idle | Bump_computed DistributedTransactionId | Bump_logged

record gxid_gen =
  nextGxid :: DistributedTransactionId
  GxidCount :: uint32
  gx_latestCompletedGxid :: DistributedTransactionId
  gx_bump :: bump_phase
  gx_base :: DistributedTransactionId
  gx_recs :: "DistributedTransactionId list"
  gx_ckpt :: "(DistributedTransactionId list \<times> DistributedTransactionId option) option"

abbreviation LastDistributedTransactionId :: DistributedTransactionId where
  "LastDistributedTransactionId \<equiv> - 1"

datatype gxid_error = Panic_gxid_limit DistributedTransactionId

section \<open>Reserving a batch\<close>

text \<open>\<^verbatim>\<open>GXID_PRETCH_THRESHOLD\<close>, and the first part of \<^verbatim>\<open>bumpGxid\<close> up to the check of the limit; the lock is held.\<close>

definition GXID_PRETCH_THRESHOLD :: "nat \<Rightarrow> nat" where
  "GXID_PRETCH_THRESHOLD gp_gxid_prefetch_num = gp_gxid_prefetch_num div 2"

definition bump_compute :: "nat \<Rightarrow> gxid_gen \<Rightarrow> gxid_error + gxid_gen" where
  "bump_compute gp_gxid_prefetch_num s =
     (if unat (GxidCount s) > GXID_PRETCH_THRESHOLD gp_gxid_prefetch_num then Inr s
      else
        let nextCount = GxidCount s + of_nat gp_gxid_prefetch_num;
            nextLimit = nextGxid s + ucast nextCount
        in if nextLimit \<ge> LastDistributedTransactionId - of_nat gp_gxid_prefetch_num then Inl (Panic_gxid_limit (nextGxid s))
           else Inr (s\<lparr>gx_bump := Bump_computed nextLimit\<rparr>))"

definition XLogPutNextGxid :: "DistributedTransactionId \<Rightarrow> gxid_gen \<Rightarrow> gxid_gen" where
  "XLogPutNextGxid v s =
     s\<lparr>gx_recs := gx_recs s @ [v], gx_ckpt := map_option (\<lambda>(recs, c). (recs @ [v], c)) (gx_ckpt s)\<rparr>"

definition bump_log :: "gxid_gen \<Rightarrow> gxid_gen" where
  "bump_log s = (case gx_bump s of Bump_computed nextLimit \<Rightarrow> (XLogPutNextGxid nextLimit s)\<lparr>gx_bump := Bump_logged\<rparr> | _ \<Rightarrow> s)"

definition bump_add :: "nat \<Rightarrow> gxid_gen \<Rightarrow> gxid_gen" where
  "bump_add gp_gxid_prefetch_num s =
     (case gx_bump s of
        Bump_logged \<Rightarrow> s\<lparr>GxidCount := GxidCount s + of_nat gp_gxid_prefetch_num, gx_bump := Bump_idle\<rparr>
      | _ \<Rightarrow> s)"

text \<open>Without other backends in between.\<close>

definition bumpGxid :: "nat \<Rightarrow> gxid_gen \<Rightarrow> gxid_error + gxid_gen" where
  "bumpGxid gp_gxid_prefetch_num s =
     rbind (bump_compute gp_gxid_prefetch_num s) (\<lambda>s. Inr (bump_add gp_gxid_prefetch_num (bump_log s)))"

section \<open>Taking an id, and ending\<close>

text \<open>The locked part of the loop of \<^verbatim>\<open>currentDtxActivate\<close>: no id when none is left.\<close>

definition take_gxid :: "gxid_gen \<Rightarrow> (DistributedTransactionId \<times> gxid_gen) option" where
  "take_gxid s =
     (if GxidCount s > 0 then Some (nextGxid s, s\<lparr>nextGxid := nextGxid s + 1, GxidCount := GxidCount s - 1\<rparr>) else None)"

definition note_completed_gxid :: "DistributedTransactionId \<Rightarrow> gxid_gen \<Rightarrow> gxid_gen" where
  "note_completed_gxid gxid s =
     (if 0 \<noteq> gxid \<and> gx_latestCompletedGxid s < gxid then s\<lparr>gx_latestCompletedGxid := gxid\<rparr> else s)"

section \<open>Checkpoints and restarts\<close>

text \<open>An online checkpoint: its redo pointer, reading the counter (under the lock that keeps batches from being reserved) and the record.\<close>

definition ckpt_begin :: "gxid_gen \<Rightarrow> gxid_gen" where
  "ckpt_begin s = s\<lparr>gx_ckpt := Some ([], None)\<rparr>"

definition ckpt_read :: "gxid_gen \<Rightarrow> gxid_gen" where
  "ckpt_read s = s\<lparr>gx_ckpt := map_option (\<lambda>(recs, c). (recs, Some (nextGxid s + ucast (GxidCount s)))) (gx_ckpt s)\<rparr>"

definition ckpt_end :: "gxid_gen \<Rightarrow> gxid_gen" where
  "ckpt_end s = (case gx_ckpt s of Some (recs, Some v) \<Rightarrow> s\<lparr>gx_base := v, gx_recs := recs, gx_ckpt := None\<rparr> | _ \<Rightarrow> s)"

text \<open>Shutting down: a checkpoint with the exact counter, when no transaction runs.\<close>

definition ckpt_shutdown :: "gxid_gen \<Rightarrow> gxid_gen" where
  "ckpt_shutdown s = s\<lparr>gx_base := nextGxid s, gx_recs := [], gx_ckpt := None\<rparr>"

text \<open>\<^verbatim>\<open>StartupXLOG\<close>: the counter of the checkpoint, then the replay of the logged values, then the newest completed id.\<close>

primrec replay_gxids :: "DistributedTransactionId \<Rightarrow> DistributedTransactionId list \<Rightarrow> DistributedTransactionId" where
  "replay_gxids v [] = v"
| "replay_gxids v (r # rs) = replay_gxids r rs"

definition gxid_startup :: "gxid_gen \<Rightarrow> gxid_gen" where
  "gxid_startup s =
     (let v = replay_gxids (gx_base s) (gx_recs s)
      in s\<lparr>nextGxid := v, GxidCount := 0, gx_latestCompletedGxid := v, gx_bump := Bump_idle, gx_ckpt := None\<rparr>)"

section \<open>All runs\<close>

text \<open>A state with the ids handed out so far, newest first.\<close>

definition gxid_init :: gxid_gen where
  "gxid_init = \<lparr>nextGxid = 1, GxidCount = 0, gx_latestCompletedGxid = 1, gx_bump = Bump_idle, gx_base = 1, gx_recs = [], gx_ckpt = None\<rparr>"

inductive gxid_run :: "nat \<Rightarrow> gxid_gen \<Rightarrow> DistributedTransactionId list \<Rightarrow> bool" for n :: nat where
  init: "gxid_run n gxid_init []"
| compute: "gxid_run n s gs \<Longrightarrow> gx_bump s = Bump_idle \<Longrightarrow> bump_compute n s = Inr s' \<Longrightarrow> gxid_run n s' gs"
| put: "gxid_run n s gs \<Longrightarrow> gxid_run n (bump_log s) gs"
| add: "gxid_run n s gs \<Longrightarrow> gxid_run n (bump_add n s) gs"
| take: "gxid_run n s gs \<Longrightarrow> take_gxid s = Some (g, s') \<Longrightarrow> gxid_run n s' (g # gs)"
| end_gxact: "gxid_run n s gs \<Longrightarrow> gxid_run n (note_completed_gxid g s) gs"
| redo_pointer: "gxid_run n s gs \<Longrightarrow> gxid_run n (ckpt_begin s) gs"
| read_counter: "gxid_run n s gs \<Longrightarrow> gx_bump s = Bump_idle \<Longrightarrow> gxid_run n (ckpt_read s) gs"
| checkpoint: "gxid_run n s gs \<Longrightarrow> gxid_run n (ckpt_end s) gs"
| shutdown: "gxid_run n s gs \<Longrightarrow> gx_bump s = Bump_idle \<Longrightarrow> gxid_run n (gxid_startup (ckpt_shutdown s)) gs"
| crash: "gxid_run n s gs \<Longrightarrow> gxid_run n (gxid_startup s) gs"

section \<open>The invariant\<close>

text \<open>What has been reserved: the ids up to here may be handed out.\<close>

definition reserved :: "nat \<Rightarrow> gxid_gen \<Rightarrow> int" where
  "reserved n s = uint (nextGxid s) + uint (GxidCount s) + (if gx_bump s = Bump_logged then int n else 0)"

definition bump_ok :: "nat \<Rightarrow> gxid_gen \<Rightarrow> bool" where
  "bump_ok n s = (case gx_bump s of
     Bump_idle \<Rightarrow> True
   | Bump_computed nextLimit \<Rightarrow> 
       uint nextLimit = uint (nextGxid s) + uint (GxidCount s) + int n \<and> uint nextLimit + int n < 2 ^ 64 - 1 \<and> uint (GxidCount s) \<le> int n
   | Bump_logged \<Rightarrow> uint (GxidCount s) \<le> int n)"

definition limit_ok :: "nat \<Rightarrow> gxid_gen \<Rightarrow> DistributedTransactionId \<Rightarrow> bool" where
  "limit_ok n s v \<longleftrightarrow> reserved n s \<le> uint v \<and> uint v + int n < 2 ^ 64 - 1"

definition ckpt_ok :: "nat \<Rightarrow> gxid_gen \<Rightarrow> bool" where
  "ckpt_ok n s = (case gx_ckpt s of
     None \<Rightarrow> True
   | Some (recs, c) \<Rightarrow> (\<exists>pre. gx_recs s = pre @ recs) \<and> (\<forall>v. c = Some v \<longrightarrow> limit_ok n s (replay_gxids v recs)))"

definition issued_ok :: "gxid_gen \<Rightarrow> DistributedTransactionId list \<Rightarrow> bool" where
  "issued_ok s gs \<longleftrightarrow> 0 < uint (nextGxid s) \<and> distinct gs \<and> (\<forall>g \<in> set gs. 0 < uint g \<and> uint g < uint (nextGxid s))"

definition gxid_inv :: "nat \<Rightarrow> gxid_gen \<Rightarrow> DistributedTransactionId list \<Rightarrow> bool" where
  "gxid_inv n s gs \<longleftrightarrow> limit_ok n s (replay_gxids (gx_base s) (gx_recs s)) \<and> bump_ok n s \<and> ckpt_ok n s \<and> issued_ok s gs"

lemmas gxid_inv_defs = gxid_inv_def limit_ok_def ckpt_ok_def bump_ok_def issued_ok_def reserved_def

lemma replay_append: "replay_gxids v (rs @ [r]) = r"
  by (induction rs arbitrary: v) simp_all

lemma replay_suffix: "recs = pre @ rs \<Longrightarrow> rs \<noteq> [] \<Longrightarrow> replay_gxids v recs = replay_gxids w rs"
  by (cases rs rule: rev_cases) (simp_all add: replay_append flip: append_assoc)

lemma uint_add_small: "uint a + uint b < 2 ^ 64 \<Longrightarrow> uint (a + b :: uint64) = uint a + uint b"
  using uint_add_lem [of a b] by simp

lemma uint_ucast_count: "uint (ucast (c :: uint32) :: uint64) = uint c"
  by (rule uint_up_ucast) (simp add: is_up)

lemma uint_of_nat_prefetch: "n < 2 ^ 31 \<Longrightarrow> uint (of_nat n :: uint32) = int n \<and> uint (of_nat n :: uint64) = int n"
  by (simp add: unsigned_of_nat take_bit_nat_eq_self)

text \<open>The counter after the batch does not wrap, because the ids reserved before left room for one.\<close>

lemma bump_compute_cases:
  assumes inv: "gxid_inv n s gs" and b: "gx_bump s = Bump_idle" and r: "bump_compute n s = Inr s'" and n: "n < 2 ^ 31"
  obtains "s' = s"
  | l where "s' = s\<lparr>gx_bump := Bump_computed l\<rparr>" and "uint (GxidCount s) \<le> int n"
      and "uint l = uint (nextGxid s) + uint (GxidCount s) + int n" and "uint l + int n < 2 ^ 64 - 1"
proof (cases "unat (GxidCount s) > GXID_PRETCH_THRESHOLD n")
  case True
  then show ?thesis using r that(1) by (simp add: bump_compute_def)
next
  case False
  define l where "l = nextGxid s + ucast (GxidCount s + of_nat n)"
  have le: "uint (GxidCount s) \<le> int n" using False unfolding GXID_PRETCH_THRESHOLD_def uint_nat by linarith
  have c: "uint (GxidCount s + of_nat n) = uint (GxidCount s) + int n"
    using le n uint_add_lem [of "GxidCount s" "of_nat n"] by (simp add: uint_of_nat_prefetch [OF n])
  have "uint (nextGxid s) + uint (GxidCount s) + int n < 2 ^ 64"
    using inv b by (simp add: gxid_inv_def limit_ok_def reserved_def)
  then have l: "uint l = uint (nextGxid s) + uint (GxidCount s) + int n"
    unfolding l_def by (subst uint_add_small) (simp_all add: uint_ucast_count c)
  have "s' = s\<lparr>gx_bump := Bump_computed l\<rparr>" and g: "l < - 1 - of_nat n"
    using r False by (auto simp: bump_compute_def Let_def l_def not_le split: if_splits)
  moreover have "uint (- 1 - of_nat n :: uint64) = 2 ^ 64 - 1 - int n"
    using n uint_sub_lem [of "of_nat n :: uint64" "- 1"]
    by (simp add: uint_of_nat_prefetch [OF n] unsigned_minus_1_eq_mask mask_eq_exp_minus_1)
  then have "uint l + int n < 2 ^ 64 - 1" using g by (simp add: word_less_def)
  ultimately show ?thesis using that(2) le l by blast
qed

text \<open>A step that leaves the log and what is reserved alone keeps the parts of the invariant about the log.\<close>

lemma gxid_inv_frame:
  assumes "gxid_inv n s gs" "reserved n s' = reserved n s" "gx_base s' = gx_base s" "gx_recs s' = gx_recs s" "gx_ckpt s' = gx_ckpt s"
    and "bump_ok n s'" "issued_ok s' gs'"
  shows "gxid_inv n s' gs'"
  using assms by (cases "gx_ckpt s") (auto simp: gxid_inv_def limit_ok_def ckpt_ok_def)

lemma gxid_invD: "gxid_inv n s gs \<Longrightarrow> bump_ok n s \<and> issued_ok s gs"
  by (simp add: gxid_inv_def)

lemma compute_inv:
  assumes "gxid_inv n s gs" "gx_bump s = Bump_idle" "bump_compute n s = Inr s'" "n < 2 ^ 31"
  shows "gxid_inv n s' gs"
  by (rule bump_compute_cases [OF assms]) 
    (use assms(1,2) gxid_invD [OF assms(1)] in \<open>auto intro!: gxid_inv_frame [OF assms(1)] simp: bump_ok_def issued_ok_def reserved_def\<close>)

lemma put_inv:
  assumes "gxid_inv n s gs"
  shows "gxid_inv n (bump_log s) gs"
proof (cases "gx_bump s")
  case (Bump_computed l)
  then show ?thesis using assms
    by (simp add: gxid_inv_defs bump_log_def XLogPutNextGxid_def replay_append split: option.splits prod.splits)
qed (use assms in \<open>simp_all add: bump_log_def\<close>)

lemma add_inv:
  assumes "gxid_inv n s gs" "n < 2 ^ 31"
  shows "gxid_inv n (bump_add n s) gs"
proof (cases "gx_bump s")
  case Bump_logged
  then have le: "uint (GxidCount s) \<le> int n" using assms(1) by (simp add: gxid_inv_defs)
  have "uint (GxidCount s + of_nat n) = uint (GxidCount s) + int n"
    using le assms(2) uint_add_lem [of "GxidCount s" "of_nat n"] by (simp add: uint_of_nat_prefetch [OF assms(2)])
  then show ?thesis using gxid_invD [OF assms(1)] Bump_logged
    by (auto intro!: gxid_inv_frame [OF assms(1)] simp: bump_add_def bump_ok_def issued_ok_def reserved_def)
qed (use assms(1) in \<open>simp_all add: bump_add_def\<close>)

lemma take_gxid_cases:
  assumes inv: "gxid_inv n s gs" and t: "take_gxid s = Some (g, s')"
  obtains "g = nextGxid s" "s' = s\<lparr>nextGxid := nextGxid s + 1, GxidCount := GxidCount s - 1\<rparr>"
    "uint (nextGxid s + 1) = uint (nextGxid s) + 1" "uint (GxidCount s - 1) = uint (GxidCount s) - 1"
proof -
  have "0 < GxidCount s" using t by (simp add: take_gxid_def split: if_splits)
  then have pos: "1 \<le> uint (GxidCount s)" by (simp add: word_less_def)
  have "uint (nextGxid s) + 1 < 2 ^ 64" using inv pos by (simp add: gxid_inv_defs split: if_splits)
  then have "uint (nextGxid s + 1) = uint (nextGxid s) + 1" using uint_add_small [of "nextGxid s" 1] by simp
  moreover have "uint (GxidCount s - 1) = uint (GxidCount s) - 1" using pos uint_sub_lem [of 1 "GxidCount s"] by simp
  ultimately show ?thesis using that t by (auto simp: take_gxid_def split: if_splits)
qed

lemma take_inv:
  assumes inv: "gxid_inv n s gs" and "take_gxid s = Some (g, s')"
  shows "gxid_inv n s' (g # gs)"
  using inv assms(2)
proof (cases rule: take_gxid_cases)
  case 1
  have "bump_ok n s'" using inv 1 by (auto simp: gxid_inv_def bump_ok_def split: bump_phase.splits)
  moreover have "issued_ok s' (g # gs)" using inv 1 by (auto simp: gxid_inv_def issued_ok_def)
  ultimately show ?thesis using inv 1 by (auto intro!: gxid_inv_frame [OF inv] simp: reserved_def)
qed

lemma end_gxact_inv: "gxid_inv n s gs \<Longrightarrow> gxid_inv n (note_completed_gxid g s) gs"
  by (frule gxid_invD, erule gxid_inv_frame) (auto simp: bump_ok_def issued_ok_def reserved_def note_completed_gxid_def split: bump_phase.splits)

lemma ckpt_begin_inv: "gxid_inv n s gs \<Longrightarrow> gxid_inv n (ckpt_begin s) gs"
  by (cases "gx_bump s") (simp_all add: gxid_inv_defs ckpt_begin_def)

lemma ckpt_read_inv:
  assumes inv: "gxid_inv n s gs" and b: "gx_bump s = Bump_idle"
  shows "gxid_inv n (ckpt_read s) gs"
proof (cases "gx_ckpt s")
  case None
  then have "ckpt_read s = s" by (simp add: ckpt_read_def)
  then show ?thesis using inv by simp
next
  case (Some p)
  obtain recs c where p: "p = (recs, c)" by fastforce
  then obtain pre where pre: "gx_recs s = pre @ recs" using inv Some by (auto simp: gxid_inv_def ckpt_ok_def)
  define v where "v = nextGxid s + ucast (GxidCount s)"
  have lim: "limit_ok n s (replay_gxids (gx_base s) (gx_recs s))" using inv by (simp add: gxid_inv_def)
  then have v: "uint v = reserved n s" unfolding v_def
    by (subst uint_add_small) (simp_all add: uint_ucast_count reserved_def limit_ok_def b)
  have "limit_ok n s (replay_gxids v recs)"
    using lim v pre replay_suffix [OF pre, of "gx_base s" v] by (cases "recs = []") (simp_all add: limit_ok_def)
  then show ?thesis using inv Some p pre b by (simp add: gxid_inv_defs ckpt_read_def v_def)
qed

lemma ckpt_end_inv:
  assumes "gxid_inv n s gs"
  shows "gxid_inv n (ckpt_end s) gs"
proof (cases "\<exists>recs v. gx_ckpt s = Some (recs, Some v)")
  case True
  then obtain recs v where "gx_ckpt s = Some (recs, Some v)" by blast
  then show ?thesis using assms by (cases "gx_bump s") (simp_all add: gxid_inv_defs ckpt_end_def)
next
  case False
  then have "ckpt_end s = s" by (auto simp: ckpt_end_def split: option.splits)
  then show ?thesis using assms by simp
qed

lemma next_le_reserved: "uint (nextGxid s) \<le> reserved n s"
  by (simp add: reserved_def)

lemma startup_inv:
  assumes "gxid_inv n s gs"
  shows "gxid_inv n (gxid_startup s) gs"
proof -
  define v where "v = replay_gxids (gx_base s) (gx_recs s)"
  have "uint (nextGxid s) \<le> uint v" "uint v + int n < 2 ^ 64 - 1"
    using assms next_le_reserved [of s n] by (simp_all add: gxid_inv_def limit_ok_def v_def)
  moreover have "issued_ok s gs" using assms by (simp add: gxid_inv_def)
  ultimately show ?thesis
    by (auto simp: gxid_inv_defs gxid_startup_def Let_def simp flip: v_def intro: order.strict_trans2)
qed

lemma shutdown_inv:
  assumes "gxid_inv n s gs" "gx_bump s = Bump_idle"
  shows "gxid_inv n (gxid_startup (ckpt_shutdown s)) gs"
proof -
  have "uint (nextGxid s) + int n < 2 ^ 64 - 1" "issued_ok s gs"
    using assms next_le_reserved [of s n] by (simp_all add: gxid_inv_def limit_ok_def)
  then show ?thesis by (simp add: gxid_inv_defs gxid_startup_def ckpt_shutdown_def Let_def)
qed

lemma gxid_run_inv:
  assumes "gxid_run n s gs" "n < 2 ^ 31"
  shows "gxid_inv n s gs"
  using assms
proof (induction rule: gxid_run.induct)
  case init
  then show ?case by (simp add: gxid_inv_defs gxid_init_def)
qed (blast intro: compute_inv put_inv add_inv take_inv end_gxact_inv ckpt_begin_inv ckpt_read_inv ckpt_end_inv startup_inv shutdown_inv)+

end
