(* ===== verification/Tm_Correct.thy ===== *)
theory Tm_Correct
  imports Tm_Gxid Dtx_Session
begin

text \<open>
  Properties of the distributed transaction ids: across crashes and restarts no id is handed out twice, and which snapshots the first id after a restart
  is in.
\<close>

section \<open>Lemmas\<close>

lemma bump_after_startup:
  assumes "bumpGxid n (gxid_startup s) = Inr s2" "take_gxid s2 = Some (g, s3)"
  shows "g = gx_latestCompletedGxid (gxid_startup s)"
  using assms
  by (auto simp: bumpGxid_def bump_compute_def bump_log_def bump_add_def XLogPutNextGxid_def take_gxid_def gxid_startup_def Let_def rbind_Inr_iff
      split: if_splits)

lemma verdict_of_latest:
  assumes "snapshot_of standby me tm d" "uint (latestCompletedGxid tm) + 1 < 2 ^ 64" "latestCompletedGxid tm \<notin> set (running standby me tm)"
  shows "verdict d False (Some (latestCompletedGxid tm)) \<noteq> DISTRIBUTEDSNAPSHOT_COMMITTED_INPROGRESS"
proof -
  have "latestCompletedGxid tm < latestCompletedGxid tm + 1" using uint_add_small [of "latestCompletedGxid tm" 1] assms(2) by (simp add: word_less_def)
  then show ?thesis using assms by (auto simp: verdict_def snapshot_of_def)
qed

lemma startup_room:
  assumes "gxid_run n s gs" "n < 2 ^ 31"
  shows "uint (gx_latestCompletedGxid (gxid_startup s)) + 1 < 2 ^ 64"
  using gxid_run_inv [OF assms] by (simp add: gxid_inv_def limit_ok_def gxid_startup_def Let_def)

section \<open>Properties\<close>

text \<open>
  C38 (safety): whatever backends reserve and take ids, whenever checkpoints begin, read the counter and end, and whenever the coordinator is stopped or crashes,
  every id is handed out at most once, none is the invalid id, and all of them are below the counter.
\<close>

theorem gxids_unique:
  assumes "gxid_run gp_gxid_prefetch_num s issued" "gp_gxid_prefetch_num < 2 ^ 31"
  shows "distinct issued \<and> (\<forall>g \<in> set issued. 0 < g \<and> g < nextGxid s)"
  using gxid_run_inv [OF assms] by (auto simp: gxid_inv_def issued_ok_def word_less_def)

text \<open>A batch reserved while a checkpoint runs, a crash before the batch is used, and two ids.\<close>

definition ex_gen :: gxid_gen where
  "ex_gen = \<lparr>nextGxid = 514, GxidCount = 511, gx_latestCompletedGxid = 513, gx_bump = Bump_idle, gx_base = 513, gx_recs = [1025], gx_ckpt = None\<rparr>"

lemmas gxid_steps = bump_compute_def bump_log_def bump_add_def XLogPutNextGxid_def GXID_PRETCH_THRESHOLD_def Let_def

lemma ex_gxid_run: "gxid_run 512 ex_gen [513, 1]"
proof -
  note st = gxid_steps gxid_init_def take_gxid_def gxid_startup_def ckpt_begin_def ckpt_read_def ckpt_end_def ex_gen_def
  let ?s = "\<lambda>nx c b recs ck. \<lparr>nextGxid = nx, GxidCount = c, gx_latestCompletedGxid = 1, gx_bump = b, gx_base = 1, gx_recs = recs, gx_ckpt = ck\<rparr>"
  let ?t = "\<lambda>nx c b recs. \<lparr>nextGxid = nx, GxidCount = c, gx_latestCompletedGxid = 513, gx_bump = b, gx_base = 513, gx_recs = recs, gx_ckpt = None\<rparr>"
  have "gxid_run 512 (?s 1 0 Bump_idle [] None) []" using gxid_run.init by (simp add: st)
  then have "gxid_run 512 (?s 1 0 (Bump_computed 513) [] None) []" by (rule gxid_run.compute) (simp_all add: st)
  from gxid_run.put [OF this] have "gxid_run 512 (?s 1 0 Bump_logged [513] None) []" by (simp add: st)
  from gxid_run.redo_pointer [OF this] have "gxid_run 512 (?s 1 0 Bump_logged [513] (Some ([], None))) []" by (simp add: st)
  from gxid_run.add [OF this] have "gxid_run 512 (?s 1 512 Bump_idle [513] (Some ([], None))) []" by (simp add: st)
  then have "gxid_run 512 (?s 2 511 Bump_idle [513] (Some ([], None))) [1]" by (rule gxid_run.take) (simp add: st)
  from gxid_run.read_counter [OF this] have "gxid_run 512 (?s 2 511 Bump_idle [513] (Some ([], Some 513))) [1]" by (simp add: st)
  from gxid_run.checkpoint [OF this] have "gxid_run 512 (?s 2 511 Bump_idle [] None\<lparr>gx_base := 513\<rparr>) [1]" by (simp add: st)
  from gxid_run.crash [OF this] have "gxid_run 512 (?t 513 0 Bump_idle []) [1]" by (simp add: st)
  then have "gxid_run 512 (?t 513 0 (Bump_computed 1025) []) [1]" by (rule gxid_run.compute) (simp_all add: st)
  from gxid_run.put [OF this] have "gxid_run 512 (?t 513 0 Bump_logged [1025]) [1]" by (simp add: st)
  from gxid_run.add [OF this] have "gxid_run 512 (?t 513 512 Bump_idle [1025]) [1]" by (simp add: st)
  then show ?thesis by (rule gxid_run.take) (simp add: st)
qed

theorem gxids_unique_witness: "distinct [513, 1 :: DistributedTransactionId] \<and> (1 :: DistributedTransactionId) < 514"
  using gxids_unique [OF ex_gxid_run] by (simp add: ex_gen_def)

text \<open>A coordinator with no running transaction, and an empty snapshot.\<close>

definition quiet_tm :: tm_state where
  "quiet_tm = \<lparr>latestCompletedGxid = 1025, allTmGxact = [\<lparr>gxid = 0, xminDistributedSnapshot = 0\<rparr>], pgprocnos = [0], shmCommittedGxidArray = [], shmNextSnapshotId = 0\<rparr>"

definition quiet_ds :: DistributedSnapshot where
  "quiet_ds = \<lparr>xminAllDistributedSnapshots = 0, distribSnapshotId = 0, ds_xmin = 0, ds_xmax = 0, ds_count = 0, inProgressXidArray = Some [0]\<rparr>"

text \<open>
  C39 (functional): the first transaction after a restart has the id the coordinator already counts as completed, so a snapshot taken before it started
  does not treat it as in progress.
\<close>

theorem first_gxid_after_restart_counts_as_completed:
  assumes "gxid_run n s issued" "n < 2 ^ 31" "latestCompletedGxid tm = gx_latestCompletedGxid (gxid_startup s)"
    and "take_snapshot False me tm ds = Inr (ds', tm')" "length (ds_array ds) < 2 ^ 31"
    and "bumpGxid n (gxid_startup s) = Inr s2" "take_gxid s2 = Some (g, s3)" "g \<notin> set (running False me tm)"
  shows "g = latestCompletedGxid tm \<and> verdict ds' False (Some g) \<noteq> DISTRIBUTEDSNAPSHOT_COMMITTED_INPROGRESS"
proof -
  have g: "g = latestCompletedGxid tm" using bump_after_startup [OF assms(6,7)] assms(3) by simp
  moreover have "uint (latestCompletedGxid tm) + 1 < 2 ^ 64" using startup_room [OF assms(1,2)] assms(3) by simp
  ultimately show ?thesis using verdict_of_latest [OF take_snapshot_of [OF assms(4,5)]] assms(8) by simp
qed

theorem first_gxid_after_restart_counts_as_completed_witness:
  "\<exists>ds' tm'. take_snapshot False 0 quiet_tm quiet_ds = Inr (ds', tm') \<and> verdict ds' False (Some 1025) \<noteq> DISTRIBUTEDSNAPSHOT_COMMITTED_INPROGRESS"
proof -
  obtain ds' tm' where t: "take_snapshot False 0 quiet_tm quiet_ds = Inr (ds', tm')"
    by (simp add: take_snapshot_def CreateDistributedSnapshot_def gather_procs.simps sort_snapshot_def Let_def ds_array_def quiet_tm_def quiet_ds_def)
  obtain s2 s3 where b: "bumpGxid 512 (gxid_startup ex_gen) = Inr s2" "take_gxid s2 = Some (1025, s3)"
    by (simp add: bumpGxid_def gxid_startup_def ex_gen_def gxid_steps take_gxid_def)
  have "latestCompletedGxid quiet_tm = gx_latestCompletedGxid (gxid_startup ex_gen)" by (simp add: quiet_tm_def gxid_startup_def ex_gen_def Let_def)
  moreover have "length (ds_array quiet_ds) < 2 ^ 31" by (simp add: quiet_ds_def ds_array_def)
  moreover have "1025 \<notin> set (running False 0 quiet_tm)" by (simp add: quiet_tm_def running_def)
  ultimately show ?thesis using first_gxid_after_restart_counts_as_completed [OF ex_gxid_run _ _ t _ b] t by fastforce
qed

end
