(* ===== verification/Tm_Utils.thy ===== *)
theory Tm_Utils
  imports Dtx_Context
begin

text \<open>
  States, commands and identifiers of distributed transactions (\<^verbatim>\<open>cdb/cdbtmutils.c\<close>, \<^verbatim>\<open>cdb/cdbtm.h\<close>), and the transaction options
  that are sent with a statement (\<^verbatim>\<open>mppTxnOptions\<close> of \<^verbatim>\<open>cdb/cdbtm.c\<close>).
\<close>

unbundle bit_operations_syntax

section \<open>States and commands\<close>

datatype DtxState =
    DTX_STATE_NONE
  | DTX_STATE_ACTIVE_DISTRIBUTED
  | DTX_STATE_ONE_PHASE_COMMIT
  | DTX_STATE_NOTIFYING_ONE_PHASE_COMMIT
  | DTX_STATE_PREPARING
  | DTX_STATE_PREPARED
  | DTX_STATE_INSERTING_COMMITTED
  | DTX_STATE_INSERTED_COMMITTED
  | DTX_STATE_NOTIFYING_COMMIT_PREPARED
  | DTX_STATE_INSERTING_FORGET_COMMITTED
  | DTX_STATE_INSERTED_FORGET_COMMITTED
  | DTX_STATE_NOTIFYING_ABORT_NO_PREPARED
  | DTX_STATE_NOTIFYING_ABORT_SOME_PREPARED
  | DTX_STATE_NOTIFYING_ABORT_PREPARED
  | DTX_STATE_RETRY_COMMIT_PREPARED
  | DTX_STATE_RETRY_ABORT_PREPARED

datatype DtxProtocolCommand =
    DTX_PROTOCOL_COMMAND_NONE
  | DTX_PROTOCOL_COMMAND_ABORT_NO_PREPARED
  | DTX_PROTOCOL_COMMAND_PREPARE
  | DTX_PROTOCOL_COMMAND_ABORT_SOME_PREPARED
  | DTX_PROTOCOL_COMMAND_COMMIT_ONEPHASE
  | DTX_PROTOCOL_COMMAND_COMMIT_PREPARED
  | DTX_PROTOCOL_COMMAND_ABORT_PREPARED
  | DTX_PROTOCOL_COMMAND_RETRY_COMMIT_PREPARED
  | DTX_PROTOCOL_COMMAND_RETRY_ABORT_PREPARED
  | DTX_PROTOCOL_COMMAND_RECOVERY_COMMIT_PREPARED
  | DTX_PROTOCOL_COMMAND_RECOVERY_ABORT_PREPARED
  | DTX_PROTOCOL_COMMAND_SUBTRANSACTION_BEGIN_INTERNAL
  | DTX_PROTOCOL_COMMAND_SUBTRANSACTION_ROLLBACK_INTERNAL
  | DTX_PROTOCOL_COMMAND_SUBTRANSACTION_RELEASE_INTERNAL

fun DtxStateToString :: "DtxState \<Rightarrow> string" where
  "DtxStateToString DTX_STATE_NONE = ''None''"
| "DtxStateToString DTX_STATE_ACTIVE_DISTRIBUTED = ''Active Distributed''"
| "DtxStateToString DTX_STATE_ONE_PHASE_COMMIT = ''One Phase Commit (Before Notifying)''"
| "DtxStateToString DTX_STATE_NOTIFYING_ONE_PHASE_COMMIT = ''Notifying One Phase''"
| "DtxStateToString DTX_STATE_PREPARING = ''Preparing''"
| "DtxStateToString DTX_STATE_PREPARED = ''Prepared''"
| "DtxStateToString DTX_STATE_INSERTING_COMMITTED = ''Inserting Committed''"
| "DtxStateToString DTX_STATE_INSERTED_COMMITTED = ''Inserted Committed''"
| "DtxStateToString DTX_STATE_NOTIFYING_COMMIT_PREPARED = ''Notifying Commit Prepared''"
| "DtxStateToString DTX_STATE_INSERTING_FORGET_COMMITTED = ''Inserting Forget Committed''"
| "DtxStateToString DTX_STATE_INSERTED_FORGET_COMMITTED = ''Inserted Forget Committed''"
| "DtxStateToString DTX_STATE_NOTIFYING_ABORT_NO_PREPARED = ''Notifying Abort (No Prepared)''"
| "DtxStateToString DTX_STATE_NOTIFYING_ABORT_SOME_PREPARED = ''Notifying Abort (Some Prepared)''"
| "DtxStateToString DTX_STATE_NOTIFYING_ABORT_PREPARED = ''Notifying Abort Prepared''"
| "DtxStateToString DTX_STATE_RETRY_COMMIT_PREPARED = ''Retry Commit Prepared''"
| "DtxStateToString DTX_STATE_RETRY_ABORT_PREPARED = ''Retry Abort Prepared''"

fun DtxProtocolCommandToString :: "DtxProtocolCommand \<Rightarrow> string" where
  "DtxProtocolCommandToString DTX_PROTOCOL_COMMAND_NONE = ''None''"
| "DtxProtocolCommandToString DTX_PROTOCOL_COMMAND_ABORT_NO_PREPARED = ''Distributed Abort (No Prepared)''"
| "DtxProtocolCommandToString DTX_PROTOCOL_COMMAND_PREPARE = ''Distributed Prepare''"
| "DtxProtocolCommandToString DTX_PROTOCOL_COMMAND_ABORT_SOME_PREPARED = ''Distributed Abort (Some Prepared)''"
| "DtxProtocolCommandToString DTX_PROTOCOL_COMMAND_COMMIT_ONEPHASE = ''Distributed Commit (one-phase)''"
| "DtxProtocolCommandToString DTX_PROTOCOL_COMMAND_COMMIT_PREPARED = ''Distributed Commit Prepared''"
| "DtxProtocolCommandToString DTX_PROTOCOL_COMMAND_ABORT_PREPARED = ''Distributed Abort Prepared''"
| "DtxProtocolCommandToString DTX_PROTOCOL_COMMAND_RETRY_COMMIT_PREPARED = ''Retry Distributed Commit Prepared''"
| "DtxProtocolCommandToString DTX_PROTOCOL_COMMAND_RETRY_ABORT_PREPARED = ''Retry Distributed Abort Prepared''"
| "DtxProtocolCommandToString DTX_PROTOCOL_COMMAND_RECOVERY_COMMIT_PREPARED = ''Recovery Commit Prepared''"
| "DtxProtocolCommandToString DTX_PROTOCOL_COMMAND_RECOVERY_ABORT_PREPARED = ''Recovery Abort Prepared''"
| "DtxProtocolCommandToString DTX_PROTOCOL_COMMAND_SUBTRANSACTION_BEGIN_INTERNAL = '' Begin Internal Subtransaction''"
| "DtxProtocolCommandToString DTX_PROTOCOL_COMMAND_SUBTRANSACTION_RELEASE_INTERNAL = ''Release Current Subtransaction''"
| "DtxProtocolCommandToString DTX_PROTOCOL_COMMAND_SUBTRANSACTION_ROLLBACK_INTERNAL = ''Rollback Current Subtransaction''"

fun DtxContextToString :: "DtxContext \<Rightarrow> string" where
  "DtxContextToString DTX_CONTEXT_LOCAL_ONLY = ''Local Only''"
| "DtxContextToString DTX_CONTEXT_QD_DISTRIBUTED_CAPABLE = ''Coordinator Distributed-Capable''"
| "DtxContextToString DTX_CONTEXT_QD_RETRY_PHASE_2 = ''Coordinator Retry Phase 2''"
| "DtxContextToString DTX_CONTEXT_QE_ENTRY_DB_SINGLETON = ''Segment Entry DB Singleton''"
| "DtxContextToString DTX_CONTEXT_QE_AUTO_COMMIT_IMPLICIT = ''Segment Auto-Commit Implicit''"
| "DtxContextToString DTX_CONTEXT_QE_TWO_PHASE_EXPLICIT_WRITER = ''Segment Two-Phase Explicit Writer''"
| "DtxContextToString DTX_CONTEXT_QE_TWO_PHASE_IMPLICIT_WRITER = ''Segment Two-Phase Implicit Writer''"
| "DtxContextToString DTX_CONTEXT_QE_READER = ''Segment Reader''"
| "DtxContextToString DTX_CONTEXT_QE_PREPARED = ''Segment Prepared''"
| "DtxContextToString DTX_CONTEXT_QE_FINISH_PREPARED = ''Segment Finish Prepared''"

section \<open>Identifiers\<close>

text \<open>
  The identifier of a distributed transaction is its id in decimal: \<^verbatim>\<open>sprintf\<close> and \<^verbatim>\<open>sscanf\<close> with \<^verbatim>\<open>UINT64_FORMAT\<close>.
  \<^verbatim>\<open>sscanf\<close> skips white space, accepts a sign, and gives the largest value when the digits do not fit.
\<close>

definition digit_char :: "nat \<Rightarrow> char" where
  "digit_char d = char_of (48 + d)"

fun decimal :: "nat \<Rightarrow> string" where
  "decimal n = (if n < 10 then [digit_char n] else decimal (n div 10) @ [digit_char (n mod 10)])"

definition dtxFormGid :: "DistributedTransactionId \<Rightarrow> string" where
  "dtxFormGid gx = decimal (unat gx)"

definition is_digit :: "char \<Rightarrow> bool" where
  "is_digit c \<longleftrightarrow> 48 \<le> (of_char c :: nat) \<and> (of_char c :: nat) \<le> 57"

definition is_space :: "char \<Rightarrow> bool" where
  "is_space c \<longleftrightarrow> (of_char c :: nat) = 32 \<or> 9 \<le> (of_char c :: nat) \<and> (of_char c :: nat) \<le> 13"

fun read_digits :: "nat \<Rightarrow> string \<Rightarrow> nat" where
  "read_digits n [] = n"
| "read_digits n (c # cs) = (if is_digit c then read_digits (10 * n + (of_char c - 48)) cs else n)"

definition scan_uint64 :: "string \<Rightarrow> uint64 option" where
  "scan_uint64 s =
     (let s = dropWhile is_space s;
          neg = (s \<noteq> [] \<and> hd s = CHR ''-'');
          s = (if s \<noteq> [] \<and> (hd s = CHR ''-'' \<or> hd s = CHR ''+'') then tl s else s);
          n = read_digits 0 s
      in if s = [] \<or> \<not> is_digit (hd s) then None
         else if n \<ge> 2 ^ 64 then Some (- 1)
         else if neg then Some (- of_nat n) else Some (of_nat n))"

datatype gid_error = Bad_gid string

definition dtxDeformGid :: "bool \<Rightarrow> string \<Rightarrow> gid_error + DistributedTransactionId" where
  "dtxDeformGid role_utility gid =
     (case scan_uint64 gid of
        Some distribXid \<Rightarrow> Inr distribXid
      | None \<Rightarrow> if role_utility then Inr 0 else Inl (Bad_gid gid))"

section \<open>Transaction options\<close>

datatype iso_level = XACT_READ_UNCOMMITTED | XACT_READ_COMMITTED | XACT_REPEATABLE_READ | XACT_SERIALIZABLE

abbreviation GP_OPT_NEED_DTX :: uint32 where "GP_OPT_NEED_DTX \<equiv> 1"
abbreviation GP_OPT_ISOLATION_LEVEL_MASK :: uint32 where "GP_OPT_ISOLATION_LEVEL_MASK \<equiv> 14"
abbreviation GP_OPT_READ_UNCOMMITTED :: uint32 where "GP_OPT_READ_UNCOMMITTED \<equiv> 2"
abbreviation GP_OPT_READ_COMMITTED :: uint32 where "GP_OPT_READ_COMMITTED \<equiv> 4"
abbreviation GP_OPT_REPEATABLE_READ :: uint32 where "GP_OPT_REPEATABLE_READ \<equiv> 6"
abbreviation GP_OPT_SERIALIZABLE :: uint32 where "GP_OPT_SERIALIZABLE \<equiv> 8"
abbreviation GP_OPT_READ_ONLY :: uint32 where "GP_OPT_READ_ONLY \<equiv> 16"
abbreviation GP_OPT_EXPLICT_BEGIN :: uint32 where "GP_OPT_EXPLICT_BEGIN \<equiv> 32"

definition mppTxnOptions :: "iso_level \<Rightarrow> bool \<Rightarrow> bool \<Rightarrow> bool \<Rightarrow> uint32" where
  "mppTxnOptions XactIsoLevel XactReadOnly explicitBegin needDtx =
     (if needDtx then GP_OPT_NEED_DTX else 0) OR
     (case XactIsoLevel of
        XACT_READ_COMMITTED \<Rightarrow> GP_OPT_READ_COMMITTED
      | XACT_REPEATABLE_READ \<Rightarrow> GP_OPT_REPEATABLE_READ
      | XACT_SERIALIZABLE \<Rightarrow> GP_OPT_SERIALIZABLE
      | XACT_READ_UNCOMMITTED \<Rightarrow> GP_OPT_READ_UNCOMMITTED) OR
     (if XactReadOnly then GP_OPT_READ_ONLY else 0) OR
     (if explicitBegin then GP_OPT_EXPLICT_BEGIN else 0)"

definition mppTxOptions_IsoLevel :: "uint32 \<Rightarrow> iso_level option" where
  "mppTxOptions_IsoLevel txnOptions =
     (let level = txnOptions AND GP_OPT_ISOLATION_LEVEL_MASK
      in if level = GP_OPT_SERIALIZABLE then Some XACT_SERIALIZABLE
         else if level = GP_OPT_REPEATABLE_READ then Some XACT_REPEATABLE_READ
         else if level = GP_OPT_READ_COMMITTED then Some XACT_READ_COMMITTED
         else if level = GP_OPT_READ_UNCOMMITTED then Some XACT_READ_UNCOMMITTED
         else None)"

definition isMppTxOptions_ReadOnly :: "uint32 \<Rightarrow> bool" where
  "isMppTxOptions_ReadOnly txnOptions \<longleftrightarrow> txnOptions AND GP_OPT_READ_ONLY \<noteq> 0"

definition isMppTxOptions_NeedDtx :: "uint32 \<Rightarrow> bool" where
  "isMppTxOptions_NeedDtx txnOptions \<longleftrightarrow> txnOptions AND GP_OPT_NEED_DTX \<noteq> 0"

definition isMppTxOptions_ExplicitBegin :: "uint32 \<Rightarrow> bool" where
  "isMppTxOptions_ExplicitBegin txnOptions \<longleftrightarrow> txnOptions AND GP_OPT_EXPLICT_BEGIN \<noteq> 0"

section \<open>Round trips\<close>

lemma mppTxnOptions_read:
  "mppTxOptions_IsoLevel (mppTxnOptions lv ro eb nd) = Some lv"
  "isMppTxOptions_ReadOnly (mppTxnOptions lv ro eb nd) = ro"
  "isMppTxOptions_NeedDtx (mppTxnOptions lv ro eb nd) = nd"
  "isMppTxOptions_ExplicitBegin (mppTxnOptions lv ro eb nd) = eb"
  by (cases lv; cases ro; cases eb; cases nd;
      simp add: mppTxnOptions_def mppTxOptions_IsoLevel_def isMppTxOptions_ReadOnly_def isMppTxOptions_NeedDtx_def isMppTxOptions_ExplicitBegin_def)+

declare decimal.simps [simp del]

lemma of_char_digit: "d < 10 \<Longrightarrow> of_char (digit_char d) = 48 + d"
  by (simp add: digit_char_def)

lemma read_digits_append: "\<forall>c \<in> set cs. is_digit c \<Longrightarrow> read_digits n (cs @ ds) = read_digits (read_digits n cs) ds"
  by (induction cs arbitrary: n) auto

lemma decimal_digits: "decimal n \<noteq> [] \<and> (\<forall>c \<in> set (decimal n). is_digit c)"
  by (induction n rule: decimal.induct) (subst (1 2) decimal.simps, auto simp: is_digit_def of_char_digit)

lemma read_digits_decimal: "read_digits 0 (decimal n) = n"
proof (induction n rule: decimal.induct)
  case (1 n)
  show ?case
  proof (cases "n < 10")
    case True
    then show ?thesis by (simp add: decimal.simps is_digit_def of_char_digit)
  next
    case False
    then show ?thesis using 1 decimal_digits [of "n div 10"]
      by (subst decimal.simps) (simp add: read_digits_append is_digit_def of_char_digit)
  qed
qed

lemma decimal_length: "0 < k \<Longrightarrow> n < 10 ^ k \<Longrightarrow> length (decimal n) \<le> k"
proof (induction k arbitrary: n)
  case (Suc k)
  then show ?case
    by (cases "n < 10"; cases "k = 0"; subst decimal.simps) (auto simp: less_mult_imp_div_less mult.commute)
qed simp

lemma dtxDeformGid_dtxFormGid: "dtxDeformGid role_utility (dtxFormGid gx) = Inr gx"
proof -
  obtain c cs where d: "decimal (unat gx) = c # cs" using decimal_digits [of "unat gx"] by (cases "decimal (unat gx)") auto
  then have c: "is_digit c" using decimal_digits [of "unat gx"] by simp
  then have "\<not> is_space c" "c \<noteq> CHR ''-''" "c \<noteq> CHR ''+''" by (auto simp: is_digit_def is_space_def)
  moreover have "unat gx < 2 ^ 64" using unsigned_less [of gx] by simp
  moreover have "read_digits 0 (c # cs) = unat gx" using read_digits_decimal [of "unat gx"] d by simp
  ultimately show ?thesis using c by (simp add: dtxDeformGid_def dtxFormGid_def scan_uint64_def d del: read_digits.simps)
qed

lemma dtxFormGid_inj: "dtxFormGid g = dtxFormGid h \<Longrightarrow> g = h"
  by (metis dtxDeformGid_dtxFormGid sum.inject(2))

lemma dtxFormGid_eq [simp]: "dtxFormGid g = dtxFormGid h \<longleftrightarrow> g = h"
  by (auto dest: dtxFormGid_inj)

lemma dtxFormGid_length: "length (dtxFormGid g) < TMGIDSIZE"
proof -
  have "unat g < 2 ^ 64" using unsigned_less [of g] by simp
  then have "unat g < 10 ^ 20" by simp
  from decimal_length [OF _ this] show ?thesis by (simp add: dtxFormGid_def TMGIDSIZE_def)
qed

end
