(* ===== verification/Tm_Segment.thy ===== *)
theory Tm_Segment
  imports Tm_Utils
begin

text \<open>
  The segment side of a distributed transaction (\<^verbatim>\<open>cdb/cdbtm.c\<close>, \<^verbatim>\<open>access/transam/twophase.c\<close>): a writer process with its
  context and its local transaction, the prepared transactions of the segment, and the commands of the coordinator. What the local transaction code
  does is an argument: it works, fails before its effect is durable, or fails afterwards.
\<close>

section \<open>State\<close>

text \<open>No local transaction; one at a nesting level; one whose current subtransaction has failed; a block that has been aborted.\<close>

datatype xact_block = No_xact | In_xact nat | Failed_sub nat | Failed_xact

record qe =
  qe_context :: DtxContext
  qe_xact :: xact_block
  qe_waitGxids :: "uint32 list"

definition fresh_qe :: qe where
  "fresh_qe = \<lparr>qe_context = DTX_CONTEXT_LOCAL_ONLY, qe_xact = No_xact, qe_waitGxids = []\<rparr>"

text \<open>How the part of a distributed transaction on a segment has ended.\<close>

datatype outcome = Committed_onephase | Committed_prepared | Aborted_prepared | Aborted

record segment =
  prepXacts :: "string list"
  finished :: "(string \<times> outcome) list"

datatype local_run = Works | Fails_before | Fails_after

datatype qe_result = QE_ok | QE_error | QE_fatal | QE_panic

type_synonym qe_step = "(qe_result \<times> uint32 list) \<times> qe \<times> segment"

section \<open>Local transactions\<close>

definition GetCurrentTransactionNestLevel :: "qe \<Rightarrow> nat" where
  "GetCurrentTransactionNestLevel q = (case qe_xact q of No_xact \<Rightarrow> 0 | In_xact n \<Rightarrow> n | Failed_sub n \<Rightarrow> n | Failed_xact \<Rightarrow> 1)"

text \<open>Ending the local transaction resets the context: \<^verbatim>\<open>CleanupTransaction\<close> calls \<^verbatim>\<open>finishDistributedTransactionContext\<close>.\<close>

definition finishDistributedTransactionContext :: "qe \<Rightarrow> qe" where
  "finishDistributedTransactionContext q = q\<lparr>qe_context := DTX_CONTEXT_LOCAL_ONLY\<rparr>"

definition is_open :: "qe \<Rightarrow> bool" where
  "is_open q = (case qe_xact q of In_xact n \<Rightarrow> True | Failed_sub n \<Rightarrow> True | _ \<Rightarrow> False)"

definition abort_open :: "string \<Rightarrow> qe \<Rightarrow> segment \<Rightarrow> segment" where
  "abort_open gid q sg = (if is_open q then sg\<lparr>finished := finished sg @ [(gid, Aborted)]\<rparr> else sg)"

definition AbortOutOfAnyTransaction :: "string \<Rightarrow> qe \<Rightarrow> segment \<Rightarrow> qe_step" where
  "AbortOutOfAnyTransaction gid q sg =
     (case qe_xact q of No_xact \<Rightarrow> ((QE_ok, []), q, sg) | _ \<Rightarrow> ((QE_ok, []), fresh_qe, abort_open gid q sg))"

text \<open>Both two-phase contexts of a writer make the transaction a block: for an implicit one, \<^verbatim>\<open>StartTransactionCommand\<close> pretends a begin.\<close>

definition StartTransactionCommand :: "qe \<Rightarrow> qe" where
  "StartTransactionCommand q = (if qe_xact q = No_xact then q\<lparr>qe_xact := In_xact 1\<rparr> else q)"

text \<open>
  What the main loop does after an error: an aborted block waits for its end, inside a subtransaction only that one is aborted, and a
  transaction that is not a block is ended.
\<close>

definition AbortCurrentTransaction :: "string \<Rightarrow> qe \<Rightarrow> segment \<Rightarrow> qe \<times> segment" where
  "AbortCurrentTransaction gid q sg =
     (case qe_xact q of
        In_xact n \<Rightarrow>
          if 1 < n then (q\<lparr>qe_xact := Failed_sub n\<rparr>, sg)
          else if qe_context q \<in> {DTX_CONTEXT_QE_TWO_PHASE_EXPLICIT_WRITER, DTX_CONTEXT_QE_TWO_PHASE_IMPLICIT_WRITER}
               then (q\<lparr>qe_xact := Failed_xact\<rparr>, abort_open gid q sg)
          else (fresh_qe, abort_open gid q sg)
      | _ \<Rightarrow> (q, sg))"

text \<open>After a fatal error or a panic the process is gone and the next command gets a new one.\<close>

definition qe_raise :: "qe_result \<Rightarrow> string \<Rightarrow> qe \<Rightarrow> segment \<Rightarrow> qe_step" where
  "qe_raise r gid q sg =
     (if r = QE_error then ((QE_error, []), AbortCurrentTransaction gid q sg) else ((r, []), fresh_qe, abort_open gid q sg))"

text \<open>An error in a block that is being committed or prepared, or that was already aborted when that was asked for, ends it.\<close>

definition fail_end :: "string \<Rightarrow> qe \<Rightarrow> segment \<Rightarrow> qe_step" where
  "fail_end gid q sg = ((QE_error, []), fresh_qe, abort_open gid q sg)"

section \<open>Prepared transactions\<close>

text \<open>The position of a prepared transaction in \<^verbatim>\<open>prepXacts\<close>, and its removal, which moves the last one into the gap.\<close>

fun find_gxact :: "string \<Rightarrow> string list \<Rightarrow> nat option" where
  "find_gxact gid [] = None"
| "find_gxact gid (x # xs) = (if x = gid then Some 0 else map_option Suc (find_gxact gid xs))"

definition RemoveGXact :: "nat \<Rightarrow> string list \<Rightarrow> string list" where
  "RemoveGXact i xs = butlast (xs[i := last xs])"

text \<open>Entries that are busy or belong to another user, a full array and identifiers that are too long are failures of the local code, before the effect.\<close>

definition LockGXact :: "string \<Rightarrow> bool \<Rightarrow> segment \<Rightarrow> unit + nat option" where
  "LockGXact gid raiseErrorIfNotFound sg =
     (case find_gxact gid (prepXacts sg) of
        Some i \<Rightarrow> Inr (Some i)
      | None \<Rightarrow> if raiseErrorIfNotFound then Inl () else Inr None)"

definition MarkAsPreparing :: "string \<Rightarrow> segment \<Rightarrow> unit + segment" where
  "MarkAsPreparing gid sg =
     (if gid \<in> set (prepXacts sg) then Inl () else Inr (sg\<lparr>prepXacts := prepXacts sg @ [gid]\<rparr>))"

text \<open>Whether it raised an error, and the segment.\<close>

definition FinishPreparedTransaction :: "local_run \<Rightarrow> string \<Rightarrow> bool \<Rightarrow> bool \<Rightarrow> segment \<Rightarrow> bool \<times> segment" where
  "FinishPreparedTransaction lr gid isCommit raiseErrorIfNotFound sg =
     (case LockGXact gid raiseErrorIfNotFound sg of
        Inl _ \<Rightarrow> (True, sg)
      | Inr None \<Rightarrow> (lr \<noteq> Works, sg)
      | Inr (Some i) \<Rightarrow>
          if lr = Fails_before then (True, sg)
          else (lr = Fails_after,
            sg\<lparr>prepXacts := RemoveGXact i (prepXacts sg),
               finished := finished sg @ [(gid, if isCommit then Committed_prepared else Aborted_prepared)]\<rparr>))"

section \<open>Commands\<close>

definition performDtxProtocolPrepare :: "local_run \<Rightarrow> string \<Rightarrow> qe \<Rightarrow> segment \<Rightarrow> qe_step" where
  "performDtxProtocolPrepare lr gid q sg =
     (case qe_xact (StartTransactionCommand q) of
        In_xact n \<Rightarrow>
          if lr = Fails_before then fail_end gid (StartTransactionCommand q) sg
          else (case MarkAsPreparing gid sg of
                  Inl _ \<Rightarrow> fail_end gid (StartTransactionCommand q) sg
                | Inr sg' \<Rightarrow>
                    if lr = Fails_after then ((QE_error, []), fresh_qe, sg')
                    else ((QE_ok, []), q\<lparr>qe_xact := No_xact, qe_context := DTX_CONTEXT_QE_PREPARED\<rparr>, sg'))
      | _ \<Rightarrow> fail_end gid (StartTransactionCommand q) sg)"

definition performDtxProtocolCommitOnePhase :: "local_run \<Rightarrow> string \<Rightarrow> qe \<Rightarrow> segment \<Rightarrow> qe_step" where
  "performDtxProtocolCommitOnePhase lr gid q sg =
     (case dtxDeformGid False gid of
        Inl _ \<Rightarrow> qe_raise QE_error gid q sg
      | Inr _ \<Rightarrow>
          case qe_xact (StartTransactionCommand q) of
            In_xact n \<Rightarrow>
              if lr = Fails_before then fail_end gid (StartTransactionCommand q) sg
              else let sg' = sg\<lparr>finished := finished sg @ [(gid, Committed_onephase)]\<rparr>
                   in if lr = Fails_after then ((QE_error, []), fresh_qe, sg')
                      else ((QE_ok, qe_waitGxids q), fresh_qe, sg')
          | _ \<Rightarrow> fail_end gid (StartTransactionCommand q) sg)"

definition finish_prepared :: "bool \<Rightarrow> local_run \<Rightarrow> string \<Rightarrow> bool \<Rightarrow> qe \<Rightarrow> segment \<Rightarrow> qe_step" where
  "finish_prepared isCommit lr gid raiseErrorIfNotFound q sg =
     (case FinishPreparedTransaction lr gid isCommit raiseErrorIfNotFound sg of
        (True, sg') \<Rightarrow> ((QE_error, []), fresh_qe, abort_open gid q sg')
      | (False, sg') \<Rightarrow> ((QE_ok, if isCommit then qe_waitGxids q else []),
          finishDistributedTransactionContext (q\<lparr>qe_waitGxids := []\<rparr>), sg'))"

definition performDtxProtocolCommitPrepared :: "local_run \<Rightarrow> string \<Rightarrow> bool \<Rightarrow> qe \<Rightarrow> segment \<Rightarrow> qe_step" where
  "performDtxProtocolCommitPrepared = finish_prepared True"

definition performDtxProtocolAbortPrepared :: "local_run \<Rightarrow> string \<Rightarrow> bool \<Rightarrow> qe \<Rightarrow> segment \<Rightarrow> qe_step" where
  "performDtxProtocolAbortPrepared = finish_prepared False"

text \<open>\<^verbatim>\<open>requireDistributedTransactionContext\<close> ends the process when the context is another one.\<close>

definition requireDistributedTransactionContext :: "DtxContext \<Rightarrow> string \<Rightarrow> (qe \<Rightarrow> segment \<Rightarrow> qe_step) \<Rightarrow> qe \<Rightarrow> segment \<Rightarrow> qe_step" where
  "requireDistributedTransactionContext requiredCurrentContext gid k q sg =
     (if qe_context q \<noteq> requiredCurrentContext then qe_raise QE_fatal gid q sg else k q sg)"

definition setDistributedTransactionContext :: "DtxContext \<Rightarrow> qe \<Rightarrow> qe" where
  "setDistributedTransactionContext context q = q\<lparr>qe_context := context\<rparr>"

text \<open>
  \<^verbatim>\<open>setupQEDtxContext\<close>: the context of a process that receives a statement. Roles and the shared snapshot slot are arguments;
  an explicit begin opens the transaction block.
\<close>

record qe_env =
  role_execute :: bool
  is_query_dispatcher :: bool
  Gp_is_writer :: bool
  have_slot :: bool

definition setupQEDtxContext :: "qe_env \<Rightarrow> uint32 \<Rightarrow> bool \<Rightarrow> qe \<Rightarrow> qe_result + qe" where
  "setupQEDtxContext env txnOptions haveDS q =
     (let needDtx = isMppTxOptions_NeedDtx txnOptions;
          explicitBegin = isMppTxOptions_ExplicitBegin txnOptions;
          isEntryDbSingleton = (is_query_dispatcher env \<and> \<not> Gp_is_writer env);
          isWriterQE = (\<not> isEntryDbSingleton \<and> have_slot env \<and> Gp_is_writer env);
          isReaderQE = (\<not> isEntryDbSingleton \<and> have_slot env \<and> \<not> Gp_is_writer env)
      in if \<not> role_execute env then Inr q
         else if \<not> isEntryDbSingleton \<and> \<not> have_slot env \<and> (explicitBegin \<or> haveDS) then Inl QE_error
         else case qe_context q of
           DTX_CONTEXT_LOCAL_ONLY \<Rightarrow>
             if isEntryDbSingleton \<and> haveDS then Inr (setDistributedTransactionContext DTX_CONTEXT_QE_ENTRY_DB_SINGLETON q)
             else if isReaderQE \<and> haveDS then Inr (setDistributedTransactionContext DTX_CONTEXT_QE_READER q)
             else if isWriterQE \<and> (explicitBegin \<or> needDtx) then
               if qe_xact q \<noteq> No_xact then Inl QE_error
               else if explicitBegin
                    then Inr ((setDistributedTransactionContext DTX_CONTEXT_QE_TWO_PHASE_EXPLICIT_WRITER q)\<lparr>qe_xact := In_xact 1\<rparr>)
                    else Inr (setDistributedTransactionContext DTX_CONTEXT_QE_TWO_PHASE_IMPLICIT_WRITER q)
             else if haveDS then
               if qe_xact q \<noteq> No_xact then Inl QE_error
               else Inr (setDistributedTransactionContext DTX_CONTEXT_QE_AUTO_COMMIT_IMPLICIT q)
             else Inr q
         | DTX_CONTEXT_QE_TWO_PHASE_IMPLICIT_WRITER \<Rightarrow> if explicitBegin then Inl QE_error else Inr q
         | DTX_CONTEXT_QE_AUTO_COMMIT_IMPLICIT \<Rightarrow> Inl QE_error
         | DTX_CONTEXT_QE_TWO_PHASE_EXPLICIT_WRITER \<Rightarrow> Inr q
         | DTX_CONTEXT_QE_ENTRY_DB_SINGLETON \<Rightarrow> Inr q
         | DTX_CONTEXT_QE_READER \<Rightarrow> Inr q
         | DTX_CONTEXT_QE_PREPARED \<Rightarrow> Inl QE_error
         | DTX_CONTEXT_QE_FINISH_PREPARED \<Rightarrow> Inl QE_error
         | _ \<Rightarrow> Inl QE_panic)"

text \<open>The commands for internal subtransactions; \<open>lvl\<close> is the nesting level of the coordinator.\<close>

definition subtransaction_begin :: "qe_env \<Rightarrow> uint32 \<Rightarrow> bool \<Rightarrow> string \<Rightarrow> qe \<Rightarrow> segment \<Rightarrow> qe_step" where
  "subtransaction_begin env txnOptions haveDS gid q sg =
     (case (if qe_context q = DTX_CONTEXT_LOCAL_ONLY
            then map_sum id StartTransactionCommand (setupQEDtxContext env txnOptions haveDS q) else Inr q) of
        Inl r \<Rightarrow> qe_raise r gid q sg
      | Inr q \<Rightarrow> (case qe_xact q of
            In_xact n \<Rightarrow> ((QE_ok, []), q\<lparr>qe_xact := In_xact (Suc n)\<rparr>, sg)
          | _ \<Rightarrow> qe_raise QE_fatal gid q sg))"

definition subtransaction_release :: "string \<Rightarrow> qe \<Rightarrow> segment \<Rightarrow> qe_step" where
  "subtransaction_release gid q sg =
     (case qe_xact q of
        In_xact n \<Rightarrow> if 1 < n then ((QE_ok, []), q\<lparr>qe_xact := In_xact (n - 1)\<rparr>, sg) else qe_raise QE_error gid q sg
      | _ \<Rightarrow> qe_raise QE_error gid q sg)"

definition RollbackAndReleaseCurrentSubTransaction :: "qe \<Rightarrow> qe option" where
  "RollbackAndReleaseCurrentSubTransaction q =
     (case qe_xact q of
        In_xact n \<Rightarrow> if 1 < n then Some (q\<lparr>qe_xact := In_xact (n - 1)\<rparr>) else None
      | Failed_sub n \<Rightarrow> if 1 < n then Some (q\<lparr>qe_xact := In_xact (n - 1)\<rparr>) else None
      | _ \<Rightarrow> None)"

primrec rollback_subtransactions :: "nat \<Rightarrow> string \<Rightarrow> qe \<Rightarrow> segment \<Rightarrow> qe_step" where
  "rollback_subtransactions 0 gid q sg = ((QE_ok, []), q, sg)"
| "rollback_subtransactions (Suc i) gid q sg =
     (case RollbackAndReleaseCurrentSubTransaction q of
        Some q' \<Rightarrow> rollback_subtransactions i gid q' sg
      | None \<Rightarrow> qe_raise QE_fatal gid q sg)"

definition subtransaction_rollback :: "nat \<Rightarrow> string \<Rightarrow> qe \<Rightarrow> segment \<Rightarrow> qe_step" where
  "subtransaction_rollback lvl gid q sg =
     (if lvl + 1 > GetCurrentTransactionNestLevel q then qe_raise QE_error gid q sg
      else rollback_subtransactions (GetCurrentTransactionNestLevel q - lvl) gid q sg)"

text \<open>What comes with a command: the roles, the options and the nesting level of the context, and what the local code does.\<close>

record command_env = qe_env +
  ce_options :: uint32
  ce_snapshot :: bool
  nestingLevel :: nat
  ce_local :: local_run

definition performDtxProtocolCommand :: "command_env \<Rightarrow> DtxProtocolCommand \<Rightarrow> string \<Rightarrow> qe \<Rightarrow> segment \<Rightarrow> qe_step" where
  "performDtxProtocolCommand env dtxProtocolCommand gid q sg =
     (case dtxProtocolCommand of
        DTX_PROTOCOL_COMMAND_ABORT_NO_PREPARED \<Rightarrow> AbortOutOfAnyTransaction gid q sg
      | DTX_PROTOCOL_COMMAND_PREPARE \<Rightarrow>
          (case qe_context q of
             DTX_CONTEXT_LOCAL_ONLY \<Rightarrow> qe_raise QE_error gid q sg
           | DTX_CONTEXT_QE_TWO_PHASE_EXPLICIT_WRITER \<Rightarrow> performDtxProtocolPrepare (ce_local env) gid q sg
           | DTX_CONTEXT_QE_TWO_PHASE_IMPLICIT_WRITER \<Rightarrow> performDtxProtocolPrepare (ce_local env) gid q sg
           | DTX_CONTEXT_QE_AUTO_COMMIT_IMPLICIT \<Rightarrow> qe_raise QE_panic gid q sg
           | _ \<Rightarrow> qe_raise QE_fatal gid q sg)
      | DTX_PROTOCOL_COMMAND_COMMIT_ONEPHASE \<Rightarrow>
          (case qe_context q of
             DTX_CONTEXT_LOCAL_ONLY \<Rightarrow> qe_raise QE_error gid q sg
           | DTX_CONTEXT_QE_TWO_PHASE_EXPLICIT_WRITER \<Rightarrow> performDtxProtocolCommitOnePhase (ce_local env) gid q sg
           | DTX_CONTEXT_QE_TWO_PHASE_IMPLICIT_WRITER \<Rightarrow> performDtxProtocolCommitOnePhase (ce_local env) gid q sg
           | DTX_CONTEXT_QE_AUTO_COMMIT_IMPLICIT \<Rightarrow> qe_raise QE_panic gid q sg
           | _ \<Rightarrow> qe_raise QE_fatal gid q sg)
      | DTX_PROTOCOL_COMMAND_ABORT_SOME_PREPARED \<Rightarrow>
          (case qe_context q of
             DTX_CONTEXT_LOCAL_ONLY \<Rightarrow> AbortOutOfAnyTransaction gid q sg
           | DTX_CONTEXT_QE_TWO_PHASE_EXPLICIT_WRITER \<Rightarrow> AbortOutOfAnyTransaction gid q sg
           | DTX_CONTEXT_QE_TWO_PHASE_IMPLICIT_WRITER \<Rightarrow> AbortOutOfAnyTransaction gid q sg
           | DTX_CONTEXT_QE_PREPARED \<Rightarrow>
               performDtxProtocolAbortPrepared (ce_local env) gid True (setDistributedTransactionContext DTX_CONTEXT_QE_FINISH_PREPARED q) sg
           | _ \<Rightarrow> qe_raise QE_panic gid q sg)
      | DTX_PROTOCOL_COMMAND_COMMIT_PREPARED \<Rightarrow>
          requireDistributedTransactionContext DTX_CONTEXT_QE_PREPARED gid (\<lambda>q sg.
            performDtxProtocolCommitPrepared (ce_local env) gid True (setDistributedTransactionContext DTX_CONTEXT_QE_FINISH_PREPARED q) sg) q sg
      | DTX_PROTOCOL_COMMAND_ABORT_PREPARED \<Rightarrow>
          requireDistributedTransactionContext DTX_CONTEXT_QE_PREPARED gid (\<lambda>q sg.
            performDtxProtocolAbortPrepared (ce_local env) gid True (setDistributedTransactionContext DTX_CONTEXT_QE_FINISH_PREPARED q) sg) q sg
      | DTX_PROTOCOL_COMMAND_RETRY_COMMIT_PREPARED \<Rightarrow>
          requireDistributedTransactionContext DTX_CONTEXT_LOCAL_ONLY gid (performDtxProtocolCommitPrepared (ce_local env) gid False) q sg
      | DTX_PROTOCOL_COMMAND_RETRY_ABORT_PREPARED \<Rightarrow>
          requireDistributedTransactionContext DTX_CONTEXT_LOCAL_ONLY gid (performDtxProtocolAbortPrepared (ce_local env) gid False) q sg
      | DTX_PROTOCOL_COMMAND_RECOVERY_COMMIT_PREPARED \<Rightarrow>
          requireDistributedTransactionContext DTX_CONTEXT_LOCAL_ONLY gid (performDtxProtocolCommitPrepared (ce_local env) gid False) q sg
      | DTX_PROTOCOL_COMMAND_RECOVERY_ABORT_PREPARED \<Rightarrow>
          requireDistributedTransactionContext DTX_CONTEXT_LOCAL_ONLY gid (performDtxProtocolAbortPrepared (ce_local env) gid False) q sg
      | DTX_PROTOCOL_COMMAND_SUBTRANSACTION_BEGIN_INTERNAL \<Rightarrow>
          subtransaction_begin (qe_env.truncate env) (ce_options env) (ce_snapshot env) gid q sg
      | DTX_PROTOCOL_COMMAND_SUBTRANSACTION_RELEASE_INTERNAL \<Rightarrow> subtransaction_release gid q sg
      | DTX_PROTOCOL_COMMAND_SUBTRANSACTION_ROLLBACK_INTERNAL \<Rightarrow> subtransaction_rollback (nestingLevel env) gid q sg
      | DTX_PROTOCOL_COMMAND_NONE \<Rightarrow> qe_raise QE_error gid q sg)"

section \<open>Statements\<close>

text \<open>
  A statement of the coordinator: the context is set up and the local transaction started before it runs. A two-phase writer keeps
  the transaction open afterwards; in an aborted block every statement fails.
\<close>

definition run_statement :: "command_env \<Rightarrow> string \<Rightarrow> qe \<Rightarrow> segment \<Rightarrow> qe_step" where
  "run_statement env gid q sg =
     (case setupQEDtxContext (qe_env.truncate env) (ce_options env) (ce_snapshot env) q of
        Inl r \<Rightarrow> qe_raise r gid q sg
      | Inr q \<Rightarrow>
          let q = StartTransactionCommand q
          in case qe_xact q of
               In_xact n \<Rightarrow>
                 if ce_local env = Works then ((QE_ok, []), q, sg) else qe_raise QE_error gid q sg
             | _ \<Rightarrow> ((QE_error, []), q, sg))"

section \<open>What a command does to a part\<close>

text \<open>Everything a segment holds of a transaction: at most one local transaction, one prepared transaction or one outcome.\<close>

definition open_weight :: "qe \<Rightarrow> nat" where
  "open_weight q = (if is_open q then 1 else 0)"

definition stored :: "string \<Rightarrow> segment \<Rightarrow> nat" where
  "stored gid sg = count_list (prepXacts sg) gid + count_list (map fst (finished sg)) gid"

definition others_same :: "string \<Rightarrow> segment \<Rightarrow> segment \<Rightarrow> bool" where
  "others_same gid sg sg' \<longleftrightarrow> (\<forall>h. h \<noteq> gid \<longrightarrow> count_list (prepXacts sg') h = count_list (prepXacts sg) h \<and>
     (\<forall>r. (h, r) \<in> set (finished sg') \<longleftrightarrow> (h, r) \<in> set (finished sg)) \<and> count_list (map fst (finished sg')) h = count_list (map fst (finished sg)) h)"

definition commit_cmd :: "DtxProtocolCommand \<Rightarrow> bool" where
  "commit_cmd cmd \<longleftrightarrow> cmd \<in> {DTX_PROTOCOL_COMMAND_COMMIT_PREPARED, DTX_PROTOCOL_COMMAND_RETRY_COMMIT_PREPARED, DTX_PROTOCOL_COMMAND_RECOVERY_COMMIT_PREPARED}"

definition abort_cmd :: "DtxProtocolCommand \<Rightarrow> bool" where
  "abort_cmd cmd \<longleftrightarrow> cmd \<in> {DTX_PROTOCOL_COMMAND_ABORT_SOME_PREPARED, DTX_PROTOCOL_COMMAND_ABORT_PREPARED,
     DTX_PROTOCOL_COMMAND_RETRY_ABORT_PREPARED, DTX_PROTOCOL_COMMAND_RECOVERY_ABORT_PREPARED}"

datatype effect = Keep | Abort_open | Prepare | Commit_onephase | Commit_prepared | Abort_prepared | Open_local | Open_aborted

fun effect_allowed :: "DtxProtocolCommand \<Rightarrow> effect \<Rightarrow> bool" where
  "effect_allowed cmd Prepare \<longleftrightarrow> cmd = DTX_PROTOCOL_COMMAND_PREPARE"
| "effect_allowed cmd Commit_onephase \<longleftrightarrow> cmd = DTX_PROTOCOL_COMMAND_COMMIT_ONEPHASE"
| "effect_allowed cmd Commit_prepared \<longleftrightarrow> commit_cmd cmd"
| "effect_allowed cmd Abort_prepared \<longleftrightarrow> abort_cmd cmd"
| "effect_allowed cmd Open_local \<longleftrightarrow> cmd = DTX_PROTOCOL_COMMAND_SUBTRANSACTION_BEGIN_INTERNAL"
| "effect_allowed cmd Open_aborted \<longleftrightarrow> False"
| "effect_allowed cmd Keep \<longleftrightarrow> True"
| "effect_allowed cmd Abort_open \<longleftrightarrow> True"

definition adds :: "string \<Rightarrow> outcome \<Rightarrow> segment \<Rightarrow> segment \<Rightarrow> bool" where
  "adds gid r sg sg' \<longleftrightarrow> finished sg' = finished sg @ [(gid, r)]"

fun has_effect :: "string \<Rightarrow> effect \<Rightarrow> qe \<Rightarrow> segment \<Rightarrow> qe \<Rightarrow> segment \<Rightarrow> bool" where
  "has_effect gid Keep q sg q' sg' \<longleftrightarrow> sg' = sg \<and> is_open q' = is_open q"
| "has_effect gid Abort_open q sg q' sg' \<longleftrightarrow> is_open q \<and> \<not> is_open q' \<and> prepXacts sg' = prepXacts sg \<and> adds gid Aborted sg sg'"
| "has_effect gid Prepare q sg q' sg' \<longleftrightarrow> is_open q \<and> \<not> is_open q' \<and> gid \<notin> set (prepXacts sg) \<and> prepXacts sg' = prepXacts sg @ [gid] \<and> finished sg' = finished sg"
| "has_effect gid Commit_onephase q sg q' sg' \<longleftrightarrow> is_open q \<and> \<not> is_open q' \<and> prepXacts sg' = prepXacts sg \<and> adds gid Committed_onephase sg sg'"
| "has_effect gid Commit_prepared q sg q' sg' \<longleftrightarrow> is_open q' = is_open q \<and> mset (prepXacts sg) = add_mset gid (mset (prepXacts sg')) \<and> adds gid Committed_prepared sg sg'"
| "has_effect gid Abort_prepared q sg q' sg' \<longleftrightarrow> is_open q' = is_open q \<and> mset (prepXacts sg) = add_mset gid (mset (prepXacts sg')) \<and> adds gid Aborted_prepared sg sg'"
| "has_effect gid Open_local q sg q' sg' \<longleftrightarrow> qe_context q = DTX_CONTEXT_LOCAL_ONLY \<and> \<not> is_open q \<and> is_open q' \<and> sg' = sg"
| "has_effect gid Open_aborted q sg q' sg' \<longleftrightarrow> qe_context q = DTX_CONTEXT_LOCAL_ONLY \<and> \<not> is_open q \<and> \<not> is_open q' \<and> prepXacts sg' = prepXacts sg \<and> adds gid Aborted sg sg'"

text \<open>A writer process between commands: it has a local transaction exactly in the two contexts of a two-phase writer.\<close>

definition qe_wf :: "qe \<Rightarrow> bool" where
  "qe_wf q \<longleftrightarrow>
     (if qe_xact q = No_xact then qe_context q \<in> {DTX_CONTEXT_LOCAL_ONLY, DTX_CONTEXT_QE_PREPARED}
      else qe_context q \<in> {DTX_CONTEXT_QE_TWO_PHASE_EXPLICIT_WRITER, DTX_CONTEXT_QE_TWO_PHASE_IMPLICIT_WRITER})"

definition writer_env :: "command_env \<Rightarrow> bool" where
  "writer_env env \<longleftrightarrow> role_execute env \<and> \<not> is_query_dispatcher env \<and> Gp_is_writer env \<and> have_slot env \<and> isMppTxOptions_NeedDtx (ce_options env)"

definition runs :: "DtxProtocolCommand \<Rightarrow> string \<Rightarrow> qe \<Rightarrow> segment \<Rightarrow> qe_step \<Rightarrow> bool" where
  "runs cmd gid q sg st = (case st of (a, q', sg') \<Rightarrow> \<exists>e. effect_allowed cmd e \<and> has_effect gid e q sg q' sg' \<and> qe_wf q')"

lemma fresh_qe_simps [simp]: "\<not> is_open fresh_qe" "qe_wf fresh_qe" "qe_context fresh_qe = DTX_CONTEXT_LOCAL_ONLY" "qe_xact fresh_qe = No_xact"
  by (simp_all add: fresh_qe_def is_open_def qe_wf_def)

lemma is_open_update [simp]: "is_open (q\<lparr>qe_context := c\<rparr>) = is_open q" "is_open (q\<lparr>qe_waitGxids := w\<rparr>) = is_open q"
  "is_open (q\<lparr>qe_xact := No_xact\<rparr>) = False" "is_open (q\<lparr>qe_xact := In_xact n\<rparr>) = True"
  by (simp_all add: is_open_def)

lemma is_open_In [simp]: "qe_xact q = In_xact n \<Longrightarrow> is_open q" "qe_xact q = No_xact \<Longrightarrow> \<not> is_open q"
  by (simp_all add: is_open_def)

lemma qe_wf_idle: "qe_wf q \<Longrightarrow> qe_context q \<in> {DTX_CONTEXT_LOCAL_ONLY, DTX_CONTEXT_QE_PREPARED} \<Longrightarrow> qe_xact q = No_xact"
  by (auto simp: qe_wf_def split: if_splits)

lemma runsI: "effect_allowed cmd e \<Longrightarrow> has_effect gid e q sg q' sg' \<Longrightarrow> qe_wf q' \<Longrightarrow> runs cmd gid q sg (a, q', sg')"
  by (auto simp: runs_def)

lemma runsE:
  assumes "runs cmd gid q sg st"
  obtains a q' sg' e where "st = (a, q', sg')" "effect_allowed cmd e" "has_effect gid e q sg q' sg'" "qe_wf q'"
  using assms by (cases st) (auto simp: runs_def)

lemma runs_keep: "qe_wf q \<Longrightarrow> runs cmd gid q sg (a, q, sg)"
  by (auto simp: runs_def intro!: exI [where x = Keep])

lemma runs_abort: "runs cmd gid q sg (a, fresh_qe, abort_open gid q sg)"
  by (auto simp: runs_def abort_open_def adds_def intro!: exI [where x = "if is_open q then Abort_open else Keep"])

lemma AbortCurrentTransaction_facts:
  assumes "AbortCurrentTransaction gid q sg = (q', sg')" "qe_wf q"
  shows "qe_wf q'" "is_open q \<and> \<not> is_open q' \<and> prepXacts sg' = prepXacts sg \<and> adds gid Aborted sg sg' \<or> is_open q' = is_open q \<and> sg' = sg"
  using assms
  by (auto simp: AbortCurrentTransaction_def abort_open_def adds_def qe_wf_def is_open_def split: xact_block.splits if_splits)

lemma runs_raise:
  assumes "qe_wf q"
  shows "runs cmd gid q sg (qe_raise r gid q sg)"
proof (cases "r = QE_error")
  case True
  obtain q' sg' where a: "AbortCurrentTransaction gid q sg = (q', sg')" by fastforce
  from AbortCurrentTransaction_facts [OF this assms] consider
      "has_effect gid Abort_open q sg q' sg'" | "has_effect gid Keep q sg q' sg'" by auto
  then show ?thesis using AbortCurrentTransaction_facts(1) [OF a assms] True a
    by cases (auto simp: qe_raise_def intro: runsI [where e = Abort_open] runsI [where e = Keep])
qed (simp add: qe_raise_def runs_abort)

lemma runs_fail_end: "runs cmd gid q sg (fail_end gid q sg)"
  unfolding fail_end_def by (rule runs_abort)

lemma StartTransactionCommand_open [simp]: "qe_xact q \<noteq> No_xact \<Longrightarrow> StartTransactionCommand q = q"
  by (simp add: StartTransactionCommand_def)

lemma qe_wf_writer:
  "qe_wf q \<Longrightarrow> qe_context q \<in> {DTX_CONTEXT_QE_TWO_PHASE_EXPLICIT_WRITER, DTX_CONTEXT_QE_TWO_PHASE_IMPLICIT_WRITER} \<Longrightarrow> qe_xact q \<noteq> No_xact"
  by (auto simp: qe_wf_def)

lemma runs_AbortOutOfAny: "qe_wf q \<Longrightarrow> runs cmd gid q sg (AbortOutOfAnyTransaction gid q sg)"
  by (auto simp: AbortOutOfAnyTransaction_def runs_keep runs_abort split: xact_block.splits)

lemma runs_prepare: "qe_xact q \<noteq> No_xact \<Longrightarrow> runs DTX_PROTOCOL_COMMAND_PREPARE gid q sg (performDtxProtocolPrepare lr gid q sg)"
  by (cases "qe_xact q")
    (auto simp: performDtxProtocolPrepare_def MarkAsPreparing_def runs_fail_end qe_wf_def intro!: runsI [where e = Prepare])

lemma runs_onephase:
  "qe_wf q \<Longrightarrow> qe_xact q \<noteq> No_xact \<Longrightarrow> runs DTX_PROTOCOL_COMMAND_COMMIT_ONEPHASE gid q sg (performDtxProtocolCommitOnePhase lr gid q sg)"
  by (cases "qe_xact q")
    (auto simp: performDtxProtocolCommitOnePhase_def runs_raise runs_fail_end Let_def adds_def intro!: runsI [where e = Commit_onephase] split: sum.splits)

lemma find_gxact_Some: "find_gxact gid xs = Some i \<Longrightarrow> i < length xs \<and> xs ! i = gid"
  by (induction xs arbitrary: i) (auto split: if_splits)

lemma find_gxact_None: "find_gxact gid xs = None \<longleftrightarrow> gid \<notin> set xs"
  by (induction xs) auto

lemma mset_RemoveGXact: "find_gxact gid xs = Some i \<Longrightarrow> mset xs = add_mset gid (mset (RemoveGXact i xs))"
  using find_gxact_Some [of gid xs i] mset_swap_delete [of i xs] nth_mem [of i xs] by (auto simp: RemoveGXact_def)

lemma runs_finish:
  assumes no: "qe_xact q = No_xact" and a: "effect_allowed cmd (if isCommit then Commit_prepared else Abort_prepared)"
  shows "runs cmd gid q sg (finish_prepared isCommit lr gid raise q sg)"
proof (cases "find_gxact gid (prepXacts sg)")
  case None
  then show ?thesis using assms
    by (cases lr) (auto simp: finish_prepared_def FinishPreparedTransaction_def LockGXact_def abort_open_def finishDistributedTransactionContext_def qe_wf_def
        intro!: runsI [where e = Keep])
next
  case (Some i)
  let ?e = "if isCommit then Commit_prepared else Abort_prepared"
  let ?sg = "sg\<lparr>prepXacts := RemoveGXact i (prepXacts sg), finished := finished sg @ [(gid, if isCommit then Committed_prepared else Aborted_prepared)]\<rparr>"
  let ?q = "finishDistributedTransactionContext (q\<lparr>qe_waitGxids := []\<rparr>)"
  have e: "runs cmd gid q sg (a, q', ?sg)" if "\<not> is_open q'" "qe_wf q'" for a q'
    by (rule runsI [OF a]) (use no that mset_RemoveGXact [OF Some] in \<open>simp_all add: adds_def\<close>)
  have "\<not> is_open ?q" "qe_wf ?q" using no by (simp_all add: finishDistributedTransactionContext_def qe_wf_def)
  then have "runs cmd gid q sg (a, ?q, ?sg)" "runs cmd gid q sg (a, fresh_qe, ?sg)" "runs cmd gid q sg (a, fresh_qe, sg)" for a
    using e no by (auto intro!: runsI [where e = Keep])
  then show ?thesis using Some no
    by (cases lr) (simp_all add: finish_prepared_def FinishPreparedTransaction_def LockGXact_def abort_open_def)
qed

lemma runs_subtransaction_begin:
  assumes "qe_wf q" "writer_env env"
  shows "runs DTX_PROTOCOL_COMMAND_SUBTRANSACTION_BEGIN_INTERNAL gid q sg (subtransaction_begin (qe_env.truncate env) (ce_options env) (ce_snapshot env) gid q sg)"
proof (cases "qe_context q = DTX_CONTEXT_LOCAL_ONLY")
  case True
  then have none: "qe_xact q = No_xact" using assms(1) qe_wf_idle by blast
  have "\<exists>c. setupQEDtxContext (qe_env.truncate env) (ce_options env) (ce_snapshot env) q = Inr c \<and>
      qe_context c \<in> {DTX_CONTEXT_QE_TWO_PHASE_EXPLICIT_WRITER, DTX_CONTEXT_QE_TWO_PHASE_IMPLICIT_WRITER} \<and> qe_xact c \<in> {No_xact, In_xact 1}"
    using assms(2) True none
    by (cases "isMppTxOptions_ExplicitBegin (ce_options env)")
      (simp_all add: setupQEDtxContext_def writer_env_def qe_env.defs setDistributedTransactionContext_def)
  then show ?thesis using True none
    by (auto simp: subtransaction_begin_def StartTransactionCommand_def qe_wf_def intro!: runsI [where e = Open_local])
next
  case False
  then show ?thesis using assms(1)
    by (auto simp: subtransaction_begin_def runs_raise qe_wf_def intro!: runsI [where e = Keep] split: xact_block.splits)
qed

lemma runs_release: "qe_wf q \<Longrightarrow> runs cmd gid q sg (subtransaction_release gid q sg)"
  by (auto simp: subtransaction_release_def runs_raise qe_wf_def intro!: runsI [where e = Keep] split: xact_block.splits)

lemma RollbackAndRelease_facts:
  assumes "RollbackAndReleaseCurrentSubTransaction q = Some q'"
  shows "is_open q \<and> is_open q' \<and> qe_context q' = qe_context q"
  using assms by (auto simp: RollbackAndReleaseCurrentSubTransaction_def is_open_def split: xact_block.splits if_splits)

lemma runs_rollback: "qe_wf q \<Longrightarrow> runs cmd gid q sg (rollback_subtransactions i gid q sg)"
proof (induction i arbitrary: q)
  case 0
  then show ?case by (simp add: runs_keep)
next
  case (Suc i)
  show ?case
  proof (cases "RollbackAndReleaseCurrentSubTransaction q")
    case None
    then show ?thesis using Suc.prems by (simp add: runs_raise)
  next
    case (Some q')
    from RollbackAndRelease_facts [OF Some] Suc.prems have f: "is_open q" "is_open q'" "qe_wf q'" by (auto simp: qe_wf_def split: if_splits)
    obtain a q2 sg2 where r: "rollback_subtransactions i gid q' sg = (a, q2, sg2)" by (metis prod_cases3)
    with Suc.IH [OF f(3)] obtain e where e: "effect_allowed cmd e" "has_effect gid e q' sg q2 sg2" "qe_wf q2" by (auto simp: runs_def)
    then have "has_effect gid e q sg q2 sg2" using f by (cases e) simp_all
    then show ?thesis using Some r e by (simp add: runsI)
  qed
qed

lemma runs_finish_in:
  assumes "qe_wf q" "qe_context q = DTX_CONTEXT_QE_PREPARED" "effect_allowed cmd (if isCommit then Commit_prepared else Abort_prepared)"
  shows "runs cmd gid q sg (finish_prepared isCommit lr gid raise (setDistributedTransactionContext DTX_CONTEXT_QE_FINISH_PREPARED q) sg)"
proof -
  let ?q = "setDistributedTransactionContext DTX_CONTEXT_QE_FINISH_PREPARED q"
  have no: "qe_xact q = No_xact" using assms(1,2) qe_wf_idle by blast
  then have "qe_xact ?q = No_xact" by (simp add: setDistributedTransactionContext_def)
  from runs_finish [OF this assms(3), of gid sg lr raise] obtain a q' sg' e where r: "finish_prepared isCommit lr gid raise ?q sg = (a, q', sg')"
      "effect_allowed cmd e" "has_effect gid e ?q sg q' sg'" "qe_wf q'" by (rule runsE)
  then have "has_effect gid e q sg q' sg'" using no by (cases e) (simp_all add: setDistributedTransactionContext_def)
  with r show ?thesis by (simp add: runsI)
qed

lemma performDtxProtocolCommand_runs:
  assumes "qe_wf q" "writer_env env"
  shows "runs cmd gid q sg (performDtxProtocolCommand env cmd gid q sg)"
proof (cases cmd)
  case DTX_PROTOCOL_COMMAND_SUBTRANSACTION_BEGIN_INTERNAL
  then show ?thesis using runs_subtransaction_begin [OF assms] by (simp add: performDtxProtocolCommand_def)
qed (use assms qe_wf_idle [of q] qe_wf_writer [of q] in
    \<open>simp_all add: performDtxProtocolCommand_def requireDistributedTransactionContext_def performDtxProtocolCommitPrepared_def performDtxProtocolAbortPrepared_def
      subtransaction_rollback_def runs_raise runs_AbortOutOfAny runs_prepare runs_onephase runs_finish runs_finish_in runs_release runs_rollback
      commit_cmd_def abort_cmd_def split: DtxContext.splits\<close>)

text \<open>A statement opens a local transaction only in a process that has none.\<close>

lemma setup_writer:
  assumes "writer_env env" "setupQEDtxContext (qe_env.truncate env) (ce_options env) (ce_snapshot env) q = Inr q'" "qe_wf q"
  shows "qe_context q = DTX_CONTEXT_LOCAL_ONLY \<and> qe_xact q = No_xact \<and>
      qe_context q' \<in> {DTX_CONTEXT_QE_TWO_PHASE_EXPLICIT_WRITER, DTX_CONTEXT_QE_TWO_PHASE_IMPLICIT_WRITER} \<and> qe_xact q' \<in> {No_xact, In_xact 1}
    \<or> qe_xact q \<noteq> No_xact \<and> q' = q"
  using assms
  by (cases "qe_context q")
    (auto simp: setupQEDtxContext_def writer_env_def qe_env.defs setDistributedTransactionContext_def qe_wf_def Let_def split: if_splits)

lemma run_statement_cases:
  assumes "run_statement env gid q sg = (a, q', sg')"
  obtains "AbortCurrentTransaction gid q sg = (q', sg')"
  | "q' = fresh_qe" "sg' = abort_open gid q sg"
  | q1 where "setupQEDtxContext (qe_env.truncate env) (ce_options env) (ce_snapshot env) q = Inr q1" "q' = StartTransactionCommand q1" "sg' = sg"
  | q1 where "setupQEDtxContext (qe_env.truncate env) (ce_options env) (ce_snapshot env) q = Inr q1" "AbortCurrentTransaction gid (StartTransactionCommand q1) sg = (q', sg')"
  using assms by (auto simp: run_statement_def qe_raise_def Let_def split: sum.splits xact_block.splits if_splits)

lemma run_statement_effect:
  assumes "qe_wf q" "writer_env env" "run_statement env gid q sg = (a, q', sg')"
  shows "qe_wf q' \<and> (\<exists>e \<in> {Keep, Abort_open, Open_local, Open_aborted}. has_effect gid e q sg q' sg')"
proof -
  have started: "qe_wf (StartTransactionCommand q1) \<and> (is_open (StartTransactionCommand q1) = is_open q \<or>
      qe_context q = DTX_CONTEXT_LOCAL_ONLY \<and> \<not> is_open q \<and> is_open (StartTransactionCommand q1))"
    if "setupQEDtxContext (qe_env.truncate env) (ce_options env) (ce_snapshot env) q = Inr q1" for q1
    using setup_writer [OF assms(2) that assms(1)] assms(1) by (auto simp: StartTransactionCommand_def qe_wf_def split: if_splits)
  show ?thesis using assms(3)
  proof (cases rule: run_statement_cases)
    case 1
    from AbortCurrentTransaction_facts [OF this assms(1)] show ?thesis by auto
  next
    case 2
    then show ?thesis by (cases "is_open q") (auto simp: abort_open_def adds_def)
  next
    case (3 q1)
    with started [OF 3(1)] show ?thesis by auto
  next
    case (4 q1)
    from AbortCurrentTransaction_facts [OF 4(2)] started [OF 4(1)] show ?thesis by auto
  qed
qed

lemma effect_weight:
  "has_effect gid e q sg q' sg' \<Longrightarrow>
    open_weight q' + stored gid sg' = open_weight q + stored gid sg + (if e = Open_local \<or> e = Open_aborted then 1 else 0)"
  by (cases e) (auto simp: open_weight_def stored_def adds_def simp flip: count_mset)

lemma effect_others: "has_effect gid e q sg q' sg' \<Longrightarrow> others_same gid sg sg'"
  by (cases e) (auto simp: others_same_def adds_def simp flip: count_mset)

section \<open>What an accepted command has done\<close>

lemma prepare_ok:
  assumes "performDtxProtocolCommand env DTX_PROTOCOL_COMMAND_PREPARE gid q sg = ((QE_ok, w), q', sg')"
  shows "gid \<in> set (prepXacts sg')"
  using assms
  by (auto simp: performDtxProtocolCommand_def performDtxProtocolPrepare_def qe_raise_def fail_end_def MarkAsPreparing_def split: DtxContext.splits xact_block.splits if_splits)

lemma finish_prepared_ok:
  assumes "finish_prepared isCommit lr gid raise q sg = ((QE_ok, w), q', sg')" "count_list (prepXacts sg) gid \<le> Suc 0"
  shows "gid \<notin> set (prepXacts sg')"
proof (cases "find_gxact gid (prepXacts sg)")
  case None
  then have "sg' = sg" using assms(1)
    by (auto simp: finish_prepared_def FinishPreparedTransaction_def LockGXact_def split: if_splits bool.splits prod.splits)
  then show ?thesis using None by (simp add: find_gxact_None)
next
  case (Some i)
  then have "prepXacts sg' = RemoveGXact i (prepXacts sg)" using assms(1)
    by (auto simp: finish_prepared_def FinishPreparedTransaction_def LockGXact_def split: if_splits bool.splits prod.splits)
  moreover have "count_list (prepXacts sg) gid = Suc (count_list (RemoveGXact i (prepXacts sg)) gid)"
    using mset_RemoveGXact [OF Some] by (simp flip: count_mset)
  ultimately show ?thesis using assms(2) by (simp add: count_list_0_iff [symmetric])
qed

lemma finish_ok:
  assumes "performDtxProtocolCommand env cmd gid q sg = ((QE_ok, w), q', sg')" "count_list (prepXacts sg) gid \<le> Suc 0"
    and "commit_cmd cmd \<or> cmd = DTX_PROTOCOL_COMMAND_ABORT_PREPARED \<or> cmd = DTX_PROTOCOL_COMMAND_RETRY_ABORT_PREPARED \<or> cmd = DTX_PROTOCOL_COMMAND_RECOVERY_ABORT_PREPARED"
  shows "gid \<notin> set (prepXacts sg')"
  using assms
  by (auto simp: commit_cmd_def performDtxProtocolCommand_def requireDistributedTransactionContext_def qe_raise_def
      performDtxProtocolCommitPrepared_def performDtxProtocolAbortPrepared_def dest: finish_prepared_ok split: if_splits)

end
