(* ===== verification/Tm_Coord.thy ===== *)
theory Tm_Coord
  imports Tm_Segment Tm_Gxid
begin

text \<open>
  The coordinator side of a distributed transaction (\<^verbatim>\<open>cdb/cdbtm.c\<close>): dispatching a protocol command, the two phases of a
  commit, and rolling back. Which segments answer a command, and what their local code does, is an argument of every dispatch. A segment that does not answer
  may still carry out the command: it stays pending with the process that received it.
\<close>

section \<open>State\<close>

text \<open>The coordinator's log of distributed transactions: what the last checkpoint has, the records since its redo pointer, how many of them
  are on disk, and a checkpoint in progress with the transactions it waits for.\<close>

datatype dtx_record = Distributed_commit DistributedTransactionId | Distributed_forget DistributedTransactionId

record tm_log =
  lg_base :: "DistributedTransactionId list"
  lg_recs :: "dtx_record list"
  lg_flushed :: nat
  lg_ckpt :: "(dtx_record list \<times> DistributedTransactionId list \<times> DistributedTransactionId list option) option"

definition xlog_insert :: "dtx_record \<Rightarrow> tm_log \<Rightarrow> tm_log" where
  "xlog_insert r lg = lg\<lparr>lg_recs := lg_recs lg @ [r], lg_ckpt := map_option (\<lambda>(rs, ws, a). (rs @ [r], ws, a)) (lg_ckpt lg)\<rparr>"

definition xlog_flush :: "tm_log \<Rightarrow> tm_log" where
  "xlog_flush lg = lg\<lparr>lg_flushed := length (lg_recs lg)\<rparr>"

text \<open>
  What a session shares with the rest of the cluster: the segments, the commands that were sent but not answered (with no command: a process
  that has lost its connection), the log and the events for the recovery process.
\<close>

type_synonym pending = "nat \<Rightarrow> string \<Rightarrow> (DtxProtocolCommand option \<times> qe) list"

record world =
  w_segs :: "nat \<Rightarrow> segment"
  w_pending :: pending
  w_log :: tm_log
  shmDtxRecoveryEvents :: uint32

text \<open>A session: \<^verbatim>\<open>MyTmGxact\<close>, \<^verbatim>\<open>MyTmGxactLocal\<close>, its context, its writer processes, and what \<^verbatim>\<open>xact.c\<close> knows of the transaction.\<close>

record session =
  sx_state :: DtxState
  sx_context :: DtxContext
  explicitBeginRemembered :: bool
  writerGangLost :: bool
  dtxSegments :: "nat list"
  sx_waitGxids :: "uint32 list"
  includeInCkpt :: bool
  sx_qes :: "nat \<Rightarrow> qe"
  sx_xid :: bool
  sx_wrote :: bool
  delayChkpt :: bool
  sx_succeeded :: bool

type_synonym sw = "session \<times> world"

definition new_session :: session where
  "new_session = \<lparr>sx_state = DTX_STATE_NONE, sx_context = DTX_CONTEXT_LOCAL_ONLY, explicitBeginRemembered = False, writerGangLost = False, dtxSegments = [],
     sx_waitGxids = [], includeInCkpt = False, sx_qes = (\<lambda>_. fresh_qe), sx_xid = False, sx_wrote = False, delayChkpt = False, sx_succeeded = False\<rparr>"

abbreviation setCurrentDtxState :: "DtxState \<Rightarrow> session \<Rightarrow> session" where
  "setCurrentDtxState st x \<equiv> x\<lparr>sx_state := st\<rparr>"

definition isCurrentDtxActivated :: "session \<Rightarrow> bool" where
  "isCurrentDtxActivated x \<longleftrightarrow> sx_state x \<noteq> DTX_STATE_NONE"

definition isPreparedDtxTransaction :: "session \<Rightarrow> bool" where
  "isPreparedDtxTransaction x \<longleftrightarrow> sx_state x = DTX_STATE_PREPARED"

section \<open>Dispatching a command\<close>

record pg_result =
  res_ok :: bool
  cmdStatus :: string
  res_waits :: "uint32 list"

text \<open>\<open>reply s = None\<close>: segment \<open>s\<close> does not answer. The answer of a process echoes the name of the command.\<close>

type_synonym reply = "nat \<Rightarrow> command_env option"

definition dispatch_one :: "DtxProtocolCommand \<Rightarrow> string \<Rightarrow> reply \<Rightarrow> nat \<Rightarrow> sw \<Rightarrow> pg_result option \<times> sw" where
  "dispatch_one cmd gid reply s xw =
     (case xw of (x, w) \<Rightarrow>
        case reply s of
          None \<Rightarrow> (None,
            x\<lparr>sx_qes := (sx_qes x)(s := fresh_qe), writerGangLost := True\<rparr>,
            w\<lparr>w_pending := (w_pending w)(s := (w_pending w s)(gid := w_pending w s gid @ [(Some cmd, sx_qes x s)]))\<rparr>)
        | Some env \<Rightarrow>
            (case performDtxProtocolCommand env cmd gid (sx_qes x s) (w_segs w s) of
               ((r, ws), q, sg) \<Rightarrow>
                 (Some \<lparr>res_ok = (r = QE_ok), cmdStatus = (if r = QE_ok then DtxProtocolCommandToString cmd else []), res_waits = ws\<rparr>,
                  x\<lparr>sx_qes := (sx_qes x)(s := q), writerGangLost := (writerGangLost x \<or> r = QE_fatal \<or> r = QE_panic)\<rparr>,
                  w\<lparr>w_segs := (w_segs w)(s := sg)\<rparr>)))"

fun dispatch_to :: "DtxProtocolCommand \<Rightarrow> string \<Rightarrow> reply \<Rightarrow> nat list \<Rightarrow> sw \<Rightarrow> pg_result option list \<times> sw" where
  "dispatch_to cmd gid reply [] xw = ([], xw)"
| "dispatch_to cmd gid reply (s # ss) xw =
     (case dispatch_one cmd gid reply s xw of
        (r, xw) \<Rightarrow> (case dispatch_to cmd gid reply ss xw of (rs, xw) \<Rightarrow> (r # rs, xw)))"

text \<open>Recording the segments that take part. (The early exit of the code when all segments are recorded only saves work.)\<close>

definition addToGxactDtxSegments :: "nat list \<Rightarrow> session \<Rightarrow> session" where
  "addToGxactDtxSegments gang x =
     (if \<not> isCurrentDtxActivated x then x
      else x\<lparr>dtxSegments := fold (\<lambda>s ss. if s \<in> set ss then ss else ss @ [s]) gang (dtxSegments x)\<rparr>)"

text \<open>The results when no process failed, and whether one did.\<close>

definition CdbDispatchDtxProtocolCommand ::
  "DtxProtocolCommand \<Rightarrow> string \<Rightarrow> reply \<Rightarrow> nat list \<Rightarrow> sw \<Rightarrow> pg_result list option \<times> sw" where
  "CdbDispatchDtxProtocolCommand cmd gid reply segments xw =
     (case dispatch_to cmd gid reply segments xw of
        (rs, x, w) \<Rightarrow>
          (if \<forall>r \<in> set rs. r \<noteq> None \<and> res_ok (the r) then Some (map the rs) else None, addToGxactDtxSegments segments x, w))"

definition strncmp_eq :: "string \<Rightarrow> string \<Rightarrow> nat \<Rightarrow> bool" where
  "strncmp_eq a b n \<longleftrightarrow> take n (a @ [CHR 0x00]) = take n (b @ [CHR 0x00])"

definition result_failed :: "string \<Rightarrow> pg_result \<Rightarrow> bool" where
  "result_failed cmdStr r \<longleftrightarrow> \<not> res_ok r \<or> \<not> strncmp_eq (cmdStatus r) cmdStr (length (cmdStatus r))"

text \<open>The transactions to wait for: sorted as signed numbers, without duplicates; the loop starts with \<open>lastRepeat = - 1\<close>.\<close>

definition compare_int :: "uint32 \<Rightarrow> uint32 \<Rightarrow> int" where
  "compare_int a b = (if a = b then 0 else if sint a > sint b then 1 else -1)"

fun insert_wait :: "uint32 \<Rightarrow> uint32 list \<Rightarrow> uint32 list" where
  "insert_wait a [] = [a]"
| "insert_wait a (b # bs) = (if compare_int a b \<le> 0 then a # b # bs else b # insert_wait a bs)"

fun drop_repeats :: "uint32 \<Rightarrow> uint32 list \<Rightarrow> uint32 list" where
  "drop_repeats lastRepeat [] = []"
| "drop_repeats lastRepeat (a # as) = (if a = lastRepeat then drop_repeats lastRepeat as else a # drop_repeats a as)"

definition gather_waits :: "pg_result list \<Rightarrow> uint32 list \<Rightarrow> uint32 list" where
  "gather_waits results old =
     (let ws = concat (map res_waits results)
      in if ws = [] then old else drop_repeats (- 1) (foldr insert_wait ws []))"

datatype dispatch_result = Raised | Returned bool

definition doDispatchDtxProtocolCommand ::
  "DtxProtocolCommand \<Rightarrow> string \<Rightarrow> bool \<Rightarrow> nat list \<Rightarrow> reply \<Rightarrow> sw \<Rightarrow> dispatch_result \<times> sw" where
  "doDispatchDtxProtocolCommand cmd gid raiseError segments reply xw =
     (if segments = [] then (Returned True, xw)
      else case CdbDispatchDtxProtocolCommand cmd gid reply segments xw of
        (None, xw) \<Rightarrow> (if raiseError then Raised else Returned False, xw)
      | (Some results, x, w) \<Rightarrow>
          (Returned (\<forall>r \<in> set results. \<not> result_failed (DtxProtocolCommandToString cmd) r),
           x\<lparr>sx_waitGxids := gather_waits results (sx_waitGxids x)\<rparr>, w))"

definition currentDtxDispatchProtocolCommand ::
  "DistributedTransactionId \<Rightarrow> DtxProtocolCommand \<Rightarrow> bool \<Rightarrow> reply \<Rightarrow> sw \<Rightarrow> dispatch_result \<times> sw" where
  "currentDtxDispatchProtocolCommand g cmd raiseError reply xw =
     doDispatchDtxProtocolCommand cmd (dtxFormGid g) raiseError (dtxSegments (fst xw)) reply xw"

text \<open>Dropping all connections: every writer process of the session is on its own.\<close>

definition ResetAllGangs :: "string \<Rightarrow> sw \<Rightarrow> sw" where
  "ResetAllGangs gid xw =
     (case xw of (x, w) \<Rightarrow>
        (x\<lparr>sx_qes := (\<lambda>_. fresh_qe)\<rparr>,
         w\<lparr>w_pending := (\<lambda>s h. if h = gid then w_pending w s h @ [(None, sx_qes x s)] else w_pending w s h)\<rparr>))"

section \<open>Starting\<close>

datatype tm_result = Tm_done | Tm_error | Tm_fatal | Tm_panic

text \<open>\<^verbatim>\<open>setupRegularDtxContext\<close>, before a statement of a client.\<close>

definition setupRegularDtxContext :: "bool \<Rightarrow> session \<Rightarrow> tm_result \<times> session" where
  "setupRegularDtxContext isDtxQueryDispatcher x =
     (case sx_context x of
        DTX_CONTEXT_QD_DISTRIBUTED_CAPABLE \<Rightarrow> (Tm_done, x)
      | DTX_CONTEXT_QE_TWO_PHASE_EXPLICIT_WRITER \<Rightarrow> (Tm_done, x)
      | DTX_CONTEXT_LOCAL_ONLY \<Rightarrow> (Tm_done, if isDtxQueryDispatcher then x\<lparr>sx_context := DTX_CONTEXT_QD_DISTRIBUTED_CAPABLE\<rparr> else x)
      | _ \<Rightarrow> (Tm_error, x))"

text \<open>\<^verbatim>\<open>setupDtxTransaction\<close>, when the transaction has no state yet; taking the id is \<^const>\<open>take_gxid\<close>.\<close>

definition setupDtxTransaction :: "session \<Rightarrow> tm_result \<times> session" where
  "setupDtxTransaction x =
     (let x = (if isCurrentDtxActivated x then x else setCurrentDtxState DTX_STATE_ACTIVE_DISTRIBUTED x)
      in (if sx_state x \<noteq> DTX_STATE_ACTIVE_DISTRIBUTED then Tm_error else Tm_done, x))"

definition rememberDtxExplicitBegin :: "session \<Rightarrow> session" where
  "rememberDtxExplicitBegin x = x\<lparr>explicitBeginRemembered := True\<rparr>"

definition sendDtxExplicitBegin :: "bool \<Rightarrow> session \<Rightarrow> tm_result \<times> session" where
  "sendDtxExplicitBegin role_dispatch x =
     (if \<not> role_dispatch then (Tm_done, x)
      else case setupDtxTransaction x of
        (Tm_done, x) \<Rightarrow> (Tm_done, rememberDtxExplicitBegin x)
      | r \<Rightarrow> r)"

text \<open>Subtransactions of functions go to all segments.\<close>

definition doDispatchSubtransactionInternalCmd ::
  "nat list \<Rightarrow> DistributedTransactionId \<Rightarrow> DtxProtocolCommand \<Rightarrow> reply \<Rightarrow> sw \<Rightarrow> (tm_result \<times> bool) \<times> sw" where
  "doDispatchSubtransactionInternalCmd components g cmdType reply xw =
     (case xw of (x, w) \<Rightarrow>
        if writerGangLost x then ((Tm_done, False), x, w)
        else
          let x = (if cmdType = DTX_PROTOCOL_COMMAND_SUBTRANSACTION_BEGIN_INTERNAL \<and> \<not> isCurrentDtxActivated x
                   then setCurrentDtxState DTX_STATE_ACTIVE_DISTRIBUTED x else x)
          in case doDispatchDtxProtocolCommand cmdType (dtxFormGid g) True components reply (x, w) of
               (Returned True, xw) \<Rightarrow> ((Tm_done, True), xw)
             | (_, xw) \<Rightarrow> ((Tm_error, False), xw))"

section \<open>The first phase\<close>

text \<open>\<open>interrupted\<close>: a cancel request is pending at \<^verbatim>\<open>CHECK_FOR_INTERRUPTS\<close>.\<close>

definition doPrepareTransaction :: "bool \<Rightarrow> DistributedTransactionId \<Rightarrow> reply \<Rightarrow> sw \<Rightarrow> tm_result \<times> sw" where
  "doPrepareTransaction interrupted g reply xw =
     (case xw of (x, w) \<Rightarrow>
        if interrupted then (Tm_error, x, w)
        else case currentDtxDispatchProtocolCommand g DTX_PROTOCOL_COMMAND_PREPARE True reply (setCurrentDtxState DTX_STATE_PREPARING x, w) of
               (Returned True, x, w) \<Rightarrow> (Tm_done, setCurrentDtxState DTX_STATE_PREPARED x, w)
             | (_, xw) \<Rightarrow> (Tm_error, xw))"

definition doNotifyingOnePhaseCommit :: "DistributedTransactionId \<Rightarrow> reply \<Rightarrow> sw \<Rightarrow> tm_result \<times> sw" where
  "doNotifyingOnePhaseCommit g reply xw =
     (case xw of (x, w) \<Rightarrow>
        if dtxSegments x = [] then (Tm_done, x, w)
        else case currentDtxDispatchProtocolCommand g DTX_PROTOCOL_COMMAND_COMMIT_ONEPHASE True reply
                    (setCurrentDtxState DTX_STATE_NOTIFYING_ONE_PHASE_COMMIT x, w) of
               (Returned True, xw) \<Rightarrow> (Tm_done, xw)
             | (_, xw) \<Rightarrow> (Tm_error, xw))"

definition resetTmGxact :: "session \<Rightarrow> session" where
  "resetTmGxact x = x\<lparr>includeInCkpt := False, explicitBeginRemembered := False, writerGangLost := False, dtxSegments := [],
     sx_waitGxids := [], sx_state := DTX_STATE_NONE\<rparr>"

definition prepareDtxTransaction :: "bool \<Rightarrow> DistributedTransactionId \<Rightarrow> reply \<Rightarrow> sw \<Rightarrow> tm_result \<times> sw" where
  "prepareDtxTransaction interrupted g reply xw =
     (case xw of (x, w) \<Rightarrow>
        if sx_context x \<noteq> DTX_CONTEXT_QD_DISTRIBUTED_CAPABLE then (Tm_done, x, w)
        else if \<not> isCurrentDtxActivated x then (Tm_done, resetTmGxact x, w)
        else if \<not> sx_wrote x \<or> (\<not> sx_xid x \<and> length (dtxSegments x) < 2)
             then doNotifyingOnePhaseCommit g reply (setCurrentDtxState DTX_STATE_ONE_PHASE_COMMIT x, w)
        else doPrepareTransaction interrupted g reply (x, w))"

section \<open>The commit record\<close>

text \<open>Within the commit critical section of \<^verbatim>\<open>RecordTransactionCommit\<close>: the state, the record, the state again, and the flush.\<close>

definition insertingDistributedCommitted :: "session \<Rightarrow> session" where
  "insertingDistributedCommitted x = setCurrentDtxState DTX_STATE_INSERTING_COMMITTED x"

definition insertedDistributedCommitted :: "session \<Rightarrow> session" where
  "insertedDistributedCommitted x = (setCurrentDtxState DTX_STATE_INSERTED_COMMITTED x)\<lparr>includeInCkpt := True\<rparr>"

definition commit_enter :: "session \<Rightarrow> session" where
  "commit_enter x = insertingDistributedCommitted (x\<lparr>delayChkpt := True\<rparr>)"

definition commit_record :: "DistributedTransactionId \<Rightarrow> world \<Rightarrow> world" where
  "commit_record g w = w\<lparr>w_log := xlog_insert (Distributed_commit g) (w_log w)\<rparr>"

definition commit_flush :: "sw \<Rightarrow> sw" where
  "commit_flush xw = (case xw of (x, w) \<Rightarrow> (x\<lparr>delayChkpt := False\<rparr>, w\<lparr>w_log := xlog_flush (w_log w)\<rparr>))"

text \<open>Without other activity in between.\<close>

definition RecordTransactionCommit :: "DistributedTransactionId \<Rightarrow> sw \<Rightarrow> sw" where
  "RecordTransactionCommit g xw =
     (case xw of (x, w) \<Rightarrow>
        if isPreparedDtxTransaction x
        then commit_flush (insertedDistributedCommitted (commit_enter x), commit_record g w)
        else (x, w))"

section \<open>The second phase\<close>

definition RecordDistributedForgetCommitted :: "DistributedTransactionId \<Rightarrow> world \<Rightarrow> world" where
  "RecordDistributedForgetCommitted g w = w\<lparr>w_log := xlog_insert (Distributed_forget g) (w_log w)\<rparr>"

definition doInsertForgetCommitted :: "DistributedTransactionId \<Rightarrow> sw \<Rightarrow> sw" where
  "doInsertForgetCommitted g xw =
     (case xw of (x, w) \<Rightarrow>
        let x = setCurrentDtxState DTX_STATE_INSERTING_FORGET_COMMITTED x;
            w = RecordDistributedForgetCommitted g w
        in ((setCurrentDtxState DTX_STATE_INSERTED_FORGET_COMMITTED x)\<lparr>includeInCkpt := False\<rparr>, w))"

text \<open>The first broadcast, and one more try; \<^const>\<open>sx_succeeded\<close> is the local variable of the function.\<close>

definition notify_first :: "DistributedTransactionId \<Rightarrow> reply \<Rightarrow> sw \<Rightarrow> sw" where
  "notify_first g reply xw =
     (case xw of (x, w) \<Rightarrow>
        case currentDtxDispatchProtocolCommand g DTX_PROTOCOL_COMMAND_COMMIT_PREPARED True reply
               (setCurrentDtxState DTX_STATE_NOTIFYING_COMMIT_PREPARED x, w) of
          (Returned True, x, w) \<Rightarrow> (x\<lparr>sx_succeeded := True\<rparr>, w)
        | (_, x, w) \<Rightarrow>
            ((setCurrentDtxState DTX_STATE_RETRY_COMMIT_PREPARED x)\<lparr>sx_context := DTX_CONTEXT_QD_RETRY_PHASE_2, sx_succeeded := False\<rparr>, w))"

definition notify_retry :: "DistributedTransactionId \<Rightarrow> reply \<Rightarrow> sw \<Rightarrow> sw" where
  "notify_retry g reply xw =
     (case currentDtxDispatchProtocolCommand g DTX_PROTOCOL_COMMAND_RETRY_COMMIT_PREPARED True reply (ResetAllGangs (dtxFormGid g) xw) of
        (r, x, w) \<Rightarrow> (x\<lparr>sx_succeeded := (r = Returned True)\<rparr>, w))"

text \<open>
  The loop over the tries, each with the segments that answer and the seconds since the first one. \<open>None\<close>: it has not returned after the given tries.
\<close>

fun notify_loop :: "nat \<Rightarrow> bool \<Rightarrow> DistributedTransactionId \<Rightarrow> (reply \<times> nat) list \<Rightarrow> sw \<Rightarrow> tm_result option \<times> sw" where
  "notify_loop dtx_phase2_retry_second timedout g tries xw =
     (if sx_succeeded (fst xw) then (Some Tm_done, xw)
      else if timedout then (Some Tm_panic, xw)
      else case tries of
             [] \<Rightarrow> (None, xw)
           | (reply, t) # tries \<Rightarrow>
               notify_loop dtx_phase2_retry_second (t > dtx_phase2_retry_second) g tries (notify_retry g reply xw))"

definition doNotifyingCommitPrepared ::
  "nat \<Rightarrow> DistributedTransactionId \<Rightarrow> reply \<Rightarrow> (reply \<times> nat) list \<Rightarrow> sw \<Rightarrow> tm_result option \<times> sw" where
  "doNotifyingCommitPrepared dtx_phase2_retry_second g reply tries xw =
     (case notify_loop dtx_phase2_retry_second (dtx_phase2_retry_second = 0) g tries (notify_first g reply xw) of
        (Some Tm_done, xw) \<Rightarrow> (Some Tm_done, doInsertForgetCommitted g xw)
      | r \<Rightarrow> r)"

definition notifyCommittedDtxTransactionIsNeeded :: "session \<Rightarrow> bool" where
  "notifyCommittedDtxTransactionIsNeeded x \<longleftrightarrow> sx_context x = DTX_CONTEXT_QD_DISTRIBUTED_CAPABLE \<and> isCurrentDtxActivated x"

definition notifyCommittedDtxTransaction ::
  "nat \<Rightarrow> DistributedTransactionId \<Rightarrow> reply \<Rightarrow> (reply \<times> nat) list \<Rightarrow> sw \<Rightarrow> tm_result option \<times> sw" where
  "notifyCommittedDtxTransaction dtx_phase2_retry_second g reply tries xw =
     (case sx_state (fst xw) of
        DTX_STATE_INSERTED_COMMITTED \<Rightarrow> doNotifyingCommitPrepared dtx_phase2_retry_second g reply tries xw
      | DTX_STATE_NOTIFYING_ONE_PHASE_COMMIT \<Rightarrow> (Some Tm_done, xw)
      | DTX_STATE_ONE_PHASE_COMMIT \<Rightarrow> (Some Tm_done, xw)
      | _ \<Rightarrow> (Some (if sx_xid (fst xw) then Tm_panic else Tm_error), xw))"

section \<open>Rolling back\<close>

abbreviation DTX_RECOVERY_EVENT_ABORT_PREPARED :: uint32 where "DTX_RECOVERY_EVENT_ABORT_PREPARED \<equiv> 1"
abbreviation DTX_RECOVERY_EVENT_BUMP_GXID :: uint32 where "DTX_RECOVERY_EVENT_BUMP_GXID \<equiv> 2"

definition SetDtxRecoveryEvent :: "uint32 \<Rightarrow> world \<Rightarrow> world" where
  "SetDtxRecoveryEvent event w = w\<lparr>shmDtxRecoveryEvents := shmDtxRecoveryEvents w OR event\<rparr>"

definition ResetDtxRecoveryEvent :: "uint32 \<Rightarrow> world \<Rightarrow> world" where
  "ResetDtxRecoveryEvent event w = w\<lparr>shmDtxRecoveryEvents := shmDtxRecoveryEvents w AND NOT event\<rparr>"

definition abort_retry :: "nat list \<Rightarrow> DistributedTransactionId \<Rightarrow> reply \<Rightarrow> sw \<Rightarrow> sw" where
  "abort_retry components g reply xw =
     (case ResetAllGangs (dtxFormGid g) xw of (x, w) \<Rightarrow>
        case currentDtxDispatchProtocolCommand g DTX_PROTOCOL_COMMAND_RETRY_ABORT_PREPARED True reply (x\<lparr>dtxSegments := components\<rparr>, w) of
          (r, x, w) \<Rightarrow> (x\<lparr>sx_succeeded := (r = Returned True)\<rparr>, w))"

fun retryAbortPrepared :: "nat \<Rightarrow> bool \<Rightarrow> nat list \<Rightarrow> DistributedTransactionId \<Rightarrow> (reply \<times> nat) list \<Rightarrow> sw \<Rightarrow> tm_result option \<times> sw" where
  "retryAbortPrepared dtx_phase2_retry_second timedout components g tries xw =
     (if sx_succeeded (fst xw) then (Some Tm_done, xw)
      else if timedout then
        (case ResetAllGangs (dtxFormGid g) xw of (x, w) \<Rightarrow> (Some Tm_done, x, SetDtxRecoveryEvent DTX_RECOVERY_EVENT_ABORT_PREPARED w))
      else case tries of
             [] \<Rightarrow> (None, xw)
           | (reply, t) # tries \<Rightarrow>
               retryAbortPrepared dtx_phase2_retry_second (t > dtx_phase2_retry_second) components g tries (abort_retry components g reply xw))"

text \<open>The first broadcast of an abort: whether the tries are needed.\<close>

definition abort_first :: "DistributedTransactionId \<Rightarrow> reply \<Rightarrow> sw \<Rightarrow> bool \<times> sw" where
  "abort_first g reply xw =
     (if sx_state (fst xw) = DTX_STATE_NOTIFYING_ABORT_NO_PREPARED then
        (case currentDtxDispatchProtocolCommand g DTX_PROTOCOL_COMMAND_ABORT_NO_PREPARED False reply xw of
           (Returned True, xw) \<Rightarrow> (False, xw)
         | (_, xw) \<Rightarrow> (False, ResetAllGangs (dtxFormGid g) xw))
      else if sx_state (fst xw) = DTX_STATE_NOTIFYING_ABORT_SOME_PREPARED \<or> sx_state (fst xw) = DTX_STATE_NOTIFYING_ABORT_PREPARED then
        (case currentDtxDispatchProtocolCommand g
               (if sx_state (fst xw) = DTX_STATE_NOTIFYING_ABORT_SOME_PREPARED then DTX_PROTOCOL_COMMAND_ABORT_SOME_PREPARED
                else DTX_PROTOCOL_COMMAND_ABORT_PREPARED) True reply xw of
           (Returned True, xw) \<Rightarrow> (False, xw)
         | (_, x, w) \<Rightarrow> (True,
             (setCurrentDtxState DTX_STATE_RETRY_ABORT_PREPARED x)\<lparr>sx_context := DTX_CONTEXT_QD_RETRY_PHASE_2, sx_succeeded := False\<rparr>, w))
      else (True, (fst xw)\<lparr>sx_succeeded := False\<rparr>, snd xw))"

definition doNotifyingAbort ::
  "nat \<Rightarrow> nat list \<Rightarrow> DistributedTransactionId \<Rightarrow> reply \<Rightarrow> (reply \<times> nat) list \<Rightarrow> sw \<Rightarrow> tm_result option \<times> sw" where
  "doNotifyingAbort dtx_phase2_retry_second components g reply tries xw =
     (if sx_state (fst xw) \<in> {DTX_STATE_NOTIFYING_ABORT_NO_PREPARED, DTX_STATE_NOTIFYING_ABORT_SOME_PREPARED,
          DTX_STATE_NOTIFYING_ABORT_PREPARED, DTX_STATE_RETRY_ABORT_PREPARED}
      then case abort_first g reply xw of
             (False, xw) \<Rightarrow> (Some Tm_done, xw)
           | (True, xw) \<Rightarrow> retryAbortPrepared dtx_phase2_retry_second (dtx_phase2_retry_second = 0) components g tries xw
      else (Some Tm_panic, xw))"

text \<open>
  The switch at the beginning of \<^verbatim>\<open>rollbackDtxTransaction\<close>: how it returns, if it does, and the session.
  Dropping the connections when the process exits and when it stays is the same here; they differ in the temporary tables.
\<close>

definition rollback_switch :: "DistributedTransactionId \<Rightarrow> sw \<Rightarrow> tm_result option \<times> sw" where
  "rollback_switch g xw =
     (case xw of (x, w) \<Rightarrow>
        case sx_state x of
          DTX_STATE_PREPARING \<Rightarrow>
            (None, setCurrentDtxState (if writerGangLost x then DTX_STATE_RETRY_ABORT_PREPARED else DTX_STATE_NOTIFYING_ABORT_SOME_PREPARED) x, w)
        | DTX_STATE_PREPARED \<Rightarrow> (None, setCurrentDtxState DTX_STATE_NOTIFYING_ABORT_PREPARED x, w)
        | DTX_STATE_NOTIFYING_ABORT_NO_PREPARED \<Rightarrow> (Some Tm_done, ResetAllGangs (dtxFormGid g) (x, w))
        | DTX_STATE_NOTIFYING_ABORT_SOME_PREPARED \<Rightarrow> (Some Tm_fatal, x, w)
        | DTX_STATE_NOTIFYING_ABORT_PREPARED \<Rightarrow> (Some Tm_fatal, x, w)
        | DTX_STATE_NOTIFYING_COMMIT_PREPARED \<Rightarrow> (Some Tm_done, x, w)
        | DTX_STATE_INSERTING_COMMITTED \<Rightarrow> (Some Tm_done, x, w)
        | DTX_STATE_INSERTED_COMMITTED \<Rightarrow> (Some Tm_done, x, w)
        | DTX_STATE_INSERTING_FORGET_COMMITTED \<Rightarrow> (Some Tm_done, x, w)
        | DTX_STATE_INSERTED_FORGET_COMMITTED \<Rightarrow> (Some Tm_done, x, w)
        | DTX_STATE_RETRY_COMMIT_PREPARED \<Rightarrow> (Some Tm_done, x, w)
        | DTX_STATE_RETRY_ABORT_PREPARED \<Rightarrow> (Some Tm_done, x, w)
        | DTX_STATE_NONE \<Rightarrow> (Some Tm_panic, x, w)
        | _ \<Rightarrow>
            if dtxSegments x = [] \<or> writerGangLost x then (Some Tm_done, x, w)
            else (None, setCurrentDtxState DTX_STATE_NOTIFYING_ABORT_NO_PREPARED x, w))"

definition rollback_begin :: "bool \<Rightarrow> DistributedTransactionId \<Rightarrow> sw \<Rightarrow> tm_result option \<times> sw" where
  "rollback_begin proc_exit_inprogress g xw =
     (if sx_context (fst xw) \<noteq> DTX_CONTEXT_QD_DISTRIBUTED_CAPABLE \<or> \<not> isCurrentDtxActivated (fst xw) then (Some Tm_done, xw)
      else case rollback_switch g xw of
             (Some r, xw) \<Rightarrow> (Some r, xw)
           | (None, xw) \<Rightarrow>
               if proc_exit_inprogress then
                 if sx_state (fst xw) = DTX_STATE_NOTIFYING_ABORT_NO_PREPARED then (Some Tm_done, ResetAllGangs (dtxFormGid g) xw) else (Some Tm_fatal, xw)
               else (None, xw))"

definition rollbackDtxTransaction ::
  "nat \<Rightarrow> bool \<Rightarrow> nat list \<Rightarrow> DistributedTransactionId \<Rightarrow> reply \<Rightarrow> (reply \<times> nat) list \<Rightarrow> sw \<Rightarrow> tm_result option \<times> sw" where
  "rollbackDtxTransaction dtx_phase2_retry_second proc_exit_inprogress components g reply tries xw =
     (case rollback_begin proc_exit_inprogress g xw of
        (Some r, xw) \<Rightarrow> (Some r, xw)
      | (None, xw) \<Rightarrow> doNotifyingAbort dtx_phase2_retry_second components g reply tries xw)"

definition CurrentDtxIsRollingback :: "session \<Rightarrow> bool" where
  "CurrentDtxIsRollingback x \<longleftrightarrow> sx_state x \<in> {DTX_STATE_NOTIFYING_ABORT_NO_PREPARED, DTX_STATE_NOTIFYING_ABORT_SOME_PREPARED,
     DTX_STATE_NOTIFYING_ABORT_PREPARED, DTX_STATE_RETRY_ABORT_PREPARED}"

declare notify_loop.simps [simp del] retryAbortPrepared.simps [simp del]

end
