(* ===== verification/Tm_Recovery.thy ===== *)
theory Tm_Recovery
  imports Tm_Coord
begin

text \<open>
  Recovery of distributed transactions (\<^verbatim>\<open>cdb/cdbdtxrecovery.c\<close>): replaying the log after a crash, finishing the
  transactions that were committed but not everywhere, and aborting those that were prepared only. The part of checkpoints that belongs to it is in
  \<^verbatim>\<open>storage/ipc/procarray.c\<close>.
\<close>

section \<open>Replay\<close>

datatype redo_error = Too_many_gxacts DistributedTransactionId

definition redoDistributedCommitRecord ::
  "nat \<Rightarrow> DistributedTransactionId \<Rightarrow> DistributedTransactionId list \<Rightarrow> redo_error + DistributedTransactionId list" where
  "redoDistributedCommitRecord max_tm_gxacts g arr =
     (if g \<in> set arr then Inr arr
      else if length arr \<ge> max_tm_gxacts then Inl (Too_many_gxacts g)
      else Inr (arr @ [g]))"

fun find_gx :: "DistributedTransactionId \<Rightarrow> DistributedTransactionId list \<Rightarrow> nat option" where
  "find_gx g [] = None"
| "find_gx g (x # xs) = (if g = x then Some 0 else map_option Suc (find_gx g xs))"

text \<open>The last one moves into the gap. A hot standby advances the newest completed id.\<close>

definition redoDistributedForgetCommitRecord ::
  "bool \<Rightarrow> DistributedTransactionId \<Rightarrow> DistributedTransactionId list \<times> DistributedTransactionId \<Rightarrow> DistributedTransactionId list \<times> DistributedTransactionId" where
  "redoDistributedForgetCommitRecord is_hot_standby_qd g st =
     (case st of (arr, latest) \<Rightarrow>
        case find_gx g arr of
          None \<Rightarrow> (arr, latest)
        | Some i \<Rightarrow> (butlast (arr[i := last arr]), if is_hot_standby_qd \<and> g > latest then g else latest))"

fun redoDtxCheckPoint :: "nat \<Rightarrow> DistributedTransactionId list \<Rightarrow> DistributedTransactionId list \<Rightarrow> redo_error + DistributedTransactionId list" where
  "redoDtxCheckPoint max_tm_gxacts [] arr = Inr arr"
| "redoDtxCheckPoint max_tm_gxacts (g # gs) arr = rbind (redoDistributedCommitRecord max_tm_gxacts g arr) (redoDtxCheckPoint max_tm_gxacts gs)"

fun redo_records :: "nat \<Rightarrow> dtx_record list \<Rightarrow> DistributedTransactionId list \<Rightarrow> redo_error + DistributedTransactionId list" where
  "redo_records max_tm_gxacts [] arr = Inr arr"
| "redo_records max_tm_gxacts (Distributed_commit g # rs) arr = rbind (redoDistributedCommitRecord max_tm_gxacts g arr) (redo_records max_tm_gxacts rs)"
| "redo_records max_tm_gxacts (Distributed_forget g # rs) arr = redo_records max_tm_gxacts rs (fst (redoDistributedForgetCommitRecord False g (arr, 0)))"

definition tm_redo :: "nat \<Rightarrow> tm_log \<Rightarrow> redo_error + DistributedTransactionId list" where
  "tm_redo max_tm_gxacts lg = rbind (redoDtxCheckPoint max_tm_gxacts (lg_base lg) []) (redo_records max_tm_gxacts (lg_recs lg))"

section \<open>Checkpoints\<close>

text \<open>\<^verbatim>\<open>getDtxCheckPointInfo\<close>: the array of recovery, and the running transactions that have their commit record.\<close>

definition getDtxCheckPointInfo ::
  "bool \<Rightarrow> DistributedTransactionId list \<Rightarrow> (DistributedTransactionId \<Rightarrow> bool) \<Rightarrow> DistributedTransactionId list \<Rightarrow> DistributedTransactionId list" where
  "getDtxCheckPointInfo IS_QUERY_DISPATCHER committed inCkpt procs = (if \<not> IS_QUERY_DISPATCHER then [] else committed @ filter inCkpt procs)"

definition IsDtxInProgress :: "DistributedTransactionId \<Rightarrow> DistributedTransactionId list \<Rightarrow> bool" where
  "IsDtxInProgress g procs \<longleftrightarrow> g \<in> set procs"

section \<open>The recovery process\<close>

text \<open>It has its own connections, to processes without a transaction, and dispatches to all segments.\<close>

definition recovery_dispatch :: "nat list \<Rightarrow> DtxProtocolCommand \<Rightarrow> string \<Rightarrow> reply \<Rightarrow> world \<Rightarrow> bool \<times> world" where
  "recovery_dispatch components cmd gid reply w =
     (case doDispatchDtxProtocolCommand cmd gid False components reply (new_session, w) of (r, x, w) \<Rightarrow> (r = Returned True, w))"

definition doNotifyCommittedInDoubt :: "nat list \<Rightarrow> string \<Rightarrow> reply \<Rightarrow> world \<Rightarrow> tm_result \<times> world" where
  "doNotifyCommittedInDoubt components gid reply w =
     (case recovery_dispatch components DTX_PROTOCOL_COMMAND_RECOVERY_COMMIT_PREPARED gid reply w of
        (succeeded, w) \<Rightarrow> (if succeeded then Tm_done else Tm_fatal, w))"

text \<open>A failed abort drops the connections, which are idle; it is tried again later.\<close>

definition doAbortInDoubt :: "nat list \<Rightarrow> string \<Rightarrow> reply \<Rightarrow> world \<Rightarrow> world" where
  "doAbortInDoubt components gid reply w =
     snd (recovery_dispatch components DTX_PROTOCOL_COMMAND_RECOVERY_ABORT_PREPARED gid reply w)"

text \<open>
  The prepared transactions of all segments, without duplicates. \<open>answers s = None\<close>: the query failed on segment \<open>s\<close>;
  otherwise it tells which of them are old enough.
\<close>

definition gatherRMInDoubtTransactions ::
  "nat list \<Rightarrow> (nat \<Rightarrow> (string \<Rightarrow> bool) option) \<Rightarrow> bool \<Rightarrow> world \<Rightarrow> tm_result + string list" where
  "gatherRMInDoubtTransactions components answers raiseError w =
     (if \<exists>s \<in> set components. answers s = None then if raiseError then Inl Tm_error else Inr []
      else Inr (remdups (concat (map (\<lambda>s. filter (the (answers s)) (prepXacts (w_segs w s))) components))))"

primrec abortRMInDoubtTransactions :: "nat list \<Rightarrow> (string \<Rightarrow> reply) \<Rightarrow> string list \<Rightarrow> world \<Rightarrow> world" where
  "abortRMInDoubtTransactions components replies [] w = w"
| "abortRMInDoubtTransactions components replies (gid # gids) w =
     abortRMInDoubtTransactions components replies gids (doAbortInDoubt components gid (replies gid) w)"

text \<open>The committed transactions in order; a failure ends the process, and a new one starts again from the first.\<close>

primrec recover_committed :: "nat list \<Rightarrow> (DistributedTransactionId \<Rightarrow> reply) \<Rightarrow> DistributedTransactionId list \<Rightarrow> world \<Rightarrow> tm_result \<times> world" where
  "recover_committed components replies [] w = (Tm_done, w)"
| "recover_committed components replies (g # gs) w =
     (case doNotifyCommittedInDoubt components (dtxFormGid g) (replies g) w of
        (Tm_done, w) \<Rightarrow> recover_committed components replies gs (RecordDistributedForgetCommitted g w)
      | r \<Rightarrow> r)"

definition recoverInDoubtTransactions ::
  "nat list \<Rightarrow> (DistributedTransactionId \<Rightarrow> reply) \<Rightarrow> (nat \<Rightarrow> (string \<Rightarrow> bool) option) \<Rightarrow> (string \<Rightarrow> reply) \<Rightarrow> DistributedTransactionId list \<Rightarrow> world \<Rightarrow>
   tm_result \<times> DistributedTransactionId list \<times> world" where
  "recoverInDoubtTransactions components replies answers replies' committed w =
     (case recover_committed components replies committed w of
        (Tm_done, w) \<Rightarrow>
          (case gatherRMInDoubtTransactions components answers True w of
             Inl r \<Rightarrow> (r, [], w)
           | Inr gids \<Rightarrow> (Tm_done, [], abortRMInDoubtTransactions components replies' gids w))
      | (r, w) \<Rightarrow> (r, committed, w))"

text \<open>The transactions that no session works on any more. An identifier that is not a number is an error, which ends the process.\<close>

definition abort_orphan :: "nat list \<Rightarrow> DistributedTransactionId list \<Rightarrow> reply \<Rightarrow> string \<Rightarrow> world \<Rightarrow> tm_result \<times> world" where
  "abort_orphan components procs reply gid w =
     (case dtxDeformGid False gid of
        Inl _ \<Rightarrow> (Tm_error, w)
      | Inr g \<Rightarrow> (Tm_done, if IsDtxInProgress g procs then w else doAbortInDoubt components gid reply w))"

primrec abortOrphanedTransactions :: "nat list \<Rightarrow> DistributedTransactionId list \<Rightarrow> (string \<Rightarrow> reply) \<Rightarrow> string list \<Rightarrow> world \<Rightarrow> tm_result \<times> world" where
  "abortOrphanedTransactions components procs replies [] w = (Tm_done, w)"
| "abortOrphanedTransactions components procs replies (gid # gids) w =
     (case abort_orphan components procs (replies gid) gid w of
        (Tm_done, w) \<Rightarrow> abortOrphanedTransactions components procs replies gids w
      | r \<Rightarrow> r)"

definition AbortOrphanedPreparedTransactions ::
  "nat list \<Rightarrow> DistributedTransactionId list \<Rightarrow> (nat \<Rightarrow> (string \<Rightarrow> bool) option) \<Rightarrow> (string \<Rightarrow> reply) \<Rightarrow> world \<Rightarrow> tm_result \<times> world" where
  "AbortOrphanedPreparedTransactions components procs answers replies w =
     (case gatherRMInDoubtTransactions components answers False w of
        Inl r \<Rightarrow> (r, w)
      | Inr gids \<Rightarrow> abortOrphanedTransactions components procs replies gids w)"

end
