(* ===== verification/Tm_Cluster.thy ===== *)
theory Tm_Cluster
  imports Tm_Recovery
begin

text \<open>
  A coordinator with its sessions, its log and its recovery process, and the segments, as one state machine. Every step of a session, of the recovery
  process and of a checkpoint is one of the functions of the code between two points where others can act; in between, pending
  commands are carried out late, processes and connections are lost, and the coordinator crashes.
\<close>

section \<open>State\<close>

text \<open>What the recovery process does: notifying the committed transactions from an index on, aborting the rest, or looking for orphans.\<close>

datatype rec_phase = Rec_commit nat | Rec_abort "string list" | Rec_started "string list"

record cluster =
  cl_world :: world
  cl_sessions :: "DistributedTransactionId \<Rightarrow> session option"
  cl_procs :: "DistributedTransactionId list"
  cl_committed :: "DistributedTransactionId list"
  cl_phase :: rec_phase

definition empty_cluster :: cluster where
  "empty_cluster = \<lparr>cl_world = \<lparr>w_segs = (\<lambda>_. \<lparr>prepXacts = [], finished = []\<rparr>), w_pending = (\<lambda>_ _. []),
       w_log = \<lparr>lg_base = [], lg_recs = [], lg_flushed = 0, lg_ckpt = None\<rparr>, shmDtxRecoveryEvents = DTX_RECOVERY_EVENT_ABORT_PREPARED\<rparr>,
     cl_sessions = (\<lambda>_. None), cl_procs = [], cl_committed = [], cl_phase = Rec_started []\<rparr>"

section \<open>Steps of a session\<close>

definition put :: "DistributedTransactionId \<Rightarrow> sw \<Rightarrow> cluster \<Rightarrow> cluster" where
  "put g xw c = c\<lparr>cl_sessions := (cl_sessions c)(g := Some (fst xw)), cl_world := snd xw\<rparr>"

definition begin_dtx :: "DistributedTransactionId \<Rightarrow> cluster \<Rightarrow> cluster" where
  "begin_dtx g c = c\<lparr>cl_sessions := (cl_sessions c)(g := Some (snd (setupDtxTransaction (snd (setupRegularDtxContext True new_session))))),
     cl_procs := cl_procs c @ [g]\<rparr>"

text \<open>A statement on one segment, which may write there and give the coordinator a local transaction id.\<close>

definition dispatch_statement :: "DistributedTransactionId \<Rightarrow> nat \<Rightarrow> command_env \<Rightarrow> bool \<Rightarrow> bool \<Rightarrow> sw \<Rightarrow> sw" where
  "dispatch_statement g s env wrote xid xw =
     (case xw of (x, w) \<Rightarrow>
        case run_statement env (dtxFormGid g) (sx_qes x s) (w_segs w s) of
          (a, q, sg) \<Rightarrow>
            ((addToGxactDtxSegments [s] x)\<lparr>sx_qes := (sx_qes x)(s := q), sx_wrote := (sx_wrote x \<or> wrote), sx_xid := (sx_xid x \<or> xid)\<rparr>,
             w\<lparr>w_segs := (w_segs w)(s := sg)\<rparr>))"

text \<open>A writer process of the transaction is still there.\<close>

definition gang_alive :: "session \<Rightarrow> nat \<Rightarrow> bool" where
  "gang_alive x s \<longleftrightarrow> (s \<in> set (dtxSegments x) \<longrightarrow> qe_context (sx_qes x s) \<noteq> DTX_CONTEXT_LOCAL_ONLY)"

definition lose_process :: "DistributedTransactionId \<Rightarrow> nat \<Rightarrow> sw \<Rightarrow> sw" where
  "lose_process g s xw =
     (case xw of (x, w) \<Rightarrow>
        (x\<lparr>sx_qes := (sx_qes x)(s := fresh_qe)\<rparr>,
         w\<lparr>w_pending := (w_pending w)(s := (w_pending w s)(dtxFormGid g := w_pending w s (dtxFormGid g) @ [(None, sx_qes x s)]))\<rparr>))"

text \<open>The end of the transaction in the process array; its writer processes go on without it.\<close>

definition end_dtx :: "DistributedTransactionId \<Rightarrow> cluster \<Rightarrow> cluster" where
  "end_dtx g c = (case cl_sessions c g of
     None \<Rightarrow> c
   | Some x \<Rightarrow> c\<lparr>cl_world := snd (ResetAllGangs (dtxFormGid g) (x, cl_world c)), cl_sessions := (cl_sessions c)(g := None),
       cl_procs := filter (\<lambda>h. h \<noteq> g) (cl_procs c)\<rparr>)"

section \<open>Late commands\<close>

text \<open>A process without a connection finishes its command, or not, and exits.\<close>

definition late_segment :: "command_env option \<Rightarrow> string \<Rightarrow> DtxProtocolCommand option \<times> qe \<Rightarrow> segment \<Rightarrow> segment" where
  "late_segment ro gid e sg =
     (case (ro, fst e) of
        (Some env, Some cmd) \<Rightarrow> (case performDtxProtocolCommand env cmd gid (snd e) sg of (a, q, sg) \<Rightarrow> abort_open gid q sg)
      | _ \<Rightarrow> abort_open gid (snd e) sg)"

definition run_late :: "nat \<Rightarrow> string \<Rightarrow> nat \<Rightarrow> command_env option \<Rightarrow> cluster \<Rightarrow> cluster" where
  "run_late s gid i ro c =
     (let w = cl_world c; es = w_pending w s gid
      in c\<lparr>cl_world := w\<lparr>w_segs := (w_segs w)(s := late_segment ro gid (es ! i) (w_segs w s)),
            w_pending := (w_pending w)(s := (w_pending w s)(gid := take i es @ drop (Suc i) es))\<rparr>\<rparr>)"

section \<open>Crash and recovery of the coordinator\<close>

text \<open>A crash keeps the first \<open>k\<close> records of the log; the rest of the memory is lost, and all connections.\<close>

definition crashed_log :: "nat \<Rightarrow> tm_log \<Rightarrow> tm_log" where
  "crashed_log k lg = lg\<lparr>lg_recs := take k (lg_recs lg), lg_flushed := min k (length (lg_recs lg)), lg_ckpt := None\<rparr>"

definition disconnect_all :: "cluster \<Rightarrow> pending" where
  "disconnect_all c = (\<lambda>s gid. w_pending (cl_world c) s gid @
     (case dtxDeformGid False gid of
        Inl _ \<Rightarrow> []
      | Inr g \<Rightarrow> (case cl_sessions c g of Some x \<Rightarrow> if gid = dtxFormGid g then [(None, sx_qes x s)] else [] | None \<Rightarrow> [])))"

definition crash :: "nat \<Rightarrow> DistributedTransactionId list \<Rightarrow> cluster \<Rightarrow> cluster" where
  "crash k arr c = c\<lparr>cl_world := (cl_world c)\<lparr>w_log := crashed_log k (w_log (cl_world c)), w_pending := disconnect_all c,
       shmDtxRecoveryEvents := DTX_RECOVERY_EVENT_ABORT_PREPARED\<rparr>,
     cl_sessions := (\<lambda>_. None), cl_procs := [], cl_committed := arr, cl_phase := Rec_commit 0\<rparr>"

definition rec_commit :: "nat list \<Rightarrow> nat \<Rightarrow> reply \<Rightarrow> cluster \<Rightarrow> cluster" where
  "rec_commit comps i reply c =
     (let g = cl_committed c ! i
      in case doNotifyCommittedInDoubt comps (dtxFormGid g) reply (cl_world c) of
           (Tm_done, w) \<Rightarrow> c\<lparr>cl_world := RecordDistributedForgetCommitted g w, cl_phase := Rec_commit (Suc i)\<rparr>
         | (_, w) \<Rightarrow> c\<lparr>cl_world := w, cl_phase := Rec_commit 0\<rparr>)"

section \<open>Checkpoints\<close>

definition delayed :: "cluster \<Rightarrow> DistributedTransactionId \<Rightarrow> bool" where
  "delayed c g = (case cl_sessions c g of Some x \<Rightarrow> delayChkpt x | None \<Rightarrow> False)"

definition in_ckpt :: "cluster \<Rightarrow> DistributedTransactionId \<Rightarrow> bool" where
  "in_ckpt c g = (case cl_sessions c g of Some x \<Rightarrow> includeInCkpt x | None \<Rightarrow> False)"

definition on_log :: "(tm_log \<Rightarrow> tm_log) \<Rightarrow> cluster \<Rightarrow> cluster" where
  "on_log f c = c\<lparr>cl_world := (cl_world c)\<lparr>w_log := f (w_log (cl_world c))\<rparr>\<rparr>"

definition dtx_ckpt_begin :: "cluster \<Rightarrow> cluster" where
  "dtx_ckpt_begin c = on_log (\<lambda>lg. lg\<lparr>lg_ckpt := Some ([], filter (delayed c) (cl_procs c), None)\<rparr>) c"

definition dtx_ckpt_read :: "cluster \<Rightarrow> cluster" where
  "dtx_ckpt_read c = on_log (\<lambda>lg. lg\<lparr>lg_ckpt := map_option (\<lambda>(rs, ws, a).
     (rs, ws, Some (getDtxCheckPointInfo True (cl_committed c) (in_ckpt c) (cl_procs c)))) (lg_ckpt lg)\<rparr>) c"

definition dtx_ckpt_end :: "tm_log \<Rightarrow> tm_log" where
  "dtx_ckpt_end lg = (case lg_ckpt lg of
     Some (rs, ws, Some a) \<Rightarrow> lg\<lparr>lg_base := a, lg_recs := rs, lg_flushed := length rs, lg_ckpt := None\<rparr>
   | _ \<Rightarrow> lg)"

section \<open>All runs\<close>

definition writers :: "reply \<Rightarrow> bool" where
  "writers reply \<longleftrightarrow> (\<forall>s env. reply s = Some env \<longrightarrow> writer_env env)"

definition before_commit :: "DtxState \<Rightarrow> bool" where
  "before_commit st \<longleftrightarrow> st \<in> {DTX_STATE_ACTIVE_DISTRIBUTED, DTX_STATE_ONE_PHASE_COMMIT, DTX_STATE_NOTIFYING_ONE_PHASE_COMMIT,
     DTX_STATE_PREPARING, DTX_STATE_PREPARED}"

definition aborting :: "DtxState \<Rightarrow> bool" where
  "aborting st \<longleftrightarrow> st \<in> {DTX_STATE_NOTIFYING_ABORT_NO_PREPARED, DTX_STATE_NOTIFYING_ABORT_SOME_PREPARED,
     DTX_STATE_NOTIFYING_ABORT_PREPARED, DTX_STATE_RETRY_ABORT_PREPARED}"

text \<open>
  A state with the ids handed out so far, and the transactions whose commit record is in the log, with the segments they are prepared on.
  An id comes from the generator of \<^theory_text>\<open>Tm_Gxid\<close>. A crash that loses the record of a transaction takes it back.
\<close>

type_synonym decisions = "DistributedTransactionId \<Rightarrow> nat list option"

definition surviving :: "nat \<Rightarrow> tm_log \<Rightarrow> decisions \<Rightarrow> decisions" where
  "surviving k lg dec = (\<lambda>g. if Distributed_commit g \<in> set (drop k (lg_recs lg)) then None else dec g)"

inductive cluster_run :: "nat \<Rightarrow> nat \<Rightarrow> nat list \<Rightarrow> cluster \<Rightarrow> DistributedTransactionId list \<Rightarrow> decisions \<Rightarrow> bool"
  for n :: nat and mx :: nat and comps :: "nat list" where
  init: "cluster_run n mx comps empty_cluster [] (\<lambda>_. None)"
| begin_session: "cluster_run n mx comps c gs dec \<Longrightarrow> cl_phase c = Rec_started gids \<Longrightarrow> gxid_run n gen (g # gs) \<Longrightarrow>
    cluster_run n mx comps (begin_dtx g c) (g # gs) dec"
| statement: "cluster_run n mx comps c gs dec \<Longrightarrow> cl_sessions c g = Some x \<Longrightarrow> sx_state x = DTX_STATE_ACTIVE_DISTRIBUTED \<Longrightarrow>
    s \<in> set comps \<Longrightarrow> gang_alive x s \<Longrightarrow> writer_env env \<Longrightarrow>
    cluster_run n mx comps (put g (dispatch_statement g s env wrote xid (x, cl_world c)) c) gs dec"
| subtransaction: "cluster_run n mx comps c gs dec \<Longrightarrow> cl_sessions c g = Some x \<Longrightarrow> sx_state x = DTX_STATE_ACTIVE_DISTRIBUTED \<Longrightarrow>
    \<forall>s \<in> set comps. gang_alive x s \<Longrightarrow> writers reply \<Longrightarrow>
    cmd \<in> {DTX_PROTOCOL_COMMAND_SUBTRANSACTION_BEGIN_INTERNAL, DTX_PROTOCOL_COMMAND_SUBTRANSACTION_RELEASE_INTERNAL,
      DTX_PROTOCOL_COMMAND_SUBTRANSACTION_ROLLBACK_INTERNAL} \<Longrightarrow>
    cluster_run n mx comps (put g (snd (doDispatchSubtransactionInternalCmd comps g cmd reply (x, cl_world c))) c) gs dec"
| prepare: "cluster_run n mx comps c gs dec \<Longrightarrow> cl_sessions c g = Some x \<Longrightarrow> sx_state x = DTX_STATE_ACTIVE_DISTRIBUTED \<Longrightarrow> writers reply \<Longrightarrow>
    cluster_run n mx comps (put g (snd (prepareDtxTransaction interrupted g reply (x, cl_world c))) c) gs dec"
| enter: "cluster_run n mx comps c gs dec \<Longrightarrow> cl_sessions c g = Some x \<Longrightarrow> sx_state x = DTX_STATE_PREPARED \<Longrightarrow>
    cluster_run n mx comps (put g (commit_enter x, cl_world c) c) gs dec"
| insert_record: "cluster_run n mx comps c gs dec \<Longrightarrow> cl_sessions c g = Some x \<Longrightarrow> sx_state x = DTX_STATE_INSERTING_COMMITTED \<Longrightarrow>
    Distributed_commit g \<notin> set (lg_recs (w_log (cl_world c))) \<Longrightarrow>
    cluster_run n mx comps (put g (x, commit_record g (cl_world c)) c) gs (dec(g := Some (dtxSegments x)))"
| inserted: "cluster_run n mx comps c gs dec \<Longrightarrow> cl_sessions c g = Some x \<Longrightarrow> sx_state x = DTX_STATE_INSERTING_COMMITTED \<Longrightarrow>
    Distributed_commit g \<in> set (lg_recs (w_log (cl_world c))) \<Longrightarrow>
    cluster_run n mx comps (put g (insertedDistributedCommitted x, cl_world c) c) gs dec"
| flush: "cluster_run n mx comps c gs dec \<Longrightarrow> cl_sessions c g = Some x \<Longrightarrow> sx_state x = DTX_STATE_INSERTED_COMMITTED \<Longrightarrow> delayChkpt x \<Longrightarrow>
    cluster_run n mx comps (put g (commit_flush (x, cl_world c)) c) gs dec"
| notify: "cluster_run n mx comps c gs dec \<Longrightarrow> cl_sessions c g = Some x \<Longrightarrow> sx_state x = DTX_STATE_INSERTED_COMMITTED \<Longrightarrow> \<not> delayChkpt x \<Longrightarrow>
    writers reply \<Longrightarrow> cluster_run n mx comps (put g (notify_first g reply (x, cl_world c)) c) gs dec"
| notify_again: "cluster_run n mx comps c gs dec \<Longrightarrow> cl_sessions c g = Some x \<Longrightarrow> sx_state x = DTX_STATE_RETRY_COMMIT_PREPARED \<Longrightarrow> \<not> sx_succeeded x \<Longrightarrow>
    writers reply \<Longrightarrow> cluster_run n mx comps (put g (notify_retry g reply (x, cl_world c)) c) gs dec"
| forget: "cluster_run n mx comps c gs dec \<Longrightarrow> cl_sessions c g = Some x \<Longrightarrow>
    sx_state x \<in> {DTX_STATE_NOTIFYING_COMMIT_PREPARED, DTX_STATE_RETRY_COMMIT_PREPARED} \<Longrightarrow> sx_succeeded x \<Longrightarrow>
    cluster_run n mx comps (put g (doInsertForgetCommitted g (x, cl_world c)) c) gs dec"
| rollback: "cluster_run n mx comps c gs dec \<Longrightarrow> cl_sessions c g = Some x \<Longrightarrow> before_commit (sx_state x) \<Longrightarrow>
    cluster_run n mx comps (put g (snd (rollback_begin proc_exit g (x, cl_world c))) c) gs dec"
| abort: "cluster_run n mx comps c gs dec \<Longrightarrow> cl_sessions c g = Some x \<Longrightarrow> aborting (sx_state x) \<Longrightarrow> writers reply \<Longrightarrow>
    cluster_run n mx comps (put g (snd (abort_first g reply (x, cl_world c))) c) gs dec"
| abort_again: "cluster_run n mx comps c gs dec \<Longrightarrow> cl_sessions c g = Some x \<Longrightarrow> sx_state x = DTX_STATE_RETRY_ABORT_PREPARED \<Longrightarrow> writers reply \<Longrightarrow>
    cluster_run n mx comps (put g (abort_retry comps g reply (x, cl_world c)) c) gs dec"
| end_session: "cluster_run n mx comps c gs dec \<Longrightarrow> cl_sessions c g = Some x \<Longrightarrow>
    before_commit (sx_state x) \<or> aborting (sx_state x) \<or> sx_state x = DTX_STATE_INSERTED_FORGET_COMMITTED \<Longrightarrow>
    cluster_run n mx comps (end_dtx g c) gs dec"
| lose: "cluster_run n mx comps c gs dec \<Longrightarrow> cl_sessions c g = Some x \<Longrightarrow>
    cluster_run n mx comps (put g (lose_process g s (x, cl_world c)) c) gs dec"
| late: "cluster_run n mx comps c gs dec \<Longrightarrow> i < length (w_pending (cl_world c) s gid) \<Longrightarrow> \<forall>env. ro = Some env \<longrightarrow> writer_env env \<Longrightarrow>
    cluster_run n mx comps (run_late s gid i ro c) gs dec"
| crashes: "cluster_run n mx comps c gs dec \<Longrightarrow> lg_flushed (w_log (cl_world c)) \<le> k \<Longrightarrow> tm_redo mx (crashed_log k (w_log (cl_world c))) = Inr arr \<Longrightarrow>
    cluster_run n mx comps (crash k arr c) gs (surviving k (w_log (cl_world c)) dec)"
| recover_commit: "cluster_run n mx comps c gs dec \<Longrightarrow> cl_phase c = Rec_commit i \<Longrightarrow> i < length (cl_committed c) \<Longrightarrow> writers reply \<Longrightarrow>
    cluster_run n mx comps (rec_commit comps i reply c) gs dec"
| recover_gather: "cluster_run n mx comps c gs dec \<Longrightarrow> cl_phase c = Rec_commit (length (cl_committed c)) \<Longrightarrow>
    gatherRMInDoubtTransactions comps answers True (cl_world c) = Inr gids \<Longrightarrow> set gids' = set gids \<Longrightarrow>
    cluster_run n mx comps (c\<lparr>cl_committed := [], cl_phase := Rec_abort gids'\<rparr>) gs dec"
| recover_restart: "cluster_run n mx comps c gs dec \<Longrightarrow> cl_phase c = Rec_commit (length (cl_committed c)) \<Longrightarrow>
    cluster_run n mx comps (c\<lparr>cl_committed := [], cl_phase := Rec_commit 0\<rparr>) gs dec"
| recover_abort: "cluster_run n mx comps c gs dec \<Longrightarrow> cl_phase c = Rec_abort (gid # gids) \<Longrightarrow> writers reply \<Longrightarrow>
    cluster_run n mx comps (c\<lparr>cl_world := doAbortInDoubt comps gid reply (cl_world c), cl_phase := Rec_abort gids\<rparr>) gs dec"
| recover_done: "cluster_run n mx comps c gs dec \<Longrightarrow> cl_phase c = Rec_abort [] \<Longrightarrow>
    cluster_run n mx comps (c\<lparr>cl_phase := Rec_started []\<rparr>) gs dec"
| orphan_gather: "cluster_run n mx comps c gs dec \<Longrightarrow> cl_phase c = Rec_started [] \<Longrightarrow>
    gatherRMInDoubtTransactions comps answers False (cl_world c) = Inr gids \<Longrightarrow> set gids' = set gids \<Longrightarrow>
    cluster_run n mx comps (c\<lparr>cl_phase := Rec_started gids'\<rparr>) gs dec"
| orphan_abort: "cluster_run n mx comps c gs dec \<Longrightarrow> cl_phase c = Rec_started (gid # gids) \<Longrightarrow> writers reply \<Longrightarrow>
    abort_orphan comps (cl_procs c) reply gid (cl_world c) = (r, w) \<Longrightarrow>
    cluster_run n mx comps (c\<lparr>cl_world := w, cl_phase := Rec_started (if r = Tm_done then gids else [])\<rparr>) gs dec"
| ckpt_start: "cluster_run n mx comps c gs dec \<Longrightarrow> cluster_run n mx comps (dtx_ckpt_begin c) gs dec"
| ckpt_info: "cluster_run n mx comps c gs dec \<Longrightarrow> lg_ckpt (w_log (cl_world c)) = Some (rs, ws, None) \<Longrightarrow> \<forall>g \<in> set ws. \<not> delayed c g \<Longrightarrow>
    cluster_run n mx comps (dtx_ckpt_read c) gs dec"
| ckpt_write: "cluster_run n mx comps c gs dec \<Longrightarrow> cluster_run n mx comps (on_log dtx_ckpt_end c) gs dec"

end
