(* ===== verification/Tm_Parts.thy ===== *)
theory Tm_Parts
  imports Tm_Cluster
begin

text \<open>
  What a segment holds of one distributed transaction, and how a command changes it: the weight of the part, whether it is prepared, whether it
  has been committed, and the commands that are still pending for it. Dispatching a command acts on the part of every addressed
  segment on its own.
\<close>

section \<open>Parts\<close>

text \<open>A pending command can still end the local transaction of its process, and a pending begin can still open one.\<close>

definition pweight :: "DtxProtocolCommand option \<times> qe \<Rightarrow> nat" where
  "pweight e = (if is_open (snd e) \<or> fst e = Some DTX_PROTOCOL_COMMAND_SUBTRANSACTION_BEGIN_INTERNAL \<and> qe_context (snd e) = DTX_CONTEXT_LOCAL_ONLY
     then 1 else 0)"

record part =
  p_weight :: nat
  p_prep :: bool
  p_comm :: bool
  p_pend :: "DtxProtocolCommand option set"

definition part_of :: "string \<Rightarrow> qe \<Rightarrow> segment \<Rightarrow> (DtxProtocolCommand option \<times> qe) list \<Rightarrow> part" where
  "part_of gid q sg es = \<lparr>p_weight = open_weight q + sum_list (map pweight es) + stored gid sg, p_prep = (gid \<in> set (prepXacts sg)),
     p_comm = ((gid, Committed_prepared) \<in> set (finished sg)), p_pend = fst ` set es\<rparr>"

definition is_commit :: "DtxProtocolCommand option \<Rightarrow> bool" where
  "is_commit co = (case co of Some c \<Rightarrow> commit_cmd c | None \<Rightarrow> False)"

definition is_abort :: "DtxProtocolCommand option \<Rightarrow> bool" where
  "is_abort co = (case co of Some c \<Rightarrow> abort_cmd c | None \<Rightarrow> False)"

text \<open>What a command can do to the part; only an open local transaction becomes a prepared one.\<close>

definition part_step :: "DtxProtocolCommand option \<Rightarrow> part \<Rightarrow> part \<Rightarrow> bool" where
  "part_step co p p' \<longleftrightarrow>
     (p_comm p \<longrightarrow> p_comm p') \<and>
     (p_comm p' \<longrightarrow> p_comm p \<or> is_commit co) \<and>
     (p_prep p' \<longrightarrow> p_prep p \<or> 0 < p_weight p \<and> \<not> p_comm p) \<and>
     (p_prep p \<longrightarrow> p_prep p' \<or> is_commit co \<and> p_comm p' \<or> is_abort co) \<and>
     p_pend p' \<subseteq> insert co (p_pend p) \<and>
     (p_prep p' \<or> p_comm p' \<longrightarrow> 0 < p_weight p')"

lemma is_commit_simps [simp]: "\<not> is_commit None" "is_commit (Some c) = commit_cmd c"
  by (simp_all add: is_commit_def)

lemma is_abort_simps [simp]: "\<not> is_abort None" "is_abort (Some c) = abort_cmd c"
  by (simp_all add: is_abort_def)

lemma stored_pos: "gid \<in> set (prepXacts sg) \<Longrightarrow> 0 < stored gid sg" "(gid, r) \<in> set (finished sg) \<Longrightarrow> 0 < stored gid sg"
  using count_list_0_iff [of "prepXacts sg" gid] count_list_0_iff [of "map fst (finished sg)" gid]
  by (force simp: stored_def)+

lemma part_of_pos: "p_prep (part_of gid q sg es) \<or> p_comm (part_of gid q sg es) \<Longrightarrow> 0 < p_weight (part_of gid q sg es)"
  by (auto simp: part_of_def dest: stored_pos)

lemma part_of_others:
  assumes "others_same gid sg sg'" "h \<noteq> gid"
  shows "part_of h q sg' es = part_of h q sg es"
proof -
  have "h \<in> set (prepXacts sg') \<longleftrightarrow> h \<in> set (prepXacts sg)"
    using assms count_list_0_iff [of "prepXacts sg'" h] count_list_0_iff [of "prepXacts sg" h] by (simp add: others_same_def)
  then show ?thesis using assms by (simp add: part_of_def others_same_def stored_def)
qed

section \<open>Effects on parts\<close>

lemma pweight_open: "open_weight q \<le> pweight (co, q)"
  by (simp add: pweight_def open_weight_def)

lemma pweight_None [simp]: "pweight (None, q) = open_weight q"
  by (simp add: pweight_def open_weight_def)

text \<open>The effect of a command in the process of the session, and in a process that has lost its session.\<close>

lemma effect_part:
  assumes e: "has_effect gid e q sg q' sg'" "e \<noteq> Commit_prepared \<or> is_commit co" "e \<noteq> Abort_prepared \<or> is_abort co"
    and w: "p_weight p \<le> 1" "open_weight q + stored gid sg \<le> p_weight p"
    and p: "p_prep p = (gid \<in> set (prepXacts sg))" "p_comm p = ((gid, Committed_prepared) \<in> set (finished sg))"
    and p': "p_prep p' = (gid \<in> set (prepXacts sg'))" "p_comm p' = ((gid, Committed_prepared) \<in> set (finished sg'))"
      "p_pend p' \<subseteq> insert co (p_pend p)" "p_prep p' \<or> p_comm p' \<longrightarrow> 0 < p_weight p'"
  shows "part_step co p p'"
proof -
  have c: "\<not> p_comm p" if "is_open q"
    using that w p(2) stored_pos(2) [of gid Committed_prepared sg] by (auto simp: open_weight_def)
  have m: "set (prepXacts sg) = insert gid (set (prepXacts sg'))" if "mset (prepXacts sg) = add_mset gid (mset (prepXacts sg'))"
    using arg_cong [OF that, of set_mset] by simp
  show ?thesis using e w(2) p p' c m
    by (cases e) (auto simp: part_step_def adds_def open_weight_def)
qed

definition begin_cmd :: "DtxProtocolCommand \<Rightarrow> qe \<Rightarrow> bool" where
  "begin_cmd cmd q \<longleftrightarrow> cmd = DTX_PROTOCOL_COMMAND_SUBTRANSACTION_BEGIN_INTERNAL \<and> qe_context q = DTX_CONTEXT_LOCAL_ONLY"

lemma runs_weight:
  assumes "effect_allowed cmd e" "has_effect gid e q sg q' sg'"
  shows "open_weight q' + stored gid sg' \<le> open_weight q + stored gid sg + (if begin_cmd cmd q then 1 else 0)"
  using effect_weight [OF assms(2)] assms by (cases e) (auto simp: begin_cmd_def)

lemma allowed_effects:
  "effect_allowed cmd e \<Longrightarrow> e \<noteq> Commit_prepared \<or> is_commit (Some cmd)"
  "effect_allowed cmd e \<Longrightarrow> e \<noteq> Abort_prepared \<or> is_abort (Some cmd)"
  by (cases e; simp)+

section \<open>Dispatching\<close>

text \<open>The part of a transaction on a segment, with the processes of a session.\<close>

definition sw_part :: "string \<Rightarrow> sw \<Rightarrow> nat \<Rightarrow> part" where
  "sw_part gid xw s = part_of gid (sx_qes (fst xw) s) (w_segs (snd xw) s) (w_pending (snd xw) s gid)"

text \<open>What one segment does with a command; \<open>ok\<close>: it has accepted the command.\<close>

definition seg_done :: "DtxProtocolCommand \<Rightarrow> string \<Rightarrow> bool \<Rightarrow> nat \<Rightarrow> sw \<Rightarrow> sw \<Rightarrow> bool" where
  "seg_done cmd gid ok s xw xw' \<longleftrightarrow>
     qe_wf (sx_qes (fst xw') s) \<and>
     others_same gid (w_segs (snd xw) s) (w_segs (snd xw') s) \<and>
     (\<forall>h. h \<noteq> gid \<longrightarrow> w_pending (snd xw') s h = w_pending (snd xw) s h) \<and>
     set (w_pending (snd xw') s gid) \<subseteq> insert (Some cmd, sx_qes (fst xw) s) (set (w_pending (snd xw) s gid)) \<and>
     p_weight (sw_part gid xw' s) \<le> p_weight (sw_part gid xw s) + (if begin_cmd cmd (sx_qes (fst xw) s) then 1 else 0) \<and>
     (p_weight (sw_part gid xw s) \<le> 1 \<longrightarrow> part_step (Some cmd) (sw_part gid xw s) (sw_part gid xw' s)) \<and>
     (ok \<longrightarrow> (\<exists>env ws. performDtxProtocolCommand env cmd gid (sx_qes (fst xw) s) (w_segs (snd xw) s) =
        ((QE_ok, ws), sx_qes (fst xw') s, w_segs (snd xw') s)))"

definition seg_same :: "nat \<Rightarrow> sw \<Rightarrow> sw \<Rightarrow> bool" where
  "seg_same s xw xw' \<longleftrightarrow> sx_qes (fst xw') s = sx_qes (fst xw) s \<and> w_segs (snd xw') s = w_segs (snd xw) s \<and> w_pending (snd xw') s = w_pending (snd xw) s"

definition rest_same :: "sw \<Rightarrow> sw \<Rightarrow> bool" where
  "rest_same xw xw' \<longleftrightarrow> w_log (snd xw') = w_log (snd xw) \<and> (\<exists>qs l. fst xw' = (fst xw)\<lparr>sx_qes := qs, writerGangLost := l\<rparr>)"

lemma rest_sameI: "w_log w' = w_log w \<Longrightarrow> rest_same (x, w) (x\<lparr>sx_qes := qs, writerGangLost := l\<rparr>, w')"
  unfolding rest_same_def fst_conv snd_conv by blast

lemma rest_same_trans: "rest_same a b \<Longrightarrow> rest_same b c \<Longrightarrow> rest_same a c"
  by (fastforce simp: rest_same_def)

lemma seg_done_cong:
  assumes "seg_done cmd gid ok s xw1 xw2" "seg_same s xw xw1" "seg_same s xw2 xw'" "ok' \<Longrightarrow> ok"
  shows "seg_done cmd gid ok' s xw xw'"
  using assms by (simp add: seg_done_def seg_same_def sw_part_def)

lemma seg_same_refl: "seg_same s xw xw"
  by (simp add: seg_same_def)

lemma seg_same_trans: "seg_same s a b \<Longrightarrow> seg_same s b c \<Longrightarrow> seg_same s a c"
  by (simp add: seg_same_def)

lemma dispatch_one_done:
  assumes "dispatch_one cmd gid reply s (x, w) = (r, x', w')" "writers reply" "qe_wf (sx_qes x s)"
  shows "seg_done cmd gid (r \<noteq> None \<and> res_ok (the r)) s (x, w) (x', w')"
proof (cases "reply s")
  case None
  let ?es = "w_pending w s gid"
  have x': "sx_qes x' s = fresh_qe" "w_segs w' s = w_segs w s" "w_pending w' s gid = ?es @ [(Some cmd, sx_qes x s)]"
    "\<forall>h. h \<noteq> gid \<longrightarrow> w_pending w' s h = w_pending w s h" "r = None"
    using assms(1) None by (auto simp: dispatch_one_def)
  moreover have "pweight (Some cmd, sx_qes x s) \<le> open_weight (sx_qes x s) + (if begin_cmd cmd (sx_qes x s) then 1 else 0)"
    by (auto simp: pweight_def open_weight_def begin_cmd_def)
  moreover have "others_same gid (w_segs w s) (w_segs w s)" by (simp add: others_same_def)
  ultimately show ?thesis using part_of_pos [of gid "sx_qes x s" "w_segs w s" ?es] pweight_open [of "sx_qes x s" "Some cmd"]
    by (auto simp: seg_done_def sw_part_def part_step_def part_of_def open_weight_def)
next
  case (Some env)
  obtain a ws q sg where p: "performDtxProtocolCommand env cmd gid (sx_qes x s) (w_segs w s) = ((a, ws), q, sg)" by (metis prod_cases4 surj_pair)
  have x': "sx_qes x' s = q" "w_segs w' s = sg" "w_pending w' = w_pending w" "r \<noteq> None \<and> res_ok (the r) \<longleftrightarrow> a = QE_ok"
    using assms(1) Some p by (auto simp: dispatch_one_def)
  have "writer_env env" using assms(2) Some by (simp add: writers_def)
  from performDtxProtocolCommand_runs [OF assms(3) this, of cmd gid "w_segs w s"] p
  obtain e where e: "effect_allowed cmd e" "has_effect gid e (sx_qes x s) (w_segs w s) q sg" "qe_wf q" by (auto simp: runs_def)
  let ?p = "part_of gid (sx_qes x s) (w_segs w s) (w_pending w s gid)" and ?p' = "part_of gid q sg (w_pending w s gid)"
  have "part_step (Some cmd) ?p ?p'" if "p_weight ?p \<le> 1"
    by (rule effect_part [OF e(2) allowed_effects [OF e(1)] that]) (use part_of_pos [of gid q sg] in \<open>auto simp: part_of_def\<close>)
  moreover have "p_weight ?p' \<le> p_weight ?p + (if begin_cmd cmd (sx_qes x s) then 1 else 0)"
    using runs_weight [OF e(1,2)] by (simp add: part_of_def)
  ultimately show ?thesis using x' e p effect_others [OF e(2)]
    by (auto simp: seg_done_def sw_part_def)
qed

lemma dispatch_one_frame:
  assumes "dispatch_one cmd gid reply s xw = (r, xw')"
  shows "rest_same xw xw' \<and> (t \<noteq> s \<longrightarrow> seg_same t xw xw')"
proof -
  obtain x w where xw: "xw = (x, w)" by (cases xw)
  show ?thesis
  proof (cases "reply s")
    case None
    then show ?thesis using assms xw by (auto simp: dispatch_one_def seg_same_def intro: rest_sameI)
  next
    case (Some env)
    obtain a ws q sg where "performDtxProtocolCommand env cmd gid (sx_qes x s) (w_segs w s) = ((a, ws), q, sg)" by (metis prod_cases4 surj_pair)
    then show ?thesis using assms xw Some by (auto simp: dispatch_one_def seg_same_def intro: rest_sameI)
  qed
qed

lemma dispatch_to_done:
  assumes "dispatch_to cmd gid reply ss xw = (rs, xw')" "writers reply" "\<forall>s. qe_wf (sx_qes (fst xw) s)" "distinct ss"
  shows "rest_same xw xw' \<and> (\<forall>s. s \<notin> set ss \<longrightarrow> seg_same s xw xw') \<and>
    (\<forall>s \<in> set ss. seg_done cmd gid (\<forall>r \<in> set rs. r \<noteq> None \<and> res_ok (the r)) s xw xw')"
  using assms
proof (induction ss arbitrary: xw rs)
  case Nil
  then show ?case by (auto simp: rest_same_def seg_same_def intro!: exI [of _ "sx_qes (fst xw)"] exI [of _ "writerGangLost (fst xw)"])
next
  case (Cons t ss)
  obtain r xw1 where r: "dispatch_one cmd gid reply t xw = (r, xw1)" by (metis surj_pair)
  obtain rs1 xw2 where rs: "dispatch_to cmd gid reply ss xw1 = (rs1, xw2)" by (metis surj_pair)
  have eq: "rs = r # rs1" "xw' = xw2" using Cons.prems(1) r rs by auto
  note f = dispatch_one_frame [OF r]
  have d: "seg_done cmd gid (r \<noteq> None \<and> res_ok (the r)) t xw xw1"
    using dispatch_one_done [of cmd gid reply t "fst xw" "snd xw" r "fst xw1" "snd xw1"] r Cons.prems(2,3) by simp
  have "\<forall>s. qe_wf (sx_qes (fst xw1) s)"
  proof
    fix s
    show "qe_wf (sx_qes (fst xw1) s)" using d f [of s] Cons.prems(3) by (cases "s = t") (auto simp: seg_done_def seg_same_def)
  qed
  moreover have t: "t \<notin> set ss" "distinct ss" using Cons.prems(4) by auto
  ultimately have IH: "rest_same xw1 xw'" "\<forall>s. s \<notin> set ss \<longrightarrow> seg_same s xw1 xw'"
    "\<forall>s \<in> set ss. seg_done cmd gid (\<forall>r \<in> set rs1. r \<noteq> None \<and> res_ok (the r)) s xw1 xw'"
    using Cons.IH [OF _ Cons.prems(2)] rs eq by auto
  have "seg_done cmd gid (\<forall>r \<in> set rs. r \<noteq> None \<and> res_ok (the r)) t xw xw'"
    by (rule seg_done_cong [OF d seg_same_refl]) (use IH(2) t eq in auto)
  moreover have "seg_done cmd gid (\<forall>r \<in> set rs. r \<noteq> None \<and> res_ok (the r)) s xw xw'" if "s \<in> set ss" for s
    by (rule seg_done_cong [OF IH(3) [rule_format, OF that] _ seg_same_refl]) (use f [of s] that t eq in auto)
  moreover have "seg_same s xw xw'" if "s \<notin> set (t # ss)" for s
    by (rule seg_same_trans [of s xw xw1]) (use f [of s] IH(2) that in auto)
  ultimately show ?case using IH(1) f [of t] by (auto intro: rest_same_trans)
qed

section \<open>Protocol commands of a session\<close>

definition keys_same :: "session \<Rightarrow> session \<Rightarrow> bool" where
  "keys_same x x' \<longleftrightarrow> sx_state x' = sx_state x \<and> sx_context x' = sx_context x \<and> includeInCkpt x' = includeInCkpt x \<and> delayChkpt x' = delayChkpt x \<and>
     sx_succeeded x' = sx_succeeded x"

lemma keys_same_trans: "keys_same a b \<Longrightarrow> keys_same b c \<Longrightarrow> keys_same a c"
  by (simp add: keys_same_def)

lemma fold_add_set: "set (fold (\<lambda>s ss. if s \<in> set ss then ss else ss @ [s]) gang ds) = set ds \<union> set gang"
  by (induction gang arbitrary: ds) auto

lemma fold_add_distinct: "distinct ds \<Longrightarrow> distinct (fold (\<lambda>s ss. if s \<in> set ss then ss else ss @ [s]) gang ds)"
  by (induction gang arbitrary: ds) auto

lemma fold_add_known: "set gang \<subseteq> set ds \<Longrightarrow> fold (\<lambda>s ss. if s \<in> set ss then ss else ss @ [s]) gang ds = ds"
  by (induction gang) auto

lemma addToGxactDtxSegments_simps [simp]:
  "sx_qes (addToGxactDtxSegments ss x) = sx_qes x"
  "keys_same x' (addToGxactDtxSegments ss x) = keys_same x' x"
  "isCurrentDtxActivated x \<Longrightarrow> set (dtxSegments (addToGxactDtxSegments ss x)) = set (dtxSegments x) \<union> set ss"
  "distinct (dtxSegments x) \<Longrightarrow> distinct (dtxSegments (addToGxactDtxSegments ss x))"
  "set ss \<subseteq> set (dtxSegments x) \<Longrightarrow> dtxSegments (addToGxactDtxSegments ss x) = dtxSegments x"
  by (simp_all add: addToGxactDtxSegments_def keys_same_def fold_add_set fold_add_distinct fold_add_known)

lemma doDispatch_done:
  assumes d: "doDispatchDtxProtocolCommand cmd gid re ss reply (x, w) = (r, x', w')"
    and a: "writers reply" "\<forall>s. qe_wf (sx_qes x s)" "distinct ss"
  shows "w_log w' = w_log w" "keys_same x x'" "dtxSegments x' = dtxSegments (addToGxactDtxSegments ss x)"
    "\<forall>s. s \<notin> set ss \<longrightarrow> seg_same s (x, w) (x', w')" "\<forall>s \<in> set ss. seg_done cmd gid (r = Returned True) s (x, w) (x', w')"
proof -
  obtain rs x1 w1 where t: "dispatch_to cmd gid reply ss (x, w) = (rs, x1, w1)" by (metis prod_cases3)
  note f = dispatch_to_done [OF t a(1) _ a(3), simplified, OF a(2)]
  have e: "w' = w1" "sx_qes x' = sx_qes x1" "keys_same x1 x'" "dtxSegments x' = dtxSegments (addToGxactDtxSegments ss x1)"
    "r = Returned True \<Longrightarrow> \<forall>r \<in> set rs. r \<noteq> None \<and> res_ok (the r)"
    using d t by (auto simp: doDispatchDtxProtocolCommand_def CdbDispatchDtxProtocolCommand_def keys_same_def addToGxactDtxSegments_def
        split: if_splits)
  have x1: "keys_same x x1" "dtxSegments x1 = dtxSegments x" "sx_state x1 = sx_state x" "w_log w1 = w_log w"
    using f by (auto simp: rest_same_def keys_same_def)
  then show "w_log w' = w_log w" "keys_same x x'" "dtxSegments x' = dtxSegments (addToGxactDtxSegments ss x)"
    using e by (auto intro: keys_same_trans simp: addToGxactDtxSegments_def isCurrentDtxActivated_def)
  have same: "seg_same s (x1, w1) (x', w')" for s using e by (simp add: seg_same_def)
  show "\<forall>s. s \<notin> set ss \<longrightarrow> seg_same s (x, w) (x', w')" using f same by (blast intro: seg_same_trans)
  show "\<forall>s \<in> set ss. seg_done cmd gid (r = Returned True) s (x, w) (x', w')"
  proof
    fix s assume "s \<in> set ss"
    with f have "seg_done cmd gid (\<forall>r \<in> set rs. r \<noteq> None \<and> res_ok (the r)) s (x, w) (x1, w1)" by simp
    then show "seg_done cmd gid (r = Returned True) s (x, w) (x', w')" by (rule seg_done_cong) (use same e(5) in \<open>auto simp: seg_same_refl\<close>)
  qed
qed

text \<open>Dropping the connections of a session moves its processes to the pending ones.\<close>

lemma ResetAllGangs_simps:
  assumes "ResetAllGangs gid (x, w) = (x', w')"
  shows "x' = x\<lparr>sx_qes := (\<lambda>_. fresh_qe)\<rparr>" "w_log w' = w_log w" "w_segs w' = w_segs w"
    "w_pending w' s h = (if h = gid then w_pending w s h @ [(None, sx_qes x s)] else w_pending w s h)"
  using assms by (auto simp: ResetAllGangs_def)

lemma reset_part:
  "part_of gid fresh_qe sg (es @ [(None, q)]) = (part_of gid q sg es)\<lparr>p_pend := insert None (p_pend (part_of gid q sg es))\<rparr>"
  by (simp add: part_of_def open_weight_def)

lemma part_step_None: "(p_prep p \<or> p_comm p \<longrightarrow> 0 < p_weight p) \<Longrightarrow> part_step None p (p\<lparr>p_pend := insert None (p_pend p)\<rparr>)"
  by (auto simp: part_step_def)

section \<open>Late commands\<close>

text \<open>A process that exits aborts its local transaction.\<close>

lemma abort_open_simps [simp]: "prepXacts (abort_open gid q sg) = prepXacts sg" "stored gid (abort_open gid q sg) = open_weight q + stored gid sg"
    "(gid, Committed_prepared) \<in> set (finished (abort_open gid q sg)) \<longleftrightarrow> (gid, Committed_prepared) \<in> set (finished sg)"
  by (simp_all add: abort_open_def stored_def open_weight_def)

lemma abort_open_others: "others_same gid sg sg' \<Longrightarrow> others_same gid sg (abort_open gid q sg')"
  by (simp add: abort_open_def others_same_def)

lemma late_effect:
  assumes "qe_wf q" "\<forall>env. ro = Some env \<longrightarrow> writer_env env"
  shows "\<exists>e q' sg'. late_segment ro gid (co, q) sg = abort_open gid q' sg' \<and> has_effect gid e q sg q' sg' \<and> (e \<noteq> Commit_prepared \<or> is_commit co) \<and>
    (e \<noteq> Abort_prepared \<or> is_abort co) \<and> open_weight q' + stored gid sg' \<le> pweight (co, q) + stored gid sg"
proof (cases "ro = None \<or> co = None")
  case True
  then have "late_segment ro gid (co, q) sg = abort_open gid q sg" by (auto simp: late_segment_def split: option.splits)
  moreover have "has_effect gid Keep q sg q sg" by simp
  ultimately show ?thesis using pweight_open [of q co] by fastforce
next
  case False
  then obtain env cmd where c: "ro = Some env" "co = Some cmd" by auto
  obtain a q' sg' where p: "performDtxProtocolCommand env cmd gid q sg = (a, q', sg')" by (metis prod_cases3)
  have "runs cmd gid q sg (a, q', sg')" using performDtxProtocolCommand_runs [OF assms(1), of env cmd gid sg] assms(2) c p by simp
  then obtain e where e: "effect_allowed cmd e" "has_effect gid e q sg q' sg'" by (auto simp: runs_def)
  have "open_weight q + (if begin_cmd cmd q then 1 else 0) \<le> pweight (co, q)" if "e = Open_local"
    using that e(2) by (auto simp: pweight_def open_weight_def begin_cmd_def c)
  then have "open_weight q' + stored gid sg' \<le> pweight (co, q) + stored gid sg"
    using effect_weight [OF e(2)] pweight_open [of q co] e by (cases e) (auto simp: begin_cmd_def)
  then show ?thesis using e allowed_effects [OF e(1)] c p by (auto simp: late_segment_def)
qed

lemma late_part:
  assumes i: "i < length es" and w: "p_weight (part_of gid q0 sg es) \<le> 1" and wf: "qe_wf (snd (es ! i))"
    and env: "\<forall>env. ro = Some env \<longrightarrow> writer_env env"
  shows "part_step (fst (es ! i)) (part_of gid q0 sg es) (part_of gid q0 (late_segment ro gid (es ! i) sg) (take i es @ drop (Suc i) es))"
      (is "part_step _ ?p (part_of gid q0 ?sg ?es)")
    and "p_weight (part_of gid q0 (late_segment ro gid (es ! i) sg) (take i es @ drop (Suc i) es)) \<le> p_weight (part_of gid q0 sg es)"
    and "others_same gid sg (late_segment ro gid (es ! i) sg)"
proof -
  have sub: "set ?es \<subseteq> set es" using set_take_subset [of i es] set_drop_subset [of "Suc i" es] by auto
  have sum: "sum_list (map pweight es) = sum_list (map pweight ?es) + pweight (es ! i)"
    using arg_cong [OF id_take_nth_drop [OF i], of "\<lambda>l. sum_list (map pweight l)"] by simp
  obtain co q where e: "es ! i = (co, q)" by fastforce
  obtain e' q' sg' where l: "?sg = abort_open gid q' sg'" "has_effect gid e' q sg q' sg'" "e' \<noteq> Commit_prepared \<or> is_commit co"
      "e' \<noteq> Abort_prepared \<or> is_abort co" "open_weight q' + stored gid sg' \<le> pweight (co, q) + stored gid sg"
    using late_effect [of q ro gid co sg] wf env e by auto
  show "others_same gid sg ?sg" using effect_others [OF l(2)] l(1) by (simp add: abort_open_others)
  show "p_weight (part_of gid q0 ?sg ?es) \<le> p_weight ?p" using l(1,5) sum e by (simp add: part_of_def)
  have "part_step co ?p (part_of gid q0 ?sg ?es)"
    by (rule effect_part [OF l(2-4) w])
      (use part_of_pos [of gid q0 ?sg ?es] sub sum e l(1) pweight_open [of q co] in \<open>auto simp: part_of_def\<close>)
  then show "part_step (fst (es ! i)) ?p (part_of gid q0 ?sg ?es)" using e by simp
qed

section \<open>Statements\<close>

lemma statement_part:
  assumes "run_statement env gid q sg = (a, q', sg')" "qe_wf q" "writer_env env" "p_weight (part_of gid q sg es) \<le> 1"
  shows "qe_wf q'" "part_step None (part_of gid q sg es) (part_of gid q' sg' es)" "others_same gid sg sg'"
    "p_weight (part_of gid q' sg' es) \<le> p_weight (part_of gid q sg es) + (if qe_context q = DTX_CONTEXT_LOCAL_ONLY then 1 else 0)"
proof -
  from run_statement_effect [OF assms(2,3,1)]
  obtain e where e: "qe_wf q'" "e \<in> {Keep, Abort_open, Open_local, Open_aborted}" "has_effect gid e q sg q' sg'" by blast
  show "qe_wf q'" "others_same gid sg sg'" using e effect_others by auto
  show "part_step None (part_of gid q sg es) (part_of gid q' sg' es)"
    by (rule effect_part [OF e(3) _ _ assms(4)]) (use e(2) part_of_pos [of gid q' sg' es] in \<open>auto simp: part_of_def\<close>)
  show "p_weight (part_of gid q' sg' es) \<le> p_weight (part_of gid q sg es) + (if qe_context q = DTX_CONTEXT_LOCAL_ONLY then 1 else 0)"
    using effect_weight [OF e(3)] e(2,3) by (auto simp: part_of_def)
qed

end
