(* ===== verification/Tm_Invariant.thy ===== *)
theory Tm_Invariant
  imports Tm_Parts
begin

text \<open>
  The invariant of one distributed transaction: what its session, its parts on the segments, the log, a checkpoint in progress and the
  array of the recovery process say about it. It is stated over these views alone, and kept by every change of the parts that the stage of the session allows.
\<close>

section \<open>Stages of a session\<close>

datatype stage = St_running | St_prepared | St_inserting | St_inserted | St_notifying | St_forgotten | St_aborting | St_none

fun stage_of :: "DtxState \<Rightarrow> stage" where
  "stage_of DTX_STATE_ACTIVE_DISTRIBUTED = St_running"
| "stage_of DTX_STATE_ONE_PHASE_COMMIT = St_running"
| "stage_of DTX_STATE_NOTIFYING_ONE_PHASE_COMMIT = St_running"
| "stage_of DTX_STATE_PREPARING = St_running"
| "stage_of DTX_STATE_PREPARED = St_prepared"
| "stage_of DTX_STATE_INSERTING_COMMITTED = St_inserting"
| "stage_of DTX_STATE_INSERTED_COMMITTED = St_inserted"
| "stage_of DTX_STATE_NOTIFYING_COMMIT_PREPARED = St_notifying"
| "stage_of DTX_STATE_RETRY_COMMIT_PREPARED = St_notifying"
| "stage_of DTX_STATE_INSERTED_FORGET_COMMITTED = St_forgotten"
| "stage_of DTX_STATE_NOTIFYING_ABORT_NO_PREPARED = St_aborting"
| "stage_of DTX_STATE_NOTIFYING_ABORT_SOME_PREPARED = St_aborting"
| "stage_of DTX_STATE_NOTIFYING_ABORT_PREPARED = St_aborting"
| "stage_of DTX_STATE_RETRY_ABORT_PREPARED = St_aborting"
| "stage_of _ = St_none"

abbreviation stage :: "session \<Rightarrow> stage" where
  "stage x \<equiv> stage_of (sx_state x)"

section \<open>Views\<close>

text \<open>
  What the log says: whether the transaction is in the last checkpoint, has a commit record and a forget record, whether the commit record is not on
  disk; and for a checkpoint in progress, whether it has the commit record after its redo pointer, waits for the transaction, and has it in its array.
\<close>

record log_view =
  l_base :: bool
  l_commit :: bool
  l_forget :: bool
  l_tail :: bool
  l_ckpt :: "(bool \<times> bool \<times> bool option) option"

definition log_view_of :: "DistributedTransactionId \<Rightarrow> tm_log \<Rightarrow> log_view" where
  "log_view_of g lg = \<lparr>l_base = (g \<in> set (lg_base lg)), l_commit = (Distributed_commit g \<in> set (lg_recs lg)),
     l_forget = (Distributed_forget g \<in> set (lg_recs lg)), l_tail = (Distributed_commit g \<in> set (drop (lg_flushed lg) (lg_recs lg))),
     l_ckpt = map_option (\<lambda>(rs, ws, a). (Distributed_commit g \<in> set rs, g \<in> set ws, map_option (\<lambda>a. g \<in> set a) a)) (lg_ckpt lg)\<rparr>"

section \<open>The invariant\<close>

definition none_pending :: "(DtxProtocolCommand option \<Rightarrow> bool) \<Rightarrow> (nat \<Rightarrow> part) \<Rightarrow> bool" where
  "none_pending K P \<longleftrightarrow> (\<forall>s. \<forall>co \<in> p_pend (P s). \<not> K co)"

definition none_prepared :: "(nat \<Rightarrow> part) \<Rightarrow> bool" where
  "none_prepared P \<longleftrightarrow> (\<forall>s. \<not> p_prep (P s))"

definition none_committed :: "(nat \<Rightarrow> part) \<Rightarrow> bool" where
  "none_committed P \<longleftrightarrow> (\<forall>s. \<not> p_comm (P s))"

fun stage_ok :: "stage \<Rightarrow> session \<Rightarrow> (nat \<Rightarrow> part) \<Rightarrow> log_view \<Rightarrow> nat list option \<Rightarrow> bool" where
  "stage_ok St_running x P L d \<longleftrightarrow> d = None \<and> \<not> sx_succeeded x \<and> \<not> delayChkpt x \<and> \<not> includeInCkpt x \<and> none_pending is_abort P"
| "stage_ok St_prepared x P L d \<longleftrightarrow> d = None \<and> \<not> sx_succeeded x \<and> \<not> delayChkpt x \<and> \<not> includeInCkpt x \<and> none_pending is_abort P \<and>
     (\<forall>s \<in> set (dtxSegments x). p_prep (P s))"
| "stage_ok St_inserting x P L d \<longleftrightarrow> (d \<noteq> None \<longleftrightarrow> l_commit L) \<and> \<not> l_forget L \<and> \<not> sx_succeeded x \<and> delayChkpt x \<and> \<not> includeInCkpt x \<and> none_pending is_abort P \<and> none_pending is_commit P \<and>
     none_committed P \<and> (\<forall>s \<in> set (dtxSegments x). p_prep (P s)) \<and>
     (case l_ckpt L of Some (cm, wt, a) \<Rightarrow> l_commit L \<longrightarrow> cm \<or> wt \<and> a = None | None \<Rightarrow> True)"
| "stage_ok St_inserted x P L d \<longleftrightarrow> d \<noteq> None \<and> \<not> l_forget L \<and> \<not> sx_succeeded x \<and> includeInCkpt x \<and> none_pending is_abort P \<and> none_pending is_commit P \<and>
     none_committed P \<and> (\<forall>s \<in> set (dtxSegments x). p_prep (P s))"
| "stage_ok St_notifying x P L d \<longleftrightarrow> d \<noteq> None \<and> \<not> delayChkpt x \<and> includeInCkpt x \<and> (sx_succeeded x \<longrightarrow> none_prepared P)"
| "stage_ok St_forgotten x P L d \<longleftrightarrow> d \<noteq> None \<and> \<not> delayChkpt x \<and> \<not> includeInCkpt x \<and> none_prepared P"
| "stage_ok St_aborting x P L d \<longleftrightarrow> d = None \<and> \<not> delayChkpt x \<and> \<not> includeInCkpt x"
| "stage_ok St_none x P L d \<longleftrightarrow> False"

definition sess_ok :: "nat list \<Rightarrow> session \<Rightarrow> (nat \<Rightarrow> part) \<Rightarrow> log_view \<Rightarrow> nat list option \<Rightarrow> bool" where
  "sess_ok comps x P L d \<longleftrightarrow> distinct (dtxSegments x) \<and> set (dtxSegments x) \<subseteq> set comps \<and> (\<forall>s. qe_wf (sx_qes x s)) \<and>
     (\<forall>s. s \<notin> set (dtxSegments x) \<longrightarrow> p_weight (P s) = 0) \<and> stage_ok (stage x) x P L d"

definition undecided :: "(nat \<Rightarrow> part) \<Rightarrow> log_view \<Rightarrow> bool \<Rightarrow> bool" where
  "undecided P L arr \<longleftrightarrow> none_pending is_commit P \<and> none_committed P \<and> \<not> l_base L \<and> \<not> l_commit L \<and> \<not> l_forget L \<and> \<not> arr \<and>
     (case l_ckpt L of Some (cm, wt, a) \<Rightarrow> \<not> cm \<and> a \<noteq> Some True | None \<Rightarrow> True)"

definition is_delayed :: "session option \<Rightarrow> bool" where
  "is_delayed so = (case so of Some x \<Rightarrow> delayChkpt x | None \<Rightarrow> False)"

definition is_included :: "session option \<Rightarrow> bool" where
  "is_included so = (case so of Some x \<Rightarrow> includeInCkpt x | None \<Rightarrow> False)"

definition ckpt_covers :: "session option \<Rightarrow> log_view \<Rightarrow> bool \<Rightarrow> bool" where
  "ckpt_covers so L arr = (case l_ckpt L of
     None \<Rightarrow> True
   | Some (cm, wt, a) \<Rightarrow> cm \<or> (case a of Some b \<Rightarrow> b | None \<Rightarrow> is_included so \<or> arr \<or> wt \<and> is_delayed so))"

text \<open>A transaction with a commit record, as long as a part of it is prepared: somebody will finish it, and a crash does not change that.\<close>

definition unfinished_ok :: "session option \<Rightarrow> (nat \<Rightarrow> part) \<Rightarrow> log_view \<Rightarrow> bool \<Rightarrow> bool \<Rightarrow> bool" where
  "unfinished_ok so P L arr todo \<longleftrightarrow> none_pending is_abort P \<and> \<not> l_forget L \<and> (so \<noteq> None \<or> todo) \<and> (l_base L \<or> l_commit L) \<and> ckpt_covers so L arr"

definition decided :: "nat list \<Rightarrow> session option \<Rightarrow> (nat \<Rightarrow> part) \<Rightarrow> log_view \<Rightarrow> bool \<Rightarrow> bool \<Rightarrow> nat list \<Rightarrow> bool" where
  "decided comps so P L arr todo D \<longleftrightarrow> set D \<subseteq> set comps \<and> (\<forall>s \<in> set D. p_prep (P s) \<or> p_comm (P s)) \<and> (\<forall>s. s \<notin> set D \<longrightarrow> p_weight (P s) = 0) \<and>
     (\<forall>x. so = Some x \<longrightarrow> dtxSegments x = D) \<and> (none_prepared P \<or> unfinished_ok so P L arr todo)"

definition tx_ok :: "nat list \<Rightarrow> session option \<Rightarrow> (nat \<Rightarrow> part) \<Rightarrow> log_view \<Rightarrow> bool \<Rightarrow> bool \<Rightarrow> nat list option \<Rightarrow> bool \<Rightarrow> bool" where
  "tx_ok comps so P L arr todo d issued \<longleftrightarrow>
     (\<forall>s. p_weight (P s) \<le> 1 \<and> (p_prep (P s) \<or> p_comm (P s) \<longrightarrow> 0 < p_weight (P s))) \<and>
     (\<not> issued \<longrightarrow> so = None \<and> d = None \<and> (\<forall>s. p_weight (P s) = 0 \<and> p_pend (P s) = {})) \<and>
     (\<forall>x. so = Some x \<longrightarrow> sess_ok comps x P L d) \<and>
     (l_tail L \<longrightarrow> is_delayed so \<and> \<not> l_base L) \<and>
     (case d of None \<Rightarrow> undecided P L arr | Some D \<Rightarrow> decided comps so P L arr todo D)"

section \<open>Changes of the parts\<close>

text \<open>The commands that may change the parts, or become pending.\<close>

definition may_do :: "session option \<Rightarrow> (nat \<Rightarrow> part) \<Rightarrow> nat list option \<Rightarrow> DtxProtocolCommand option \<Rightarrow> bool" where
  "may_do so P d co \<longleftrightarrow> (is_commit co \<longrightarrow> d \<noteq> None \<and> (\<forall>x. so = Some x \<longrightarrow> stage x \<notin> {St_inserting, St_inserted})) \<and>
     (is_abort co \<longrightarrow> (d \<noteq> None \<longrightarrow> none_prepared P) \<and> (\<forall>x. so = Some x \<longrightarrow> stage x \<in> {St_aborting, St_notifying, St_forgotten}))"

definition sess_same :: "session option \<Rightarrow> session option \<Rightarrow> bool" where
  "sess_same so so' \<longleftrightarrow> (case (so, so') of
     (None, None) \<Rightarrow> True
   | (Some x, Some x') \<Rightarrow> keys_same x x' \<and> dtxSegments x' = dtxSegments x \<and> (\<forall>s. qe_wf (sx_qes x' s))
   | _ \<Rightarrow> False)"

definition parts_step :: "(nat \<Rightarrow> DtxProtocolCommand option) \<Rightarrow> (nat \<Rightarrow> part) \<Rightarrow> (nat \<Rightarrow> part) \<Rightarrow> bool" where
  "parts_step co P P' \<longleftrightarrow> (\<forall>s. P' s = P s \<or> part_step (co s) (P s) (P' s))"

lemma parts_stepD:
  assumes "parts_step co P P'"
  shows "p_comm (P s) \<Longrightarrow> p_comm (P' s)"
    "p_comm (P' s) \<Longrightarrow> p_comm (P s) \<or> is_commit (co s)"
    "p_prep (P' s) \<Longrightarrow> p_prep (P s) \<or> 0 < p_weight (P s) \<and> \<not> p_comm (P s)"
    "p_prep (P s) \<Longrightarrow> p_prep (P' s) \<or> is_commit (co s) \<and> p_comm (P' s) \<or> is_abort (co s)"
    "c \<in> p_pend (P' s) \<Longrightarrow> c = co s \<or> c \<in> p_pend (P s)"
  using assms [unfolded parts_step_def, rule_format, of s] by (auto simp: part_step_def)

lemma none_prepared_step:
  assumes "none_prepared P" "parts_step co P P'" "decided comps so P L arr todo D"
  shows "none_prepared P'"
  unfolding none_prepared_def
proof
  fix s
  show "\<not> p_prep (P' s)" using assms(1,3) parts_stepD(3) [OF assms(2), of s] by (cases "s \<in> set D") (auto simp: none_prepared_def decided_def)
qed

lemma none_pending_step: "none_pending K P \<Longrightarrow> parts_step co P P' \<Longrightarrow> (\<And>s. \<not> K (co s)) \<Longrightarrow> none_pending K P'"
  unfolding none_pending_def by (blast dest: parts_stepD(5))

lemma none_committed_step: "none_committed P \<Longrightarrow> parts_step co P P' \<Longrightarrow> (\<And>s. \<not> is_commit (co s)) \<Longrightarrow> none_committed P'"
  unfolding none_committed_def by (blast dest: parts_stepD(2))

lemma prepared_step: "\<forall>s \<in> A. p_prep (P s) \<Longrightarrow> parts_step co P P' \<Longrightarrow> (\<And>s. \<not> is_commit (co s) \<and> \<not> is_abort (co s)) \<Longrightarrow> \<forall>s \<in> A. p_prep (P' s)"
  by (blast dest: parts_stepD(4))

lemmas step_rules = none_pending_step none_committed_step prepared_step

lemma stage_step:
  assumes "stage_ok (stage x) x P L d" "keys_same x x'" "dtxSegments x' = dtxSegments x" "parts_step co P P'"
    and "\<forall>s. may_do (Some x) P d (co s)" "\<forall>D. d = Some D \<longrightarrow> decided comps so P L arr todo D"
  shows "stage_ok (stage x') x' P' L d"
proof (cases "stage x")
  case St_running
  then have "\<not> is_abort (co s)" for s using assms(5) by (auto simp: may_do_def)
  then show ?thesis using assms(1-4) St_running by (auto simp: keys_same_def intro: step_rules)
next
  case St_prepared
  then have "\<not> is_abort (co s) \<and> \<not> is_commit (co s)" for s using assms(1,5) by (auto simp: may_do_def)
  then show ?thesis using assms(1-4) St_prepared step_rules [OF _ assms(4)] by (auto simp: keys_same_def)
next
  case St_inserting
  then have "\<not> is_abort (co s) \<and> \<not> is_commit (co s)" for s using assms(5) by (auto simp: may_do_def)
  then show ?thesis using assms(1-4) St_inserting step_rules [OF _ assms(4)] by (auto simp: keys_same_def)
next
  case St_inserted
  then have "\<not> is_abort (co s) \<and> \<not> is_commit (co s)" for s using assms(5) by (auto simp: may_do_def)
  then show ?thesis using assms(1-4) St_inserted step_rules [OF _ assms(4)] by (auto simp: keys_same_def)
next
  case St_notifying
  then show ?thesis using assms none_prepared_step by (auto simp: keys_same_def)
next
  case St_forgotten
  then show ?thesis using assms none_prepared_step by (auto simp: keys_same_def)
qed (use assms in \<open>auto simp: keys_same_def\<close>)

lemma sess_same_simps:
  assumes "sess_same so so'"
  shows "is_delayed so' = is_delayed so" "is_included so' = is_included so" "so' = None \<longleftrightarrow> so = None"
  using assms by (auto simp: sess_same_def is_delayed_def is_included_def keys_same_def split: option.splits)

lemma ckpt_covers_cong: "is_delayed so' = is_delayed so \<Longrightarrow> is_included so' = is_included so \<Longrightarrow> ckpt_covers so' L arr = ckpt_covers so L arr"
  by (simp add: ckpt_covers_def split: option.splits)

lemma decided_step:
  assumes d: "decided comps so P L arr todo D" and st: "parts_step co P P'" and w: "\<forall>s. p_weight (P' s) \<le> p_weight (P s)"
    and may: "\<forall>s. may_do so P (Some D) (co s)" and so: "sess_same so so'"
  shows "decided comps so' P' L arr todo D"
proof -
  have weight: "p_weight (P' s) = 0" if "s \<notin> set D" for s using d w [rule_format, of s] that by (simp add: decided_def)
  have keep: "p_prep (P' s) \<or> p_comm (P' s)" if "s \<in> set D" for s
    using d that parts_stepD(1,4) [OF st, of s] may [rule_format, of s]
    by (auto simp: decided_def may_do_def none_prepared_def)
  have "none_prepared P' \<or> unfinished_ok so' P' L arr todo"
  proof (cases "none_prepared P")
    case True
    then show ?thesis using none_prepared_step [OF True st d] by simp
  next
    case False
    then have "\<not> is_abort (co s)" for s using may by (simp add: may_do_def)
    then have "none_pending is_abort P \<Longrightarrow> none_pending is_abort P'" using none_pending_step [OF _ st] by blast
    moreover have "unfinished_ok so P L arr todo" using d False by (simp add: decided_def)
    moreover have "ckpt_covers so' L arr = ckpt_covers so L arr" using sess_same_simps [OF so] by (intro ckpt_covers_cong)
    ultimately show ?thesis using sess_same_simps [OF so] by (simp add: unfinished_ok_def)
  qed
  moreover have "\<forall>x. so' = Some x \<longrightarrow> dtxSegments x = D" using d so by (auto simp: decided_def sess_same_def split: option.splits)
  ultimately show ?thesis using d weight keep by (simp add: decided_def)
qed

lemma undecided_step:
  assumes "undecided P L arr" "parts_step co P P'" "\<forall>s. may_do so P None (co s)"
  shows "undecided P' L arr"
proof -
  have "\<not> is_commit (co s)" for s using assms(3) by (simp add: may_do_def)
  then show ?thesis using assms(1) step_rules(1,2) [OF _ assms(2)] by (simp add: undecided_def)
qed

lemma tx_parts:
  assumes ok: "tx_ok comps so P L arr todo d True" and st: "parts_step co P P'" and w: "\<forall>s. p_weight (P' s) \<le> p_weight (P s)"
    and pos: "\<forall>s. p_prep (P' s) \<or> p_comm (P' s) \<longrightarrow> 0 < p_weight (P' s)"
    and may: "\<forall>s. may_do so P d (co s)" and so: "sess_same so so'"
  shows "tx_ok comps so' P' L arr todo d True"
proof -
  have dec: "case d of None \<Rightarrow> undecided P' L arr | Some D \<Rightarrow> decided comps so' P' L arr todo D"
  proof (cases d)
    case None
    then show ?thesis using ok undecided_step [OF _ st] may by (simp add: tx_ok_def)
  next
    case (Some D)
    then show ?thesis using ok decided_step [OF _ st w _ so] may by (simp add: tx_ok_def)
  qed
  have "sess_ok comps x' P' L d" if x': "so' = Some x'" for x'
  proof -
    obtain x where x: "so = Some x" "keys_same x x'" "dtxSegments x' = dtxSegments x" "\<forall>s. qe_wf (sx_qes x' s)"
      using so x' by (auto simp: sess_same_def split: option.splits)
    then have s: "sess_ok comps x P L d" using ok by (simp add: tx_ok_def)
    have "\<forall>D. d = Some D \<longrightarrow> decided comps so P L arr todo D" using ok by (auto simp: tx_ok_def)
    then have "stage_ok (stage x') x' P' L d" using stage_step [OF _ x(2,3) st] s may x(1) by (auto simp: sess_ok_def)
    moreover have "p_weight (P' t) = 0" if "t \<notin> set (dtxSegments x)" for t using s w [rule_format, of t] that by (simp add: sess_ok_def)
    ultimately show ?thesis using s x by (simp add: sess_ok_def)
  qed
  moreover have "p_weight (P' s) \<le> 1" for s using ok w by (auto simp: tx_ok_def intro: order_trans)
  ultimately show ?thesis using ok dec pos sess_same_simps [OF so] by (simp add: tx_ok_def)
qed

section \<open>Changes of the session\<close>

lemma tx_parts_wf: "tx_ok comps so P L arr todo d issued \<Longrightarrow> so = Some x \<Longrightarrow> sess_ok comps x P L d \<and> issued"
  by (auto simp: tx_ok_def)

text \<open>While statements run, a segment can join and a local transaction can open.\<close>

lemma tx_running:
  assumes ok: "tx_ok comps (Some x) P L arr todo d True" and x: "stage x = St_running" "stage x' = St_running" "\<not> delayChkpt x'" "\<not> includeInCkpt x'" "\<not> sx_succeeded x'"
    and ds: "distinct (dtxSegments x')" "set (dtxSegments x') \<subseteq> set comps" "\<forall>s. qe_wf (sx_qes x' s)"
    and st: "parts_step co P P'" "\<forall>s. \<not> is_commit (co s) \<and> \<not> is_abort (co s)"
    and w: "\<forall>s. p_weight (P' s) \<le> (if s \<in> set (dtxSegments x') then 1 else 0)" "\<forall>s. p_prep (P' s) \<or> p_comm (P' s) \<longrightarrow> 0 < p_weight (P' s)"
  shows "tx_ok comps (Some x') P' L arr todo d True"
proof -
  have o: "d = None" "none_pending is_abort P" "\<not> l_tail L" "undecided P L arr"
    using ok x(1) by (auto simp: tx_ok_def sess_ok_def is_delayed_def)
  have "undecided P' L arr" using undecided_step [OF o(4) st(1)] st(2) by (simp add: may_do_def)
  moreover have "none_pending is_abort P'" using none_pending_step [OF o(2) st(1)] st(2) by blast
  moreover have "p_weight (P' s) \<le> 1 \<and> (s \<notin> set (dtxSegments x') \<longrightarrow> p_weight (P' s) = 0)" for s
    using w(1) [rule_format, of s] by (auto split: if_splits)
  ultimately show ?thesis using o x ds w(2) by (simp add: tx_ok_def sess_ok_def)
qed

text \<open>Another stage, with the same parts.\<close>

lemma tx_stage:
  assumes ok: "tx_ok comps (Some x) P L arr todo d True" and x: "dtxSegments x' = dtxSegments x" "sx_qes x' = sx_qes x"
    and st: "stage_ok (stage x') x' P L d" "l_tail L \<Longrightarrow> delayChkpt x'" "d \<noteq> None \<Longrightarrow> \<not> none_prepared P \<Longrightarrow> ckpt_covers (Some x) L arr \<Longrightarrow> ckpt_covers (Some x') L arr"
  shows "tx_ok comps (Some x') P L arr todo d True"
proof -
  have "decided comps (Some x') P L arr todo D" if "d = Some D" "decided comps (Some x) P L arr todo D" for D
    using that st(3) x(1) by (auto simp: decided_def unfinished_ok_def)
  then show ?thesis using ok x st(1,2) by (auto simp: tx_ok_def sess_ok_def is_delayed_def split: option.splits)
qed

lemma tx_insert_record:
  assumes ok: "tx_ok comps (Some x) P L arr todo d True" and x: "stage x = St_inserting" and n: "\<not> l_commit L"
    and L': "l_base L' = l_base L" "l_commit L'" "l_forget L' = l_forget L" "l_ckpt L' = map_option (\<lambda>(cm, r). (True, r)) (l_ckpt L)"
  shows "tx_ok comps (Some x) P L' arr todo (Some (dtxSegments x)) True"
proof -
  have s: "sess_ok comps x P L d" "d = None" "\<not> l_base L" "\<not> l_forget L" using ok x n by (auto simp: tx_ok_def sess_ok_def undecided_def split: option.splits)
  then have o: "\<not> sx_succeeded x" "delayChkpt x" "\<not> includeInCkpt x" "none_pending is_abort P" "none_pending is_commit P" "none_committed P" "\<forall>t \<in> set (dtxSegments x). p_prep (P t)"
    using x by (auto simp: sess_ok_def)
  have c: "ckpt_covers (Some x) L' arr" "case l_ckpt L' of Some (cm, wt, a) \<Rightarrow> l_commit L' \<longrightarrow> cm \<or> wt \<and> a = None | None \<Rightarrow> True"
    using L'(4) by (auto simp: ckpt_covers_def split: option.splits)
  have "decided comps (Some x) P L' arr todo (dtxSegments x)"
    using s o L' c by (auto simp: decided_def unfinished_ok_def sess_ok_def)
  moreover have "sess_ok comps x P L' (Some (dtxSegments x))" using s o L' c x by (simp add: sess_ok_def)
  ultimately show ?thesis using ok s o L' by (simp add: tx_ok_def is_delayed_def)
qed

text \<open>The log loses nothing that the transaction needs.\<close>

lemma tx_flush: "tx_ok comps so P L arr todo d i \<Longrightarrow> tx_ok comps so P (L\<lparr>l_tail := False\<rparr>) arr todo d i"
proof -
  have "sess_ok comps x P L d \<Longrightarrow> sess_ok comps x P (L\<lparr>l_tail := False\<rparr>) d" for x
    by (cases "stage x") (auto simp: sess_ok_def split: option.splits)
  moreover have "undecided P (L\<lparr>l_tail := False\<rparr>) arr = undecided P L arr" by (simp add: undecided_def)
  moreover have "decided comps so P (L\<lparr>l_tail := False\<rparr>) arr todo = decided comps so P L arr todo"
    by (simp add: fun_eq_iff decided_def unfinished_ok_def ckpt_covers_def)
  ultimately show "tx_ok comps so P L arr todo d i \<Longrightarrow> tx_ok comps so P (L\<lparr>l_tail := False\<rparr>) arr todo d i"
    by (cases d) (simp_all add: tx_ok_def)
qed

lemma tx_forget:
  assumes ok: "tx_ok comps (Some x) P L arr todo d True" and x: "stage x = St_notifying" "sx_succeeded x"
    and x': "stage x' = St_forgotten" "dtxSegments x' = dtxSegments x" "sx_qes x' = sx_qes x" "\<not> delayChkpt x'" "\<not> includeInCkpt x'"
    and L': "l_base L' = l_base L" "l_commit L' = l_commit L" "l_tail L' = l_tail L" "l_ckpt L' = l_ckpt L"
  shows "tx_ok comps (Some x') P L' arr todo d True"
proof -
  have s: "sess_ok comps x P L d" "\<not> delayChkpt x" "none_prepared P" using ok x by (auto simp: tx_ok_def sess_ok_def)
  then obtain D where D: "d = Some D" "decided comps (Some x) P L arr todo D" using ok x by (auto simp: tx_ok_def sess_ok_def)
  then have "decided comps (Some x') P L' arr todo D" using s x' by (simp add: decided_def)
  then show ?thesis using ok D s x' L' by (simp add: tx_ok_def sess_ok_def is_delayed_def)
qed

text \<open>The end of the session.\<close>

lemma tx_end:
  assumes ok: "tx_ok comps (Some x) P L arr todo d True" and x: "stage x \<in> {St_running, St_prepared, St_aborting, St_forgotten}"
  shows "tx_ok comps None P L arr todo d True"
proof -
  have s: "sess_ok comps x P L d" "\<not> delayChkpt x" using ok x by (auto simp: tx_ok_def sess_ok_def)
  then have "\<not> l_tail L" using ok by (auto simp: tx_ok_def is_delayed_def)
  moreover have "decided comps None P L arr todo D" if "d = Some D" "decided comps (Some x) P L arr todo D" for D
    using s x that by (auto simp: sess_ok_def decided_def)
  ultimately show ?thesis using ok by (auto simp: tx_ok_def split: option.splits)
qed

text \<open>A new session.\<close>

lemma tx_begin:
  assumes "tx_ok comps so P L arr todo d False" "stage x = St_running" "dtxSegments x = []" "\<forall>s. qe_wf (sx_qes x s)" "\<not> delayChkpt x" "\<not> includeInCkpt x"
    and "\<not> sx_succeeded x"
  shows "tx_ok comps (Some x) P L arr todo d True"
  using assms by (auto simp: tx_ok_def sess_ok_def none_pending_def is_delayed_def)

section \<open>Changes of the log and of the recovery process\<close>

lemma tx_crash:
  assumes ok: "tx_ok comps so P L arr todo d i" and none: "\<forall>s. P' s = (P s)\<lparr>p_pend := insert None (p_pend (P s))\<rparr> \<or> P' s = P s"
    and L': "l_base L' = l_base L" "l_commit L' = (l_commit L \<and> \<not> lost)" "l_forget L' \<Longrightarrow> l_forget L" "\<not> l_tail L'" "l_ckpt L' = None"
    and lost: "lost \<Longrightarrow> l_tail L" and d': "d' = (if lost then None else d)"
    and arr: "arr' \<Longrightarrow> l_base L' \<or> l_commit L'" "l_base L' \<or> l_commit L' \<Longrightarrow> \<not> l_forget L' \<Longrightarrow> arr'" and i: "\<not> i \<Longrightarrow> P' = P"
  shows "tx_ok comps None P' L' arr' arr' d' i"
proof -
  have p: "p_weight (P' s) = p_weight (P s)" "p_prep (P' s) = p_prep (P s)" "p_comm (P' s) = p_comm (P s)" for s
    using none [rule_format, of s] by auto
  have pend: "none_pending K P \<Longrightarrow> none_pending K P'" if "\<not> K None" for K
    unfolding none_pending_def
  proof (intro allI ballI)
    fix s co assume "\<forall>s. \<forall>co\<in>p_pend (P s). \<not> K co" "co \<in> p_pend (P' s)"
    then show "\<not> K co" using none [rule_format, of s] that by auto
  qed
  have dec: "case d' of None \<Rightarrow> undecided P' L' arr' | Some D \<Rightarrow> decided comps None P' L' arr' arr' D"
  proof (cases d')
    case None
    have "none_pending is_commit P \<and> none_committed P \<and> \<not> l_base L \<and> \<not> l_forget L \<and> (lost \<or> \<not> l_commit L)"
    proof (cases lost)
      case True
      then have "is_delayed so" "\<not> l_base L" using ok lost by (auto simp: tx_ok_def)
      then obtain x where x: "so = Some x" "delayChkpt x" by (auto simp: is_delayed_def split: option.splits)
      then have "stage x \<in> {St_inserting, St_inserted}" "sess_ok comps x P L d" using ok by (cases "stage x"; auto simp: tx_ok_def sess_ok_def)+
      then show ?thesis using True \<open>\<not> l_base L\<close> by (auto simp: sess_ok_def)
    next
      case False
      then show ?thesis using ok None d' by (simp add: tx_ok_def undecided_def)
    qed
    then show ?thesis using None L' arr(1) pend p by (auto simp: undecided_def none_committed_def)
  next
    case (Some D)
    then have D: "decided comps so P L arr todo D" "\<not> lost" using ok d' by (auto simp: tx_ok_def split: if_splits)
    have "none_prepared P' \<or> unfinished_ok None P' L' arr' arr'"
      using D L' arr(2) pend p by (auto simp: decided_def unfinished_ok_def none_prepared_def ckpt_covers_def)
    then show ?thesis using Some D(1) p by (simp add: decided_def)
  qed
  have "\<not> i \<Longrightarrow> d' = None" using ok d' by (simp add: tx_ok_def)
  then show ?thesis using ok dec p L' i by (simp add: tx_ok_def)
qed

lemma tx_todo:
  assumes "tx_ok comps None P L arr todo d i" "d \<noteq> None \<Longrightarrow> \<not> none_prepared P \<Longrightarrow> todo \<Longrightarrow> todo' \<and> arr'" "arr' \<Longrightarrow> arr"
  shows "tx_ok comps None P L arr' todo' d i"
proof -
  have "decided comps None P L arr' todo' D" if "d = Some D" "decided comps None P L arr todo D" for D
    using that assms(2) by (auto simp: decided_def unfinished_ok_def ckpt_covers_def split: option.splits)
  moreover have "undecided P L arr \<Longrightarrow> undecided P L arr'" using assms(3) by (auto simp: undecided_def)
  ultimately show ?thesis using assms(1) by (auto simp: tx_ok_def split: option.splits)
qed

text \<open>A checkpoint begins, reads the transactions in progress, and is complete.\<close>

lemma tx_log:
  assumes ok: "tx_ok comps so P L arr todo d i" and t: "l_tail L' \<Longrightarrow> l_tail L \<and> \<not> l_base L'" and f: "l_forget L' \<Longrightarrow> l_forget L"
    and st: "\<And>x. so = Some x \<Longrightarrow> sess_ok comps x P L d \<Longrightarrow> stage x = St_inserting \<Longrightarrow> stage_ok St_inserting x P L' d"
    and u: "d = None \<Longrightarrow> undecided P L arr \<Longrightarrow> undecided P L' arr"
    and c: "\<And>D. d = Some D \<Longrightarrow> \<not> none_prepared P \<Longrightarrow> unfinished_ok so P L arr todo \<Longrightarrow> (l_base L' \<or> l_commit L') \<and> ckpt_covers so L' arr"
  shows "tx_ok comps so P L' arr todo d i"
proof -
  have "sess_ok comps x P L' d" if "so = Some x" for x
  proof -
    have s: "sess_ok comps x P L d" using ok that by (simp add: tx_ok_def)
    then show ?thesis using st [OF that s] f by (cases "stage x") (auto simp: sess_ok_def)
  qed
  moreover have "decided comps so P L' arr todo D" if "d = Some D" "decided comps so P L arr todo D" for D
    using that c [OF that(1)] f by (auto simp: decided_def unfinished_ok_def)
  ultimately show ?thesis using ok u t by (auto simp: tx_ok_def split: option.splits)
qed

lemma tx_ckpt_begin:
  assumes ok: "tx_ok comps so P L arr todo d i" and "todo \<Longrightarrow> arr" "wt = is_delayed so"
  shows "tx_ok comps so P (L\<lparr>l_ckpt := Some (False, wt, None)\<rparr>) arr todo d i"
proof (rule tx_log [OF ok])
  fix D assume d: "d = Some D" "\<not> none_prepared P" "unfinished_ok so P L arr todo"
  have "is_included so \<or> is_delayed so" if "so = Some x" for x
    using ok that d(1,2) by (cases "stage x") (auto simp: tx_ok_def sess_ok_def is_included_def is_delayed_def)
  then show "(l_base (L\<lparr>l_ckpt := Some (False, wt, None)\<rparr>) \<or> l_commit (L\<lparr>l_ckpt := Some (False, wt, None)\<rparr>)) \<and>
      ckpt_covers so (L\<lparr>l_ckpt := Some (False, wt, None)\<rparr>) arr"
    using d(3) assms(2,3) by (cases so) (auto simp: unfinished_ok_def ckpt_covers_def)
qed (use ok assms in \<open>auto simp: sess_ok_def undecided_def is_delayed_def tx_ok_def\<close>)

lemma tx_ckpt_read:
  assumes ok: "tx_ok comps so P L arr todo d i" and L: "l_ckpt L = Some (cm, wt, None)" "wt \<Longrightarrow> \<not> is_delayed so" "b \<longleftrightarrow> arr \<or> is_included so"
  shows "tx_ok comps so P (L\<lparr>l_ckpt := Some (cm, wt, Some b)\<rparr>) arr todo d i"
proof (rule tx_log [OF ok])
  assume d: "d = None" "undecided P L arr"
  have "\<not> is_included so"
  proof (cases so)
    case (Some x)
    then show ?thesis using ok d(1) by (cases "stage x") (auto simp: tx_ok_def sess_ok_def is_included_def)
  qed (simp add: is_included_def)
  then show "undecided P (L\<lparr>l_ckpt := Some (cm, wt, Some b)\<rparr>) arr" using d(2) L by (simp add: undecided_def)
qed (use ok L in \<open>auto simp: sess_ok_def is_delayed_def tx_ok_def unfinished_ok_def ckpt_covers_def\<close>)

lemma tx_ckpt_end:
  assumes ok: "tx_ok comps so P L arr todo d i" and L: "l_ckpt L = Some (cm, wt, Some b)" "cm \<Longrightarrow> l_commit L" "f \<Longrightarrow> l_forget L"
  shows "tx_ok comps so P \<lparr>l_base = b, l_commit = cm, l_forget = f, l_tail = False, l_ckpt = None\<rparr> arr todo d i"
  by (rule tx_log [OF ok]) (use L in \<open>auto simp: sess_ok_def undecided_def unfinished_ok_def ckpt_covers_def\<close>)

end
