(* ===== verification/Tm_Reach.thy ===== *)
theory Tm_Reach
  imports Tm_Invariant
begin

text \<open>
  The invariant of the cluster: of its log, of its sessions and the recovery process, and of every transaction. The steps of the sessions keep it.
\<close>

section \<open>The invariant of a cluster\<close>

definition sess_or_new :: "cluster \<Rightarrow> DistributedTransactionId \<Rightarrow> session" where
  "sess_or_new c g = (case cl_sessions c g of Some x \<Rightarrow> x | None \<Rightarrow> new_session)"

definition parts :: "cluster \<Rightarrow> DistributedTransactionId \<Rightarrow> nat \<Rightarrow> part" where
  "parts c g = sw_part (dtxFormGid g) (sess_or_new c g, cl_world c)"

fun todo_in :: "rec_phase \<Rightarrow> DistributedTransactionId list \<Rightarrow> DistributedTransactionId \<Rightarrow> bool" where
  "todo_in (Rec_commit i) committed g \<longleftrightarrow> g \<in> set (drop i committed)"
| "todo_in _ committed g \<longleftrightarrow> False"

definition todo :: "cluster \<Rightarrow> DistributedTransactionId \<Rightarrow> bool" where
  "todo c = todo_in (cl_phase c) (cl_committed c)"

fun phase_ok :: "rec_phase \<Rightarrow> DistributedTransactionId list \<Rightarrow> DistributedTransactionId list \<Rightarrow> bool" where
  "phase_ok (Rec_commit i) committed procs \<longleftrightarrow> i \<le> length committed \<and> procs = []"
| "phase_ok (Rec_abort _) committed procs \<longleftrightarrow> committed = [] \<and> procs = []"
| "phase_ok (Rec_started _) committed procs \<longleftrightarrow> committed = []"

definition tx_inv :: "nat list \<Rightarrow> cluster \<Rightarrow> DistributedTransactionId list \<Rightarrow> decisions \<Rightarrow> DistributedTransactionId \<Rightarrow> bool" where
  "tx_inv comps c gs dec g \<longleftrightarrow> tx_ok comps (cl_sessions c g) (parts c g) (log_view_of g (w_log (cl_world c))) (g \<in> set (cl_committed c)) (todo c g) (dec g) (g \<in> set gs)"

definition pending_wf :: "world \<Rightarrow> bool" where
  "pending_wf w \<longleftrightarrow> (\<forall>s h. \<forall>e \<in> set (w_pending w s h). qe_wf (snd e))"

definition log_wf :: "tm_log \<Rightarrow> bool" where
  "log_wf lg \<longleftrightarrow> lg_flushed lg \<le> length (lg_recs lg) \<and> (\<forall>g. count_list (lg_recs lg) (Distributed_commit g) \<le> 1) \<and>
     (\<forall>rs ws a. lg_ckpt lg = Some (rs, ws, a) \<longrightarrow> (\<exists>pre. lg_recs lg = pre @ rs))"

definition control_ok :: "cluster \<Rightarrow> bool" where
  "control_ok c \<longleftrightarrow> (\<forall>g. cl_sessions c g \<noteq> None \<longleftrightarrow> g \<in> set (cl_procs c)) \<and>
     phase_ok (cl_phase c) (cl_committed c) (cl_procs c)"

text \<open>The identifiers the recovery process works on belong to transactions.\<close>

fun phase_gids :: "rec_phase \<Rightarrow> string list" where
  "phase_gids (Rec_commit i) = []"
| "phase_gids (Rec_abort gids) = gids"
| "phase_gids (Rec_started gids) = gids"

definition gids_ok :: "cluster \<Rightarrow> DistributedTransactionId list \<Rightarrow> bool" where
  "gids_ok c gs \<longleftrightarrow> (\<forall>g. dtxFormGid g \<in> set (phase_gids (cl_phase c)) \<longrightarrow> g \<in> set gs)"

definition cluster_ok :: "nat list \<Rightarrow> cluster \<Rightarrow> DistributedTransactionId list \<Rightarrow> decisions \<Rightarrow> bool" where
  "cluster_ok comps c gs dec \<longleftrightarrow> pending_wf (cl_world c) \<and> log_wf (w_log (cl_world c)) \<and> control_ok c \<and> gids_ok c gs \<and> (\<forall>g. tx_inv comps c gs dec g)"

section \<open>Frames\<close>

definition others_world :: "string \<Rightarrow> world \<Rightarrow> world \<Rightarrow> bool" where
  "others_world gid w w' \<longleftrightarrow> (\<forall>s. others_same gid (w_segs w s) (w_segs w' s) \<and> (\<forall>h. h \<noteq> gid \<longrightarrow> w_pending w' s h = w_pending w s h))"

lemma others_same_refl [simp]: "others_same gid sg sg"
  by (simp add: others_same_def)

lemma others_world_refl [simp]: "others_world gid w w"
  by (simp add: others_world_def)

lemma others_world_trans: "others_world gid a b \<Longrightarrow> others_world gid b c \<Longrightarrow> others_world gid a c"
  by (simp add: others_world_def others_same_def)

lemma sw_part_others: "others_world gid w w' \<Longrightarrow> h \<noteq> gid \<Longrightarrow> sw_part h (y, w') = sw_part h (y, w)"
  by (auto simp: fun_eq_iff sw_part_def others_world_def intro: part_of_others)

lemma sw_part_pos: "p_prep (sw_part gid xw s) \<or> p_comm (sw_part gid xw s) \<longrightarrow> 0 < p_weight (sw_part gid xw s)"
  by (simp add: sw_part_def part_of_pos)

text \<open>What the log says of the other transactions changes at most by a flush.\<close>

definition log_frame :: "DistributedTransactionId \<Rightarrow> tm_log \<Rightarrow> tm_log \<Rightarrow> bool" where
  "log_frame h lg lg' \<longleftrightarrow> log_view_of h lg' = log_view_of h lg \<or> log_view_of h lg' = (log_view_of h lg)\<lparr>l_tail := False\<rparr>"

lemma log_frame_refl [simp]: "log_frame h lg lg"
  by (simp add: log_frame_def)

lemma tx_log_frame: "log_frame h lg lg' \<Longrightarrow> tx_ok comps so P (log_view_of h lg) arr td d i \<Longrightarrow> tx_ok comps so P (log_view_of h lg') arr td d i"
  by (auto simp: log_frame_def dest: tx_flush)

text \<open>A step of one transaction, by its session or without one.\<close>

lemma put_simps [simp]: "cl_sessions (put g (x, w) c) = (cl_sessions c)(g := Some x)" "cl_world (put g (x, w) c) = w" "cl_procs (put g (x, w) c) = cl_procs c"
    "cl_committed (put g (x, w) c) = cl_committed c" "cl_phase (put g (x, w) c) = cl_phase c" "todo (put g (x, w) c) = todo c"
  by (simp_all add: put_def todo_def)

lemma session_step:
  assumes ok: "cluster_ok comps c gs dec" and x: "cl_sessions c g = Some x"
    and w: "others_world (dtxFormGid g) (cl_world c) w'" "pending_wf w'" "log_wf (w_log w')" "\<And>h. h \<noteq> g \<Longrightarrow> log_frame h (w_log (cl_world c)) (w_log w')"
    and tx: "tx_ok comps (Some x') (sw_part (dtxFormGid g) (x', w')) (log_view_of g (w_log w')) (g \<in> set (cl_committed c)) (todo c g) (dec' g) True"
    and d: "\<And>h. h \<noteq> g \<Longrightarrow> dec' h = dec h"
  shows "cluster_ok comps (put g (x', w') c) gs dec'"
proof -
  have "tx_inv comps (put g (x', w') c) gs dec' h" for h
  proof (cases "h = g")
    case True
    have "g \<in> set gs" using ok x by (auto simp: cluster_ok_def tx_inv_def dest: tx_parts_wf)
    then show ?thesis using tx True by (simp add: tx_inv_def parts_def sess_or_new_def)
  next
    case False
    then have "parts (put g (x', w') c) h = parts c h" using sw_part_others [OF w(1)] by (simp add: parts_def sess_or_new_def)
    then show ?thesis using ok False d w(4) [OF False] by (auto simp: cluster_ok_def tx_inv_def intro: tx_log_frame)
  qed
  moreover have "control_ok (put g (x', w') c)" using ok x by (auto simp: cluster_ok_def control_ok_def)
  ultimately show ?thesis using ok w by (simp add: cluster_ok_def gids_ok_def)
qed

lemma sessionD:
  assumes "cluster_ok comps c gs dec" "cl_sessions c g = Some x"
  shows "tx_ok comps (Some x) (sw_part (dtxFormGid g) (x, cl_world c)) (log_view_of g (w_log (cl_world c))) (g \<in> set (cl_committed c)) (todo c g) (dec g) True"
    "sess_ok comps x (sw_part (dtxFormGid g) (x, cl_world c)) (log_view_of g (w_log (cl_world c))) (dec g)"
    "pending_wf (cl_world c)" "log_wf (w_log (cl_world c))"
proof -
  have "tx_inv comps c gs dec g" using assms by (simp add: cluster_ok_def)
  then show t: "tx_ok comps (Some x) (sw_part (dtxFormGid g) (x, cl_world c)) (log_view_of g (w_log (cl_world c))) (g \<in> set (cl_committed c)) (todo c g) (dec g) True"
    using assms(2) by (cases "g \<in> set gs") (auto simp: tx_inv_def parts_def sess_or_new_def tx_ok_def)
  then show "sess_ok comps x (sw_part (dtxFormGid g) (x, cl_world c)) (log_view_of g (w_log (cl_world c))) (dec g)" by (simp add: tx_ok_def)
  show "pending_wf (cl_world c)" "log_wf (w_log (cl_world c))" using assms(1) by (simp_all add: cluster_ok_def)
qed

section \<open>Dispatching keeps the invariant of the transaction\<close>

text \<open>What holds between two states of a session and the world, as far as one transaction is concerned.\<close>

definition world_step :: "string \<Rightarrow> world \<Rightarrow> world \<Rightarrow> bool" where
  "world_step gid w w' \<longleftrightarrow> others_world gid w w' \<and> w_log w' = w_log w \<and> (pending_wf w \<longrightarrow> pending_wf w')"

lemma world_step_trans: "world_step gid a b \<Longrightarrow> world_step gid b c \<Longrightarrow> world_step gid a c"
  by (auto simp: world_step_def intro: others_world_trans)

lemma world_step_refl [simp]: "world_step gid w w"
  by (simp add: world_step_def)

lemma dispatch_world:
  assumes d: "doDispatchDtxProtocolCommand cmd gid re ss reply (x, w) = (r, x', w')"
    and a: "writers reply" "\<forall>s. qe_wf (sx_qes x s)" "distinct ss"
  shows "world_step gid w w'" "\<forall>s. qe_wf (sx_qes x' s)" "keys_same x x'" "dtxSegments x' = dtxSegments (addToGxactDtxSegments ss x)"
proof -
  note f = doDispatch_done [OF d a]
  have s: "qe_wf (sx_qes x' s) \<and> others_same gid (w_segs w s) (w_segs w' s) \<and> (\<forall>h. h \<noteq> gid \<longrightarrow> w_pending w' s h = w_pending w s h) \<and>
      (\<forall>h. \<forall>e \<in> set (w_pending w' s h). e \<in> set (w_pending w s h) \<or> e = (Some cmd, sx_qes x s))" for s
  proof (cases "s \<in> set ss")
    case True
    then have d: "seg_done cmd gid (r = Returned True) s (x, w) (x', w')" using f(5) by blast
    have "e \<in> set (w_pending w s h) \<or> e = (Some cmd, sx_qes x s)" if "e \<in> set (w_pending w' s h)" for e h
      using d that by (cases "h = gid") (auto simp: seg_done_def)
    then show ?thesis using d by (auto simp: seg_done_def)
  next
    case False
    then show ?thesis using f(4) a(2) by (simp add: seg_same_def)
  qed
  then show "\<forall>s. qe_wf (sx_qes x' s)" by blast
  have "others_world gid w w'" using s by (simp add: others_world_def)
  moreover have "pending_wf w'" if "pending_wf w" unfolding pending_wf_def
  proof (intro allI ballI)
    fix s h e assume "e \<in> set (w_pending w' s h)"
    then have "e \<in> set (w_pending w s h) \<or> e = (Some cmd, sx_qes x s)" using s by blast
    then show "qe_wf (snd e)" using that a(2) by (auto simp: pending_wf_def)
  qed
  ultimately show "world_step gid w w'" using f(1) by (simp add: world_step_def)
  show "keys_same x x'" "dtxSegments x' = dtxSegments (addToGxactDtxSegments ss x)" using f by simp_all
qed

lemma dispatch_parts:
  assumes d: "doDispatchDtxProtocolCommand cmd gid re ss reply (x, w) = (r, x', w')"
    and a: "writers reply" "\<forall>s. qe_wf (sx_qes x s)" "distinct ss" and w1: "\<forall>s. p_weight (sw_part gid (x, w) s) \<le> 1"
  shows "parts_step (\<lambda>_. Some cmd) (sw_part gid (x, w)) (sw_part gid (x', w'))"
    "p_weight (sw_part gid (x', w') s) \<le> p_weight (sw_part gid (x, w) s) + (if s \<in> set ss \<and> begin_cmd cmd (sx_qes x s) then 1 else 0)"
proof -
  note f = doDispatch_done [OF d a]
  have s: "(sw_part gid (x', w') s = sw_part gid (x, w) s \<or> part_step (Some cmd) (sw_part gid (x, w) s) (sw_part gid (x', w') s)) \<and>
      p_weight (sw_part gid (x', w') s) \<le> p_weight (sw_part gid (x, w) s) + (if s \<in> set ss \<and> begin_cmd cmd (sx_qes x s) then 1 else 0)" for s
  proof (cases "s \<in> set ss")
    case True
    then have "seg_done cmd gid (r = Returned True) s (x, w) (x', w')" using f(5) by blast
    then show ?thesis using w1 True by (simp add: seg_done_def)
  next
    case False
    then have "seg_same s (x, w) (x', w')" using f(4) by blast
    then show ?thesis by (simp add: seg_same_def sw_part_def)
  qed
  show "parts_step (\<lambda>_. Some cmd) (sw_part gid (x, w)) (sw_part gid (x', w'))" using s by (simp add: parts_step_def)
  show "p_weight (sw_part gid (x', w') s) \<le> p_weight (sw_part gid (x, w) s) + (if s \<in> set ss \<and> begin_cmd cmd (sx_qes x s) then 1 else 0)" using s by blast
qed

lemma dispatch_tx:
  assumes ok: "tx_ok comps (Some x) (sw_part gid (x, w)) L arr td d True" and a: "writers reply"
    and r: "doDispatchDtxProtocolCommand cmd gid re (dtxSegments x) reply (x, w) = (r, x', w')"
    and c: "cmd \<noteq> DTX_PROTOCOL_COMMAND_SUBTRANSACTION_BEGIN_INTERNAL" "may_do (Some x) (sw_part gid (x, w)) d (Some cmd)"
  shows "tx_ok comps (Some x') (sw_part gid (x', w')) L arr td d True" "world_step gid w w'" "keys_same x x'" "dtxSegments x' = dtxSegments x"
proof -
  have s: "\<forall>s. qe_wf (sx_qes x s)" "distinct (dtxSegments x)" "\<forall>s. p_weight (sw_part gid (x, w) s) \<le> 1"
    using ok by (auto simp: tx_ok_def sess_ok_def)
  note f = dispatch_world [OF r a s(1,2)] and p = dispatch_parts [OF r a s]
  show "world_step gid w w'" "keys_same x x'" and ds: "dtxSegments x' = dtxSegments x" using f by simp_all
  show "tx_ok comps (Some x') (sw_part gid (x', w')) L arr td d True"
  proof (rule tx_parts [OF ok p(1)])
    show "\<forall>s. p_weight (sw_part gid (x', w') s) \<le> p_weight (sw_part gid (x, w) s)"
    proof
      fix s show "p_weight (sw_part gid (x', w') s) \<le> p_weight (sw_part gid (x, w) s)" using p(2) [of s] c(1) by (simp add: begin_cmd_def)
    qed
  qed (use c(2) f ds in \<open>simp_all add: sess_same_def sw_part_pos\<close>)
qed

section \<open>Steps of a session\<close>

text \<open>The invariant of the transaction of a session in the middle of a step that leaves the log alone.\<close>

definition sess_inv :: "nat list \<Rightarrow> cluster \<Rightarrow> decisions \<Rightarrow> DistributedTransactionId \<Rightarrow> sw \<Rightarrow> bool" where
  "sess_inv comps c dec g xw \<longleftrightarrow>
     tx_ok comps (Some (fst xw)) (sw_part (dtxFormGid g) xw) (log_view_of g (w_log (cl_world c))) (g \<in> set (cl_committed c)) (todo c g) (dec g) True \<and>
     world_step (dtxFormGid g) (cl_world c) (snd xw)"

lemma sess_inv_start: "cluster_ok comps c gs dec \<Longrightarrow> cl_sessions c g = Some x \<Longrightarrow> sess_inv comps c dec g (x, cl_world c)"
  by (simp add: sess_inv_def sessionD)

lemma sess_inv_put:
  assumes "cluster_ok comps c gs dec" "cl_sessions c g = Some x" "sess_inv comps c dec g xw"
  shows "cluster_ok comps (put g xw c) gs dec"
  using session_step [OF assms(1,2), of "snd xw" "fst xw" dec] assms sessionD(3,4) [OF assms(1,2)]
  by (simp add: sess_inv_def world_step_def)

lemma sess_inv_wf: "sess_inv comps c dec g (x, w) \<Longrightarrow> (\<forall>s. qe_wf (sx_qes x s)) \<and> distinct (dtxSegments x) \<and> set (dtxSegments x) \<subseteq> set comps"
  by (simp add: sess_inv_def tx_ok_def sess_ok_def)

lemma sess_inv_stage:
  assumes "sess_inv comps c dec g (x, w)" "dtxSegments x' = dtxSegments x" "sx_qes x' = sx_qes x" "delayChkpt x' = delayChkpt x"
    and "includeInCkpt x \<longrightarrow> includeInCkpt x'" "stage_ok (stage x') x' (sw_part (dtxFormGid g) (x, w)) (log_view_of g (w_log (cl_world c))) (dec g)"
  shows "sess_inv comps c dec g (x', w)"
proof -
  have "sw_part (dtxFormGid g) (x', w) = sw_part (dtxFormGid g) (x, w)" using assms(3) by (simp add: sw_part_def fun_eq_iff)
  moreover have "ckpt_covers (Some x) L arr \<Longrightarrow> ckpt_covers (Some x') L arr" for L arr
    using assms(4,5) by (auto simp: ckpt_covers_def is_included_def is_delayed_def split: option.splits)
  moreover have "l_tail (log_view_of g (w_log (cl_world c))) \<Longrightarrow> delayChkpt x'" using assms(1,4) by (simp add: sess_inv_def tx_ok_def is_delayed_def)
  ultimately show ?thesis using assms tx_stage by (fastforce simp: sess_inv_def)
qed

lemma sess_inv_stage_ok: "sess_inv comps c dec g (x, w) \<Longrightarrow> stage_ok (stage x) x (sw_part (dtxFormGid g) (x, w)) (log_view_of g (w_log (cl_world c))) (dec g)"
  by (simp add: sess_inv_def tx_ok_def sess_ok_def)

lemma sess_inv_dispatch:
  assumes i: "sess_inv comps c dec g (x, w)" and a: "writers reply"
    and r: "currentDtxDispatchProtocolCommand g cmd re reply (x, w) = (r, x', w')"
    and m: "cmd \<noteq> DTX_PROTOCOL_COMMAND_SUBTRANSACTION_BEGIN_INTERNAL" "may_do (Some x) (sw_part (dtxFormGid g) (x, w)) (dec g) (Some cmd)"
  shows "sess_inv comps c dec g (x', w')" "keys_same x x'" "dtxSegments x' = dtxSegments x"
proof -
  note f = dispatch_tx [OF conjunct1 [OF i [unfolded sess_inv_def], simplified] a r [unfolded currentDtxDispatchProtocolCommand_def, simplified] m]
  show "sess_inv comps c dec g (x', w')" using f(1,2) i world_step_trans by (auto simp: sess_inv_def)
  show "keys_same x x'" "dtxSegments x' = dtxSegments x" using f by simp_all
qed

lemma sess_inv_reset:
  assumes i: "sess_inv comps c dec g (x, w)" and r: "ResetAllGangs (dtxFormGid g) (x, w) = (x', w')"
  shows "sess_inv comps c dec g (x', w')" "keys_same x x'" "dtxSegments x' = dtxSegments x"
proof -
  note s = ResetAllGangs_simps [OF r]
  let ?gid = "dtxFormGid g"
  have p: "sw_part ?gid (x', w') t = (sw_part ?gid (x, w) t)\<lparr>p_pend := insert None (p_pend (sw_part ?gid (x, w) t))\<rparr>" for t
    using s by (simp add: sw_part_def reset_part)
  show k: "keys_same x x'" "dtxSegments x' = dtxSegments x" using s(1) by (simp_all add: keys_same_def)
  have st: "parts_step (\<lambda>_. None) (sw_part ?gid (x, w)) (sw_part ?gid (x', w'))"
    unfolding parts_step_def p using part_step_None sw_part_pos by blast
  have t: "tx_ok comps (Some x') (sw_part ?gid (x', w')) (log_view_of g (w_log (cl_world c))) (g \<in> set (cl_committed c)) (todo c g) (dec g) True"
    by (rule tx_parts [OF conjunct1 [OF i [unfolded sess_inv_def], simplified] st]) (use k p s(1) in \<open>simp_all add: sess_inv_def sess_same_def may_do_def sw_part_pos\<close>)
  have "world_step ?gid w w'" using s(2-4) sess_inv_wf [OF i] by (auto simp: world_step_def others_world_def pending_wf_def)
  then show "sess_inv comps c dec g (x', w')" using t i world_step_trans by (auto simp: sess_inv_def)
qed

end
