(* ===== verification/Tm_Steps.thy ===== *)
theory Tm_Steps
  imports Tm_Reach
begin

text \<open>
  The functions of a session keep the invariant of the cluster: preparing, inserting the commit record, notifying the segments, forgetting, rolling back,
  statements, subtransactions, and the end of the session.
\<close>

section \<open>What an accepted command has achieved\<close>

lemma dispatch_accepted:
  assumes i: "sess_inv comps c dec g (x, w)" and a: "writers reply"
    and r: "currentDtxDispatchProtocolCommand g cmd re reply (x, w) = (Returned True, x', w')" and s: "s \<in> set (dtxSegments x)"
  shows "\<exists>env ws q. performDtxProtocolCommand env cmd (dtxFormGid g) (sx_qes x s) (w_segs w s) = ((QE_ok, ws), q, w_segs w' s)"
proof -
  have "seg_done cmd (dtxFormGid g) True s (x, w) (x', w')"
    using doDispatch_done(5) [OF r [unfolded currentDtxDispatchProtocolCommand_def, simplified] a] sess_inv_wf [OF i] s by simp
  then show ?thesis by (auto simp: seg_done_def)
qed

lemma sess_inv_weight: "sess_inv comps c dec g (x, w) \<Longrightarrow> p_weight (sw_part (dtxFormGid g) (x, w) s) \<le> 1"
  by (simp add: sess_inv_def tx_ok_def)

lemma weight_prepared: "p_weight (sw_part gid (x, w) s) \<le> 1 \<Longrightarrow> count_list (prepXacts (w_segs w s)) gid \<le> Suc 0"
  by (simp add: sw_part_def part_of_def stored_def)

lemma prepare_accepted:
  assumes "sess_inv comps c dec g (x, w)" "writers reply"
    and "currentDtxDispatchProtocolCommand g DTX_PROTOCOL_COMMAND_PREPARE re reply (x, w) = (Returned True, x', w')" "s \<in> set (dtxSegments x)"
  shows "p_prep (sw_part (dtxFormGid g) (x', w') s)"
  using dispatch_accepted [OF assms] by (auto simp: sw_part_def part_of_def dest: prepare_ok)

lemma finish_accepted:
  assumes i: "sess_inv comps c dec g (x, w)" "writers reply"
    and r: "currentDtxDispatchProtocolCommand g cmd re reply (x, w) = (Returned True, x', w')"
    and c: "commit_cmd cmd" and i': "sess_inv comps c dec g (x', w')" "dtxSegments x' = dtxSegments x"
  shows "none_prepared (sw_part (dtxFormGid g) (x', w'))"
  unfolding none_prepared_def
proof
  fix s
  show "\<not> p_prep (sw_part (dtxFormGid g) (x', w') s)"
  proof (cases "s \<in> set (dtxSegments x)")
    case True
    from dispatch_accepted [OF i r True] obtain env ws q
      where e: "performDtxProtocolCommand env cmd (dtxFormGid g) (sx_qes x s) (w_segs w s) = ((QE_ok, ws), q, w_segs w' s)" by blast
    have "dtxFormGid g \<notin> set (prepXacts (w_segs w' s))"
      by (rule finish_ok [OF e weight_prepared [OF sess_inv_weight [OF i(1)]]]) (use c in blast)
    then show ?thesis by (simp add: sw_part_def part_of_def)
  next
    case False
    then have "p_weight (sw_part (dtxFormGid g) (x', w') s) = 0" using i' by (auto simp: sess_inv_def tx_ok_def sess_ok_def)
    then show ?thesis using sw_part_pos [of "dtxFormGid g" "(x', w')" s] by auto
  qed
qed

section \<open>The first phase\<close>

lemma set_running:
  assumes "sess_inv comps c dec g (x, w)" "stage x = St_running" "stage_of st = St_running"
  shows "sess_inv comps c dec g (setCurrentDtxState st x, w)"
  by (rule sess_inv_stage [OF assms(1)]) (use assms(2,3) sess_inv_stage_ok [OF assms(1)] in simp_all)

lemma running_dispatch:
  assumes "sess_inv comps c dec g (x, w)" "stage x = St_running" "writers reply" "cmd = DTX_PROTOCOL_COMMAND_PREPARE \<or> cmd = DTX_PROTOCOL_COMMAND_COMMIT_ONEPHASE"
    and "currentDtxDispatchProtocolCommand g cmd re reply (x, w) = (r, x', w')"
  shows "sess_inv comps c dec g (x', w')" "keys_same x x'" "dtxSegments x' = dtxSegments x"
proof -
  have "may_do (Some x) (sw_part (dtxFormGid g) (x, w)) (dec g) (Some cmd)" "cmd \<noteq> DTX_PROTOCOL_COMMAND_SUBTRANSACTION_BEGIN_INTERNAL"
    using assms(4) by (auto simp: may_do_def commit_cmd_def abort_cmd_def)
  from sess_inv_dispatch [OF assms(1,3,5) this(2,1)] show "sess_inv comps c dec g (x', w')" "keys_same x x'" "dtxSegments x' = dtxSegments x" by simp_all
qed

lemma doNotifyingOnePhaseCommit_inv:
  assumes i: "sess_inv comps c dec g (x, w)" "stage x = St_running" and a: "writers reply"
  shows "sess_inv comps c dec g (snd (doNotifyingOnePhaseCommit g reply (x, w)))"
proof (cases "dtxSegments x = []")
  case True
  then show ?thesis using i by (simp add: doNotifyingOnePhaseCommit_def)
next
  case False
  let ?x = "setCurrentDtxState DTX_STATE_NOTIFYING_ONE_PHASE_COMMIT x"
  obtain r x' w' where r: "currentDtxDispatchProtocolCommand g DTX_PROTOCOL_COMMAND_COMMIT_ONEPHASE True reply (?x, w) = (r, x', w')" by (metis prod_cases3)
  have "sess_inv comps c dec g (x', w')"
    by (rule running_dispatch(1) [OF set_running [OF i] _ a _ r]) simp_all
  then show ?thesis using r False
    by (simp add: doNotifyingOnePhaseCommit_def split: dispatch_result.split bool.split)
qed

lemma doPrepareTransaction_inv:
  assumes i: "sess_inv comps c dec g (x, w)" "stage x = St_running" and a: "writers reply"
  shows "sess_inv comps c dec g (snd (doPrepareTransaction interrupted g reply (x, w)))"
proof (cases interrupted)
  case True
  then show ?thesis using i by (simp add: doPrepareTransaction_def)
next
  case False
  let ?x = "setCurrentDtxState DTX_STATE_PREPARING x"
  obtain r x' w' where r: "currentDtxDispatchProtocolCommand g DTX_PROTOCOL_COMMAND_PREPARE True reply (?x, w) = (r, x', w')" by (metis prod_cases3)
  have i1: "sess_inv comps c dec g (?x, w)" using set_running [OF i] by simp
  note d = running_dispatch [OF i1 _ a _ r, simplified]
  have "sess_inv comps c dec g (setCurrentDtxState DTX_STATE_PREPARED x', w')" if "r = Returned True"
  proof (rule sess_inv_stage [OF d(1)])
    have "\<forall>s \<in> set (dtxSegments x'). p_prep (sw_part (dtxFormGid g) (x', w') s)"
      using prepare_accepted [OF i1 a r [unfolded that]] d(3) by simp
    then show "stage_ok (stage (setCurrentDtxState DTX_STATE_PREPARED x')) (setCurrentDtxState DTX_STATE_PREPARED x')
        (sw_part (dtxFormGid g) (x', w')) (log_view_of g (w_log (cl_world c))) (dec g)"
      using sess_inv_stage_ok [OF d(1)] d(2) by (simp add: keys_same_def)
  qed simp_all
  then show ?thesis using r d(1) False by (simp add: doPrepareTransaction_def split: dispatch_result.split bool.split)
qed

lemma prepareDtxTransaction_inv:
  assumes "sess_inv comps c dec g (x, w)" "sx_state x = DTX_STATE_ACTIVE_DISTRIBUTED" "writers reply"
  shows "sess_inv comps c dec g (snd (prepareDtxTransaction interrupted g reply (x, w)))"
  using assms doPrepareTransaction_inv [OF assms(1) _ assms(3)] doNotifyingOnePhaseCommit_inv [OF set_running [OF assms(1)] _ assms(3), of DTX_STATE_ONE_PHASE_COMMIT]
  by (simp add: prepareDtxTransaction_def isCurrentDtxActivated_def)

section \<open>The second phase\<close>

lemma commit_dispatch:
  assumes "sess_inv comps c dec g (x, w)" "stage x = St_notifying" "writers reply" "commit_cmd cmd"
    and "currentDtxDispatchProtocolCommand g cmd re reply (x, w) = (r, x', w')"
  shows "sess_inv comps c dec g (x', w')" "keys_same x x'" "dtxSegments x' = dtxSegments x" "r = Returned True \<Longrightarrow> none_prepared (sw_part (dtxFormGid g) (x', w'))"
proof -
  have "dec g \<noteq> None" using sess_inv_stage_ok [OF assms(1)] assms(2) by simp
  then have "may_do (Some x) (sw_part (dtxFormGid g) (x, w)) (dec g) (Some cmd)" "cmd \<noteq> DTX_PROTOCOL_COMMAND_SUBTRANSACTION_BEGIN_INTERNAL"
    using assms(2,4) by (auto simp: may_do_def commit_cmd_def abort_cmd_def)
  from sess_inv_dispatch [OF assms(1,3,5) this(2,1)]
  show "sess_inv comps c dec g (x', w')" "keys_same x x'" "dtxSegments x' = dtxSegments x" .
  then show "r = Returned True \<Longrightarrow> none_prepared (sw_part (dtxFormGid g) (x', w'))"
    using finish_accepted [OF assms(1,3)] assms(4,5) by blast
qed

lemma notifying_again:
  assumes i: "sess_inv comps c dec g (x, w)" "stage x = St_notifying" and x': "dtxSegments x' = dtxSegments x" "sx_qes x' = sx_qes x"
      "delayChkpt x' = delayChkpt x" "includeInCkpt x' = includeInCkpt x" "stage x' = St_notifying"
    and n: "sx_succeeded x' \<Longrightarrow> none_prepared (sw_part (dtxFormGid g) (x, w))"
  shows "sess_inv comps c dec g (x', w)"
  by (rule sess_inv_stage [OF i(1) x'(1-3)]) (use x' n sess_inv_stage_ok [OF i(1)] i(2) in auto)

lemma notify_first_inv:
  assumes i: "sess_inv comps c dec g (x, w)" "sx_state x = DTX_STATE_INSERTED_COMMITTED" "\<not> delayChkpt x" and a: "writers reply"
  shows "sess_inv comps c dec g (notify_first g reply (x, w))"
proof -
  let ?x = "setCurrentDtxState DTX_STATE_NOTIFYING_COMMIT_PREPARED x"
  have i1: "sess_inv comps c dec g (?x, w)"
    by (rule sess_inv_stage [OF i(1)]) (use i(2,3) sess_inv_stage_ok [OF i(1)] in simp_all)
  obtain r x' w' where r: "currentDtxDispatchProtocolCommand g DTX_PROTOCOL_COMMAND_COMMIT_PREPARED True reply (?x, w) = (r, x', w')" by (metis prod_cases3)
  note d = commit_dispatch [OF i1 _ a _ r, simplified, unfolded commit_cmd_def, simplified]
  have st: "stage x' = St_notifying" "delayChkpt x' = delayChkpt ?x" using d(2) by (simp_all add: keys_same_def)
  have "sess_inv comps c dec g (x'\<lparr>sx_succeeded := True\<rparr>, w')" if "r = Returned True"
    by (rule notifying_again [OF d(1) st(1)]) (use st d(4) that in simp_all)
  moreover have "sess_inv comps c dec g ((setCurrentDtxState DTX_STATE_RETRY_COMMIT_PREPARED x')\<lparr>sx_context := DTX_CONTEXT_QD_RETRY_PHASE_2, sx_succeeded := False\<rparr>, w')"
    by (rule notifying_again [OF d(1) st(1)]) simp_all
  ultimately show ?thesis using r by (simp add: notify_first_def split: dispatch_result.split bool.split)
qed

lemma notify_retry_inv:
  assumes i: "sess_inv comps c dec g (x, w)" "stage x = St_notifying" and a: "writers reply"
  shows "sess_inv comps c dec g (notify_retry g reply (x, w))"
proof -
  obtain x1 w1 where r1: "ResetAllGangs (dtxFormGid g) (x, w) = (x1, w1)" by fastforce
  note s1 = sess_inv_reset [OF i(1) r1]
  have st1: "stage x1 = St_notifying" using s1(2) i(2) by (simp add: keys_same_def)
  obtain r x' w' where r: "currentDtxDispatchProtocolCommand g DTX_PROTOCOL_COMMAND_RETRY_COMMIT_PREPARED True reply (x1, w1) = (r, x', w')" by (metis prod_cases3)
  note d = commit_dispatch [OF s1(1) st1 a _ r, unfolded commit_cmd_def, simplified]
  have "stage x' = St_notifying" using d(2) st1 by (simp add: keys_same_def)
  then have "sess_inv comps c dec g (x'\<lparr>sx_succeeded := (r = Returned True)\<rparr>, w')"
    using d(4) by (intro notifying_again [OF d(1)]) simp_all
  then show ?thesis using r r1 by (simp add: notify_retry_def)
qed

section \<open>Rolling back\<close>

lemma set_aborting:
  assumes "sess_inv comps c dec g (x, w)" "stage x \<in> {St_running, St_prepared, St_aborting}" "stage x' = St_aborting" "dtxSegments x' = dtxSegments x"
    "sx_qes x' = sx_qes x" "delayChkpt x' = delayChkpt x" "includeInCkpt x' = includeInCkpt x"
  shows "sess_inv comps c dec g (x', w)"
  by (rule sess_inv_stage [OF assms(1,4-6)]) (use assms(2,3,6,7) sess_inv_stage_ok [OF assms(1)] in auto)

lemma before_commit_stage: "before_commit st \<Longrightarrow> stage_of st \<in> {St_running, St_prepared}"
  by (auto simp: before_commit_def)

lemma aborting_stage: "aborting st \<longleftrightarrow> stage_of st = St_aborting"
  by (cases st) (simp_all add: aborting_def)

lemma rollback_switch_cases:
  assumes "before_commit (sx_state x)"
  shows "rollback_switch g (x, w) = (Some Tm_done, x, w) \<or>
    (\<exists>x'. rollback_switch g (x, w) = (None, x', w) \<and> stage x' = St_aborting \<and> dtxSegments x' = dtxSegments x \<and> sx_qes x' = sx_qes x \<and>
       delayChkpt x' = delayChkpt x \<and> includeInCkpt x' = includeInCkpt x)"
  using assms by (auto simp: before_commit_def rollback_switch_def)

lemma rollback_begin_inv:
  assumes i: "sess_inv comps c dec g (x, w)" and b: "before_commit (sx_state x)"
  shows "sess_inv comps c dec g (snd (rollback_begin pe g (x, w)))"
  using rollback_switch_cases [OF b, of g w]
proof (elim disjE exE conjE)
  fix x' assume x': "rollback_switch g (x, w) = (None, x', w)" "stage x' = St_aborting" "dtxSegments x' = dtxSegments x" "sx_qes x' = sx_qes x"
      "delayChkpt x' = delayChkpt x" "includeInCkpt x' = includeInCkpt x"
  have i1: "sess_inv comps c dec g (x', w)"
    by (rule set_aborting [OF i]) (use before_commit_stage [OF b] x' in auto)
  obtain x2 w2 where r: "ResetAllGangs (dtxFormGid g) (x', w) = (x2, w2)" by fastforce
  then show ?thesis using i i1 x'(1) sess_inv_reset(1) [OF i1 r] by (simp add: rollback_begin_def)
qed (use i in \<open>simp add: rollback_begin_def\<close>)

lemma abort_dispatch:
  assumes "sess_inv comps c dec g (x, w)" "stage x = St_aborting" "writers reply" "cmd = DTX_PROTOCOL_COMMAND_ABORT_NO_PREPARED \<or> abort_cmd cmd"
    and "currentDtxDispatchProtocolCommand g cmd re reply (x, w) = (r, x', w')"
  shows "sess_inv comps c dec g (x', w')" "stage x' = St_aborting"
proof -
  have "dec g = None" using sess_inv_stage_ok [OF assms(1)] assms(2) by simp
  then have "may_do (Some x) (sw_part (dtxFormGid g) (x, w)) (dec g) (Some cmd)" "cmd \<noteq> DTX_PROTOCOL_COMMAND_SUBTRANSACTION_BEGIN_INTERNAL"
    using assms(2,4) by (auto simp: may_do_def commit_cmd_def abort_cmd_def)
  note d = sess_inv_dispatch [OF assms(1,3,5) this(2,1)]
  from d show "sess_inv comps c dec g (x', w')" "stage x' = St_aborting" using assms(2) by (simp_all add: keys_same_def)
qed

lemma abort_first_inv:
  assumes i: "sess_inv comps c dec g (x, w)" "stage x = St_aborting" and a: "writers reply"
  shows "sess_inv comps c dec g (snd (abort_first g reply (x, w)))"
proof (cases "sx_state x = DTX_STATE_NOTIFYING_ABORT_NO_PREPARED")
  case True
  obtain r x' w' where r: "currentDtxDispatchProtocolCommand g DTX_PROTOCOL_COMMAND_ABORT_NO_PREPARED False reply (x, w) = (r, x', w')" by (metis prod_cases3)
  note d = abort_dispatch [OF i a _ r, simplified]
  obtain x2 w2 where "ResetAllGangs (dtxFormGid g) (x', w') = (x2, w2)" by fastforce
  with sess_inv_reset(1) [OF d(1) this] show ?thesis using True r d(1)
    by (simp add: abort_first_def split: dispatch_result.split bool.split)
next
  case no: False
  show ?thesis
  proof (cases "sx_state x = DTX_STATE_NOTIFYING_ABORT_SOME_PREPARED \<or> sx_state x = DTX_STATE_NOTIFYING_ABORT_PREPARED")
    case True
    let ?cmd = "if sx_state x = DTX_STATE_NOTIFYING_ABORT_SOME_PREPARED then DTX_PROTOCOL_COMMAND_ABORT_SOME_PREPARED else DTX_PROTOCOL_COMMAND_ABORT_PREPARED"
    obtain r x' w' where r: "currentDtxDispatchProtocolCommand g ?cmd True reply (x, w) = (r, x', w')" by (metis prod_cases3)
    have "abort_cmd ?cmd" by (simp add: abort_cmd_def)
    then have d: "sess_inv comps c dec g (x', w')" "stage x' = St_aborting" using abort_dispatch [OF i a _ r] by blast+
    have "sess_inv comps c dec g ((setCurrentDtxState DTX_STATE_RETRY_ABORT_PREPARED x')\<lparr>sx_context := DTX_CONTEXT_QD_RETRY_PHASE_2, sx_succeeded := False\<rparr>, w')"
      by (rule set_aborting [OF d(1)]) (use d(2) in simp_all)
    then show ?thesis using no True r d(1) by (simp add: abort_first_def split: dispatch_result.split bool.split)
  next
    case False
    have "sess_inv comps c dec g (x\<lparr>sx_succeeded := False\<rparr>, w)" by (rule set_aborting [OF i(1)]) (use i(2) in simp_all)
    then show ?thesis using no False by (simp add: abort_first_def)
  qed
qed

lemma widen_aborting:
  assumes i: "sess_inv comps c dec g (x, w)" "stage x = St_aborting" and "distinct comps"
  shows "sess_inv comps c dec g (x\<lparr>dtxSegments := comps\<rparr>, w)"
proof -
  have "sw_part (dtxFormGid g) (x\<lparr>dtxSegments := comps\<rparr>, w) = sw_part (dtxFormGid g) (x, w)" by (simp add: sw_part_def fun_eq_iff)
  then show ?thesis using assms by (auto simp: sess_inv_def tx_ok_def sess_ok_def is_delayed_def split: option.splits)
qed

lemma abort_retry_inv:
  assumes i: "sess_inv comps c dec g (x, w)" "stage x = St_aborting" and a: "writers reply" "distinct comps"
  shows "sess_inv comps c dec g (abort_retry comps g reply (x, w))"
proof -
  obtain x1 w1 where r1: "ResetAllGangs (dtxFormGid g) (x, w) = (x1, w1)" by fastforce
  note s1 = sess_inv_reset [OF i(1) r1]
  have st1: "stage x1 = St_aborting" using s1(2) i(2) by (simp add: keys_same_def)
  note wd = widen_aborting [OF s1(1) st1 a(2)]
  obtain r x' w' where r: "currentDtxDispatchProtocolCommand g DTX_PROTOCOL_COMMAND_RETRY_ABORT_PREPARED True reply (x1\<lparr>dtxSegments := comps\<rparr>, w1) = (r, x', w')"
    by (metis prod_cases3)
  note d = abort_dispatch [OF wd _ a(1) _ r, simplified, unfolded abort_cmd_def, simplified, OF st1]
  have "sess_inv comps c dec g (x'\<lparr>sx_succeeded := (r = Returned True)\<rparr>, w')" by (rule set_aborting [OF d(1)]) (use d(2) in simp_all)
  then show ?thesis using r r1 by (simp add: abort_retry_def)
qed

end
