(* ===== verification/Tm_Run.thy ===== *)
theory Tm_Run
  imports Tm_Steps
begin

text \<open>
  The other steps of the cluster keep its invariant: the commit record and its flush, the forget record, statements and subtransactions, the beginning and the end of
  sessions, commands that are carried out late, crashes, recovery and checkpoints. So it holds in every run.
\<close>

section \<open>The log\<close>

lemma log_view_insert:
  assumes "log_wf lg"
  shows "h \<noteq> g \<Longrightarrow> log_view_of h (xlog_insert (Distributed_commit g) lg) = log_view_of h lg"
    "h \<noteq> g \<Longrightarrow> log_view_of h (xlog_insert (Distributed_forget g) lg) = log_view_of h lg"
    "log_view_of g (xlog_insert (Distributed_commit g) lg) =
       (log_view_of g lg)\<lparr>l_commit := True, l_tail := True, l_ckpt := map_option (\<lambda>(cm, r). (True, r)) (l_ckpt (log_view_of g lg))\<rparr>"
    "log_view_of g (xlog_insert (Distributed_forget g) lg) = (log_view_of g lg)\<lparr>l_forget := True\<rparr>"
  using assms by (cases "lg_ckpt lg"; auto simp: log_view_of_def xlog_insert_def log_wf_def)+

lemma log_view_flush: "log_view_of h (xlog_flush lg) = (log_view_of h lg)\<lparr>l_tail := False\<rparr>"
  by (simp add: log_view_of_def xlog_flush_def)

lemma log_wf_insert:
  assumes "log_wf lg"
  shows "Distributed_commit g \<notin> set (lg_recs lg) \<Longrightarrow> log_wf (xlog_insert (Distributed_commit g) lg)" "log_wf (xlog_insert (Distributed_forget g) lg)"
  using assms by (auto simp: log_wf_def xlog_insert_def split: if_splits)

lemma log_wf_flush: "log_wf lg \<Longrightarrow> log_wf (xlog_flush lg)"
  by (simp add: log_wf_def xlog_flush_def)

lemma sw_part_log: "sw_part gid (x, w\<lparr>w_log := lg\<rparr>) = sw_part gid (x, w)"
  by (simp add: sw_part_def fun_eq_iff)

lemma log_session_step:
  assumes ok: "cluster_ok comps c gs dec" and x: "cl_sessions c g = Some x" and lg: "log_wf lg" "\<And>h. h \<noteq> g \<Longrightarrow> log_frame h (w_log (cl_world c)) lg"
    and x': "sx_qes x' = sx_qes x" and d: "\<And>h. h \<noteq> g \<Longrightarrow> dec' h = dec h"
    and tx: "tx_ok comps (Some x') (sw_part (dtxFormGid g) (x, cl_world c)) (log_view_of g lg) (g \<in> set (cl_committed c)) (todo c g) (dec' g) True"
  shows "cluster_ok comps (put g (x', (cl_world c)\<lparr>w_log := lg\<rparr>) c) gs dec'"
proof (rule session_step [OF ok x])
  have "sw_part (dtxFormGid g) (x', cl_world c) = sw_part (dtxFormGid g) (x, cl_world c)" using x' by (simp add: sw_part_def fun_eq_iff)
  then show "tx_ok comps (Some x') (sw_part (dtxFormGid g) (x', (cl_world c)\<lparr>w_log := lg\<rparr>)) (log_view_of g (w_log ((cl_world c)\<lparr>w_log := lg\<rparr>)))
      (g \<in> set (cl_committed c)) (todo c g) (dec' g) True" using tx by (simp add: sw_part_log)
qed (use lg d sessionD(3) [OF ok x] in \<open>simp_all add: others_world_def pending_wf_def\<close>)

lemma enter_ok:
  assumes ok: "cluster_ok comps c gs dec" and x: "cl_sessions c g = Some x" "sx_state x = DTX_STATE_PREPARED"
  shows "cluster_ok comps (put g (commit_enter x, cl_world c) c) gs dec"
proof -
  note t = sessionD(1) [OF ok x(1)]
  let ?P = "sw_part (dtxFormGid g) (x, cl_world c)" and ?L = "log_view_of g (w_log (cl_world c))"
  have o: "dec g = None" "undecided ?P ?L (g \<in> set (cl_committed c))" "\<not> l_tail ?L" "stage_ok St_prepared x ?P ?L (dec g)"
    using t x(2) by (auto simp: tx_ok_def sess_ok_def is_delayed_def)
  have "tx_ok comps (Some (commit_enter x)) ?P ?L (g \<in> set (cl_committed c)) (todo c g) (dec g) True"
    by (rule tx_stage [OF t]) (use o in \<open>auto simp: commit_enter_def insertingDistributedCommitted_def undecided_def split: option.split\<close>)
  then show ?thesis using log_session_step [OF ok x(1) sessionD(4) [OF ok x(1)], of "commit_enter x" dec]
    by (simp add: commit_enter_def insertingDistributedCommitted_def)
qed

lemma insert_record_ok:
  assumes ok: "cluster_ok comps c gs dec" and x: "cl_sessions c g = Some x" "sx_state x = DTX_STATE_INSERTING_COMMITTED"
    and n: "Distributed_commit g \<notin> set (lg_recs (w_log (cl_world c)))"
  shows "cluster_ok comps (put g (x, commit_record g (cl_world c)) c) gs (dec(g := Some (dtxSegments x)))"
  unfolding commit_record_def
proof (rule log_session_step [OF ok x(1)])
  note s = sessionD [OF ok x(1)]
  show "log_wf (xlog_insert (Distributed_commit g) (w_log (cl_world c)))" using log_wf_insert(1) [OF s(4) n] .
  show "tx_ok comps (Some x) (sw_part (dtxFormGid g) (x, cl_world c)) (log_view_of g (xlog_insert (Distributed_commit g) (w_log (cl_world c))))
      (g \<in> set (cl_committed c)) (todo c g) ((dec(g := Some (dtxSegments x))) g) True"
    unfolding log_view_insert(3) [OF s(4)] fun_upd_same
    by (rule tx_insert_record [OF s(1)]) (use x(2) n in \<open>simp_all add: log_view_of_def\<close>)
  show "log_frame h (w_log (cl_world c)) (xlog_insert (Distributed_commit g) (w_log (cl_world c)))" if "h \<noteq> g" for h
    using log_view_insert(1) [OF s(4) that] by (simp add: log_frame_def)
qed simp_all

lemma inserted_ok:
  assumes ok: "cluster_ok comps c gs dec" and x: "cl_sessions c g = Some x" "sx_state x = DTX_STATE_INSERTING_COMMITTED"
    and n: "Distributed_commit g \<in> set (lg_recs (w_log (cl_world c)))"
  shows "cluster_ok comps (put g (insertedDistributedCommitted x, cl_world c) c) gs dec"
proof (rule sess_inv_put [OF ok x(1)])
  note i = sess_inv_start [OF ok x(1)]
  have "l_commit (log_view_of g (w_log (cl_world c)))" using n by (simp add: log_view_of_def)
  then show "sess_inv comps c dec g (insertedDistributedCommitted x, cl_world c)"
    by (intro sess_inv_stage [OF i]) (use sess_inv_stage_ok [OF i] x(2) in \<open>simp_all add: insertedDistributedCommitted_def\<close>)
qed

lemma flush_step_ok:
  assumes ok: "cluster_ok comps c gs dec" and x: "cl_sessions c g = Some x" "sx_state x = DTX_STATE_INSERTED_COMMITTED"
  shows "cluster_ok comps (put g (commit_flush (x, cl_world c)) c) gs dec"
  unfolding commit_flush_def prod.case
proof (rule log_session_step [OF ok x(1)])
  note s = sessionD [OF ok x(1)]
  show "log_wf (xlog_flush (w_log (cl_world c)))" using s(4) by (rule log_wf_flush)
  have st: "stage_ok St_inserted x (sw_part (dtxFormGid g) (x, cl_world c)) (log_view_of g (w_log (cl_world c))) (dec g)"
    using s(2) x(2) by (simp add: sess_ok_def)
  show "tx_ok comps (Some (x\<lparr>delayChkpt := False\<rparr>)) (sw_part (dtxFormGid g) (x, cl_world c)) (log_view_of g (xlog_flush (w_log (cl_world c))))
      (g \<in> set (cl_committed c)) (todo c g) (dec g) True"
    unfolding log_view_flush
    by (rule tx_stage [OF tx_flush [OF s(1)]])
      (use st x(2) in \<open>auto simp: ckpt_covers_def is_included_def split: option.splits\<close>)
qed (simp_all add: log_frame_def log_view_flush)

lemma forget_ok:
  assumes ok: "cluster_ok comps c gs dec" and x: "cl_sessions c g = Some x" "stage x = St_notifying" "sx_succeeded x"
  shows "cluster_ok comps (put g (doInsertForgetCommitted g (x, cl_world c)) c) gs dec"
  unfolding doInsertForgetCommitted_def RecordDistributedForgetCommitted_def prod.case Let_def
proof (rule log_session_step [OF ok x(1)])
  note s = sessionD [OF ok x(1)]
  show "log_wf (xlog_insert (Distributed_forget g) (w_log (cl_world c)))" using log_wf_insert(2) [OF s(4)] .
  have st: "\<not> delayChkpt x" using s(2) x(2) by (simp add: sess_ok_def)
  show "tx_ok comps (Some ((setCurrentDtxState DTX_STATE_INSERTED_FORGET_COMMITTED (setCurrentDtxState DTX_STATE_INSERTING_FORGET_COMMITTED x))\<lparr>includeInCkpt := False\<rparr>))
      (sw_part (dtxFormGid g) (x, cl_world c)) (log_view_of g (xlog_insert (Distributed_forget g) (w_log (cl_world c)))) (g \<in> set (cl_committed c)) (todo c g) (dec g) True"
    unfolding log_view_insert(4) [OF s(4)]
    by (rule tx_forget [OF s(1) x(2,3)]) (use st in simp_all)
  show "log_frame h (w_log (cl_world c)) (xlog_insert (Distributed_forget g) (w_log (cl_world c)))" if "h \<noteq> g" for h
    using log_view_insert(2) [OF s(4) that] by (simp add: log_frame_def)
qed simp_all

section \<open>Statements and subtransactions\<close>

lemma sess_inv_running:
  assumes i: "sess_inv comps c dec g (x, w)" and x: "stage x = St_running" "keys_same x x'"
    and ds: "distinct (dtxSegments x')" "set (dtxSegments x') \<subseteq> set comps" "set (dtxSegments x) \<subseteq> set (dtxSegments x')" "\<forall>s. qe_wf (sx_qes x' s)"
    and st: "parts_step co (sw_part (dtxFormGid g) (x, w)) (sw_part (dtxFormGid g) (x', w'))" "\<forall>s. \<not> is_commit (co s) \<and> \<not> is_abort (co s)"
    and wt: "\<And>s. p_weight (sw_part (dtxFormGid g) (x', w') s) \<le> p_weight (sw_part (dtxFormGid g) (x, w) s) + (if s \<in> set (dtxSegments x') \<and> s \<notin> set (dtxSegments x) then 1 else 0)"
    and w: "world_step (dtxFormGid g) w w'"
  shows "sess_inv comps c dec g (x', w')"
proof -
  let ?P = "sw_part (dtxFormGid g) (x, w)" and ?P' = "sw_part (dtxFormGid g) (x', w')"
  have o: "stage_ok St_running x ?P (log_view_of g (w_log (cl_world c))) (dec g)" using sess_inv_stage_ok [OF i] x(1) by simp
  have "p_weight (?P' s) \<le> (if s \<in> set (dtxSegments x') then 1 else 0)" for s
  proof -
    have "p_weight (?P s) = 0" if "s \<notin> set (dtxSegments x)" using i that by (simp add: sess_inv_def tx_ok_def sess_ok_def)
    then show ?thesis using wt [of s] sess_inv_weight [OF i, of s] ds(3)
      by (cases "s \<in> set (dtxSegments x)"; cases "s \<in> set (dtxSegments x')") auto
  qed
  then have "tx_ok comps (Some x') ?P' (log_view_of g (w_log (cl_world c))) (g \<in> set (cl_committed c)) (todo c g) (dec g) True"
    by (intro tx_running [OF conjunct1 [OF i [unfolded sess_inv_def], simplified] x(1) _ _ _ _ ds(1,2,4) st])
      (use x o in \<open>auto simp: keys_same_def sw_part_pos\<close>)
  then show ?thesis using i w world_step_trans by (auto simp: sess_inv_def)
qed

lemma statement_inv:
  assumes i: "sess_inv comps c dec g (x, w)" and x: "sx_state x = DTX_STATE_ACTIVE_DISTRIBUTED" "s \<in> set comps" "gang_alive x s" "writer_env env"
  shows "sess_inv comps c dec g (dispatch_statement g s env wrote xid (x, w))"
proof -
  let ?gid = "dtxFormGid g"
  obtain a q sg where r: "run_statement env ?gid (sx_qes x s) (w_segs w s) = (a, q, sg)" by (metis prod_cases3)
  let ?x = "(addToGxactDtxSegments [s] x)\<lparr>sx_qes := (sx_qes x)(s := q), sx_wrote := sx_wrote x \<or> wrote, sx_xid := sx_xid x \<or> xid\<rparr>"
  let ?w = "w\<lparr>w_segs := (w_segs w)(s := sg)\<rparr>"
  note wf = sess_inv_wf [OF i]
  note f = statement_part [OF r _ x(4), of "w_pending w s ?gid"]
  have w1: "p_weight (part_of ?gid (sx_qes x s) (w_segs w s) (w_pending w s ?gid)) \<le> 1" using sess_inv_weight [OF i, of s] by (simp add: sw_part_def)
  have act: "isCurrentDtxActivated x" using x(1) by (simp add: isCurrentDtxActivated_def)
  have p: "sw_part ?gid (?x, ?w) t = (if t = s then part_of ?gid q sg (w_pending w s ?gid) else sw_part ?gid (x, w) t)" for t
    by (simp add: sw_part_def)
  have "sess_inv comps c dec g (?x, ?w)"
  proof (rule sess_inv_running [OF i])
    show "parts_step (\<lambda>_. None) (sw_part ?gid (x, w)) (sw_part ?gid (?x, ?w))"
      unfolding parts_step_def p using f(2) wf w1 by (simp add: sw_part_def)
    show "p_weight (sw_part ?gid (?x, ?w) t) \<le> p_weight (sw_part ?gid (x, w) t) + (if t \<in> set (dtxSegments ?x) \<and> t \<notin> set (dtxSegments x) then 1 else 0)" for t
      unfolding p using f(4) wf w1 x(3) act by (auto simp: sw_part_def gang_alive_def split: if_splits)
    show "world_step ?gid w ?w" using f(3) wf w1 by (simp add: world_step_def others_world_def pending_wf_def)
  qed (use wf x act f(1) w1 in \<open>auto simp: keys_same_def addToGxactDtxSegments_def\<close>)
  then show ?thesis using r by (simp add: dispatch_statement_def)
qed

lemma subtransaction_inv:
  assumes i: "sess_inv comps c dec g (x, w)" and x: "sx_state x = DTX_STATE_ACTIVE_DISTRIBUTED" "\<forall>s \<in> set comps. gang_alive x s" "writers reply" "distinct comps"
    and cmd: "\<not> commit_cmd cmd" "\<not> abort_cmd cmd"
  shows "sess_inv comps c dec g (snd (doDispatchSubtransactionInternalCmd comps g cmd reply (x, w)))"
proof (cases "writerGangLost x")
  case True
  then show ?thesis using i by (simp add: doDispatchSubtransactionInternalCmd_def)
next
  case False
  let ?gid = "dtxFormGid g"
  obtain r x' w' where r: "doDispatchDtxProtocolCommand cmd ?gid True comps reply (x, w) = (r, x', w')" by (metis prod_cases3)
  note wf = sess_inv_wf [OF i]
  have act: "isCurrentDtxActivated x" using x(1) by (simp add: isCurrentDtxActivated_def)
  note d = dispatch_world [OF r x(3) conjunct1 [OF wf] x(4)]
  note p = dispatch_parts [OF r x(3) conjunct1 [OF wf] x(4), OF allI, OF sess_inv_weight [OF i]]
  have ds: "set (dtxSegments x') = set (dtxSegments x) \<union> set comps" "distinct (dtxSegments x')" using d(4) act wf by simp_all
  have "sess_inv comps c dec g (x', w')"
  proof (rule sess_inv_running [OF i _ d(3) ds(2) _ _ d(2) p(1) _ _ d(1)])
    show "p_weight (sw_part ?gid (x', w') s) \<le> p_weight (sw_part ?gid (x, w) s) + (if s \<in> set (dtxSegments x') \<and> s \<notin> set (dtxSegments x) then 1 else 0)" for s
      using p(2) [of s] x(2) ds(1) by (auto simp: gang_alive_def begin_cmd_def split: if_splits)
  qed (use x(1) ds wf cmd in auto)
  then show ?thesis using r False act by (simp add: doDispatchSubtransactionInternalCmd_def split: dispatch_result.split bool.split)
qed

section \<open>Lost processes, and sessions\<close>

lemma lose_inv:
  assumes i: "sess_inv comps c dec g (x, w)"
  shows "sess_inv comps c dec g (lose_process g s (x, w))"
proof -
  let ?gid = "dtxFormGid g"
  obtain x' w' where r: "lose_process g s (x, w) = (x', w')" by fastforce
  then have x': "x' = x\<lparr>sx_qes := (sx_qes x)(s := fresh_qe)\<rparr>"
      "w' = w\<lparr>w_pending := (w_pending w)(s := (w_pending w s)(?gid := w_pending w s ?gid @ [(None, sx_qes x s)]))\<rparr>"
    by (auto simp: lose_process_def)
  have p: "sw_part ?gid (x', w') t = (if t = s then (sw_part ?gid (x, w) t)\<lparr>p_pend := insert None (p_pend (sw_part ?gid (x, w) t))\<rparr> else sw_part ?gid (x, w) t)" for t
    using x' by (simp add: sw_part_def reset_part)
  have st: "parts_step (\<lambda>_. None) (sw_part ?gid (x, w)) (sw_part ?gid (x', w'))"
    unfolding parts_step_def p using part_step_None sw_part_pos by auto
  have "tx_ok comps (Some x') (sw_part ?gid (x', w')) (log_view_of g (w_log (cl_world c))) (g \<in> set (cl_committed c)) (todo c g) (dec g) True"
    by (rule tx_parts [OF conjunct1 [OF i [unfolded sess_inv_def], simplified] st])
      (use x' p sess_inv_wf [OF i] in \<open>simp_all add: sess_same_def keys_same_def may_do_def sw_part_pos\<close>)
  moreover have "world_step ?gid w w'" using x' sess_inv_wf [OF i] by (auto simp: world_step_def others_world_def pending_wf_def split: if_splits)
  ultimately show ?thesis using r i world_step_trans by (auto simp: sess_inv_def)
qed

lemma new_session_qes: "sx_qes new_session = (\<lambda>_. fresh_qe)"
  by (simp add: new_session_def)

lemma begin_ok:
  assumes ok: "cluster_ok comps c gs dec" and p: "cl_phase c = Rec_started gids" and g: "g \<notin> set gs"
  shows "cluster_ok comps (begin_dtx g c) (g # gs) dec"
proof -
  let ?x = "snd (setupDtxTransaction (snd (setupRegularDtxContext True new_session)))"
  have x: "sx_state ?x = DTX_STATE_ACTIVE_DISTRIBUTED" "dtxSegments ?x = []" "sx_qes ?x = (\<lambda>_. fresh_qe)" "\<not> delayChkpt ?x" "\<not> includeInCkpt ?x" "\<not> sx_succeeded ?x"
    by (simp_all add: setupDtxTransaction_def setupRegularDtxContext_def new_session_def isCurrentDtxActivated_def)
  have i: "tx_inv comps c gs dec h" for h using ok by (simp add: cluster_ok_def)
  then have none: "cl_sessions c g = None" using i [of g] g by (simp add: tx_inv_def tx_ok_def)
  have t: "todo (begin_dtx g c) = todo c" by (simp add: todo_def begin_dtx_def)
  have "tx_inv comps (begin_dtx g c) (g # gs) dec h" for h
  proof (cases "h = g")
    case True
    have "parts (begin_dtx g c) g = parts c g" using none x(3)
      by (simp add: parts_def sess_or_new_def begin_dtx_def sw_part_def fun_eq_iff new_session_qes)
    moreover have "tx_ok comps (Some ?x) (parts c g) (log_view_of g (w_log (cl_world c))) (g \<in> set (cl_committed c)) (todo c g) (dec g) True"
      by (rule tx_begin) (use i [of g] g x in \<open>simp_all add: tx_inv_def\<close>)
    ultimately show ?thesis using True t by (simp add: tx_inv_def begin_dtx_def)
  next
    case False
    then show ?thesis using i [of h] t by (simp add: tx_inv_def begin_dtx_def parts_def sess_or_new_def)
  qed
  moreover have "control_ok (begin_dtx g c)" using ok p none by (auto simp: cluster_ok_def control_ok_def begin_dtx_def)
  ultimately show ?thesis using ok by (auto simp: cluster_ok_def begin_dtx_def gids_ok_def)
qed

lemma end_ok:
  assumes ok: "cluster_ok comps c gs dec" and x: "cl_sessions c g = Some x" "stage x \<in> {St_running, St_prepared, St_aborting, St_forgotten}"
  shows "cluster_ok comps (end_dtx g c) gs dec"
proof -
  obtain x' w' where r: "ResetAllGangs (dtxFormGid g) (x, cl_world c) = (x', w')" by fastforce
  note s = sess_inv_reset [OF sess_inv_start [OF ok x(1)] r] and rs = ResetAllGangs_simps(1) [OF r]
  have c': "end_dtx g c = c\<lparr>cl_world := w', cl_sessions := (cl_sessions c)(g := None), cl_procs := filter (\<lambda>h. h \<noteq> g) (cl_procs c)\<rparr>"
    using r x(1) by (simp add: end_dtx_def)
  have t: "todo (end_dtx g c) = todo c" by (simp add: todo_def c')
  have w: "world_step (dtxFormGid g) (cl_world c) w'" using s(1) by (simp add: sess_inv_def)
  have i: "tx_inv comps c gs dec h" for h using ok by (simp add: cluster_ok_def)
  have "tx_inv comps (end_dtx g c) gs dec h" for h
  proof (cases "h = g")
    case True
    have "g \<in> set gs" using i [of g] x by (auto simp: tx_inv_def tx_ok_def)
    moreover have "sw_part (dtxFormGid g) (new_session, w') = sw_part (dtxFormGid g) (x', w')" using rs by (simp add: sw_part_def fun_eq_iff new_session_qes)
    moreover have "tx_ok comps None (sw_part (dtxFormGid g) (x', w')) (log_view_of g (w_log (cl_world c))) (g \<in> set (cl_committed c)) (todo c g) (dec g) True"
      by (rule tx_end [where x = x']) (use s x(2) in \<open>simp_all add: sess_inv_def keys_same_def\<close>)
    ultimately show ?thesis using True t w by (simp add: tx_inv_def c' parts_def sess_or_new_def world_step_def)
  next
    case False
    then show ?thesis using i [of h] t sw_part_others [OF conjunct1 [OF w [unfolded world_step_def]]] w
      by (simp add: tx_inv_def c' parts_def sess_or_new_def world_step_def)
  qed
  moreover have "control_ok (end_dtx g c)" using ok x(1) by (cases "cl_phase c") (auto simp: cluster_ok_def control_ok_def c')
  ultimately show ?thesis using ok w by (simp add: cluster_ok_def c' world_step_def gids_ok_def)
qed

section \<open>Steps without a session\<close>

lemma world_step_ok:
  assumes ok: "cluster_ok comps c gs dec" and w: "world_step gid (cl_world c) w'"
    and tx: "\<And>g. gid = dtxFormGid g \<Longrightarrow> tx_ok comps (cl_sessions c g) (sw_part gid (sess_or_new c g, w')) (log_view_of g (w_log (cl_world c)))
      (g \<in> set (cl_committed c)) (todo c g) (dec g) (g \<in> set gs)"
  shows "cluster_ok comps (c\<lparr>cl_world := w'\<rparr>) gs dec"
proof -
  have t: "todo (c\<lparr>cl_world := w'\<rparr>) = todo c" by (simp add: todo_def)
  have "tx_inv comps (c\<lparr>cl_world := w'\<rparr>) gs dec h" for h
  proof (cases "gid = dtxFormGid h")
    case True
    then show ?thesis using tx [OF True] w t by (simp add: tx_inv_def parts_def sess_or_new_def world_step_def)
  next
    case False
    then have "parts (c\<lparr>cl_world := w'\<rparr>) h = parts c h"
      using sw_part_others [of gid "cl_world c" w' "dtxFormGid h"] w by (simp add: parts_def sess_or_new_def world_step_def)
    then show ?thesis using ok w t by (simp add: cluster_ok_def tx_inv_def world_step_def)
  qed
  then show ?thesis using ok w by (simp add: cluster_ok_def control_ok_def gids_ok_def world_step_def)
qed

lemma tx_invD: "cluster_ok comps c gs dec \<Longrightarrow> tx_ok comps (cl_sessions c g) (sw_part (dtxFormGid g) (sess_or_new c g, cl_world c)) (log_view_of g (w_log (cl_world c)))
    (g \<in> set (cl_committed c)) (todo c g) (dec g) (g \<in> set gs)"
  by (simp add: cluster_ok_def tx_inv_def parts_def)

text \<open>What is pending may still be done.\<close>

lemma pending_may_do:
  assumes ok: "tx_ok comps so P L arr td d i" and co: "co \<in> p_pend (P s)"
  shows "may_do so P d co" "i"
proof -
  have np: "\<not> K co" if "none_pending K P" for K using that co by (auto simp: none_pending_def)
  show "may_do so P d co" unfolding may_do_def
  proof (intro conjI impI allI)
    assume c: "is_commit co"
    show "d \<noteq> None" using ok np [of is_commit] c by (auto simp: tx_ok_def undecided_def)
    show "stage x \<notin> {St_inserting, St_inserted}" if "so = Some x" for x using ok that np [of is_commit] c by (auto simp: tx_ok_def sess_ok_def)
  next
    assume a: "is_abort co"
    show "none_prepared P" if "d \<noteq> None" using ok that np [of is_abort] a by (auto simp: tx_ok_def decided_def unfinished_ok_def)
    show "stage x \<in> {St_aborting, St_notifying, St_forgotten}" if "so = Some x" for x
      using ok that np [of is_abort] a by (cases "stage x") (auto simp: tx_ok_def sess_ok_def)
  qed
  show i using ok co by (auto simp: tx_ok_def)
qed

lemma late_ok:
  assumes ok: "cluster_ok comps c gs dec" and i: "i < length (w_pending (cl_world c) s gid)" and env: "\<forall>env. ro = Some env \<longrightarrow> writer_env env"
  shows "cluster_ok comps (run_late s gid i ro c) gs dec"
proof -
  let ?w = "cl_world c" and ?es = "w_pending (cl_world c) s gid"
  let ?w' = "?w\<lparr>w_segs := (w_segs ?w)(s := late_segment ro gid (?es ! i) (w_segs ?w s)),
      w_pending := (w_pending ?w)(s := (w_pending ?w s)(gid := take i ?es @ drop (Suc i) ?es))\<rparr>"
  have pw: "pending_wf ?w" using ok by (simp add: cluster_ok_def)
  then have wf: "qe_wf (snd (?es ! i))" using nth_mem [OF i] by (simp add: pending_wf_def)
  have sub: "set (take i ?es @ drop (Suc i) ?es) \<subseteq> set ?es" using set_take_subset [of i ?es] set_drop_subset [of "Suc i" ?es] by auto
  have eff: "others_same gid (w_segs ?w s) (late_segment ro gid (?es ! i) (w_segs ?w s))"
    using late_effect [OF wf env, of gid "fst (?es ! i)" "w_segs ?w s"] by (auto intro!: abort_open_others intro: effect_others)
  have "\<forall>e \<in> set (take i ?es @ drop (Suc i) ?es). qe_wf (snd e)" using pw sub by (meson pending_wf_def subsetD)
  then have ws: "world_step gid ?w ?w'"
    using eff pw by (simp add: world_step_def others_world_def pending_wf_def)
  have "cluster_ok comps (c\<lparr>cl_world := ?w'\<rparr>) gs dec"
  proof (rule world_step_ok [OF ok ws])
    fix g assume g: "gid = dtxFormGid g"
    let ?x = "sess_or_new c g"
    note t = tx_invD [OF ok, of g, folded g]
    have w1: "p_weight (part_of gid (sx_qes ?x s) (w_segs ?w s) ?es) \<le> 1" using t by (simp add: tx_ok_def sw_part_def)
    note l = late_part [OF i w1 wf env]
    have p: "sw_part gid (?x, ?w') s = part_of gid (sx_qes ?x s) (late_segment ro gid (?es ! i) (w_segs ?w s)) (take i ?es @ drop (Suc i) ?es)"
        "sw_part gid (?x, ?w) s = part_of gid (sx_qes ?x s) (w_segs ?w s) ?es" "\<And>u. u \<noteq> s \<Longrightarrow> sw_part gid (?x, ?w') u = sw_part gid (?x, ?w) u"
      by (simp_all add: sw_part_def)
    have co: "fst (?es ! i) \<in> p_pend (sw_part gid (?x, ?w) s)" using i by (simp add: sw_part_def part_of_def)
    note may = pending_may_do [OF t co]
    have st: "parts_step (\<lambda>_. fst (?es ! i)) (sw_part gid (?x, ?w)) (sw_part gid (?x, ?w'))" unfolding parts_step_def
    proof
      fix u show "sw_part gid (?x, ?w') u = sw_part gid (?x, ?w) u \<or> part_step (fst (?es ! i)) (sw_part gid (?x, ?w) u) (sw_part gid (?x, ?w') u)"
        using l(1) p by (cases "u = s") auto
    qed
    have le: "p_weight (sw_part gid (?x, ?w') u) \<le> p_weight (sw_part gid (?x, ?w) u)" for u using l(2) p by (cases "u = s") auto
    have same: "sess_same (cl_sessions c g) (cl_sessions c g)"
      using t by (auto simp: sess_same_def keys_same_def tx_ok_def sess_ok_def split: option.split)
    have "g \<in> set gs" using may(2) .
    with tx_parts [OF t [unfolded eqTrueI [OF may(2)]] st _ _ _ same] le may(1)
    show "tx_ok comps (cl_sessions c g) (sw_part gid (?x, ?w')) (log_view_of g (w_log ?w)) (g \<in> set (cl_committed c)) (todo c g) (dec g) (g \<in> set gs)"
      by (auto simp: sw_part_pos)
  qed
  then show ?thesis by (simp add: run_late_def Let_def)
qed

end
