(* ===== verification/Tm_Restart.thy ===== *)
theory Tm_Restart
  imports Tm_Run
begin

text \<open>
  The recovery process, crashes and checkpoints keep the invariant of the cluster; so it holds in every run.
\<close>

section \<open>Commands of the recovery process\<close>

lemma part_step_obs:
  assumes "p1 = p \<or> part_step co p p1" "p_prep p' = p_prep p1" "p_comm p' = p_comm p1" "p_pend p' = p_pend p1" "p_prep p' \<or> p_comm p' \<longrightarrow> 0 < p_weight p'"
  shows "part_step co p p'"
  using assms by (auto simp: part_step_def)

lemma sw_part_new:
  "p_prep (sw_part gid (new_session, w) s) = p_prep (sw_part gid (x, w) s)" "p_comm (sw_part gid (new_session, w) s) = p_comm (sw_part gid (x, w) s)"
  "p_pend (sw_part gid (new_session, w) s) = p_pend (sw_part gid (x, w) s)" "p_weight (sw_part gid (new_session, w) s) \<le> p_weight (sw_part gid (x, w) s)"
  by (simp_all add: sw_part_def part_of_def new_session_qes open_weight_def)

lemma recovery_tx:
  assumes ok: "tx_ok comps None (sw_part gid (new_session, w)) L arr td d True"
    and r: "recovery_dispatch comps cmd gid reply w = (b, w')" and a: "writers reply" "distinct comps"
    and c: "cmd \<noteq> DTX_PROTOCOL_COMMAND_SUBTRANSACTION_BEGIN_INTERNAL" "may_do None (sw_part gid (new_session, w)) d (Some cmd)"
  shows "tx_ok comps None (sw_part gid (new_session, w')) L arr td d True"
proof -
  obtain r x' w1 where d: "doDispatchDtxProtocolCommand cmd gid False comps reply (new_session, w) = (r, x', w1)" by (metis prod_cases3)
  then have w': "w' = w1" using r by (simp add: recovery_dispatch_def)
  have wf: "\<forall>s. qe_wf (sx_qes new_session s)" by (simp add: new_session_qes)
  have "\<forall>s. p_weight (sw_part gid (new_session, w) s) \<le> 1" using ok by (simp add: tx_ok_def)
  note p = dispatch_parts [OF d a(1) wf a(2) this]
  show ?thesis
  proof (rule tx_parts [OF ok])
    show "parts_step (\<lambda>_. Some cmd) (sw_part gid (new_session, w)) (sw_part gid (new_session, w'))" unfolding parts_step_def
    proof
      fix s
      have "sw_part gid (x', w') s = sw_part gid (new_session, w) s \<or> part_step (Some cmd) (sw_part gid (new_session, w) s) (sw_part gid (x', w') s)"
        using p(1) w' by (simp add: parts_step_def)
      then have "part_step (Some cmd) (sw_part gid (new_session, w) s) (sw_part gid (new_session, w') s)"
        by (rule part_step_obs) (rule sw_part_new sw_part_pos)+
      then show "sw_part gid (new_session, w') s = sw_part gid (new_session, w) s \<or> part_step (Some cmd) (sw_part gid (new_session, w) s) (sw_part gid (new_session, w') s)"
        by blast
    qed
    show "\<forall>s. p_weight (sw_part gid (new_session, w') s) \<le> p_weight (sw_part gid (new_session, w) s)"
    proof
      fix s show "p_weight (sw_part gid (new_session, w') s) \<le> p_weight (sw_part gid (new_session, w) s)"
        using p(2) [of s] c(1) w' sw_part_new(4) [of gid w1 s x'] by (simp add: begin_cmd_def)
    qed
  qed (use c(2) in \<open>simp_all add: sw_part_pos sess_same_def\<close>)
qed

lemma recovery_world:
  assumes r: "recovery_dispatch comps cmd gid reply w = (b, w')" and a: "writers reply" "distinct comps"
  shows "world_step gid w w'"
proof -
  obtain r x' w1 where d: "doDispatchDtxProtocolCommand cmd gid False comps reply (new_session, w) = (r, x', w1)" by (metis prod_cases3)
  then show ?thesis using r dispatch_world(1) [OF d a(1) _ a(2)] by (simp add: recovery_dispatch_def new_session_qes)
qed

lemma recovery_accepted:
  assumes r: "recovery_dispatch comps DTX_PROTOCOL_COMMAND_RECOVERY_COMMIT_PREPARED gid reply w = (True, w')" and a: "writers reply" "distinct comps"
    and s: "s \<in> set comps" "count_list (prepXacts (w_segs w s)) gid \<le> Suc 0"
  shows "gid \<notin> set (prepXacts (w_segs w' s))"
proof -
  obtain r x' w1 where d: "doDispatchDtxProtocolCommand DTX_PROTOCOL_COMMAND_RECOVERY_COMMIT_PREPARED gid False comps reply (new_session, w) = (r, x', w1)"
    by (metis prod_cases3)
  then have "r = Returned True" "w' = w1" using r by (simp_all add: recovery_dispatch_def)
  then have "seg_done DTX_PROTOCOL_COMMAND_RECOVERY_COMMIT_PREPARED gid True s (new_session, w) (x', w')"
    using doDispatch_done(5) [OF d a(1) _ a(2)] s(1) by (simp add: new_session_qes)
  then obtain env ws where "performDtxProtocolCommand env DTX_PROTOCOL_COMMAND_RECOVERY_COMMIT_PREPARED gid (sx_qes new_session s) (w_segs w s) =
      ((QE_ok, ws), sx_qes x' s, w_segs w' s)" by (auto simp: seg_done_def)
  from finish_ok [OF this s(2)] show ?thesis by (simp add: commit_cmd_def)
qed

section \<open>Phases of recovery\<close>

text \<open>A new phase, with the world as it is.\<close>

lemma phase_step:
  assumes ok: "cluster_ok comps c gs dec" and p: "phase_ok ph committed (cl_procs c)" and g: "\<And>g. dtxFormGid g \<in> set (phase_gids ph) \<Longrightarrow> g \<in> set gs"
    and t: "\<And>g. (dec g \<noteq> None \<Longrightarrow> \<not> none_prepared (parts c g) \<Longrightarrow> cl_sessions c g = None \<Longrightarrow> todo c g \<Longrightarrow> todo_in ph committed g)"
    and arr: "\<And>g. g \<in> set committed \<Longrightarrow> g \<in> set (cl_committed c)" "\<And>g. todo_in ph committed g \<Longrightarrow> g \<in> set committed"
    and none: "(\<forall>g. cl_sessions c g = None) \<or> committed = cl_committed c \<and> todo_in ph committed = todo c"
  shows "cluster_ok comps (c\<lparr>cl_committed := committed, cl_phase := ph\<rparr>) gs dec"
proof -
  have "tx_inv comps (c\<lparr>cl_committed := committed, cl_phase := ph\<rparr>) gs dec g" for g
  proof -
    have i: "tx_ok comps (cl_sessions c g) (parts c g) (log_view_of g (w_log (cl_world c))) (g \<in> set (cl_committed c)) (todo c g) (dec g) (g \<in> set gs)"
      using ok by (simp add: cluster_ok_def tx_inv_def)
    have "tx_ok comps (cl_sessions c g) (parts c g) (log_view_of g (w_log (cl_world c))) (g \<in> set committed) (todo_in ph committed g) (dec g) (g \<in> set gs)"
    proof (cases "\<forall>g. cl_sessions c g = None")
      case True
      then have s: "cl_sessions c g = None" by simp
      show ?thesis unfolding s by (rule tx_todo [OF i [unfolded s]]) (use t [of g] arr s in auto)
    next
      case False
      then show ?thesis using none i by auto
    qed
    then show ?thesis by (simp add: tx_inv_def parts_def sess_or_new_def todo_def)
  qed
  then show ?thesis using ok p g by (simp add: cluster_ok_def control_ok_def gids_ok_def)
qed

lemma no_sessions: "cluster_ok comps c gs dec \<Longrightarrow> cl_procs c = [] \<Longrightarrow> cl_sessions c g = None"
  by (auto simp: cluster_ok_def control_ok_def)

lemma cluster_okD: "cluster_ok comps c gs dec \<Longrightarrow> phase_ok (cl_phase c) (cl_committed c) (cl_procs c)"
    "cluster_ok comps c gs dec \<Longrightarrow> dtxFormGid g \<in> set (phase_gids (cl_phase c)) \<Longrightarrow> g \<in> set gs"
  by (simp_all add: cluster_ok_def control_ok_def gids_ok_def)

text \<open>What the segments report belongs to transactions.\<close>

lemma gather_issued:
  assumes ok: "cluster_ok comps c gs dec" and g: "gatherRMInDoubtTransactions comps answers re (cl_world c) = Inr gids" "dtxFormGid g \<in> set gids"
  shows "g \<in> set gs"
proof -
  obtain s where "dtxFormGid g \<in> set (prepXacts (w_segs (cl_world c) s))"
    using g by (auto simp: gatherRMInDoubtTransactions_def split: if_splits)
  then have "p_prep (sw_part (dtxFormGid g) (sess_or_new c g, cl_world c) s)" by (simp add: sw_part_def part_of_def)
  then have "p_weight (sw_part (dtxFormGid g) (sess_or_new c g, cl_world c) s) \<noteq> 0" using sw_part_pos by (metis less_numeral_extra(3))
  then show ?thesis using tx_invD [OF ok, of g] by (auto simp: tx_ok_def)
qed

lemma recovery_done_ok:
  assumes ok: "cluster_ok comps c gs dec" and p: "cl_phase c = Rec_commit (length (cl_committed c))"
    and ph: "phase_ok ph [] (cl_procs c)" "\<And>g. dtxFormGid g \<in> set (phase_gids ph) \<Longrightarrow> g \<in> set gs" "ph = Rec_commit 0 \<or> (\<exists>gids. ph = Rec_abort gids)"
  shows "cluster_ok comps (c\<lparr>cl_committed := [], cl_phase := ph\<rparr>) gs dec"
proof (rule phase_step [OF ok ph(1,2)])
  have "cl_procs c = []" using cluster_okD(1) [OF ok] p by simp
  then show "(\<forall>g. cl_sessions c g = None) \<or> [] = cl_committed c \<and> todo_in ph [] = todo c" using no_sessions [OF ok] by blast
qed (use p ph(3) in \<open>auto simp: todo_def\<close>)

text \<open>An abort by the recovery process is for transactions that nobody will commit.\<close>

lemma recovery_abort_ok:
  assumes ok: "cluster_ok comps c gs dec" and a: "writers reply" "distinct comps" and g: "\<And>g. gid = dtxFormGid g \<Longrightarrow> cl_sessions c g = None \<and> g \<in> set gs"
    and t: "\<And>g. \<not> todo c g"
  shows "cluster_ok comps (c\<lparr>cl_world := doAbortInDoubt comps gid reply (cl_world c)\<rparr>) gs dec"
proof -
  obtain b w' where r: "recovery_dispatch comps DTX_PROTOCOL_COMMAND_RECOVERY_ABORT_PREPARED gid reply (cl_world c) = (b, w')" by fastforce
  have "cluster_ok comps (c\<lparr>cl_world := w'\<rparr>) gs dec"
  proof (rule world_step_ok [OF ok recovery_world [OF r a]])
    fix h assume h: "gid = dtxFormGid h"
    then have s: "cl_sessions c h = None" "h \<in> set gs" "sess_or_new c h = new_session" using g by (auto simp: sess_or_new_def)
    have i: "tx_ok comps None (sw_part gid (new_session, cl_world c)) (log_view_of h (w_log (cl_world c))) (h \<in> set (cl_committed c)) (todo c h) (dec h) True"
      using tx_invD [OF ok, of h] s h by simp
    then have "may_do None (sw_part gid (new_session, cl_world c)) (dec h) (Some DTX_PROTOCOL_COMMAND_RECOVERY_ABORT_PREPARED)"
      using t by (auto simp: may_do_def commit_cmd_def tx_ok_def decided_def unfinished_ok_def split: option.splits)
    from recovery_tx [OF i r a _ this]
    show "tx_ok comps (cl_sessions c h) (sw_part gid (sess_or_new c h, w')) (log_view_of h (w_log (cl_world c))) (h \<in> set (cl_committed c)) (todo c h) (dec h) (h \<in> set gs)"
      using s by simp
  qed
  then show ?thesis using r by (simp add: doAbortInDoubt_def)
qed

section \<open>Changes of the log\<close>

lemma log_step:
  assumes ok: "cluster_ok comps c gs dec" and lg: "log_wf (f (w_log (cl_world c)))"
    and tx: "\<And>g. tx_ok comps (cl_sessions c g) (parts c g) (log_view_of g (w_log (cl_world c))) (g \<in> set (cl_committed c)) (todo c g) (dec g) (g \<in> set gs) \<Longrightarrow>
      tx_ok comps (cl_sessions c g) (parts c g) (log_view_of g (f (w_log (cl_world c)))) (g \<in> set (cl_committed c)) (todo c g) (dec g) (g \<in> set gs)"
  shows "cluster_ok comps (on_log f c) gs dec"
proof -
  have "parts (on_log f c) = parts c" "todo (on_log f c) = todo c" by (simp_all add: fun_eq_iff on_log_def parts_def sess_or_new_def sw_part_def todo_def)
  then have "tx_inv comps (on_log f c) gs dec g" for g using ok tx [of g] by (simp add: cluster_ok_def tx_inv_def on_log_def)
  then show ?thesis using ok lg by (simp add: cluster_ok_def control_ok_def gids_ok_def on_log_def pending_wf_def)
qed

lemma log_step_g:
  assumes ok: "cluster_ok comps c gs dec" "none_prepared (parts c g)" "cl_sessions c g = None" "dec g \<noteq> None"
  shows "cluster_ok comps (on_log (xlog_insert (Distributed_forget g)) c) gs dec"
proof (rule log_step [OF ok(1)])
  have lw: "log_wf (w_log (cl_world c))" using ok(1) by (simp add: cluster_ok_def)
  then show "log_wf (xlog_insert (Distributed_forget g) (w_log (cl_world c)))" by (rule log_wf_insert)
  fix h
  assume t: "tx_ok comps (cl_sessions c h) (parts c h) (log_view_of h (w_log (cl_world c))) (h \<in> set (cl_committed c)) (todo c h) (dec h) (h \<in> set gs)"
  show "tx_ok comps (cl_sessions c h) (parts c h) (log_view_of h (xlog_insert (Distributed_forget g) (w_log (cl_world c)))) (h \<in> set (cl_committed c)) (todo c h) (dec h) (h \<in> set gs)"
  proof (cases "h = g")
    case True
    then show ?thesis using t ok by (auto simp: log_view_insert(4) [OF lw] tx_ok_def decided_def)
  next
    case False
    then show ?thesis using t by (simp add: log_view_insert(2) [OF lw])
  qed
qed

lemma rec_commit_ok:
  assumes ok: "cluster_ok comps c gs dec" and p: "cl_phase c = Rec_commit i" "i < length (cl_committed c)" and a: "writers reply" "distinct comps"
  shows "cluster_ok comps (rec_commit comps i reply c) gs dec"
proof -
  let ?g = "cl_committed c ! i"
  obtain b w' where r: "recovery_dispatch comps DTX_PROTOCOL_COMMAND_RECOVERY_COMMIT_PREPARED (dtxFormGid ?g) reply (cl_world c) = (b, w')" by fastforce
  have procs: "cl_procs c = []" using cluster_okD(1) [OF ok] p by simp
  have s: "cl_sessions c ?g = None" "sess_or_new c ?g = new_session" using no_sessions [OF ok procs] by (simp_all add: sess_or_new_def)
  have t: "tx_ok comps None (sw_part (dtxFormGid ?g) (new_session, cl_world c)) (log_view_of ?g (w_log (cl_world c))) True (todo c ?g) (dec ?g) (?g \<in> set gs)"
    using tx_invD [OF ok, of ?g] s p(2) by simp
  then obtain D where D: "dec ?g = Some D" "?g \<in> set gs" "decided comps None (sw_part (dtxFormGid ?g) (new_session, cl_world c)) (log_view_of ?g (w_log (cl_world c))) True (todo c ?g) D"
    by (auto simp: tx_ok_def undecided_def split: option.splits)
  have "may_do None (sw_part (dtxFormGid ?g) (new_session, cl_world c)) (dec ?g) (Some DTX_PROTOCOL_COMMAND_RECOVERY_COMMIT_PREPARED)"
    using D by (simp add: may_do_def abort_cmd_def)
  then have t1: "tx_ok comps None (sw_part (dtxFormGid ?g) (new_session, w')) (log_view_of ?g (w_log (cl_world c))) True (todo c ?g) (dec ?g) True"
    using recovery_tx [OF _ r a] t D by simp
  let ?c = "c\<lparr>cl_world := w'\<rparr>"
  have ok1: "cluster_ok comps ?c gs dec"
    by (rule world_step_ok [OF ok recovery_world [OF r a]]) (use t1 s D p(2) in auto)
  have none: "\<forall>g. cl_sessions ?c g = None" using no_sessions [OF ok procs] by simp
  show ?thesis
  proof (cases b)
    case False
    have "cluster_ok comps (?c\<lparr>cl_committed := cl_committed c, cl_phase := Rec_commit 0\<rparr>) gs dec"
      by (rule phase_step [OF ok1]) (use p procs none in \<open>auto simp: todo_def dest: in_set_dropD\<close>)
    then show ?thesis using r False by (simp add: rec_commit_def doNotifyCommittedInDoubt_def Let_def)
  next
    case True
    have np: "none_prepared (parts ?c ?g)" unfolding none_prepared_def
    proof
      fix u
      show "\<not> p_prep (parts ?c ?g u)"
      proof (cases "u \<in> set comps")
        case True
        have "count_list (prepXacts (w_segs (cl_world c) u)) (dtxFormGid ?g) \<le> Suc 0"
          using t weight_prepared [of "dtxFormGid ?g" new_session "cl_world c" u] by (simp add: tx_ok_def)
        from recovery_accepted [OF r [unfolded \<open>b\<close> [THEN eqTrueI]] a True this] show ?thesis by (simp add: parts_def sw_part_def part_of_def)
      next
        case False
        then have "p_weight (sw_part (dtxFormGid ?g) (new_session, w') u) = 0" using t1 D by (auto simp: tx_ok_def decided_def)
        then show ?thesis using sw_part_pos [of "dtxFormGid ?g" "(new_session, w')" u] s by (auto simp: parts_def sess_or_new_def)
      qed
    qed
    let ?c2 = "?c\<lparr>cl_committed := cl_committed c, cl_phase := Rec_commit (Suc i)\<rparr>"
    have ok2: "cluster_ok comps ?c2 gs dec"
    proof (rule phase_step [OF ok1])
      fix g assume "\<not> none_prepared (parts ?c g)" "todo ?c g"
      then have "g \<noteq> ?g" "g \<in> set (drop i (cl_committed c))" using np p(1) by (auto simp: todo_def)
      then show "todo_in (Rec_commit (Suc i)) (cl_committed c) g" using p(2) by (simp add: Cons_nth_drop_Suc [symmetric])
    qed (use p procs none in \<open>auto dest: in_set_dropD\<close>)
    have "rec_commit comps i reply c = on_log (xlog_insert (Distributed_forget ?g)) ?c2"
      using r True by (simp add: rec_commit_def doNotifyCommittedInDoubt_def Let_def on_log_def RecordDistributedForgetCommitted_def)
    moreover have "cluster_ok comps (on_log (xlog_insert (Distributed_forget ?g)) ?c2) gs dec"
      by (rule log_step_g [OF ok2]) (use np none D in \<open>simp_all add: parts_def sess_or_new_def\<close>)
    ultimately show ?thesis by simp
  qed
qed

section \<open>Crashes\<close>

lemma find_gx_Some: "find_gx g xs = Some i \<Longrightarrow> i < length xs \<and> xs ! i = g"
  by (induction xs arbitrary: i) (auto split: if_splits)

lemma redo_commit_set: "redoDistributedCommitRecord mx g arr = Inr arr' \<Longrightarrow> set arr' = insert g (set arr)"
  by (auto simp: redoDistributedCommitRecord_def split: if_splits)

lemma redo_forget_set:
  assumes "fst (redoDistributedForgetCommitRecord hs g (arr, l)) = arr'"
  shows "set arr' \<subseteq> set arr" "h \<noteq> g \<Longrightarrow> h \<in> set arr \<Longrightarrow> h \<in> set arr'"
proof -
  have "mset arr' = mset arr - {#g#} \<or> arr' = arr"
    using assms find_gx_Some [of g arr] by (auto simp: redoDistributedForgetCommitRecord_def mset_swap_delete split: option.splits)
  then have "set arr' = set_mset (mset arr - {#g#}) \<or> arr' = arr" by (metis set_mset_mset)
  moreover have "set_mset (mset arr - {#g#}) \<subseteq> set arr" by (auto dest: in_diffD)
  moreover have "h \<noteq> g \<Longrightarrow> h \<in> set arr \<Longrightarrow> h \<in> set_mset (mset arr - {#g#})" by (simp add: in_diff_count count_list_0_iff)
  ultimately show "set arr' \<subseteq> set arr" "h \<noteq> g \<Longrightarrow> h \<in> set arr \<Longrightarrow> h \<in> set arr'" by auto
qed

lemma redo_checkpoint_set: "redoDtxCheckPoint mx gs arr = Inr arr' \<Longrightarrow> set arr' = set gs \<union> set arr"
  by (induction gs arbitrary: arr) (auto simp: rbind_def split: sum.splits dest!: redo_commit_set)

lemma redo_records_set:
  "redo_records mx rs arr = Inr arr' \<Longrightarrow> (g \<in> set arr' \<longrightarrow> g \<in> set arr \<or> Distributed_commit g \<in> set rs) \<and>
    (g \<in> set arr \<or> Distributed_commit g \<in> set rs \<longrightarrow> Distributed_forget g \<in> set rs \<or> g \<in> set arr')"
proof (induction mx rs arr rule: redo_records.induct)
  case (2 mx h rs arr)
  then obtain a where "redoDistributedCommitRecord mx h arr = Inr a" "redo_records mx rs a = Inr arr'" by (auto simp: rbind_def split: sum.splits)
  with "2.IH" redo_commit_set [of mx h arr a] show ?case by auto
next
  case (3 mx h rs arr)
  then show ?case using redo_forget_set [where hs = False and g = h and arr = arr and l = 0, OF refl] by (cases "h = g") auto
qed auto

lemma tm_redo_set:
  assumes "tm_redo mx lg = Inr arr"
  shows "g \<in> set arr \<Longrightarrow> g \<in> set (lg_base lg) \<or> Distributed_commit g \<in> set (lg_recs lg)"
    "g \<in> set (lg_base lg) \<or> Distributed_commit g \<in> set (lg_recs lg) \<Longrightarrow> Distributed_forget g \<notin> set (lg_recs lg) \<Longrightarrow> g \<in> set arr"
proof -
  obtain a where a: "redoDtxCheckPoint mx (lg_base lg) [] = Inr a" "redo_records mx (lg_recs lg) a = Inr arr"
    using assms by (auto simp: tm_redo_def rbind_def split: sum.splits)
  show "g \<in> set arr \<Longrightarrow> g \<in> set (lg_base lg) \<or> Distributed_commit g \<in> set (lg_recs lg)"
    "g \<in> set (lg_base lg) \<or> Distributed_commit g \<in> set (lg_recs lg) \<Longrightarrow> Distributed_forget g \<notin> set (lg_recs lg) \<Longrightarrow> g \<in> set arr"
    using redo_checkpoint_set [OF a(1)] redo_records_set [OF a(2), of g] by auto
qed

lemma count_take: "count_list xs y = count_list (take k xs) y + count_list (drop k xs) y"
  by (metis append_take_drop_id count_list_append)

lemma count_split:
  assumes "count_list xs y \<le> 1" "y \<in> set (drop k xs)"
  shows "y \<notin> set (take k xs)"
proof
  assume "y \<in> set (take k xs)"
  with count_take [of xs y k] show False using assms count_list_0_iff [of "take k xs" y] count_list_0_iff [of "drop k xs" y] by auto
qed

lemma crash_parts:
  "parts (crash k arr c) g = (\<lambda>s. case cl_sessions c g of Some x \<Rightarrow> (parts c g s)\<lparr>p_pend := insert None (p_pend (parts c g s))\<rparr> | None \<Rightarrow> parts c g s)"
proof (cases "cl_sessions c g")
  case None
  then show ?thesis by (simp add: fun_eq_iff crash_def sw_part_def parts_def sess_or_new_def disconnect_all_def dtxDeformGid_dtxFormGid)
next
  case (Some x)
  then show ?thesis by (simp add: fun_eq_iff crash_def sw_part_def parts_def sess_or_new_def disconnect_all_def dtxDeformGid_dtxFormGid new_session_qes reset_part)
qed

lemma crash_pending_wf:
  assumes ok: "cluster_ok comps c gs dec"
  shows "pending_wf (cl_world (crash k arr c))"
  unfolding pending_wf_def
proof (intro allI ballI)
  fix s h e assume "e \<in> set (w_pending (cl_world (crash k arr c)) s h)"
  then have "e \<in> set (w_pending (cl_world c) s h) \<or> (\<exists>g x. cl_sessions c g = Some x \<and> e = (None, sx_qes x s))"
    by (auto simp: crash_def disconnect_all_def split: sum.splits option.splits if_splits dest: sym)
  then show "qe_wf (snd e)"
  proof (elim disjE exE conjE)
    fix g x assume x: "cl_sessions c g = Some x" "e = (None, sx_qes x s)"
    then show ?thesis using sessionD(2) [OF ok x(1)] by (simp add: sess_ok_def)
  qed (use ok in \<open>simp add: cluster_ok_def pending_wf_def\<close>)
qed

lemma crash_ok:
  assumes ok: "cluster_ok comps c gs dec" and k: "lg_flushed (w_log (cl_world c)) \<le> k" and r: "tm_redo mx (crashed_log k (w_log (cl_world c))) = Inr arr"
  shows "cluster_ok comps (crash k arr c) gs (surviving k (w_log (cl_world c)) dec)"
proof -
  let ?lg = "w_log (cl_world c)" and ?c = "crash k arr c"
  have lw: "log_wf ?lg" using ok by (simp add: cluster_ok_def)
  have cnt: "count_list (lg_recs ?lg) (Distributed_commit g) \<le> 1" for g using lw by (simp add: log_wf_def)
  have mem: "z \<in> set (lg_recs ?lg) \<longleftrightarrow> z \<in> set (take k (lg_recs ?lg)) \<or> z \<in> set (drop k (lg_recs ?lg))" for z
    by (metis Un_iff append_take_drop_id set_append)
  have tail: "z \<in> set (drop (lg_flushed ?lg) (lg_recs ?lg))" if "z \<in> set (drop k (lg_recs ?lg))" for z
    using that k set_drop_subset_set_drop [of "lg_flushed ?lg" k "lg_recs ?lg"] by auto
  have "tx_inv comps ?c gs (surviving k ?lg dec) g" for g
  proof -
    have t: "tx_ok comps (cl_sessions c g) (parts c g) (log_view_of g ?lg) (g \<in> set (cl_committed c)) (todo c g) (dec g) (g \<in> set gs)"
      using ok by (simp add: cluster_ok_def tx_inv_def)
    let ?lost = "Distributed_commit g \<in> set (drop k (lg_recs ?lg))"
    have td: "todo ?c g = (g \<in> set arr)" by (simp add: todo_def crash_def)
    have "tx_ok comps None (\<lambda>s. case cl_sessions c g of Some x \<Rightarrow> (parts c g s)\<lparr>p_pend := insert None (p_pend (parts c g s))\<rparr> | None \<Rightarrow> parts c g s)
        (log_view_of g (crashed_log k ?lg)) (g \<in> set arr) (g \<in> set arr) (surviving k ?lg dec g) (g \<in> set gs)"
    proof (rule tx_crash [OF t, where lost = ?lost])
      show "l_commit (log_view_of g (crashed_log k ?lg)) = (l_commit (log_view_of g ?lg) \<and> \<not> ?lost)"
        using mem [of "Distributed_commit g"] count_split [OF cnt] by (auto simp: log_view_of_def crashed_log_def)
      show "l_forget (log_view_of g (crashed_log k ?lg)) \<Longrightarrow> l_forget (log_view_of g ?lg)"
        by (auto simp: log_view_of_def crashed_log_def dest: in_set_takeD)
      show "?lost \<Longrightarrow> l_tail (log_view_of g ?lg)" using tail by (simp add: log_view_of_def)
      show "g \<in> set arr \<Longrightarrow> l_base (log_view_of g (crashed_log k ?lg)) \<or> l_commit (log_view_of g (crashed_log k ?lg))"
        using tm_redo_set(1) [OF r] by (simp add: log_view_of_def)
      show "l_base (log_view_of g (crashed_log k ?lg)) \<or> l_commit (log_view_of g (crashed_log k ?lg)) \<Longrightarrow> \<not> l_forget (log_view_of g (crashed_log k ?lg)) \<Longrightarrow> g \<in> set arr"
        using tm_redo_set(2) [OF r] by (simp add: log_view_of_def)
      show "g \<notin> set gs \<Longrightarrow> (\<lambda>s. case cl_sessions c g of Some x \<Rightarrow> (parts c g s)\<lparr>p_pend := insert None (p_pend (parts c g s))\<rparr> | None \<Rightarrow> parts c g s) = parts c g"
        using t by (simp add: tx_ok_def)
    qed (auto simp: log_view_of_def crashed_log_def surviving_def split: option.split)
    then show ?thesis using td by (simp add: tx_inv_def crash_parts) (simp add: crash_def)
  qed
  moreover have "pending_wf (cl_world ?c)" by (rule crash_pending_wf [OF ok])
  moreover have "count_list (take k (lg_recs ?lg)) (Distributed_commit g) \<le> 1" for g
    using cnt [of g] count_take [of "lg_recs ?lg" "Distributed_commit g" k] by simp
  then have "log_wf (w_log (cl_world ?c))" by (simp add: log_wf_def crash_def crashed_log_def)
  ultimately show ?thesis by (simp add: cluster_ok_def control_ok_def gids_ok_def) (simp add: crash_def)
qed

section \<open>Checkpoints\<close>

lemma delayed_view: "delayed c g = is_delayed (cl_sessions c g)" "in_ckpt c g = is_included (cl_sessions c g)"
  by (simp_all add: delayed_def is_delayed_def in_ckpt_def is_included_def)

lemma delayed_procs: "control_ok c \<Longrightarrow> delayed c g \<Longrightarrow> g \<in> set (cl_procs c)" "control_ok c \<Longrightarrow> in_ckpt c g \<Longrightarrow> g \<in> set (cl_procs c)"
  unfolding control_ok_def delayed_def in_ckpt_def by (cases "cl_sessions c g"; force)+

lemma todo_array: "todo c g \<Longrightarrow> g \<in> set (cl_committed c)"
  by (cases "cl_phase c") (auto simp: todo_def dest: in_set_dropD)

lemma ckpt_begin_ok:
  assumes ok: "cluster_ok comps c gs dec"
  shows "cluster_ok comps (dtx_ckpt_begin c) gs dec"
  unfolding dtx_ckpt_begin_def
proof (rule log_step [OF ok])
  let ?lg = "w_log (cl_world c)"
  have co: "control_ok c" and lw: "log_wf ?lg" using ok by (simp_all add: cluster_ok_def)
  show "log_wf (?lg\<lparr>lg_ckpt := Some ([], filter (delayed c) (cl_procs c), None)\<rparr>)" using lw by (simp add: log_wf_def)
  fix g
  assume t: "tx_ok comps (cl_sessions c g) (parts c g) (log_view_of g ?lg) (g \<in> set (cl_committed c)) (todo c g) (dec g) (g \<in> set gs)"
  have "log_view_of g (?lg\<lparr>lg_ckpt := Some ([], filter (delayed c) (cl_procs c), None)\<rparr>) = (log_view_of g ?lg)\<lparr>l_ckpt := Some (False, delayed c g, None)\<rparr>"
    using delayed_procs(1) [OF co, of g] by (auto simp: log_view_of_def)
  then show "tx_ok comps (cl_sessions c g) (parts c g) (log_view_of g (?lg\<lparr>lg_ckpt := Some ([], filter (delayed c) (cl_procs c), None)\<rparr>))
      (g \<in> set (cl_committed c)) (todo c g) (dec g) (g \<in> set gs)"
    using tx_ckpt_begin [OF t todo_array delayed_view(1)] by simp
qed

lemma ckpt_read_ok:
  assumes ok: "cluster_ok comps c gs dec" and ck: "lg_ckpt (w_log (cl_world c)) = Some (rs, ws, None)" and ws: "\<forall>g \<in> set ws. \<not> delayed c g"
  shows "cluster_ok comps (dtx_ckpt_read c) gs dec"
  unfolding dtx_ckpt_read_def
proof (rule log_step [OF ok], goal_cases)
  let ?lg = "w_log (cl_world c)"
  have co: "control_ok c" and lw: "log_wf ?lg" using ok by (simp_all add: cluster_ok_def)
  case 1
  show ?case using lw ck by (simp add: log_wf_def)
next
  case (2 g)
  let ?lg = "w_log (cl_world c)" and ?a = "getDtxCheckPointInfo True (cl_committed c) (in_ckpt c) (cl_procs c)"
  have co: "control_ok c" using ok by (simp add: cluster_ok_def)
  have b: "g \<in> set ?a \<longleftrightarrow> g \<in> set (cl_committed c) \<or> is_included (cl_sessions c g)"
    using delayed_procs(2) [OF co, of g] by (auto simp: getDtxCheckPointInfo_def delayed_view)
  have l: "l_ckpt (log_view_of g ?lg) = Some (Distributed_commit g \<in> set rs, g \<in> set ws, None)" using ck by (simp add: log_view_of_def)
  have "log_view_of g (?lg\<lparr>lg_ckpt := Some (rs, ws, Some ?a)\<rparr>) =
      (log_view_of g ?lg)\<lparr>l_ckpt := Some (Distributed_commit g \<in> set rs, g \<in> set ws, Some (g \<in> set ?a))\<rparr>" by (simp add: log_view_of_def)
  then show ?case using tx_ckpt_read [OF 2 l _ b] ws ck by (simp add: delayed_view(1))
qed

lemma ckpt_end_ok:
  assumes ok: "cluster_ok comps c gs dec"
  shows "cluster_ok comps (on_log dtx_ckpt_end c) gs dec"
proof (rule log_step [OF ok])
  let ?lg = "w_log (cl_world c)"
  have lw: "log_wf ?lg" using ok by (simp add: cluster_ok_def)
  have cases: "dtx_ckpt_end ?lg = ?lg \<or> (\<exists>rs ws a. lg_ckpt ?lg = Some (rs, ws, Some a) \<and> dtx_ckpt_end ?lg = ?lg\<lparr>lg_base := a, lg_recs := rs, lg_flushed := length rs, lg_ckpt := None\<rparr>)"
    by (auto simp: dtx_ckpt_end_def split: option.splits)
  have suf: "\<exists>pre. lg_recs ?lg = pre @ rs" if "lg_ckpt ?lg = Some (rs, ws, a)" for rs ws a using lw that by (auto simp: log_wf_def)
  show "log_wf (dtx_ckpt_end ?lg)"
    using cases
  proof (elim disjE exE conjE)
    fix rs ws a assume a: "lg_ckpt ?lg = Some (rs, ws, Some a)" "dtx_ckpt_end ?lg = ?lg\<lparr>lg_base := a, lg_recs := rs, lg_flushed := length rs, lg_ckpt := None\<rparr>"
    obtain pre where "lg_recs ?lg = pre @ rs" using suf [OF a(1)] by blast
    moreover have "count_list (lg_recs ?lg) (Distributed_commit g) \<le> 1" for g using lw by (simp add: log_wf_def)
    ultimately have "count_list rs (Distributed_commit g) \<le> 1" for g by (metis add_leE count_list_append)
    then show ?thesis using lw a by (simp add: log_wf_def)
  qed (use lw in simp)
  fix g
  assume t: "tx_ok comps (cl_sessions c g) (parts c g) (log_view_of g ?lg) (g \<in> set (cl_committed c)) (todo c g) (dec g) (g \<in> set gs)"
  show "tx_ok comps (cl_sessions c g) (parts c g) (log_view_of g (dtx_ckpt_end ?lg)) (g \<in> set (cl_committed c)) (todo c g) (dec g) (g \<in> set gs)"
    using cases
  proof (elim disjE exE conjE)
    fix rs ws a assume a: "lg_ckpt ?lg = Some (rs, ws, Some a)" "dtx_ckpt_end ?lg = ?lg\<lparr>lg_base := a, lg_recs := rs, lg_flushed := length rs, lg_ckpt := None\<rparr>"
    obtain pre where pre: "lg_recs ?lg = pre @ rs" using suf [OF a(1)] by blast
    have l: "l_ckpt (log_view_of g ?lg) = Some (Distributed_commit g \<in> set rs, g \<in> set ws, Some (g \<in> set a))" using a(1) by (simp add: log_view_of_def)
    have "log_view_of g (dtx_ckpt_end ?lg) = \<lparr>l_base = (g \<in> set a), l_commit = (Distributed_commit g \<in> set rs), l_forget = (Distributed_forget g \<in> set rs),
        l_tail = False, l_ckpt = None\<rparr>" using a(2) by (simp add: log_view_of_def)
    then show ?thesis using tx_ckpt_end [OF t l, of "Distributed_forget g \<in> set rs"] pre by (simp add: log_view_of_def)
  qed (use t in simp)
qed

section \<open>All runs\<close>

lemma empty_ok: "cluster_ok comps empty_cluster [] (\<lambda>_. None)"
proof -
  have "parts empty_cluster g s = \<lparr>p_weight = 0, p_prep = False, p_comm = False, p_pend = {}\<rparr>" for g s
    by (simp add: parts_def sess_or_new_def empty_cluster_def sw_part_def part_of_def new_session_qes open_weight_def stored_def)
  then have "tx_inv comps empty_cluster [] (\<lambda>_. None) g" for g
    by (simp add: tx_inv_def tx_ok_def undecided_def none_pending_def none_committed_def) (simp add: empty_cluster_def log_view_of_def)
  then show ?thesis by (simp add: cluster_ok_def) (simp add: empty_cluster_def pending_wf_def log_wf_def control_ok_def gids_ok_def)
qed

lemma fresh_gxid: "gxid_run n gen (g # gs) \<Longrightarrow> n < 2 ^ 31 \<Longrightarrow> g \<notin> set gs"
  using gxid_run_inv [of n gen "g # gs"] by (simp add: gxid_inv_def issued_ok_def)

lemma session_put:
  assumes "cluster_ok comps c gs dec" "cl_sessions c g = Some x" "sess_inv comps c dec g (x, cl_world c) \<Longrightarrow> sess_inv comps c dec g xw"
  shows "cluster_ok comps (put g xw c) gs dec"
  using sess_inv_put [OF assms(1,2)] assms(3) sess_inv_start [OF assms(1,2)] by blast

lemma phase_only:
  assumes ok: "cluster_ok comps c gs dec" and p: "phase_ok ph (cl_committed c) (cl_procs c)" "\<And>g. dtxFormGid g \<in> set (phase_gids ph) \<Longrightarrow> g \<in> set gs"
    and t: "todo_in ph (cl_committed c) = todo c"
  shows "cluster_ok comps (c\<lparr>cl_phase := ph\<rparr>) gs dec"
proof -
  have "cluster_ok comps (c\<lparr>cl_committed := cl_committed c, cl_phase := ph\<rparr>) gs dec"
    by (rule phase_step [OF ok p]) (use t in \<open>auto simp: todo_array\<close>)
  then show ?thesis by simp
qed

lemma recover_abort_ok:
  assumes ok: "cluster_ok comps c gs dec" and p: "cl_phase c = Rec_abort (gid # gids)" and a: "writers reply" "distinct comps"
  shows "cluster_ok comps (c\<lparr>cl_world := doAbortInDoubt comps gid reply (cl_world c), cl_phase := Rec_abort gids\<rparr>) gs dec"
proof -
  have ph: "cl_committed c = []" "cl_procs c = []" "\<And>g. dtxFormGid g \<in> insert gid (set gids) \<Longrightarrow> g \<in> set gs"
    using cluster_okD [OF ok] p by auto
  let ?c = "c\<lparr>cl_world := doAbortInDoubt comps gid reply (cl_world c)\<rparr>"
  have "cluster_ok comps ?c gs dec"
    by (rule recovery_abort_ok [OF ok a]) (use ph p no_sessions [OF ok] in \<open>auto simp: todo_def\<close>)
  then have "cluster_ok comps (?c\<lparr>cl_phase := Rec_abort gids\<rparr>) gs dec"
    by (rule phase_only) (use ph p in \<open>auto simp: todo_def fun_eq_iff\<close>)
  then show ?thesis by simp
qed

lemma orphan_abort_ok:
  assumes ok: "cluster_ok comps c gs dec" and p: "cl_phase c = Rec_started (gid # gids)" and a: "writers reply" "distinct comps"
    and r: "abort_orphan comps (cl_procs c) reply gid (cl_world c) = (r, w)"
  shows "cluster_ok comps (c\<lparr>cl_world := w, cl_phase := Rec_started (if r = Tm_done then gids else [])\<rparr>) gs dec"
proof -
  have ph: "cl_committed c = []" "\<And>g. dtxFormGid g \<in> insert gid (set gids) \<Longrightarrow> g \<in> set gs" using cluster_okD [OF ok] p by auto
  have "cluster_ok comps (c\<lparr>cl_world := w\<rparr>) gs dec"
  proof (cases "w = cl_world c")
    case True
    then show ?thesis using ok by simp
  next
    case False
    then obtain g where g: "dtxDeformGid False gid = Inr g" "g \<notin> set (cl_procs c)" "w = doAbortInDoubt comps gid reply (cl_world c)"
      using r by (auto simp: abort_orphan_def IsDtxInProgress_def split: sum.splits if_splits)
    have "cl_sessions c h = None \<and> h \<in> set gs" if "gid = dtxFormGid h" for h
      using that g(1,2) ok ph(2) by (auto simp: dtxDeformGid_dtxFormGid cluster_ok_def control_ok_def)
    then show ?thesis unfolding g(3) by (intro recovery_abort_ok [OF ok a]) (use p in \<open>auto simp: todo_def\<close>)
  qed
  then have "cluster_ok comps (c\<lparr>cl_world := w\<rparr>\<lparr>cl_phase := Rec_started (if r = Tm_done then gids else [])\<rparr>) gs dec"
    by (rule phase_only) (use ph p in \<open>auto simp: todo_def fun_eq_iff split: if_splits\<close>)
  then show ?thesis by simp
qed

lemma subtransaction_cmd:
  assumes "cmd \<in> {DTX_PROTOCOL_COMMAND_SUBTRANSACTION_BEGIN_INTERNAL, DTX_PROTOCOL_COMMAND_SUBTRANSACTION_RELEASE_INTERNAL, DTX_PROTOCOL_COMMAND_SUBTRANSACTION_ROLLBACK_INTERNAL}"
  shows "\<not> commit_cmd cmd" "\<not> abort_cmd cmd"
  using assms by (auto simp: commit_cmd_def abort_cmd_def)

theorem cluster_run_ok:
  assumes "cluster_run n mx comps c gs dec" "n < 2 ^ 31" "distinct comps"
  shows "cluster_ok comps c gs dec"
  using assms(1)
proof (induction rule: cluster_run.induct)
  case init
  show ?case by (rule empty_ok)
next
  case (begin_session c gs dec gids gen g)
  show ?case by (rule begin_ok [OF begin_session.IH begin_session.hyps(2) fresh_gxid [OF begin_session.hyps(3) assms(2)]])
next
  case (statement c gs dec g x s env wrote xid)
  show ?case by (rule session_put [OF statement.IH statement.hyps(2)], erule statement_inv [OF _ statement.hyps(3-6)])
next
  case (subtransaction c gs dec g x reply cmd)
  show ?case by (rule session_put [OF subtransaction.IH subtransaction.hyps(2)],
      erule subtransaction_inv [OF _ subtransaction.hyps(3-5) assms(3) subtransaction_cmd [OF subtransaction.hyps(6)]])
next
  case (prepare c gs dec g x reply interrupted)
  show ?case by (rule session_put [OF prepare.IH prepare.hyps(2)], erule prepareDtxTransaction_inv [OF _ prepare.hyps(3,4)])
next
  case (enter c gs dec g x)
  show ?case by (rule enter_ok [OF enter.IH enter.hyps(2,3)])
next
  case (insert_record c gs dec g x)
  show ?case by (rule insert_record_ok [OF insert_record.IH insert_record.hyps(2-4)])
next
  case (inserted c gs dec g x)
  show ?case by (rule inserted_ok [OF inserted.IH inserted.hyps(2-4)])
next
  case (flush c gs dec g x)
  show ?case by (rule flush_step_ok [OF flush.IH flush.hyps(2,3)])
next
  case (notify c gs dec g x reply)
  show ?case by (rule session_put [OF notify.IH notify.hyps(2)], erule notify_first_inv [OF _ notify.hyps(3-5)])
next
  case (notify_again c gs dec g x reply)
  show ?case by (rule session_put [OF notify_again.IH notify_again.hyps(2)], erule notify_retry_inv [OF _ _ notify_again.hyps(5)])
    (simp add: notify_again.hyps(3))
next
  case (forget c gs dec g x)
  show ?case by (rule forget_ok [OF forget.IH forget.hyps(2) _ forget.hyps(4)]) (use forget.hyps(3) in auto)
next
  case (rollback c gs dec g x proc_exit)
  show ?case by (rule session_put [OF rollback.IH rollback.hyps(2)], erule rollback_begin_inv [OF _ rollback.hyps(3)])
next
  case (abort c gs dec g x reply)
  show ?case by (rule session_put [OF abort.IH abort.hyps(2)], erule abort_first_inv [OF _ abort.hyps(3) [unfolded aborting_stage] abort.hyps(4)])
next
  case (abort_again c gs dec g x reply)
  show ?case by (rule session_put [OF abort_again.IH abort_again.hyps(2)], erule abort_retry_inv [OF _ _ abort_again.hyps(4) assms(3)])
    (simp add: abort_again.hyps(3))
next
  case (end_session c gs dec g x)
  show ?case by (rule end_ok [OF end_session.IH end_session.hyps(2)])
    (use end_session.hyps(3) before_commit_stage [of "sx_state x"] in \<open>auto simp: aborting_stage\<close>)
next
  case (lose c gs dec g x s)
  show ?case by (rule session_put [OF lose.IH lose.hyps(2)], erule lose_inv)
next
  case (late c gs dec i s gid ro)
  show ?case by (rule late_ok [OF late.IH late.hyps(2,3)])
next
  case (crashes c gs dec k arr)
  show ?case by (rule crash_ok [OF crashes.IH crashes.hyps(2,3)])
next
  case (recover_commit c gs dec i reply)
  show ?case by (rule rec_commit_ok [OF recover_commit.IH recover_commit.hyps(2-4) assms(3)])
next
  case (recover_gather c gs dec answers gids gids')
  show ?case by (rule recovery_done_ok [OF recover_gather.IH recover_gather.hyps(2)])
    (use cluster_okD(1) [OF recover_gather.IH] recover_gather.hyps gather_issued [OF recover_gather.IH recover_gather.hyps(3)] in auto)
next
  case (recover_restart c gs dec)
  show ?case by (rule recovery_done_ok [OF recover_restart.IH recover_restart.hyps(2)])
    (use cluster_okD(1) [OF recover_restart.IH] recover_restart.hyps(2) in auto)
next
  case (recover_abort c gs dec gid gids reply)
  show ?case by (rule recover_abort_ok [OF recover_abort.IH recover_abort.hyps(2,3) assms(3)])
next
  case (recover_done c gs dec)
  show ?case by (rule phase_only [OF recover_done.IH]) (use recover_done.hyps cluster_okD(1) [OF recover_done.IH] in \<open>auto simp: todo_def fun_eq_iff\<close>)
next
  case (orphan_gather c gs dec answers gids gids')
  show ?case by (rule phase_only [OF orphan_gather.IH])
    (use orphan_gather.hyps cluster_okD(1) [OF orphan_gather.IH] gather_issued [OF orphan_gather.IH orphan_gather.hyps(3)] in \<open>auto simp: todo_def fun_eq_iff\<close>)
next
  case (orphan_abort c gs dec gid gids reply r w)
  show ?case by (rule orphan_abort_ok [OF orphan_abort.IH orphan_abort.hyps(2,3) assms(3) orphan_abort.hyps(4)])
next
  case (ckpt_start c gs dec)
  show ?case by (rule ckpt_begin_ok [OF ckpt_start.IH])
next
  case (ckpt_info c gs dec rs ws)
  show ?case by (rule ckpt_read_ok [OF ckpt_info.IH ckpt_info.hyps(2,3)])
next
  case (ckpt_write c gs dec)
  show ?case by (rule ckpt_end_ok [OF ckpt_write.IH])
qed

end
