(* ===== verification/Tm_Atomic.thy ===== *)
theory Tm_Atomic
  imports Tm_Restart
begin

text \<open>
  Two-phase commit as a whole: its outcomes are the same on all segments in every run, a successful commit has reached all of them, a flushed commit record
  survives crashes, and recovery finishes what it finds.
\<close>

section \<open>What the invariant says of the segments\<close>

lemma prepared_part: "p_prep (parts c g s) \<longleftrightarrow> dtxFormGid g \<in> set (prepXacts (w_segs (cl_world c) s))"
  by (simp add: parts_def sw_part_def part_of_def)

lemma committed_part: "p_comm (parts c g s) \<longleftrightarrow> (dtxFormGid g, Committed_prepared) \<in> set (finished (w_segs (cl_world c) s))"
  by (simp add: parts_def sw_part_def part_of_def)

lemma stored_part: "stored (dtxFormGid g) (w_segs (cl_world c) s) \<le> p_weight (parts c g s)"
  by (simp add: parts_def sw_part_def part_of_def)

lemma two_outcomes:
  assumes "(a, r) \<in> set fs" "(a, r') \<in> set fs" "r \<noteq> r'"
  shows "2 \<le> count_list (map fst fs) a"
  using assms
proof (induction fs)
  case (Cons f fs)
  have "0 < count_list (map fst fs) a" if "(a, r'') \<in> set fs" for r''
    using that count_list_0_iff [of "map fst fs" a] by force
  with Cons show ?case by (cases f) force
qed simp

lemma one_outcome:
  assumes "stored gid sg \<le> 1" "(gid, r) \<in> set (finished sg)" "gid \<in> set (prepXacts sg) \<or> (gid, Committed_prepared) \<in> set (finished sg)"
  shows "r = Committed_prepared" "gid \<notin> set (prepXacts sg)"
proof -
  have c: "count_list (prepXacts sg) gid + count_list (map fst (finished sg)) gid \<le> 1" using assms(1) by (simp add: stored_def)
  have f: "0 < count_list (map fst (finished sg)) gid" using assms(2) count_list_0_iff [of "map fst (finished sg)" gid] by force
  then show "gid \<notin> set (prepXacts sg)" using c count_list_0_iff [of "prepXacts sg" gid] by auto
  then show "r = Committed_prepared" using assms(2,3) two_outcomes [of gid r "finished sg" Committed_prepared] c f by force
qed

lemma decided_parts:
  assumes ok: "cluster_ok comps c gs dec" and d: "dec g = Some D"
  shows "\<forall>s \<in> set D. dtxFormGid g \<in> set (prepXacts (w_segs (cl_world c) s)) \<or> (dtxFormGid g, Committed_prepared) \<in> set (finished (w_segs (cl_world c) s))"
    "\<forall>s r. (dtxFormGid g, r) \<in> set (finished (w_segs (cl_world c) s)) \<longrightarrow> s \<in> set D \<and> r = Committed_prepared"
proof -
  have t: "tx_inv comps c gs dec g" using ok by (simp add: cluster_ok_def)
  then have D: "decided comps (cl_sessions c g) (parts c g) (log_view_of g (w_log (cl_world c))) (g \<in> set (cl_committed c)) (todo c g) D"
    using d by (simp add: tx_inv_def tx_ok_def)
  then show p: "\<forall>s \<in> set D. dtxFormGid g \<in> set (prepXacts (w_segs (cl_world c) s)) \<or> (dtxFormGid g, Committed_prepared) \<in> set (finished (w_segs (cl_world c) s))"
    by (simp add: decided_def prepared_part committed_part)
  show "\<forall>s r. (dtxFormGid g, r) \<in> set (finished (w_segs (cl_world c) s)) \<longrightarrow> s \<in> set D \<and> r = Committed_prepared"
  proof (intro allI impI)
    fix s r assume r: "(dtxFormGid g, r) \<in> set (finished (w_segs (cl_world c) s))"
    then have "0 < p_weight (parts c g s)" using stored_pos(2) [OF r] stored_part [of g c s] by simp
    then have s: "s \<in> set D" using D by (auto simp: decided_def)
    have "stored (dtxFormGid g) (w_segs (cl_world c) s) \<le> 1"
      using t stored_part [of g c s] by (auto simp: tx_inv_def tx_ok_def intro: order_trans)
    from one_outcome(1) [OF this r] p s show "s \<in> set D \<and> r = Committed_prepared" by auto
  qed
qed

lemma committed_decided:
  assumes "cluster_ok comps c gs dec" "(dtxFormGid g, Committed_prepared) \<in> set (finished (w_segs (cl_world c) s))"
  shows "dec g \<noteq> None"
proof -
  have "p_comm (parts c g s)" using assms(2) by (simp add: committed_part)
  moreover have "tx_inv comps c gs dec g" using assms(1) by (simp add: cluster_ok_def)
  ultimately show ?thesis by (auto simp: tx_inv_def tx_ok_def undecided_def none_committed_def)
qed

lemma nobody_prepared:
  assumes ok: "cluster_ok comps c gs dec" and d: "dec g = Some D" and n: "none_prepared (parts c g)"
  shows "\<forall>s \<in> set D. (dtxFormGid g, Committed_prepared) \<in> set (finished (w_segs (cl_world c) s))"
  using decided_parts(1) [OF ok d] n by (auto simp: none_prepared_def prepared_part)

section \<open>Atomicity\<close>

text \<open>
  C1 (safety): in every run, with crashes of the coordinator, lost processes and late commands, a distributed transaction committed by the second phase on one segment is
  prepared or committed on every segment that takes part, and has ended differently on none.
\<close>

theorem two_phase_commit_atomic:
  assumes "cluster_run n max_tm_gxacts comps c gs dec" "n < 2 ^ 31" "distinct comps"
    and "(dtxFormGid g, Committed_prepared) \<in> set (finished (w_segs (cl_world c) s))"
  shows "\<exists>D. dec g = Some D \<and> s \<in> set D \<and>
    (\<forall>t \<in> set D. dtxFormGid g \<in> set (prepXacts (w_segs (cl_world c) t)) \<or> (dtxFormGid g, Committed_prepared) \<in> set (finished (w_segs (cl_world c) t))) \<and>
    (\<forall>t r. (dtxFormGid g, r) \<in> set (finished (w_segs (cl_world c) t)) \<longrightarrow> t \<in> set D \<and> r = Committed_prepared)"
proof -
  note ok = cluster_run_ok [OF assms(1-3)]
  obtain D where "dec g = Some D" using committed_decided [OF ok assms(4)] by blast
  with decided_parts [OF ok this] assms(4) show ?thesis by blast
qed

text \<open>
  C2 (safety): when recovery is complete, a transaction with a commit record that no session works on any more is committed on every segment that takes part.
\<close>

theorem recovered_commits_everywhere:
  assumes "cluster_run n max_tm_gxacts comps c gs dec" "n < 2 ^ 31" "distinct comps"
    and "cl_phase c = Rec_started gids" "cl_sessions c g = None" "dec g = Some D"
  shows "\<forall>s \<in> set D. (dtxFormGid g, Committed_prepared) \<in> set (finished (w_segs (cl_world c) s))"
proof -
  note ok = cluster_run_ok [OF assms(1-3)]
  have "tx_inv comps c gs dec g" using ok by (simp add: cluster_ok_def)
  then have "none_prepared (parts c g)" using assms(4-6) by (auto simp: tx_inv_def tx_ok_def decided_def unfinished_ok_def todo_def)
  then show ?thesis using nobody_prepared [OF ok assms(6)] by blast
qed

text \<open>
  C5 (safety): once the commit record of a session is flushed, no crash loses the commit: the transaction stays decided, and recovery starts with it in its array unless all
  its segments have committed already.
\<close>

theorem flushed_commit_survives_crash:
  assumes "cluster_run n max_tm_gxacts comps c gs dec" "n < 2 ^ 31" "distinct comps"
    and x: "cl_sessions c g = Some x" "dec g = Some D" "\<not> delayChkpt x"
    and k: "lg_flushed (w_log (cl_world c)) \<le> k" "tm_redo max_tm_gxacts (crashed_log k (w_log (cl_world c))) = Inr arr"
  shows "surviving k (w_log (cl_world c)) dec g = Some D \<and> (g \<in> set arr \<or> (\<forall>s \<in> set D. (dtxFormGid g, Committed_prepared) \<in> set (finished (w_segs (cl_world c) s))))"
proof -
  note ok = cluster_run_ok [OF assms(1-3)]
  let ?lg = "w_log (cl_world c)"
  have t: "tx_inv comps c gs dec g" using ok by (simp add: cluster_ok_def)
  then have "Distributed_commit g \<notin> set (drop (lg_flushed ?lg) (lg_recs ?lg))" using x by (auto simp: tx_inv_def tx_ok_def is_delayed_def log_view_of_def)
  then have "surviving k ?lg dec g = Some D" using x(2) k(1) set_drop_subset_set_drop [of "lg_flushed ?lg" k "lg_recs ?lg"] by (auto simp: surviving_def)
  moreover have "none_prepared (parts c g)" if "g \<notin> set arr"
  proof -
    note c' = crash_ok [OF ok k]
    have "tx_inv comps (crash k arr c) gs (surviving k ?lg dec) g" using c' by (simp add: cluster_ok_def)
    then have "none_prepared (parts (crash k arr c) g)"
      using \<open>surviving k ?lg dec g = Some D\<close> that by (auto simp: tx_inv_def tx_ok_def decided_def unfinished_ok_def todo_def crash_def)
    then show ?thesis using x(1) by (simp add: none_prepared_def crash_parts)
  qed
  ultimately show ?thesis using nobody_prepared [OF ok x(2)] by blast
qed

section \<open>A successful commit\<close>

text \<open>The functions that the code calls one after the other are runs of the cluster.\<close>

lemma put_put: "put g xw' (put g xw c) = put g xw' c"
  by (simp add: put_def)

lemma put_same: "cl_sessions c g = Some x \<Longrightarrow> put g (x, cl_world c) c = c"
  by (simp add: put_def fun_upd_idem)

lemma notify_retry_state:
  assumes "cluster_run n mx comps (put g (x, w) c) gs dec" "n < 2 ^ 31" "distinct comps" "writers reply" "notify_retry g reply (x, w) = (x', w')"
  shows "sx_state x' = sx_state x"
proof -
  note i = sess_inv_start [OF cluster_run_ok [OF assms(1-3)], of g x, simplified]
  obtain x1 w1 where r1: "ResetAllGangs (dtxFormGid g) (x, w) = (x1, w1)" by fastforce
  note s1 = sess_inv_reset [OF i r1]
  obtain r x2 w2 where r2: "currentDtxDispatchProtocolCommand g DTX_PROTOCOL_COMMAND_RETRY_COMMIT_PREPARED True reply (x1, w1) = (r, x2, w2)" by (metis prod_cases3)
  have "keys_same x1 x2" using doDispatch_done(2) [OF r2 [unfolded currentDtxDispatchProtocolCommand_def, simplified] assms(4)] sess_inv_wf [OF s1(1)] by simp
  then show ?thesis using s1(2) r1 r2 assms(5) by (auto simp: notify_retry_def keys_same_def)
qed

lemma notify_loop_run:
  assumes "cluster_run n mx comps (put g (x, w) c) gs dec" "n < 2 ^ 31" "distinct comps"
    and "sx_state x = DTX_STATE_RETRY_COMMIT_PREPARED \<or> sx_succeeded x \<and> sx_state x = DTX_STATE_NOTIFYING_COMMIT_PREPARED" "\<forall>t \<in> set tries. writers (fst t)"
    and "notify_loop R timedout g tries (x, w) = (Some Tm_done, x', w')"
  shows "cluster_run n mx comps (put g (x', w') c) gs dec \<and> sx_succeeded x' \<and> sx_state x' \<in> {DTX_STATE_NOTIFYING_COMMIT_PREPARED, DTX_STATE_RETRY_COMMIT_PREPARED}"
  using assms(1,4-)
proof (induction tries arbitrary: x w timedout)
  case Nil
  then show ?case by (auto simp: notify_loop.simps split: if_splits)
next
  case (Cons t tries)
  obtain reply u where t: "t = (reply, u)" by fastforce
  show ?case
  proof (cases "sx_succeeded x")
    case True
    then show ?thesis using Cons.prems by (auto simp: notify_loop.simps)
  next
    case False
    obtain x1 w1 where r: "notify_retry g reply (x, w) = (x1, w1)" by fastforce
    have a: "writers reply" "\<forall>t \<in> set tries. writers (fst t)" using Cons.prems(3) t by auto
    have st: "sx_state x = DTX_STATE_RETRY_COMMIT_PREPARED" using Cons.prems(2) False by simp
    have "cluster_run n mx comps (put g (x1, w1) c) gs dec"
      using cluster_run.notify_again [OF Cons.prems(1), of g x reply] st False a(1) r by (simp add: put_put)
    moreover have "sx_state x1 = DTX_STATE_RETRY_COMMIT_PREPARED"
      using notify_retry_state [OF Cons.prems(1) assms(2,3) a(1) r] st by simp
    moreover have "notify_loop R (u > R) g tries (x1, w1) = (Some Tm_done, x', w')"
      using Cons.prems(4) False t r by (simp add: notify_loop.simps [of R timedout] split: if_splits)
    ultimately show ?thesis using Cons.IH a(2) by blast
  qed
qed

lemma notify_first_run:
  assumes "cluster_run n mx comps c gs dec" "n < 2 ^ 31" "distinct comps" "cl_sessions c g = Some x" "sx_state x = DTX_STATE_INSERTED_COMMITTED" "\<not> delayChkpt x"
    and "writers reply" "notify_first g reply (x, cl_world c) = (x', w')"
  shows "cluster_run n mx comps (put g (x', w') c) gs dec" "sx_state x' = DTX_STATE_RETRY_COMMIT_PREPARED \<or> sx_succeeded x' \<and> sx_state x' = DTX_STATE_NOTIFYING_COMMIT_PREPARED"
proof -
  show "cluster_run n mx comps (put g (x', w') c) gs dec" using cluster_run.notify [OF assms(1,4-7)] assms(8) by simp
  note i = sess_inv_start [OF cluster_run_ok [OF assms(1-3)] assms(4)]
  obtain r x2 w2 where r2: "currentDtxDispatchProtocolCommand g DTX_PROTOCOL_COMMAND_COMMIT_PREPARED True reply
      (setCurrentDtxState DTX_STATE_NOTIFYING_COMMIT_PREPARED x, cl_world c) = (r, x2, w2)" by (metis prod_cases3)
  have "keys_same (setCurrentDtxState DTX_STATE_NOTIFYING_COMMIT_PREPARED x) x2"
    using doDispatch_done(2) [OF r2 [unfolded currentDtxDispatchProtocolCommand_def, simplified] assms(7)] sess_inv_wf [OF i] by simp
  then show "sx_state x' = DTX_STATE_RETRY_COMMIT_PREPARED \<or> sx_succeeded x' \<and> sx_state x' = DTX_STATE_NOTIFYING_COMMIT_PREPARED"
    using r2 assms(8) by (auto simp: notify_first_def keys_same_def split: dispatch_result.splits bool.splits)
qed

lemma doNotifyingCommitPrepared_run:
  assumes run: "cluster_run n mx comps c gs dec" "n < 2 ^ 31" "distinct comps" and x: "cl_sessions c g = Some x" "sx_state x = DTX_STATE_INSERTED_COMMITTED" "\<not> delayChkpt x"
    and a: "writers reply" "\<forall>t \<in> set tries. writers (fst t)" and r: "doNotifyingCommitPrepared R g reply tries (x, cl_world c) = (Some Tm_done, x', w')"
  shows "cluster_run n mx comps (put g (x', w') c) gs dec \<and> sx_state x' = DTX_STATE_INSERTED_FORGET_COMMITTED"
proof -
  obtain x1 w1 where n: "notify_first g reply (x, cl_world c) = (x1, w1)" by fastforce
  note f = notify_first_run [OF run x a(1) n]
  obtain r2 x2 w2 where l: "notify_loop R (R = 0) g tries (x1, w1) = (r2, x2, w2)" by (metis prod_cases3)
  then have e: "r2 = Some Tm_done" "doInsertForgetCommitted g (x2, w2) = (x', w')"
    using r n by (auto simp: doNotifyingCommitPrepared_def split: option.splits tm_result.splits)
  note g = notify_loop_run [OF f(1) run(2,3) f(2) a(2) l [unfolded e(1)]]
  then have "cluster_run n mx comps (put g (doInsertForgetCommitted g (x2, w2)) c) gs dec"
    using cluster_run.forget [of n mx comps "put g (x2, w2) c" gs dec g x2] by (auto simp: put_put)
  then show ?thesis using e(2) by (auto simp: doInsertForgetCommitted_def Let_def)
qed

text \<open>The commit record, without other activity in between.\<close>

lemma RecordTransactionCommit_run:
  assumes run: "cluster_run n mx comps c gs dec" "n < 2 ^ 31" "distinct comps" and x: "cl_sessions c g = Some x" "sx_state x = DTX_STATE_PREPARED"
    and r: "RecordTransactionCommit g (x, cl_world c) = (x', w')"
  shows "cluster_run n mx comps (put g (x', w') c) gs (dec(g := Some (dtxSegments x)))" "sx_state x' = DTX_STATE_INSERTED_COMMITTED" "\<not> delayChkpt x'" "dtxSegments x' = dtxSegments x"
proof -
  let ?w = "cl_world c" and ?e = "commit_enter x"
  have i: "dec g = None" "undecided (sw_part (dtxFormGid g) (x, ?w)) (log_view_of g (w_log ?w)) (g \<in> set (cl_committed c))"
    using sessionD(1,2) [OF cluster_run_ok [OF run] x(1)] x(2) by (auto simp: sess_ok_def tx_ok_def)
  then have n: "Distributed_commit g \<notin> set (lg_recs (w_log ?w))" by (simp add: undecided_def log_view_of_def)
  have "cluster_run n mx comps (put g (?e, ?w) c) gs dec" by (rule cluster_run.enter [OF run(1) x])
  then have "cluster_run n mx comps (put g (?e, commit_record g ?w) c) gs (dec(g := Some (dtxSegments x)))"
    using cluster_run.insert_record [of n mx comps "put g (?e, ?w) c" gs dec g ?e] n by (simp add: put_put commit_enter_def insertingDistributedCommitted_def)
  then have "cluster_run n mx comps (put g (insertedDistributedCommitted ?e, commit_record g ?w) c) gs (dec(g := Some (dtxSegments x)))"
    using cluster_run.inserted [of n mx comps "put g (?e, commit_record g ?w) c" gs "dec(g := Some (dtxSegments x))" g ?e]
    by (simp add: put_put commit_enter_def insertingDistributedCommitted_def commit_record_def xlog_insert_def)
  then show "cluster_run n mx comps (put g (x', w') c) gs (dec(g := Some (dtxSegments x)))"
    using cluster_run.flush [of n mx comps "put g (insertedDistributedCommitted ?e, commit_record g ?w) c" gs "dec(g := Some (dtxSegments x))" g "insertedDistributedCommitted ?e"] r x(2)
    by (simp add: put_put insertedDistributedCommitted_def commit_enter_def insertingDistributedCommitted_def RecordTransactionCommit_def isPreparedDtxTransaction_def)
  show "sx_state x' = DTX_STATE_INSERTED_COMMITTED" "\<not> delayChkpt x'" "dtxSegments x' = dtxSegments x"
    using r x(2) by (auto simp: insertedDistributedCommitted_def commit_enter_def insertingDistributedCommitted_def RecordTransactionCommit_def isPreparedDtxTransaction_def commit_flush_def)
qed

text \<open>
  C7 (functional): when a session prepares its transaction, writes the commit record and notifies the segments without an error, whatever failed and was retried, the
  transaction is committed on every segment that was prepared.
\<close>

theorem successful_commit_everywhere:
  assumes run: "cluster_run n max_tm_gxacts comps c gs dec" "n < 2 ^ 31" "distinct comps" and x: "cl_sessions c g = Some x" "sx_state x = DTX_STATE_ACTIVE_DISTRIBUTED"
    and a: "writers reply" "writers reply'" "\<forall>t \<in> set tries. writers (fst t)"
    and p: "prepareDtxTransaction interrupted g reply (x, cl_world c) = (Tm_done, x1, w1)" "sx_state x1 = DTX_STATE_PREPARED"
    and n: "notifyCommittedDtxTransaction dtx_phase2_retry_second g reply' tries (RecordTransactionCommit g (x1, w1)) = (Some Tm_done, x2, w2)"
  shows "\<forall>s \<in> set (dtxSegments x1). (dtxFormGid g, Committed_prepared) \<in> set (finished (w_segs w2 s))"
proof -
  have c1: "cluster_run n max_tm_gxacts comps (put g (x1, w1) c) gs dec" using cluster_run.prepare [OF run(1) x a(1), of interrupted] p(1) by simp
  obtain y w where y: "RecordTransactionCommit g (x1, w1) = (y, w)" by fastforce
  note c2 = RecordTransactionCommit_run [OF c1 run(2,3), of g x1 y w, simplified put_simps fun_upd_same, OF refl p(2) y, unfolded put_put]
  have "doNotifyingCommitPrepared dtx_phase2_retry_second g reply' tries (y, w) = (Some Tm_done, x2, w2)"
    using n y c2(2) by (simp add: notifyCommittedDtxTransaction_def)
  from doNotifyingCommitPrepared_run [OF c2(1) run(2,3), of g y, simplified put_simps fun_upd_same, OF refl c2(2,3) a(2,3) this]
  have c3: "cluster_run n max_tm_gxacts comps (put g (x2, w2) c) gs (dec(g := Some (dtxSegments x1)))" "sx_state x2 = DTX_STATE_INSERTED_FORGET_COMMITTED"
    by (simp_all add: put_put)
  note ok = cluster_run_ok [OF c3(1) run(2,3)]
  have "none_prepared (parts (put g (x2, w2) c) g)"
    using sessionD(2) [OF ok, of g x2] c3(2) by (simp add: sess_ok_def parts_def sess_or_new_def)
  from nobody_prepared [OF ok _ this] show ?thesis by simp
qed

section \<open>A run with a crash\<close>

text \<open>
  A transaction writes on two segments and is prepared on both; its commit record is flushed; only one segment answers the commit, the process of the other
  is lost; then the coordinator crashes, and recovery commits on the other.
\<close>

definition ex_env :: command_env where
  "ex_env = \<lparr>role_execute = True, is_query_dispatcher = False, Gp_is_writer = True, have_slot = True,
     ce_options = mppTxnOptions XACT_READ_COMMITTED False True True, ce_snapshot = True, nestingLevel = 1, ce_local = Works\<rparr>"

definition on_session :: "DistributedTransactionId \<Rightarrow> (sw \<Rightarrow> sw) \<Rightarrow> cluster \<Rightarrow> cluster" where
  "on_session g f c = (case cl_sessions c g of Some x \<Rightarrow> put g (f (x, cl_world c)) c | None \<Rightarrow> c)"

definition ex_active :: cluster where
  "ex_active = on_session 1 (dispatch_statement 1 1 ex_env True False) (on_session 1 (dispatch_statement 1 0 ex_env True False) (begin_dtx 1 empty_cluster))"

definition ex_prepared :: cluster where
  "ex_prepared = on_session 1 (\<lambda>xw. snd (prepareDtxTransaction False 1 (\<lambda>_. Some ex_env) xw)) ex_active"

definition ex_committed :: cluster where
  "ex_committed = on_session 1 (RecordTransactionCommit 1) ex_prepared"

definition ex_half :: cluster where
  "ex_half = on_session 1 (notify_first 1 ((\<lambda>_. None)(0 := Some ex_env))) ex_committed"

definition ex_recovered :: cluster where
  "ex_recovered = (rec_commit [0, 1] 0 (\<lambda>_. Some ex_env) (crash 1 [1] ex_half))\<lparr>cl_committed := [], cl_phase := Rec_started []\<rparr>"

definition session_is :: "cluster \<Rightarrow> DistributedTransactionId \<Rightarrow> DtxState \<Rightarrow> bool" where
  "session_is c g st = (case cl_sessions c g of Some x \<Rightarrow> sx_state x = st | None \<Rightarrow> False)"

definition commit_session :: "cluster \<Rightarrow> DistributedTransactionId \<Rightarrow> reply \<Rightarrow> reply \<Rightarrow> (reply \<times> nat) list \<Rightarrow> tm_result \<times> sw \<times> tm_result option \<times> sw" where
  "commit_session c g reply reply' tries = (case prepareDtxTransaction False g reply (sess_or_new c g, cl_world c) of
     (r, xw) \<Rightarrow> (r, xw, notifyCommittedDtxTransaction 60 g reply' tries (RecordTransactionCommit g xw)))"

lemma session_isD:
  assumes "session_is c g st"
  obtains x where "cl_sessions c g = Some x" "sx_state x = st" "\<And>f. on_session g f c = put g (f (x, cl_world c)) c" "sess_or_new c g = x"
  using assms by (cases "cl_sessions c g") (auto simp: session_is_def on_session_def sess_or_new_def)

lemma ex_replies: "writers (\<lambda>_. Some ex_env)" "writers ((\<lambda>_. None)(0 := Some ex_env))" "writer_env ex_env"
  by (simp_all add: writers_def writer_env_def ex_env_def mppTxnOptions_read)

lemma ex_gxid: "\<exists>gen. gxid_run 512 gen [1]"
proof -
  let ?s = "\<lambda>nx c b recs. \<lparr>nextGxid = nx, GxidCount = c, gx_latestCompletedGxid = 1, gx_bump = b, gx_base = 1, gx_recs = recs, gx_ckpt = None\<rparr>"
  note st = gxid_init_def bump_compute_def bump_log_def bump_add_def XLogPutNextGxid_def GXID_PRETCH_THRESHOLD_def Let_def take_gxid_def
  have "gxid_run 512 (?s 1 0 Bump_idle []) []" using gxid_run.init by (simp add: st)
  then have "gxid_run 512 (?s 1 0 (Bump_computed 513) []) []" by (rule gxid_run.compute) (simp_all add: st)
  from gxid_run.put [OF this] have "gxid_run 512 (?s 1 0 Bump_logged [513]) []" by (simp add: st)
  from gxid_run.add [OF this] have "gxid_run 512 (?s 1 512 Bump_idle [513]) []" by (simp add: st)
  then have "gxid_run 512 (?s 2 511 Bump_idle [513]) [1]" by (rule gxid_run.take) (simp add: st)
  then show ?thesis by blast
qed

lemma ex_begin: "cluster_run 512 10 [0, 1] (begin_dtx 1 empty_cluster) [1] (\<lambda>_. None)"
  using ex_gxid cluster_run.begin_session [OF cluster_run.init] by (auto simp: empty_cluster_def)

lemma ex_states:
  "session_is ex_active 1 DTX_STATE_ACTIVE_DISTRIBUTED" "session_is ex_prepared 1 DTX_STATE_PREPARED"
  "session_is ex_committed 1 DTX_STATE_INSERTED_COMMITTED" "session_is ex_half 1 DTX_STATE_RETRY_COMMIT_PREPARED"
  by code_simp+

lemma ex_statement:
  assumes "cluster_run 512 10 [0, 1] c gs dec" "session_is c 1 DTX_STATE_ACTIVE_DISTRIBUTED" "s \<in> {0, 1}" "s \<notin> set (dtxSegments (sess_or_new c 1))"
  shows "cluster_run 512 10 [0, 1] (on_session 1 (dispatch_statement 1 s ex_env True False) c) gs dec"
proof -
  from assms(2) obtain x where x: "cl_sessions c 1 = Some x" "sx_state x = DTX_STATE_ACTIVE_DISTRIBUTED"
      "on_session 1 (dispatch_statement 1 s ex_env True False) c = put 1 (dispatch_statement 1 s ex_env True False (x, cl_world c)) c" "sess_or_new c 1 = x"
    by (rule session_isD) blast
  have "gang_alive x s" using assms(4) x(4) by (simp add: gang_alive_def)
  from cluster_run.statement [OF assms(1) x(1,2) _ this ex_replies(3)] assms(3) x(3) show ?thesis by simp
qed

lemma ex_active_run: "cluster_run 512 10 [0, 1] ex_active [1] (\<lambda>_. None)"
proof -
  have "session_is (begin_dtx 1 empty_cluster) 1 DTX_STATE_ACTIVE_DISTRIBUTED" "0 \<notin> set (dtxSegments (sess_or_new (begin_dtx 1 empty_cluster) 1))" by code_simp+
  from ex_statement [OF ex_begin this(1) _ this(2)]
  have r: "cluster_run 512 10 [0, 1] (on_session 1 (dispatch_statement 1 0 ex_env True False) (begin_dtx 1 empty_cluster)) [1] (\<lambda>_. None)" by simp
  have "session_is (on_session 1 (dispatch_statement 1 0 ex_env True False) (begin_dtx 1 empty_cluster)) 1 DTX_STATE_ACTIVE_DISTRIBUTED"
    "1 \<notin> set (dtxSegments (sess_or_new (on_session 1 (dispatch_statement 1 0 ex_env True False) (begin_dtx 1 empty_cluster)) 1))" by code_simp+
  from ex_statement [OF r this(1) _ this(2)] show ?thesis by (simp add: ex_active_def)
qed

lemma ex_half_run: "cluster_run 512 10 [0, 1] ex_half [1] ((\<lambda>_. None)(1 := Some [0, 1]))"
proof -
  have n: "(512 :: nat) < 2 ^ 31" "distinct [0, 1 :: nat]" by simp_all
  obtain x where x: "cl_sessions ex_active 1 = Some x" "sx_state x = DTX_STATE_ACTIVE_DISTRIBUTED" "\<And>f. on_session 1 f ex_active = put 1 (f (x, cl_world ex_active)) ex_active"
    using ex_states(1) by (rule session_isD) blast
  have p: "cluster_run 512 10 [0, 1] ex_prepared [1] (\<lambda>_. None)"
    using cluster_run.prepare [OF ex_active_run x(1,2) ex_replies(1), of False] x(3) by (simp add: ex_prepared_def)
  obtain y where y: "cl_sessions ex_prepared 1 = Some y" "sx_state y = DTX_STATE_PREPARED" "\<And>f. on_session 1 f ex_prepared = put 1 (f (y, cl_world ex_prepared)) ex_prepared"
      "sess_or_new ex_prepared 1 = y"
    using ex_states(2) by (rule session_isD) blast
  obtain z w where r: "RecordTransactionCommit 1 (y, cl_world ex_prepared) = (z, w)" by fastforce
  have "dtxSegments (sess_or_new ex_prepared 1) = [0, 1]" by code_simp
  with RecordTransactionCommit_run [OF p n y(1,2) r] y(3,4) r
  have c: "cluster_run 512 10 [0, 1] ex_committed [1] ((\<lambda>_. None)(1 := Some [0, 1]))" "cl_sessions ex_committed 1 = Some z" "cl_world ex_committed = w"
      "sx_state z = DTX_STATE_INSERTED_COMMITTED" "\<not> delayChkpt z"
    by (simp_all add: ex_committed_def)
  from cluster_run.notify [OF c(1,2,4,5) ex_replies(2)] c(2,3) show ?thesis by (simp add: ex_half_def on_session_def)
qed

lemma ex_half_facts:
  "(dtxFormGid 1, Committed_prepared) \<in> set (finished (w_segs (cl_world ex_half) 0))" "dtxFormGid 1 \<in> set (prepXacts (w_segs (cl_world ex_half) 1))"
  "lg_recs (w_log (cl_world ex_half)) = [Distributed_commit 1]" "lg_flushed (w_log (cl_world ex_half)) \<le> 1"
  "tm_redo 10 (crashed_log 1 (w_log (cl_world ex_half))) = Inr [1]" "\<not> delayChkpt (sess_or_new ex_half 1)"
  by code_simp+

lemma ex_recovered_run: "cluster_run 512 10 [0, 1] ex_recovered [1] ((\<lambda>_. None)(1 := Some [0, 1]))"
proof -
  let ?d = "(\<lambda>_. None)(1 := Some [0, 1])" and ?c = "rec_commit [0, 1] 0 (\<lambda>_. Some ex_env) (crash 1 [1] ex_half)"
  have "surviving 1 (w_log (cl_world ex_half)) ?d = ?d" using ex_half_facts(3) by (simp add: surviving_def fun_eq_iff)
  with cluster_run.crashes [OF ex_half_run ex_half_facts(4,5)] have "cluster_run 512 10 [0, 1] (crash 1 [1] ex_half) [1] ?d" by simp
  then have r: "cluster_run 512 10 [0, 1] ?c [1] ?d" by (rule cluster_run.recover_commit) (simp_all add: crash_def ex_replies)
  have "cl_phase ?c = Rec_commit (length (cl_committed ?c))" by code_simp
  moreover have "gatherRMInDoubtTransactions [0, 1] (\<lambda>_. Some (\<lambda>_. True)) True (cl_world ?c) = Inr []" by code_simp
  ultimately have "cluster_run 512 10 [0, 1] (?c\<lparr>cl_committed := [], cl_phase := Rec_abort []\<rparr>) [1] ?d" by (rule cluster_run.recover_gather [OF r]) simp
  from cluster_run.recover_done [OF this] show ?thesis by (simp add: ex_recovered_def)
qed

theorem two_phase_commit_atomic_witness:
  "(dtxFormGid 1, Committed_prepared) \<in> set (finished (w_segs (cl_world ex_half) 0)) \<and> dtxFormGid 1 \<in> set (prepXacts (w_segs (cl_world ex_half) 1)) \<and>
   {(t, r). (dtxFormGid 1, r) \<in> set (finished (w_segs (cl_world ex_half) t))} \<subseteq> {0, 1} \<times> {Committed_prepared}"
  using two_phase_commit_atomic [OF ex_half_run _ _ ex_half_facts(1)] ex_half_facts(1,2) by auto

theorem recovered_commits_everywhere_witness:
  "(dtxFormGid 1, Committed_prepared) \<in> set (finished (w_segs (cl_world ex_recovered) 0)) \<and> (dtxFormGid 1, Committed_prepared) \<in> set (finished (w_segs (cl_world ex_recovered) 1))"
proof -
  have "cl_phase ex_recovered = Rec_started []" by (simp add: ex_recovered_def)
  moreover have "case cl_sessions ex_recovered 1 of None \<Rightarrow> True | Some _ \<Rightarrow> False" by code_simp
  then have "cl_sessions ex_recovered 1 = None" by (simp split: option.splits)
  ultimately show ?thesis using recovered_commits_everywhere [OF ex_recovered_run, of "[]" 1 "[0, 1]"] by simp
qed

theorem flushed_commit_survives_crash_witness:
  "surviving 1 (w_log (cl_world ex_half)) ((\<lambda>_. None)(1 := Some [0, 1])) 1 = Some [0, 1] \<and> tm_redo 10 (crashed_log 1 (w_log (cl_world ex_half))) = Inr [1]"
proof -
  obtain x where "cl_sessions ex_half 1 = Some x" "sess_or_new ex_half 1 = x" using ex_states(4) by (rule session_isD) blast
  then show ?thesis using flushed_commit_survives_crash [OF ex_half_run _ _ _ _ _ ex_half_facts(4,5), of 1 x "[0, 1]"] ex_half_facts(5,6) by simp
qed

text \<open>The commit of the same transaction when the second segment answers only the second try.\<close>

definition ex_result :: "tm_result \<times> sw \<times> tm_result option \<times> sw" where
  "ex_result = commit_session ex_active 1 (\<lambda>_. Some ex_env) ((\<lambda>_. None)(0 := Some ex_env)) [(\<lambda>_. Some ex_env, 1)]"

lemma ex_result_facts:
  "case ex_result of (r, (x1, w1), r', x2, w2) \<Rightarrow> r = Tm_done \<and> sx_state x1 = DTX_STATE_PREPARED \<and> dtxSegments x1 = [0, 1] \<and> r' = Some Tm_done"
  by code_simp

theorem successful_commit_everywhere_witness:
  "case ex_result of (r, (x1, w1), r', x2, w2) \<Rightarrow>
     (dtxFormGid 1, Committed_prepared) \<in> set (finished (w_segs w2 0)) \<and> (dtxFormGid 1, Committed_prepared) \<in> set (finished (w_segs w2 1))"
proof -
  obtain x where x: "cl_sessions ex_active 1 = Some x" "sx_state x = DTX_STATE_ACTIVE_DISTRIBUTED" "sess_or_new ex_active 1 = x" using ex_states(1) by (rule session_isD) blast
  obtain r x1 w1 r' x2 w2 where e: "ex_result = (r, (x1, w1), r', x2, w2)" by (metis prod_cases6 surj_pair)
  have f: "r = Tm_done" "sx_state x1 = DTX_STATE_PREPARED" "dtxSegments x1 = [0, 1]" "r' = Some Tm_done" using ex_result_facts unfolding e by simp_all
  have "prepareDtxTransaction False 1 (\<lambda>_. Some ex_env) (x, cl_world ex_active) = (Tm_done, x1, w1)"
    "notifyCommittedDtxTransaction 60 1 ((\<lambda>_. None)(0 := Some ex_env)) [(\<lambda>_. Some ex_env, 1)] (RecordTransactionCommit 1 (x1, w1)) = (Some Tm_done, x2, w2)"
    using e f(1,4) x(3) by (auto simp: ex_result_def commit_session_def split: prod.splits)
  from successful_commit_everywhere [OF ex_active_run _ _ x(1,2) ex_replies(1,2) _ this(1) f(2) this(2)] f(3) ex_replies(1)
  show ?thesis unfolding e by simp
qed

end
