(* ===== verification/Tm_Progress.thy ===== *)
theory Tm_Progress
  imports Tm_Restart
begin

text \<open>
  Progress: a broadcast of the second phase succeeds when all segments answer and their local code works, so recovery finishes every transaction it finds.
\<close>

section \<open>Finishing a prepared transaction\<close>

definition finish_part :: "bool \<Rightarrow> string \<Rightarrow> segment \<Rightarrow> segment" where
  "finish_part isCommit gid sg = snd (FinishPreparedTransaction Works gid isCommit False sg)"

definition outcome_of :: "bool \<Rightarrow> outcome" where
  "outcome_of isCommit = (if isCommit then Committed_prepared else Aborted_prepared)"

lemma FinishPreparedTransaction_Works: "FinishPreparedTransaction Works gid isCommit False sg = (False, finish_part isCommit gid sg)"
  by (simp add: finish_part_def FinishPreparedTransaction_def LockGXact_def split: option.split)

lemma finish_part_facts:
  assumes "distinct (prepXacts sg)"
  shows "distinct (prepXacts (finish_part isCommit gid sg))" "set (prepXacts (finish_part isCommit gid sg)) = set (prepXacts sg) - {gid}"
    "set (finished (finish_part isCommit gid sg)) = set (finished sg) \<union> (if gid \<in> set (prepXacts sg) then {(gid, outcome_of isCommit)} else {})"
proof -
  have "distinct (prepXacts (finish_part isCommit gid sg)) \<and> set (prepXacts (finish_part isCommit gid sg)) = set (prepXacts sg) - {gid} \<and>
    set (finished (finish_part isCommit gid sg)) = set (finished sg) \<union> (if gid \<in> set (prepXacts sg) then {(gid, outcome_of isCommit)} else {})"
  proof (cases "find_gxact gid (prepXacts sg)")
    case None
    then show ?thesis using assms find_gxact_None [of gid "prepXacts sg"] by (simp add: finish_part_def FinishPreparedTransaction_def LockGXact_def)
  next
    case (Some i)
    let ?ys = "RemoveGXact i (prepXacts sg)"
    have m: "mset (prepXacts sg) = add_mset gid (mset ?ys)" by (rule mset_RemoveGXact [OF Some])
    then have "mset (gid # ?ys) = mset (prepXacts sg)" by simp
    then have "distinct (gid # ?ys)" "set (gid # ?ys) = set (prepXacts sg)" using assms by (metis distinct_count_atmost_1 set_mset_mset, metis set_mset_mset)
    then show ?thesis using Some by (auto simp: finish_part_def FinishPreparedTransaction_def LockGXact_def outcome_of_def)
  qed
  then show "distinct (prepXacts (finish_part isCommit gid sg))" "set (prepXacts (finish_part isCommit gid sg)) = set (prepXacts sg) - {gid}"
    "set (finished (finish_part isCommit gid sg)) = set (finished sg) \<union> (if gid \<in> set (prepXacts sg) then {(gid, outcome_of isCommit)} else {})" by simp_all
qed

lemma finish_all_conj:
  assumes "distinct (prepXacts sg)"
  shows "distinct (prepXacts (fold (finish_part isCommit) gids sg)) \<and> set (prepXacts (fold (finish_part isCommit) gids sg)) = set (prepXacts sg) - set gids \<and>
    set (finished sg) \<subseteq> set (finished (fold (finish_part isCommit) gids sg)) \<and>
    (\<forall>gid \<in> set (prepXacts sg) \<inter> set gids. (gid, outcome_of isCommit) \<in> set (finished (fold (finish_part isCommit) gids sg)))"
  using assms
proof (induction gids arbitrary: sg)
  case (Cons a gids)
  note f = finish_part_facts [OF Cons.prems, of isCommit a]
  from Cons.IH [OF f(1)] show ?case unfolding fold_Cons o_apply f(2,3) by (cases "a \<in> set (prepXacts sg)") auto
qed simp

lemmas finish_all_facts = finish_all_conj [THEN conjunct1] finish_all_conj [THEN conjunct2, THEN conjunct1]
  finish_all_conj [THEN conjunct2, THEN conjunct2, THEN conjunct1] finish_all_conj [THEN conjunct2, THEN conjunct2, THEN conjunct2]

lemma resolve_segment:
  assumes d: "distinct (prepXacts sg)" and g: "set (prepXacts (fold (finish_part True) cs sg)) \<subseteq> set gids"
  shows "prepXacts (fold (finish_part False) gids (fold (finish_part True) cs sg)) = []" (is "prepXacts ?sg2 = []")
    "\<forall>gid \<in> set (prepXacts sg). (gid, if gid \<in> set cs then Committed_prepared else Aborted_prepared) \<in> set (finished (fold (finish_part False) gids (fold (finish_part True) cs sg)))"
proof -
  let ?sg1 = "fold (finish_part True) cs sg"
  note f1 = finish_all_facts [OF d, where isCommit = True and gids = cs]
  note f2 = finish_all_facts [OF f1(1), where isCommit = False and gids = gids]
  have "set (prepXacts ?sg2) = {}" using f2(2) g by simp
  then show "prepXacts ?sg2 = []" by simp
  show "\<forall>gid \<in> set (prepXacts sg). (gid, if gid \<in> set cs then Committed_prepared else Aborted_prepared) \<in> set (finished ?sg2)"
  proof
    fix gid assume p: "gid \<in> set (prepXacts sg)"
    show "(gid, if gid \<in> set cs then Committed_prepared else Aborted_prepared) \<in> set (finished ?sg2)"
    proof (cases "gid \<in> set cs")
      case True
      then have "(gid, outcome_of True) \<in> set (finished ?sg1)" using f1(4) p by blast
      then have "(gid, outcome_of True) \<in> set (finished ?sg2)" using f2(3) by blast
      then show ?thesis using True by (simp add: outcome_of_def)
    next
      case False
      then have "gid \<in> set (prepXacts ?sg1)" using f1(2) p by simp
      then have "(gid, outcome_of False) \<in> set (finished ?sg2)" using f2(4) g by blast
      then show ?thesis using False by (simp add: outcome_of_def)
    qed
  qed
qed

section \<open>A broadcast that all segments answer\<close>

definition cooperative :: "nat list \<Rightarrow> reply \<Rightarrow> bool" where
  "cooperative ss reply \<longleftrightarrow> (\<forall>s \<in> set ss. \<exists>env. reply s = Some env \<and> ce_local env = Works)"

definition recovery_cmd :: "bool \<Rightarrow> DtxProtocolCommand" where
  "recovery_cmd isCommit = (if isCommit then DTX_PROTOCOL_COMMAND_RECOVERY_COMMIT_PREPARED else DTX_PROTOCOL_COMMAND_RECOVERY_ABORT_PREPARED)"

lemma perform_recovery:
  assumes "qe_context q = DTX_CONTEXT_LOCAL_ONLY" "ce_local env = Works"
  shows "\<exists>ws q'. performDtxProtocolCommand env (recovery_cmd isCommit) gid q sg = ((QE_ok, ws), q', finish_part isCommit gid sg)"
  using assms by (cases isCommit) (auto simp: recovery_cmd_def performDtxProtocolCommand_def requireDistributedTransactionContext_def
      performDtxProtocolCommitPrepared_def performDtxProtocolAbortPrepared_def finish_prepared_def FinishPreparedTransaction_Works)

lemma dispatch_cooperative:
  assumes "distinct ss" "cooperative ss reply" "\<forall>s \<in> set ss. qe_context (sx_qes x s) = DTX_CONTEXT_LOCAL_ONLY"
  shows "\<exists>rs x'. dispatch_to (recovery_cmd isCommit) gid reply ss (x, w) =
      (rs, x', w\<lparr>w_segs := (\<lambda>s. if s \<in> set ss then finish_part isCommit gid (w_segs w s) else w_segs w s)\<rparr>) \<and>
    (\<forall>r \<in> set rs. r \<noteq> None \<and> res_ok (the r) \<and> cmdStatus (the r) = DtxProtocolCommandToString (recovery_cmd isCommit))"
  using assms
proof (induction ss arbitrary: x w)
  case Nil
  then show ?case by simp
next
  case (Cons a ss)
  obtain env where env: "reply a = Some env" "ce_local env = Works" using Cons.prems(2) by (auto simp: cooperative_def)
  obtain ws q where p: "performDtxProtocolCommand env (recovery_cmd isCommit) gid (sx_qes x a) (w_segs w a) = ((QE_ok, ws), q, finish_part isCommit gid (w_segs w a))"
    using perform_recovery [OF _ env(2)] Cons.prems(3) by fastforce
  let ?x = "x\<lparr>sx_qes := (sx_qes x)(a := q), writerGangLost := writerGangLost x\<rparr>" and ?w = "w\<lparr>w_segs := (w_segs w)(a := finish_part isCommit gid (w_segs w a))\<rparr>"
  have "\<forall>s \<in> set ss. qe_context (sx_qes ?x s) = DTX_CONTEXT_LOCAL_ONLY" using Cons.prems(1,3) by auto
  moreover have "distinct ss" "cooperative ss reply" using Cons.prems(1,2) by (auto simp: cooperative_def)
  ultimately obtain rs x' where r: "dispatch_to (recovery_cmd isCommit) gid reply ss (?x, ?w) =
      (rs, x', ?w\<lparr>w_segs := (\<lambda>s. if s \<in> set ss then finish_part isCommit gid (w_segs ?w s) else w_segs ?w s)\<rparr>)"
    "\<forall>r \<in> set rs. r \<noteq> None \<and> res_ok (the r) \<and> cmdStatus (the r) = DtxProtocolCommandToString (recovery_cmd isCommit)"
    using Cons.IH [of ?x ?w] by blast
  have "(\<lambda>s. if s \<in> set ss then finish_part isCommit gid (w_segs ?w s) else w_segs ?w s) =
      (\<lambda>s. if s \<in> set (a # ss) then finish_part isCommit gid (w_segs w s) else w_segs w s)" using Cons.prems(1) by auto
  then show ?case using r p env by (simp add: dispatch_one_def)
qed

lemma recovery_dispatch_cooperative:
  assumes "distinct comps" "cooperative comps reply"
  shows "recovery_dispatch comps (recovery_cmd isCommit) gid reply w =
    (True, w\<lparr>w_segs := (\<lambda>s. if s \<in> set comps then finish_part isCommit gid (w_segs w s) else w_segs w s)\<rparr>)"
proof (cases "comps = []")
  case True
  then show ?thesis by (simp add: recovery_dispatch_def doDispatchDtxProtocolCommand_def)
next
  case False
  let ?w = "w\<lparr>w_segs := (\<lambda>s. if s \<in> set comps then finish_part isCommit gid (w_segs w s) else w_segs w s)\<rparr>"
  have "\<forall>s \<in> set comps. qe_context (sx_qes new_session s) = DTX_CONTEXT_LOCAL_ONLY" by (simp add: new_session_qes)
  from dispatch_cooperative [OF assms this, of isCommit gid w] obtain rs x'
    where r: "dispatch_to (recovery_cmd isCommit) gid reply comps (new_session, w) = (rs, x', ?w)"
      "\<forall>r \<in> set rs. r \<noteq> None \<and> res_ok (the r) \<and> cmdStatus (the r) = DtxProtocolCommandToString (recovery_cmd isCommit)" by blast
  then show ?thesis using False
    by (simp add: recovery_dispatch_def doDispatchDtxProtocolCommand_def CdbDispatchDtxProtocolCommand_def result_failed_def strncmp_eq_def)
qed

section \<open>Recovery\<close>

definition on_segs :: "nat list \<Rightarrow> (segment \<Rightarrow> segment) \<Rightarrow> world \<Rightarrow> world" where
  "on_segs comps f w = w\<lparr>w_segs := (\<lambda>s. if s \<in> set comps then f (w_segs w s) else w_segs w s)\<rparr>"

lemma on_segs_comp: "on_segs comps f (on_segs comps f' w) = on_segs comps (f \<circ> f') w"
  by (simp add: on_segs_def cong: if_cong)

definition forgets :: "DistributedTransactionId list \<Rightarrow> world \<Rightarrow> world" where
  "forgets gs w = w\<lparr>w_log := fold (\<lambda>g. xlog_insert (Distributed_forget g)) gs (w_log w)\<rparr>"

lemma recover_committed_cooperative:
  assumes "distinct comps" "\<forall>g. cooperative comps (replies g)"
  shows "recover_committed comps replies gs w = (Tm_done, forgets gs (on_segs comps (fold (finish_part True) (map dtxFormGid gs)) w))"
proof (induction gs arbitrary: w)
  case Nil
  then show ?case by (simp add: forgets_def on_segs_def)
next
  case (Cons g gs)
  have "doNotifyCommittedInDoubt comps (dtxFormGid g) (replies g) w = (Tm_done, on_segs comps (finish_part True (dtxFormGid g)) w)"
    using recovery_dispatch_cooperative [OF assms(1), of "replies g" True "dtxFormGid g" w] assms(2)
    by (simp add: doNotifyCommittedInDoubt_def recovery_cmd_def on_segs_def)
  moreover have "forgets gs (on_segs comps f (RecordDistributedForgetCommitted g v)) = forgets (g # gs) (on_segs comps f v)" for f v
    by (simp add: forgets_def on_segs_def RecordDistributedForgetCommitted_def cong: if_cong)
  ultimately show ?case using Cons by (simp add: on_segs_comp comp_def)
qed

lemma abortRM_cooperative:
  assumes "distinct comps" "\<forall>gid. cooperative comps (replies gid)"
  shows "abortRMInDoubtTransactions comps replies gids w = on_segs comps (fold (finish_part False) gids) w"
proof (induction gids arbitrary: w)
  case Nil
  then show ?case by (simp add: on_segs_def)
next
  case (Cons gid gids)
  have "doAbortInDoubt comps gid (replies gid) w = on_segs comps (finish_part False gid) w"
    using recovery_dispatch_cooperative [OF assms(1), of "replies gid" False gid w] assms(2) by (simp add: doAbortInDoubt_def recovery_cmd_def on_segs_def)
  then show ?case using Cons by (simp add: on_segs_comp comp_def)
qed

lemma fold_forgets: "lg_recs (fold (\<lambda>g. xlog_insert (Distributed_forget g)) gs lg) = lg_recs lg @ map Distributed_forget gs"
  by (induction gs arbitrary: lg) (simp_all add: xlog_insert_def)

text \<open>
  C6 (liveness): when all segments answer and their local code works, recovery completes: the transactions it found committed are committed wherever they were prepared,
  every other prepared transaction is aborted, nothing stays prepared, and a forget record follows for each committed one.
\<close>

theorem recovery_resolves_everything:
  assumes "distinct comps" "\<forall>s \<in> set comps. distinct (prepXacts (w_segs w s))" "\<forall>s \<in> set comps. answers s = Some (\<lambda>_. True)"
    and "\<forall>g. cooperative comps (replies g)" "\<forall>gid. cooperative comps (replies' gid)"
  shows "\<exists>w'. recoverInDoubtTransactions comps replies answers replies' committed w = (Tm_done, [], w') \<and>
    lg_recs (w_log w') = lg_recs (w_log w) @ map Distributed_forget committed \<and>
    (\<forall>s \<in> set comps. prepXacts (w_segs w' s) = [] \<and>
       (\<forall>gid \<in> set (prepXacts (w_segs w s)).
          (gid, if gid \<in> dtxFormGid ` set committed then Committed_prepared else Aborted_prepared) \<in> set (finished (w_segs w' s))))"
proof -
  let ?f = "fold (finish_part True) (map dtxFormGid committed)"
  let ?w1 = "forgets committed (on_segs comps ?f w)"
  let ?gids = "remdups (concat (map (\<lambda>s. filter (the (answers s)) (prepXacts (w_segs ?w1 s))) comps))"
  let ?w2 = "on_segs comps (fold (finish_part False) ?gids) ?w1"
  have "recoverInDoubtTransactions comps replies answers replies' committed w = (Tm_done, [], ?w2)"
    using assms(3) by (simp add: recoverInDoubtTransactions_def recover_committed_cooperative [OF assms(1,4)] gatherRMInDoubtTransactions_def abortRM_cooperative [OF assms(1,5)])
  moreover have "lg_recs (w_log ?w2) = lg_recs (w_log w) @ map Distributed_forget committed" by (simp add: on_segs_def forgets_def fold_forgets)
  moreover have "prepXacts (w_segs ?w2 s) = [] \<and> (\<forall>gid \<in> set (prepXacts (w_segs w s)).
      (gid, if gid \<in> dtxFormGid ` set committed then Committed_prepared else Aborted_prepared) \<in> set (finished (w_segs ?w2 s)))" if s: "s \<in> set comps" for s
  proof -
    have d: "distinct (prepXacts (w_segs w s))" using assms(2) s by blast
    have w1: "w_segs ?w1 s = ?f (w_segs w s)" and w2: "w_segs ?w2 s = fold (finish_part False) ?gids (?f (w_segs w s))" using s by (simp_all add: on_segs_def forgets_def)
    have "set (prepXacts (w_segs ?w1 s)) \<subseteq> set ?gids" using s assms(3) by auto
    then show ?thesis using resolve_segment [OF d, of "map dtxFormGid committed" ?gids] w1 w2 by simp
  qed
  ultimately show ?thesis by blast
qed

text \<open>Two segments after a crash: the first transaction is in the log and prepared on one segment only, the second on both.\<close>

definition ex_in_doubt :: world where
  "ex_in_doubt = \<lparr>w_segs = (\<lambda>s. if s = 0 then \<lparr>prepXacts = [dtxFormGid 2], finished = [(dtxFormGid 1, Committed_prepared)]\<rparr>
       else \<lparr>prepXacts = [dtxFormGid 1, dtxFormGid 2], finished = []\<rparr>), w_pending = (\<lambda>_ _. []),
     w_log = \<lparr>lg_base = [], lg_recs = [Distributed_commit 1], lg_flushed = 1, lg_ckpt = None\<rparr>, shmDtxRecoveryEvents = 1\<rparr>"

definition ex_answer :: reply where
  "ex_answer = (\<lambda>_. Some \<lparr>role_execute = True, is_query_dispatcher = False, Gp_is_writer = True, have_slot = True, ce_options = 0, ce_snapshot = False,
     nestingLevel = 0, ce_local = Works\<rparr>)"

theorem recovery_resolves_everything_witness:
  "\<exists>w'. recoverInDoubtTransactions [0, 1] (\<lambda>_. ex_answer) (\<lambda>_. Some (\<lambda>_. True)) (\<lambda>_. ex_answer) [1] ex_in_doubt = (Tm_done, [], w') \<and>
     prepXacts (w_segs w' 1) = [] \<and> (dtxFormGid 1, Committed_prepared) \<in> set (finished (w_segs w' 1)) \<and> (dtxFormGid 2, Aborted_prepared) \<in> set (finished (w_segs w' 0))"
proof -
  have "cooperative [0, 1] ex_answer" by (simp add: cooperative_def ex_answer_def)
  moreover have "\<forall>s \<in> set [0, 1]. distinct (prepXacts (w_segs ex_in_doubt s))" by (simp add: ex_in_doubt_def)
  ultimately obtain w' where "recoverInDoubtTransactions [0, 1] (\<lambda>_. ex_answer) (\<lambda>_. Some (\<lambda>_. True)) (\<lambda>_. ex_answer) [1] ex_in_doubt = (Tm_done, [], w')"
    "\<forall>s \<in> set [0, 1]. prepXacts (w_segs w' s) = [] \<and> (\<forall>gid \<in> set (prepXacts (w_segs ex_in_doubt s)).
       (gid, if gid \<in> dtxFormGid ` set [1] then Committed_prepared else Aborted_prepared) \<in> set (finished (w_segs w' s)))"
    using recovery_resolves_everything [of "[0, 1]" ex_in_doubt "\<lambda>_. Some (\<lambda>_. True)" "\<lambda>_. ex_answer" "\<lambda>_. ex_answer" "[1]"] by auto
  then show ?thesis by (auto simp: ex_in_doubt_def)
qed

section \<open>Transactions to wait for\<close>

definition sint_less :: "uint32 \<Rightarrow> uint32 \<Rightarrow> bool" where
  "sint_less a b \<longleftrightarrow> sint a < sint b"

definition sint_le :: "uint32 \<Rightarrow> uint32 \<Rightarrow> bool" where
  "sint_le a b \<longleftrightarrow> sint a \<le> sint b"

lemma sint_inj: "sint a = sint b \<Longrightarrow> a = (b :: uint32)"
  by (rule signed_word_eqI)

lemma sint_less_trans: "sint_less a b \<Longrightarrow> sint_less b c \<Longrightarrow> sint_less a c"
  by (simp add: sint_less_def)

lemma compare_int_le: "compare_int a b \<le> 0 \<longleftrightarrow> sint a \<le> sint b"
  using sint_inj [of a b] by (auto simp: compare_int_def)

lemma insert_wait_sorted: "sorted_wrt sint_le bs \<Longrightarrow> sorted_wrt sint_le (insert_wait a bs) \<and> set (insert_wait a bs) = insert a (set bs)"
  by (induction bs) (auto simp: compare_int_le sint_le_def)

lemma sort_waits: "sorted_wrt sint_le (foldr insert_wait ws []) \<and> set (foldr insert_wait ws []) = set ws"
  by (induction ws) (auto simp: insert_wait_sorted)

lemma drop_repeats_set: "set (drop_repeats l as) \<subseteq> set as" "set as \<subseteq> insert l (set (drop_repeats l as))"
  by (induction l as rule: drop_repeats.induct) auto

lemma drop_repeats_above:
  assumes "sorted_wrt sint_le (l # as)"
  shows "sorted_wrt sint_less (l # drop_repeats l as)"
  using assms
proof (induction l as rule: drop_repeats.induct)
  case (2 l a as)
  show ?case
  proof (cases "a = l")
    case True
    then show ?thesis using 2 by simp
  next
    case False
    then have "sorted_wrt sint_less (a # drop_repeats a as)" using 2 by simp
    moreover have "sint_less l a" using 2(3) False sint_inj [of l a] unfolding sint_less_def order_less_le by (auto simp: sint_le_def)
    ultimately show ?thesis using False by (auto intro: sint_less_trans)
  qed
qed simp

lemma drop_repeats_sorted: "sorted_wrt sint_le as \<Longrightarrow> sorted_wrt sint_less (drop_repeats l as)"
proof (induction l as rule: drop_repeats.induct)
  case (2 l a as)
  then show ?case using drop_repeats_above [of a as] by (cases "a = l") simp_all
qed simp

text \<open>
  C40 (functional): the ids a dispatch leaves for the session to wait for are those its segments sent, strictly increasing as signed numbers, so without duplicates;
  only the id that reads as minus one can be missing.
\<close>

theorem gathered_waits_sorted:
  assumes "doDispatchDtxProtocolCommand cmd gid raiseError segments reply xw = (Returned True, x', w')" "segments \<noteq> []"
    and "CdbDispatchDtxProtocolCommand cmd gid reply segments xw = (Some results, x, w)" "concat (map res_waits results) \<noteq> []"
  shows "sorted_wrt sint_less (sx_waitGxids x') \<and> set (sx_waitGxids x') \<subseteq> set (concat (map res_waits results)) \<and>
    set (concat (map res_waits results)) \<subseteq> insert (- 1) (set (sx_waitGxids x'))"
proof -
  let ?ws = "concat (map res_waits results)"
  have "sx_waitGxids x' = drop_repeats (- 1) (foldr insert_wait ?ws [])"
    using assms by (auto simp: doDispatchDtxProtocolCommand_def gather_waits_def Let_def)
  then show ?thesis using sort_waits [of ?ws] drop_repeats_sorted drop_repeats_set [where l = "- 1" and as = "foldr insert_wait ?ws []"] by metis
qed

text \<open>Two prepared segments that answer a commit with the ids 7 and 5, and 7.\<close>

definition ex_notifying :: sw where
  "ex_notifying = (new_session\<lparr>sx_state := DTX_STATE_NOTIFYING_COMMIT_PREPARED, dtxSegments := [0, 1],
       sx_qes := (\<lambda>s. \<lparr>qe_context = DTX_CONTEXT_QE_PREPARED, qe_xact = No_xact, qe_waitGxids = (if s = 0 then [7, 5] else [7])\<rparr>)\<rparr>,
     ex_in_doubt\<lparr>w_segs := (\<lambda>_. \<lparr>prepXacts = [dtxFormGid 3], finished = []\<rparr>)\<rparr>)"

definition ex_waits :: "(dispatch_result \<times> uint32 list) \<times> uint32 list option" where
  "ex_waits = (case doDispatchDtxProtocolCommand DTX_PROTOCOL_COMMAND_COMMIT_PREPARED (dtxFormGid 3) True [0, 1] ex_answer ex_notifying of
     (r, x, w) \<Rightarrow> ((r, sx_waitGxids x), map_option (\<lambda>rs. concat (map res_waits rs))
       (fst (CdbDispatchDtxProtocolCommand DTX_PROTOCOL_COMMAND_COMMIT_PREPARED (dtxFormGid 3) ex_answer [0, 1] ex_notifying))))"

lemma ex_waits_eval: "ex_waits = ((Returned True, [5, 7]), Some [7, 5, 7])"
  by code_simp

theorem gathered_waits_sorted_witness: "sorted_wrt sint_less [5, 7] \<and> snd (fst ex_waits) = [5, 7] \<and> snd ex_waits = Some [7, 5, 7]"
proof -
  let ?d = "doDispatchDtxProtocolCommand DTX_PROTOCOL_COMMAND_COMMIT_PREPARED (dtxFormGid 3) True [0, 1] ex_answer ex_notifying"
  let ?c = "CdbDispatchDtxProtocolCommand DTX_PROTOCOL_COMMAND_COMMIT_PREPARED (dtxFormGid 3) ex_answer [0, 1] ex_notifying"
  obtain r x' w' where d: "?d = (r, x', w')" by (metis prod_cases3)
  obtain rs x w where c: "?c = (rs, x, w)" by (metis prod_cases3)
  from ex_waits_eval d c have e: "r = Returned True" "sx_waitGxids x' = [5, 7]" "map_option (\<lambda>rs. concat (map res_waits rs)) rs = Some [7, 5, 7]"
    by (simp_all add: ex_waits_def)
  then obtain results where "rs = Some results" "concat (map res_waits results) = [7, 5, 7]" by auto
  with gathered_waits_sorted [OF d [unfolded e(1)] _ c [unfolded this(1)]] e(2) show ?thesis by (simp add: ex_waits_eval)
qed

end
