(* ===== verification/Spec2Isabelle.thy ===== *)
theory Spec2Isabelle
  imports Gdd_Correct Fts_Correct Dlog_Correct Dtx_Correct Tm_Correct Tm_Atomic Tm_Progress
begin

text \<open>
  A verification of the distributed core of PolemoDB, a database in the Greenplum and PostgreSQL family: a coordinator and many segments,
  each a PostgreSQL server, act as one system. The modelled parts are those that only exist because the system is
  distributed, and that everything else relies on for correct results.

  \<^bold>\<open>Parts and how they interact.\<close> The coordinator gives every distributed transaction a 64-bit id and takes
  \<^emph>\<open>distributed snapshots\<close>, the set of ids in progress. Each statement is sent with a \<^emph>\<open>context\<close> that carries the snapshot. A segment runs the
  statement under a local 32-bit transaction id. A transaction that wrote on several segments ends with \<^emph>\<open>two-phase commit\<close>: all segments prepare, the coordinator
  writes a commit record, and all segments commit; after a crash the \<^emph>\<open>recovery process\<close> finishes what the log shows to be committed and aborts the rest. When the transaction commits, the \<^emph>\<open>distributed log\<close> of the segment
  records which distributed id the local id belongs to. A \<^emph>\<open>visibility test\<close> on the segment maps a local id back through that log, with caches in front, and compares it with the
  snapshot. Transactions wait for each other on several segments, and no segment sees a cycle that spans them: the \<^emph>\<open>global deadlock
  detector\<close> on the coordinator collects the wait graphs and cancels transactions. The \<^emph>\<open>fault tolerance service\<close>
  probes all segments and promotes a mirror when its primary fails.

  \<^bold>\<open>Theories and sources.\<close> Paths are relative to \<^verbatim>\<open>src/src/backend/\<close>; headers are under \<^verbatim>\<open>src/src/include/\<close>. A C function keeps its
  name; the body of a loop has a name of its own.
  \<^item> \<^theory_text>\<open>Pg_Prelude\<close>: machine types, the error monad \<open>rbind\<close>, theorem collections, shared facts on lists and words.
    \<^theory_text>\<open>Le_Bytes\<close>: integers as bytes of a message.
  \<^item> Global deadlock detector, \<^verbatim>\<open>utils/gdd/gdddetector.c\<close> and \<^verbatim>\<open>gddbackend.c\<close>: \<^theory_text>\<open>Gdd_Detector\<close> has the graphs, vertices, edges and hash maps as a store of
    records that point to each other, and every function of the detector; \<^theory_text>\<open>Gdd_Backend\<close> the worker around it.
    \<^theory_text>\<open>Gdd_Spec\<close> is the specification on a plain set of edges, \<^theory_text>\<open>Gdd_Wf\<close> the invariant and the abstraction, \<^theory_text>\<open>Gdd_Build\<close>, \<^theory_text>\<open>Gdd_Reduce\<close>,
    \<^theory_text>\<open>Gdd_Loop\<close> and \<^theory_text>\<open>Gdd_Break\<close> the proofs for building, reducing and breaking, \<^theory_text>\<open>Gdd_Correct\<close> the properties: a round ends and
    cancels exactly the victims that the youngest-first policy picks from the core of the waits, nothing when the waits have no cycle, and something of every cycle that cannot dissolve by itself,
    for ids below \<open>2 ^ 31\<close>; beyond, a round with a deadlock never ends.
  \<^item> Fault tolerance service, \<^verbatim>\<open>fts/ftsprobe.c\<close> and the catalog updates of \<^verbatim>\<open>fts/fts.c\<close>: \<^theory_text>\<open>Fts_Model\<close> has the state of a probe cycle and of
    the catalog, \<^theory_text>\<open>Fts_Probe\<close> every function, with the answers of libpq, \<^verbatim>\<open>poll()\<close> and the clock as one environment for each iteration.
    \<^theory_text>\<open>Fts_Spec\<close> is the abstract protocol of a pair, \<^theory_text>\<open>Fts_Segment\<close> and \<^theory_text>\<open>Fts_Cycle\<close> the refinement and the
    invariant, \<^theory_text>\<open>Fts_Catalog\<close> the effect on \<^verbatim>\<open>gp_segment_configuration\<close>, \<^theory_text>\<open>Fts_Errors\<close> and \<^theory_text>\<open>Fts_Live\<close> errors and progress,
    \<^theory_text>\<open>Fts_Correct\<close> the properties: roles stay consistent, promotion is safe, and where the loop can hang or read a null pointer.
  \<^item> Transaction ids, \<^verbatim>\<open>access/transam/transam.c\<close>: \<^theory_text>\<open>Xid\<close>, 32-bit ids that wrap around. Page store, \<^verbatim>\<open>access/transam/slru.c\<close>: \<^theory_text>\<open>Slru\<close> and
    \<^theory_text>\<open>Slru_Files\<close>, with the interface \<open>page_store\<close> that the log relies on.
  \<^item> Distributed log, \<^verbatim>\<open>access/transam/distributedlog.c\<close>: \<^theory_text>\<open>Dlog_Model\<close> has every operation, \<^theory_text>\<open>Dlog_Entries\<close> what is recorded, \<^theory_text>\<open>Dlog_Xmin\<close> the
    oldest id needed and truncation, \<^theory_text>\<open>Dlog_Scan\<close> the backward scan, \<^theory_text>\<open>Dlog_Steps\<close> the log as a state machine,
    \<^theory_text>\<open>Dlog_Correct\<close> the properties: commits are found again, also after a restart, and truncation never removes what a snapshot needs.
  \<^item> Distributed snapshots: \<^theory_text>\<open>Dtx_Snapshot\<close> (\<^verbatim>\<open>cdb/cdbdistributedsnapshot.c\<close> and \<^verbatim>\<open>CreateDistributedSnapshot\<close> of \<^verbatim>\<open>storage/ipc/procarray.c\<close>)
    with \<^theory_text>\<open>Dtx_Facts\<close>; \<^theory_text>\<open>Snapshot_Data\<close> (the snapshot of a backend, \<^verbatim>\<open>CopySnapshot\<close> of \<^verbatim>\<open>utils/time/snapmgr.c\<close>); \<^theory_text>\<open>Dtx_Context\<close>
    (\<^verbatim>\<open>cdb/cdbdtxcontextinfo.c\<close>); \<^theory_text>\<open>Xact_Cache\<close> (\<^verbatim>\<open>cdb/cdblocaldistribxact.c\<close>), with the interfaces \<open>lookup_cache\<close>, \<open>commit_log\<close> and their
    composition \<open>cached_log\<close>; \<^theory_text>\<open>Dtx_Visibility\<close> (\<^verbatim>\<open>DistributedSnapshotWithLocalMapping_CommittedTest\<close> and \<^verbatim>\<open>XidInMVCCSnapshot\<close>).
    \<^theory_text>\<open>Dtx_Test\<close> shows that the test is its reference \<open>verdict\<close>, \<^theory_text>\<open>Dtx_Session\<close> follows a backend over time, \<^theory_text>\<open>Dtx_Correct\<close> has the properties:
    a segment sees what the coordinator saw, whatever its caches hold.
  \<^item> Distributed transaction ids, \<^verbatim>\<open>bumpGxid\<close> of \<^verbatim>\<open>cdb/cdbtm.c\<close> and the counter in \<^verbatim>\<open>access/transam/xlog.c\<close>: \<^theory_text>\<open>Tm_Gxid\<close> has the steps, every
    interleaving of them as one run, and the invariant; \<^theory_text>\<open>Tm_Correct\<close> the properties: no id is used twice, also after a crash.
  \<^item> Two-phase commit. \<^theory_text>\<open>Tm_Utils\<close>: states, commands, identifiers and options (\<^verbatim>\<open>cdb/cdbtmutils.c\<close>). \<^theory_text>\<open>Tm_Segment\<close>: a writer process of a segment, its
    prepared transactions and \<^verbatim>\<open>performDtxProtocolCommand\<close> (\<^verbatim>\<open>cdb/cdbtm.c\<close>, \<^verbatim>\<open>access/transam/twophase.c\<close>, \<^verbatim>\<open>xact.c\<close>). \<^theory_text>\<open>Tm_Coord\<close>: the coordinator from the first
    statement to the forget record, and rolling back (\<^verbatim>\<open>cdb/cdbtm.c\<close>). \<^theory_text>\<open>Tm_Recovery\<close>: replay and the recovery process (\<^verbatim>\<open>cdb/cdbdtxrecovery.c\<close>). \<^theory_text>\<open>Tm_Cluster\<close>: all of
    it as one step relation \<open>cluster_run\<close> with checkpoints, crashes, lost processes and late commands; it also carries, as ghost state, the decided transactions
    and their segments. \<^theory_text>\<open>Tm_Parts\<close> has what a command does to the part of a transaction on one segment, \<^theory_text>\<open>Tm_Invariant\<close> the invariant of a transaction over its
    session, its parts and the log, \<^theory_text>\<open>Tm_Reach\<close>, \<^theory_text>\<open>Tm_Steps\<close>, \<^theory_text>\<open>Tm_Run\<close> and \<^theory_text>\<open>Tm_Restart\<close> that every step keeps it. \<^theory_text>\<open>Tm_Atomic\<close> has the properties: no transaction
    commits on one segment and aborts on another, a flushed commit survives every crash, and recovery commits it everywhere. \<^theory_text>\<open>Tm_Progress\<close>: recovery completes when
    the segments answer, and which ids a session waits for.
  \<^item> This theory: that a distributed commit is seen by all segments or by none.

  \<^bold>\<open>State and errors.\<close> Shared structures are records passed through the operations; structures linked by pointers are a store from addresses to
  records. Errors, panics and failed internal checks are values of a sum type. What is undefined in C (a null pointer,
  an access past the end of an array or a message) is an error too, so that a theorem that an operation returns shows that it does not happen.
  Memory from \<^verbatim>\<open>malloc\<close> is an argument, which may be null.

  \<^bold>\<open>Bounds and fuel.\<close> No definition has fuel. Loops that end are recursive functions with termination proofs; the two loops of the deadlock detector that may not end are
  partial functions, with no result when they do not return, and their properties say when they return. The probe loop of the
  fault tolerance service, which need not end, runs over a given sequence of environments; its liveness properties say
  how long the sequence has to be, and its bound on the number of state changes holds for every sequence. Ids, counters and sizes have the width of the C types where they can wrap around.
  The retries of the second phase run over a given list of tries, each with the segments that answer and the time; with no more tries there is no result yet.
  In two-phase commit a step of a session is a function of the code up to the next point where it waits or writes the log, and one broadcast is one step for the segments that
  answer in time; a segment that does not answer carries the command out at any later time, or never. Batches of ids are smaller than \<open>2 ^ 31\<close>. An error after the commit record is a crash,
  since the code is in a critical section or panics.
  \<^verbatim>\<open>BLCKSZ\<close> has its default of 32 kB, so a page of the log has 4096 entries.

  \<^bold>\<open>Not modelled.\<close> The dispatcher and the interconnect below the protocol commands: they are
  network protocols over libpq and UDP whose messages are answered by other processes. Of two-phase commit: the state files of prepared transactions and their replay on a segment, mirrors and the standby
  coordinator, savepoints sent as statements, and the main loop and signals of the recovery process. The rest of the process array and of the snapshot manager, locks and shared memory, the
  write-ahead log, buffer and table storage, indexes: inherited from PostgreSQL or pure storage. The parser, planner (with the ORCA
  optimizer in C++) and executor, the procedural languages, the client programs and the management utilities. Within the modelled parts: log messages, fault injection, statistics,
  and waiting for locks (an operation that holds a lock is one step).
\<close>

section \<open>Distributed commits are atomic\<close>

text \<open>The log and the caches after the commit was recorded on a segment.\<close>

lemma commit_recorded:
  assumes ok: "test_ok m (dslm, c, log)" and r: "DistributedLog_SetCommittedTree False x xs beyond g False log = Inr log'" "g \<noteq> 0"
    and y: "y \<in> set (x # xs)" "oldestXmin log \<noteq> InvalidTransactionId" "\<not> TransactionIdPrecedes y (oldestXmin log)"
  shows "test_ok m (dslm, c, log')" "log_answer log' y = Some (Some g)"
proof -
  have log: "dlog_ok log" using ok by simp
  have s: "set_each (x # xs) g log = Inr log'" using r(1) by (simp only: SetCommittedTree_each)
  note l = set_each_Inr [OF log s]
  show "test_ok m (dslm, c, log')" using extends_ok [OF set_each_extends [OF log s r(2)]] l ok by simp
  show "log_answer log' y = Some (Some g)" using l y r(2) by (simp add: log_answer_def)
qed

lemma check_after_commit:
  assumes "test_ok m (distribSnapshotWithLocalMapping snap, c, log)" "haveDistribSnapshot snap" "TransactionIdIsNormal y"
    "log_answer log y = Some (Some g)" "\<not> TransactionIdFollowsOrEquals y (sn_xmax snap)"
    "xminAllDistributedSnapshots (lm_ds (distribSnapshotWithLocalMapping snap)) \<le> g"
  shows "\<exists>st. XidInMVCCSnapshot m False topmost y False (snap, c, log) =
    Inr ((if ds_xmax (lm_ds (distribSnapshotWithLocalMapping snap)) \<le> g \<or> g \<in> set (in_progress (lm_ds (distribSnapshotWithLocalMapping snap)))
          then XID_IN_SNAPSHOT else XID_SURELY_COMMITTED, False), st)"
proof -
  let ?d = "lm_ds (distribSnapshotWithLocalMapping snap)"
  have "verdict ?d False (Some g) = (if ds_xmax ?d \<le> g \<or> g \<in> set (in_progress ?d)
      then DISTRIBUTEDSNAPSHOT_COMMITTED_INPROGRESS else DISTRIBUTEDSNAPSHOT_COMMITTED_VISIBLE)"
    using assms(6) by (auto simp: verdict_def)
  with XidInMVCCSnapshot_verdict [OF assms(1-5), of topmost] show ?thesis by fastforce
qed

text \<open>
  C8 (safety): when two segments have recorded the commit of their parts of a distributed transaction, a statement that
  runs on both under the same distributed snapshot sees both parts or neither: the check of a local transaction (or subtransaction) of it on one segment and
  on the other gives the same result, in progress or surely committed, whatever the caches of the two backends hold. The local
  snapshots have to be younger than the local transactions, and the distributed transaction not older than all distributed snapshots.
\<close>

theorem distributed_commit_atomic:
  assumes "test_ok m1 (distribSnapshotWithLocalMapping snap1, c1, log1)" "test_ok m2 (distribSnapshotWithLocalMapping snap2, c2, log2)"
    and "haveDistribSnapshot snap1" "haveDistribSnapshot snap2"
    and "same_snapshot (lm_ds (distribSnapshotWithLocalMapping snap1)) (lm_ds (distribSnapshotWithLocalMapping snap2))"
    and "DistributedLog_SetCommittedTree False x1 xs1 beyond1 g False log1 = Inr log1'"
    and "DistributedLog_SetCommittedTree False x2 xs2 beyond2 g False log2 = Inr log2'"
    and "g \<noteq> 0" "xminAllDistributedSnapshots (lm_ds (distribSnapshotWithLocalMapping snap1)) \<le> g"
    and "y1 \<in> set (x1 # xs1)" "oldestXmin log1 \<noteq> InvalidTransactionId" "\<not> TransactionIdPrecedes y1 (oldestXmin log1)"
    and "y2 \<in> set (x2 # xs2)" "oldestXmin log2 \<noteq> InvalidTransactionId" "\<not> TransactionIdPrecedes y2 (oldestXmin log2)"
    and "TransactionIdIsNormal y1" "\<not> TransactionIdFollowsOrEquals y1 (sn_xmax snap1)"
    and "TransactionIdIsNormal y2" "\<not> TransactionIdFollowsOrEquals y2 (sn_xmax snap2)"
  shows "\<exists>r st1 st2. r \<in> {XID_IN_SNAPSHOT, XID_SURELY_COMMITTED} \<and>
    XidInMVCCSnapshot m1 False topmost1 y1 False (snap1, c1, log1') = Inr ((r, False), st1) \<and>
    XidInMVCCSnapshot m2 False topmost2 y2 False (snap2, c2, log2') = Inr ((r, False), st2)"
proof -
  note one = commit_recorded [OF assms(1,6,8,10-12)] and two = commit_recorded [OF assms(2,7,8,13-15)]
  have "xminAllDistributedSnapshots (lm_ds (distribSnapshotWithLocalMapping snap2)) \<le> g" using assms(5,9) by (simp add: same_snapshot_def)
  from check_after_commit [OF two(1) assms(4,18) two(2) assms(19) this, of topmost2]
    check_after_commit [OF one(1) assms(3,16) one(2) assms(17) assms(9), of topmost1] assms(5)
  show ?thesis by (fastforce simp: same_snapshot_def)
qed

lemma small_log_commit: "\<exists>log'. DistributedLog_SetCommittedTree False 5 [6] 0 12 False small_log = Inr log'"
proof -
  have "\<forall>x \<in> set [5, 6]. logged small_log x \<in> {Some 0, Some 12}" using small_log_logged small_page by simp
  from set_each_ok [OF small_log_ok this] show ?thesis by (simp only: SetCommittedTree_each)
qed

theorem distributed_commit_atomic_witness:
  "\<exists>log' r st1 st2. DistributedLog_SetCommittedTree False 5 [6] 0 12 False small_log = Inr log' \<and>
    XidInMVCCSnapshot 4 False id 5 False (snapshot_with ex_ds True, no_cache, log') = Inr ((r, False), st1) \<and>
    XidInMVCCSnapshot 4 False id 6 False (snapshot_with ex_ds True, no_cache, log') = Inr ((r, False), st2)"
proof -
  obtain log' where l: "DistributedLog_SetCommittedTree False 5 [6] 0 12 False small_log = Inr log'" using small_log_commit ..
  have "coherent no_cache small_log" by (simp add: coherent_def no_cache_def fresh_cache_def cache_content_def)
  then have ok: "test_ok 4 (distribSnapshotWithLocalMapping (snapshot_with ex_ds True), no_cache, small_log)"
    using ex_state_ok(2) fresh_dslm_ok [OF ex_fresh] small_log_ok by simp
  have s: "haveDistribSnapshot (snapshot_with ex_ds True)" "sn_xmax (snapshot_with ex_ds True) = 8"
    "xminAllDistributedSnapshots (lm_ds (distribSnapshotWithLocalMapping (snapshot_with ex_ds True))) \<le> 12"
    by (simp_all add: snapshot_with_def ex_ds_def)
  have o: "oldestXmin small_log = 3" "\<not> TransactionIdPrecedes 5 3" "\<not> TransactionIdPrecedes 6 3"
    by (simp_all add: small_log_def TransactionIdPrecedes_def TransactionIdIsNormal_def)
  from distributed_commit_atomic [OF ok ok s(1) s(1) same_snapshot_refl l l _ s(3), of 5 6 id id] show ?thesis
    using l ex_normal by (auto simp: s o)
qed

end
